(* ===== verification/Prelude.thy ===== *)
theory Prelude
  imports Main "HOL-Library.Word"
begin

unbundle bit_operations_syntax

text \<open>
  Shared vocabulary of the development: the C++ fixed-width integer types as words, the
  bit-scan builtins the program uses, and the generic facts on words, masks and cyclic
  distances that the component theories share.

  Conventions.  A \<open>uint<w>_t\<close> is a \<open>w word\<close>, so \<open>+\<close>, \<open>-\<close> and \<open>*\<close> wrap as in C++.
  An array indexed by a masked or checked index is a total function from the index;
  that every index used is in range is a theorem of the component, not an assumption.
  A loop of the source that may spin forever is a \<open>partial_function (option)\<close>: \<open>None\<close>
  means that it does not return.
\<close>

section \<open>Fixed-width integers\<close>

type_synonym u8 = "8 word"
type_synonym u16 = "16 word"
type_synonym u32 = "32 word"
type_synonym u64 = "64 word"

named_theorems unat_simps \<open>moving word expressions to natural numbers\<close>

lemma unat_of_nat_u32 [unat_simps]: "n < 2 ^ 32 \<Longrightarrow> unat (word_of_nat n :: u32) = n"
  by (simp add: unat_of_nat)

lemma unat_of_nat_u64 [unat_simps]: "n < 2 ^ 64 \<Longrightarrow> unat (word_of_nat n :: u64) = n"
  by (simp add: unat_of_nat)

lemma unat_u32_less: "unat (w :: u32) < 2 ^ 32"
  using unsigned_less [of w] by simp

lemma unat_u64_less: "unat (w :: u64) < 2 ^ 64"
  using unsigned_less [of w] by simp

lemma unat_drop_bit [unat_simps]: "unat (drop_bit k (w :: 'a::len word)) = unat w div 2 ^ k"
  by (subst unat_drop_bit_eq) (simp only: drop_bit_eq_div)

lemma unat_and_mask [unat_simps]: "unat ((w :: 'a::len word) AND mask k) = unat w mod 2 ^ k"
  by (subst take_bit_eq_mask [symmetric], subst unsigned_take_bit_eq) (simp only: take_bit_eq_mod)

lemma mask_6_u32: "(63 :: u32) = mask 6"
  by (simp add: mask_eq_exp_minus_1)

lemma unat_and_63 [unat_simps]: "unat ((w :: u32) AND 63) = unat w mod 64"
  by (simp add: mask_6_u32 unat_and_mask)

lemma unat_add_no_wrap:
  "unat a + unat b < 2 ^ LENGTH('a) \<Longrightarrow> unat (a + b :: 'a::len word) = unat a + unat b"
  by (simp add: unat_word_ariths)

lemma unat_Suc_no_wrap:
  "unat (a :: u32) + 1 < 2 ^ 32 \<Longrightarrow> unat (a + 1) = unat a + 1"
  by (simp add: unat_word_ariths)

lemma unat_sub_no_borrow: "unat b \<le> unat a \<Longrightarrow> unat (a - b :: 'a::len word) = unat a - unat b"
  by (metis unat_sub word_le_nat_alt)

section \<open>Bit scans\<close>

text \<open>
  \<open>__builtin_ctzll\<close> and \<open>__builtin_clzll\<close>: the number of trailing and leading zero bits of
  a 64-bit word.  At \<open>0\<close> the builtins are undefined; every call site of the program tests
  its argument first.
\<close>

definition ctzll :: "u64 \<Rightarrow> nat" where
  "ctzll m = length (takeWhile (\<lambda>i. \<not> bit m i) [0..<64])"

definition clzll :: "u64 \<Rightarrow> nat" where
  "clzll m = length (takeWhile (\<lambda>i. \<not> bit m (63 - i)) [0..<64])"

lemma length_takeWhile_upt:
  assumes "\<exists>i<n. \<not> P i"
  shows "length (takeWhile P [0..<n]) < n"
    and "\<not> P (length (takeWhile P [0..<n]))"
    and "\<And>j. j < length (takeWhile P [0..<n]) \<Longrightarrow> P j"
proof -
  let ?k = "length (takeWhile P [0..<n])"
  have le: "?k \<le> n" by (metis diff_zero length_takeWhile_le length_upt)
  have ne: "takeWhile P [0..<n] \<noteq> [0..<n]"
    using assms by (auto simp: takeWhile_eq_all_conv)
  show less: "?k < n"
  proof (rule ccontr)
    assume "\<not> ?k < n"
    with le have "?k = length [0..<n]" by simp
    then have "takeWhile P [0..<n] = [0..<n]"
      by (metis takeWhile_eq_take take_all order_refl)
    with ne show False by contradiction
  qed
  then show "\<not> P ?k"
    using nth_length_takeWhile [of P "[0..<n]"] by simp
  show "P j" if "j < ?k" for j
    using that less takeWhile_nth [OF that] nth_mem [OF that]
    by (metis add_0 dual_order.strict_trans nth_upt set_takeWhileD)
qed

lemma u64_nonzero_bit: "(m :: u64) \<noteq> 0 \<longleftrightarrow> (\<exists>i<64. bit m i)"
proof
  assume "m \<noteq> 0"
  then obtain i where "bit m i" by (auto simp: bit_eq_iff)
  moreover from this have "i < 64" using bit_imp_le_length by force
  ultimately show "\<exists>i<64. bit m i" by blast
qed auto

lemma ctzll_props:
  assumes "m \<noteq> 0"
  shows "ctzll m < 64" and "bit m (ctzll m)" and "\<And>j. j < ctzll m \<Longrightarrow> \<not> bit m j"
proof -
  from assms have ex: "\<exists>i<64. \<not> \<not> bit m i" by (simp add: u64_nonzero_bit)
  note t = length_takeWhile_upt [OF ex, folded ctzll_def]
  show "ctzll m < 64" and "bit m (ctzll m)" using t(1,2) by simp_all
  show "\<not> bit m j" if "j < ctzll m" for j using t(3) [OF that] .
qed

lemma clzll_props:
  assumes "m \<noteq> 0"
  shows "clzll m < 64" and "bit m (63 - clzll m)"
    and "\<And>j. 63 - clzll m < j \<Longrightarrow> \<not> bit m j"
proof -
  from assms obtain i where i: "i < 64" "bit m i" by (auto simp: u64_nonzero_bit)
  then have "bit m (63 - (63 - i))" by simp
  then have ex: "\<exists>i<64. \<not> \<not> bit m (63 - i)" using i(1) by (intro exI [of _ "63 - i"]) simp
  note t = length_takeWhile_upt [OF ex, folded clzll_def]
  show "clzll m < 64" and "bit m (63 - clzll m)" using t(1,2) by simp_all
  show "\<not> bit m j" if "63 - clzll m < j" for j
  proof
    assume b: "bit m j"
    then have "j < 64" using bit_imp_le_length by force
    with that have "63 - j < clzll m" by simp
    from t(3) [OF this] \<open>j < 64\<close> b show False by simp
  qed
qed

end
