(* ===== verification/Linear_Probe.thy ===== *)
theory Linear_Probe
  imports Prelude
begin

text \<open>
  Open addressing with linear probing and backward-shift deletion, the scheme shared by
  core's \<open>OrderMap\<close> and exec's \<open>OrderTable\<close> index.  A table of \<open>C\<close> slots is a function
  from positions below \<open>C\<close> to an optional key/value pair; a key is searched from its home
  slot, cyclically, up to the first empty slot.

  \<open>probe_inv\<close> is the invariant that makes the search complete, \<open>probe_map\<close> the finite map
  the table stands for, and \<open>shift_inv\<close> the loop invariant of the deletion.  The locale
  holds what a client of the scheme needs: one lemma per exit of a search, insertion, and
  the four steps of a deletion (punch the hole, skip a slot, move a slot, stop).
\<close>

section \<open>Cyclic distance\<close>

definition cdist :: "nat \<Rightarrow> nat \<Rightarrow> nat \<Rightarrow> nat" where
  "cdist C a b = (if a \<le> b then b - a else b + C - a)"

definition csucc :: "nat \<Rightarrow> nat \<Rightarrow> nat" where
  "csucc C a = (if a + 1 = C then 0 else a + 1)"

lemma csucc_less [simp]: "a < C \<Longrightarrow> csucc C a < C"
  by (auto simp: csucc_def)

lemma cdist_self [simp]: "cdist C a a = 0"
  by (simp add: cdist_def)

lemma cdist_less: "a < C \<Longrightarrow> b < C \<Longrightarrow> cdist C a b < C"
  by (auto simp: cdist_def)

lemma cdist_eq_0: "a < C \<Longrightarrow> b < C \<Longrightarrow> cdist C a b = 0 \<longleftrightarrow> a = b"
  by (auto simp: cdist_def)

lemma cdist_inj: "a < C \<Longrightarrow> b < C \<Longrightarrow> c < C \<Longrightarrow> cdist C a b = cdist C a c \<longleftrightarrow> b = c"
  by (auto simp: cdist_def split: if_splits)

lemma cdist_csucc_right:
  "a < C \<Longrightarrow> b < C \<Longrightarrow> csucc C b \<noteq> a \<Longrightarrow> cdist C a (csucc C b) = cdist C a b + 1"
  by (auto simp: cdist_def csucc_def split: if_splits)

lemma cdist_csucc_left:
  "a < C \<Longrightarrow> b < C \<Longrightarrow> a \<noteq> b \<Longrightarrow> cdist C a b = cdist C (csucc C a) b + 1"
  by (auto simp: cdist_def csucc_def split: if_splits)

lemma cdist_csucc_self: "a < C \<Longrightarrow> 1 < C \<Longrightarrow> cdist C a (csucc C a) = 1"
  by (auto simp: cdist_def csucc_def)

lemma csucc_neq: "1 < C \<Longrightarrow> csucc C i \<noteq> i"
  by (auto simp: csucc_def)

lemma cdist_via:
  assumes "a < C" "b < C" "c < C" "cdist C a b \<le> cdist C a c"
  shows "cdist C a c = cdist C a b + cdist C b c"
  using assms by (auto simp: cdist_def split: if_splits)

lemma cdist_on_path:
  assumes "a < C" "h < C" "p < C" "i < C"
    and "cdist C a h < cdist C a i" and "cdist C h p < cdist C h i"
  shows "cdist C a p < cdist C a i"
proof (cases "cdist C a h \<le> cdist C a p")
  case True
  then have "cdist C a p = cdist C a h + cdist C h p" using assms by (intro cdist_via)
  moreover have "cdist C a i = cdist C a h + cdist C h i" using assms by (intro cdist_via) auto
  ultimately show ?thesis using assms by simp
qed (use assms in linarith)

text \<open>
  A search that has found \<open>Q\<close> at every slot so far goes on one slot, and comes closer to any
  slot \<open>e\<close> without \<open>Q\<close>.
\<close>

lemma path_advance:
  assumes b: "a < C" "p < C" "e < C" and e: "\<not> Q e"
    and path: "\<And>j. j < C \<Longrightarrow> cdist C a j < cdist C a p \<Longrightarrow> Q j" and p: "Q p"
  shows "\<And>j. j < C \<Longrightarrow> cdist C a j < cdist C a (csucc C p) \<Longrightarrow> Q j"
    and "cdist C p e = Suc (cdist C (csucc C p) e)"
proof -
  have "e \<noteq> p" using e p by auto
  then show "cdist C p e = Suc (cdist C (csucc C p) e)"
    using cdist_csucc_left [of p C e] b by simp
  have "\<not> cdist C a e < cdist C a p" using path b e by blast
  then have lt: "cdist C a p < cdist C a e"
    using cdist_inj [of a C p e] b \<open>e \<noteq> p\<close> by linarith
  have "csucc C p \<noteq> a"
  proof
    assume "csucc C p = a"
    then have "cdist C a p = C - 1" using b by (auto simp: csucc_def cdist_def split: if_splits)
    with lt cdist_less [of a C e] b show False by simp
  qed
  then have d: "cdist C a (csucc C p) = cdist C a p + 1" using b by (intro cdist_csucc_right)
  show "Q j" if "j < C" "cdist C a j < cdist C a (csucc C p)" for j
    using that d path [of j] p cdist_inj [of a C j p] b by (cases "j = p") auto
qed

section \<open>Tables\<close>

type_synonym ('k, 'v) table = "nat \<Rightarrow> ('k \<times> 'v) option"

definition entries :: "nat \<Rightarrow> ('k, 'v) table \<Rightarrow> ('k \<times> 'v) set" where
  "entries C tab = {kv. \<exists>i<C. tab i = Some kv}"

definition unique_keys :: "nat \<Rightarrow> ('k, 'v) table \<Rightarrow> bool" where
  "unique_keys C tab \<longleftrightarrow>
     (\<forall>i j k v w. i < C \<longrightarrow> j < C \<longrightarrow> tab i = Some (k, v) \<longrightarrow> tab j = Some (k, w) \<longrightarrow> i = j)"

definition probe_map :: "nat \<Rightarrow> ('k, 'v) table \<Rightarrow> 'k \<rightharpoonup> 'v" where
  "probe_map C tab k =
     (case List.find (\<lambda>i. map_option fst (tab i) = Some k) [0..<C] of
        None \<Rightarrow> None
      | Some i \<Rightarrow> map_option snd (tab i))"

definition occupied_path :: "nat \<Rightarrow> nat \<Rightarrow> ('k, 'v) table \<Rightarrow> nat \<Rightarrow> bool" where
  "occupied_path C a tab i \<longleftrightarrow> (\<forall>j<C. cdist C a j < cdist C a i \<longrightarrow> tab j \<noteq> None)"

definition probe_inv :: "nat \<Rightarrow> ('k \<Rightarrow> nat) \<Rightarrow> ('k, 'v) table \<Rightarrow> bool" where
  "probe_inv C home tab \<longleftrightarrow> unique_keys C tab
     \<and> (\<forall>i k v. i < C \<longrightarrow> tab i = Some (k, v) \<longrightarrow> occupied_path C (home k) tab i)"

definition shift_inv :: "nat \<Rightarrow> ('k \<Rightarrow> nat) \<Rightarrow> ('k, 'v) table \<Rightarrow> nat \<Rightarrow> nat \<Rightarrow> bool" where
  "shift_inv C home tab h p \<longleftrightarrow> unique_keys C tab \<and> h < C \<and> p < C \<and> h \<noteq> p \<and> tab h = None
     \<and> (\<forall>j<C. 0 < cdist C h j \<longrightarrow> cdist C h j < cdist C h p \<longrightarrow> tab j \<noteq> None)
     \<and> (\<forall>i k v j. i < C \<longrightarrow> j < C \<longrightarrow> tab i = Some (k, v)
          \<longrightarrow> cdist C (home k) j < cdist C (home k) i \<longrightarrow> tab j = None
          \<longrightarrow> j = h \<and> cdist C h p \<le> cdist C h i)"

lemma probe_invD:
  "probe_inv C home tab \<Longrightarrow> i < C \<Longrightarrow> tab i = Some (k, v) \<Longrightarrow> j < C
   \<Longrightarrow> cdist C (home k) j < cdist C (home k) i \<Longrightarrow> tab j \<noteq> None"
  unfolding probe_inv_def occupied_path_def by blast

lemma find_upt_Some: "List.find P [0..<n] = Some i \<Longrightarrow> i < n \<and> P i"
  by (auto simp: find_Some_iff)

lemma probe_map_Some:
  assumes "unique_keys C tab"
  shows "probe_map C tab k = Some v \<longleftrightarrow> (\<exists>i<C. tab i = Some (k, v))"
proof (cases "List.find (\<lambda>i. map_option fst (tab i) = Some k) [0..<C]")
  case None
  then have "\<not> (\<exists>i<C. tab i = Some (k, v))" by (auto simp: find_None_iff)
  with None show ?thesis by (simp add: probe_map_def)
next
  case (Some i)
  from find_upt_Some [OF this] obtain w where "i < C" "tab i = Some (k, w)" by auto
  then have "(\<exists>i<C. tab i = Some (k, v)) \<longleftrightarrow> w = v"
    using assms unfolding unique_keys_def by (metis option.inject prod.inject)
  with Some \<open>tab i = Some (k, w)\<close> show ?thesis by (simp add: probe_map_def)
qed

lemma probe_map_entries:
  "unique_keys C tab \<Longrightarrow> probe_map C tab k = Some v \<longleftrightarrow> (k, v) \<in> entries C tab"
  by (auto simp: probe_map_Some entries_def)

lemma probe_map_None:
  "unique_keys C tab \<Longrightarrow> probe_map C tab k = None \<longleftrightarrow> (\<forall>i<C. \<forall>v. tab i \<noteq> Some (k, v))"
  by (metis not_None_eq probe_map_Some)

lemma probe_map_eqI:
  assumes "unique_keys C tab" "unique_keys C tab'" "entries C tab = entries C tab'"
  shows "probe_map C tab = probe_map C tab'"
  using assms by (intro ext) (metis not_None_eq probe_map_entries)

lemma dom_probe_map_inj:
  assumes "unique_keys C tab"
  shows "card (dom (probe_map C tab)) = card {i. i < C \<and> tab i \<noteq> None}"
proof -
  have "bij_betw (\<lambda>i. fst (the (tab i))) {i. i < C \<and> tab i \<noteq> None} (dom (probe_map C tab))"
    unfolding bij_betw_def
  proof
    show "inj_on (\<lambda>i. fst (the (tab i))) {i. i < C \<and> tab i \<noteq> None}"
      using assms by (auto simp: inj_on_def unique_keys_def)
    show "(\<lambda>i. fst (the (tab i))) ` {i. i < C \<and> tab i \<noteq> None} = dom (probe_map C tab)"
      (is "?f ` ?I = _")
    proof (intro set_eqI iffI)
      fix k assume "k \<in> dom (probe_map C tab)"
      then obtain i v where "i < C" "tab i = Some (k, v)"
        using probe_map_Some [OF assms] by blast
      then show "k \<in> ?f ` ?I" by (intro image_eqI [of _ _ i]) auto
    next
      fix k assume "k \<in> ?f ` ?I"
      then obtain i v where "i < C" "tab i = Some (k, v)" by auto
      then show "k \<in> dom (probe_map C tab)"
        using probe_map_Some [OF assms] by blast
    qed
  qed
  from bij_betw_same_card [OF this] show ?thesis by (rule sym)
qed

lemma free_slot:
  assumes "unique_keys C tab" "card (dom (probe_map C tab)) < C"
  obtains e where "e < C" "tab e = None"
proof -
  have "{i. i < C \<and> tab i \<noteq> None} \<noteq> {..<C}"
    using assms(2) dom_probe_map_inj [OF assms(1)] by (metis card_lessThan less_irrefl)
  then show ?thesis using that by blast
qed

lemma finite_dom_probe_map: "finite (dom (probe_map C tab))"
proof (rule finite_subset)
  show "dom (probe_map C tab) \<subseteq> (\<lambda>i. fst (the (tab i))) ` {..<C}"
  proof
    fix k assume "k \<in> dom (probe_map C tab)"
    then have "probe_map C tab k \<noteq> None" by (simp add: domIff)
    then obtain i where "List.find (\<lambda>i. map_option fst (tab i) = Some k) [0..<C] = Some i"
      unfolding probe_map_def by (cases "List.find (\<lambda>i. map_option fst (tab i) = Some k) [0..<C]") simp_all
    from find_upt_Some [OF this] have "i < C" "k = fst (the (tab i))" by auto
    then show "k \<in> (\<lambda>i. fst (the (tab i))) ` {..<C}" by blast
  qed
qed simp

section \<open>The scheme\<close>

locale linear_probe =
  fixes C :: nat and home :: "'k \<Rightarrow> nat"
  assumes home_less: "home k < C"
begin

lemma find_miss:
  assumes inv: "probe_inv C home tab" and i: "i < C" "tab i = None"
    and path: "\<And>j. j < C \<Longrightarrow> cdist C (home k) j < cdist C (home k) i \<Longrightarrow> map_option fst (tab j) \<noteq> Some k"
  shows "probe_map C tab k = None"
proof -
  have uq: "unique_keys C tab" using inv by (simp add: probe_inv_def)
  have "tab j \<noteq> Some (k, v)" if j: "j < C" for j v
  proof
    assume tj: "tab j = Some (k, v)"
    with inv j have "occupied_path C (home k) tab j" by (auto simp: probe_inv_def)
    with i have "\<not> cdist C (home k) i < cdist C (home k) j" by (auto simp: occupied_path_def)
    moreover have "i \<noteq> j" using i tj by auto
    then have "cdist C (home k) i \<noteq> cdist C (home k) j"
      using cdist_inj home_less i(1) j by metis
    ultimately show False using path [OF j] tj by simp
  qed
  then show ?thesis by (simp add: probe_map_None [OF uq])
qed

lemma find_hit:
  "probe_inv C home tab \<Longrightarrow> i < C \<Longrightarrow> tab i = Some (k, v) \<Longrightarrow> probe_map C tab k = Some v"
  by (auto simp: probe_inv_def probe_map_Some)

lemma insert_sound:
  assumes inv: "probe_inv C home tab" and i: "i < C" "tab i = None"
    and new: "probe_map C tab k = None" and path: "occupied_path C (home k) tab i"
  shows "probe_inv C home (tab(i \<mapsto> (k, v)))"
    and "probe_map C (tab(i \<mapsto> (k, v))) = (probe_map C tab)(k \<mapsto> v)"
proof -
  have uq: "unique_keys C tab" using inv by (simp add: probe_inv_def)
  have new': "tab j \<noteq> Some (k, w)" if "j < C" for j w
    using new that by (simp add: probe_map_None [OF uq])
  have uq': "unique_keys C (tab(i \<mapsto> (k, v)))"
    unfolding unique_keys_def fun_upd_apply using uq new' by (auto simp: unique_keys_def)
  moreover have "occupied_path C (home k') (tab(i \<mapsto> (k, v))) j"
    if "j < C" "(tab(i \<mapsto> (k, v))) j = Some (k', v')" for j k' v'
    using that inv path by (cases "j = i") (auto simp: occupied_path_def probe_inv_def)
  ultimately show "probe_inv C home (tab(i \<mapsto> (k, v)))" by (simp add: probe_inv_def)
  have "(tab(i \<mapsto> (k, v))) j = Some (x, w) \<longleftrightarrow> tab j = Some (x, w)" if "x \<noteq> k" for j x w
    using that i by auto
  then have "probe_map C (tab(i \<mapsto> (k, v))) x = Some w \<longleftrightarrow> ((probe_map C tab)(k \<mapsto> v)) x = Some w" for x w
    using i new' by (cases "x = k") (auto simp: probe_map_Some [OF uq] probe_map_Some [OF uq'])
  then show "probe_map C (tab(i \<mapsto> (k, v))) = (probe_map C tab)(k \<mapsto> v)"
    by (intro ext) (metis not_None_eq)
qed

lemma shift_start:
  assumes inv: "probe_inv C home tab" and i: "i < C" "tab i = Some (k, v)" and C: "1 < C"
  shows "shift_inv C home (tab(i := None)) i (csucc C i)"
    and "probe_map C (tab(i := None)) = (probe_map C tab)(k := None)"
proof -
  have uq: "unique_keys C tab" using inv by (simp add: probe_inv_def)
  have uq': "unique_keys C (tab(i := None))" using uq by (auto simp: unique_keys_def)
  have far: "cdist C i (csucc C i) \<le> cdist C i j" if "j < C" "j \<noteq> i" for j
    using that i C cdist_eq_0 [of i C j] by (simp add: cdist_csucc_self)
  have hole: "j' = i \<and> cdist C i (csucc C i) \<le> cdist C i j"
    if "j < C" "j' < C" "(tab(i := None)) j = Some (k', v')"
      "cdist C (home k') j' < cdist C (home k') j" "(tab(i := None)) j' = None" for j j' k' v'
    using that far [of j] probe_invD [OF inv, of j k' v' j'] by (auto split: if_splits)
  show "shift_inv C home (tab(i := None)) i (csucc C i)"
    unfolding shift_inv_def
  proof (intro conjI allI impI)
    show "(tab(i := None)) j \<noteq> None" if "0 < cdist C i j" "cdist C i j < cdist C i (csucc C i)" for j
      using that i C by (simp add: cdist_csucc_self)
  next
    fix j k' v' j'
    assume a: "j < C" "j' < C" "(tab(i := None)) j = Some (k', v')"
      "cdist C (home k') j' < cdist C (home k') j" "(tab(i := None)) j' = None"
    show "j' = i" and "cdist C i (csucc C i) \<le> cdist C i j" using hole [OF a] by auto
  qed (use i C uq' csucc_neq [OF C, of i] in simp_all)
  have other: "tab j \<noteq> Some (k, w)" if "j < C" "j \<noteq> i" for j w
    using uq i that unfolding unique_keys_def by blast
  have "(tab(i := None)) j = Some (x, w) \<longleftrightarrow> tab j = Some (x, w)" if "x \<noteq> k" for j x w
    using that i by auto
  then have "probe_map C (tab(i := None)) x = Some w \<longleftrightarrow> ((probe_map C tab)(k := None)) x = Some w" for x w
    using i other by (cases "x = k") (auto simp: probe_map_Some [OF uq] probe_map_Some [OF uq'])
  then show "probe_map C (tab(i := None)) = (probe_map C tab)(k := None)"
    by (intro ext) (metis not_None_eq)
qed

lemma shift_skip:
  assumes inv: "shift_inv C home tab h p" and p: "tab p = Some (k, v)"
    and stay: "cdist C (home k) p \<le> cdist C (home k) h" and e: "e < C" "tab e = None" "e \<noteq> h"
  shows "shift_inv C home tab h (csucc C p)"
proof -
  from inv have hp: "h < C" "p < C" "h \<noteq> p" "tab h = None" and uq: "unique_keys C tab"
    and between: "\<And>j. j < C \<Longrightarrow> 0 < cdist C h j \<Longrightarrow> cdist C h j < cdist C h p \<Longrightarrow> tab j \<noteq> None"
    and path: "\<And>i k v j. i < C \<Longrightarrow> j < C \<Longrightarrow> tab i = Some (k, v) \<Longrightarrow>
      cdist C (home k) j < cdist C (home k) i \<Longrightarrow> tab j = None \<Longrightarrow> j = h \<and> cdist C h p \<le> cdist C h i"
    unfolding shift_inv_def by blast+
  have "cdist C h p \<noteq> cdist C h e" using cdist_inj [of h C p e] hp e p by auto
  moreover have "\<not> cdist C h e < cdist C h p" using between [of e] e hp cdist_eq_0 [of h C e] by auto
  ultimately have "cdist C h p < cdist C h e" by simp
  have step: "csucc C p \<noteq> h"
  proof
    assume "csucc C p = h"
    then have "cdist C h p = C - 1" using hp by (auto simp: csucc_def cdist_def split: if_splits)
    with \<open>cdist C h p < cdist C h e\<close> cdist_less [of h C e] hp e show False by simp
  qed
  then have d: "cdist C h (csucc C p) = cdist C h p + 1" using hp by (intro cdist_csucc_right)
  have "tab j \<noteq> None" if "j < C" "0 < cdist C h j" "cdist C h j < cdist C h (csucc C p)" for j
    using that between [of j] d p cdist_inj [of h C j p] hp by (cases "j = p") auto
  moreover have "j = h \<and> cdist C h (csucc C p) \<le> cdist C h i"
    if "i < C" "j < C" "tab i = Some (k', v')" "cdist C (home k') j < cdist C (home k') i" "tab j = None"
    for i j k' v'
  proof -
    note q = path [OF that]
    have "i \<noteq> p" using that q p stay by auto
    then show ?thesis using q d cdist_inj [of h C i p] that(1) hp by (simp add: le_less) linarith
  qed
  ultimately show ?thesis
    unfolding shift_inv_def using uq hp step csucc_less [OF hp(2)] by blast
qed

lemma shift_move:
  assumes inv: "shift_inv C home tab h p" and p: "tab p = Some (k, v)"
    and move: "cdist C (home k) h < cdist C (home k) p"
  shows "shift_inv C home (tab(h \<mapsto> (k, v), p := None)) p (csucc C p)"
    and "probe_map C (tab(h \<mapsto> (k, v), p := None)) = probe_map C tab"
proof -
  let ?t = "tab(h \<mapsto> (k, v), p := None)"
  from inv have hp: "h < C" "p < C" "h \<noteq> p" "tab h = None" and uq: "unique_keys C tab"
    and path: "\<And>i k v j. i < C \<Longrightarrow> j < C \<Longrightarrow> tab i = Some (k, v) \<Longrightarrow>
      cdist C (home k) j < cdist C (home k) i \<Longrightarrow> tab j = None \<Longrightarrow> j = h \<and> cdist C h p \<le> cdist C h i"
    unfolding shift_inv_def by blast+
  from hp(1-3) have C: "1 < C" by auto
  have new: "?t j = Some (x, w) \<longleftrightarrow> (if j = h then (x, w) = (k, v) else j \<noteq> p \<and> tab j = Some (x, w))" for j x w
    using hp by auto
  have uqp: "tab j = Some (k, w) \<Longrightarrow> j < C \<Longrightarrow> j = p" for j w
    using uq p hp unfolding unique_keys_def by blast
  have uq': "unique_keys C ?t"
    unfolding unique_keys_def new using uq uqp hp
    by (auto split: if_splits) (metis unique_keys_def)+
  have "entries C ?t = entries C tab"
  proof (intro set_eqI)
    fix xw :: "'k \<times> 'a"
    obtain x w where xw: "xw = (x, w)" by (cases xw)
    show "xw \<in> entries C ?t \<longleftrightarrow> xw \<in> entries C tab"
      unfolding xw entries_def mem_Collect_eq new using hp p uqp by (metis option.inject option.distinct(1))
  qed
  then show "probe_map C ?t = probe_map C tab" using uq uq' by (intro probe_map_eqI)
  have one: "cdist C p (csucc C p) = 1" using hp C by (simp add: cdist_csucc_self)
  have paths: "j = p \<and> cdist C p (csucc C p) \<le> cdist C p i"
    if i: "i < C" "j < C" "?t i = Some (x, w)" "cdist C (home x) j < cdist C (home x) i" "?t j = None"
    for i j x w
  proof -
    have ip: "i \<noteq> p" using i(3) by auto
    have "j = p"
    proof (rule ccontr)
      assume "j \<noteq> p"
      with i(5) have jh: "j \<noteq> h" and tj: "tab j = None" by (auto split: if_splits)
      show False
      proof (cases "i = h")
        case True
        with i(3,4) new move have "cdist C (home k) j < cdist C (home k) p" by auto
        with path [OF hp(2) i(2) p _ tj] jh show False by blast
      next
        case False
        with i(3) ip have "tab i = Some (x, w)" by (auto split: if_splits)
        with path [OF i(1,2) _ i(4) tj] jh show False by blast
      qed
    qed
    moreover have "1 \<le> cdist C p i" using ip i(1) hp cdist_eq_0 [of p C i] by auto
    ultimately show ?thesis by (simp add: one)
  qed
  show "shift_inv C home ?t p (csucc C p)"
    unfolding shift_inv_def
  proof (intro conjI allI impI)
    show "?t j \<noteq> None" if "0 < cdist C p j" "cdist C p j < cdist C p (csucc C p)" for j
      using that by (simp only: one)
  next
    fix j x w j'
    assume a: "j < C" "j' < C" "?t j = Some (x, w)"
      "cdist C (home x) j' < cdist C (home x) j" "?t j' = None"
    show "j' = p" and "cdist C p (csucc C p) \<le> cdist C p j" using paths [OF a] by auto
  qed (use hp uq' csucc_neq [OF C, of p] in simp_all)
qed

lemma shift_done:
  assumes inv: "shift_inv C home tab h p" and p: "tab p = None"
  shows "probe_inv C home tab"
  unfolding probe_inv_def occupied_path_def
proof (intro conjI allI impI)
  show "unique_keys C tab" using inv by (simp add: shift_inv_def)
  fix i k v j
  assume i: "i < C" "tab i = Some (k, v)" and j: "j < C" "cdist C (home k) j < cdist C (home k) i"
  show "tab j \<noteq> None"
  proof
    assume tj: "tab j = None"
    have jh: "j = h" and far: "cdist C h p \<le> cdist C h i" and hp: "h < C" "p < C" "h \<noteq> p"
      using inv i j tj unfolding shift_inv_def by blast+
    have "p \<noteq> i" using i p by auto
    then have "cdist C h p < cdist C h i" using far cdist_inj [of h C p i] hp i by (simp add: le_less)
    with j jh have "cdist C (home k) p < cdist C (home k) i"
      using home_less hp i by (intro cdist_on_path [of "home k" C h p i]) auto
    with inv i p hp have "p = h" unfolding shift_inv_def by blast
    with hp show False by simp
  qed
qed

end

section \<open>Masked 32-bit positions\<close>

text \<open>
  Both tables keep a running \<open>uint32_t\<close> position and mask it with \<open>2 ^ k - 1\<close> at each
  access, so the position may wrap without harm.  \<open>slot_no k pos\<close> is the slot it names.
\<close>

lemma mod_2_32_nat: "k \<le> 32 \<Longrightarrow> (a :: nat) mod 4294967296 mod 2 ^ k = a mod 2 ^ k"
  using mod_mod_cancel [OF le_imp_power_dvd [of k 32 "2 :: nat"], of a] by simp

lemma mod_2_32_int: "k \<le> 32 \<Longrightarrow> (a :: int) mod 4294967296 mod 2 ^ k = a mod 2 ^ k"
  using mod_mod_cancel [OF le_imp_power_dvd [of k 32 "2 :: int"], of a] by simp

definition slot_no :: "nat \<Rightarrow> u32 \<Rightarrow> nat" where
  "slot_no k pos = unat pos mod 2 ^ k"

lemma slot_no_less [simp]: "slot_no k pos < 2 ^ k"
  by (simp add: slot_no_def)

lemma unat_masked: "unat (pos AND mask k :: u32) = slot_no k pos"
  by (simp add: slot_no_def unat_and_mask)

lemma masked_slot_no: "pos AND mask k = (word_of_nat (slot_no k pos) :: u32)"
  by (simp add: unat_masked [symmetric])

lemma slot_no_masked: "slot_no k (pos AND mask k) = slot_no k pos"
  by (simp add: slot_no_def unat_and_mask)

lemma slot_no_of_nat: "k \<le> 32 \<Longrightarrow> i < 2 ^ k \<Longrightarrow> slot_no k (word_of_nat i) = i"
  using power_increasing [of k 32 "2 :: nat"] by (simp add: slot_no_def unat_of_nat)

lemma masked_of_nat: "k \<le> 32 \<Longrightarrow> i < 2 ^ k \<Longrightarrow> word_of_nat i AND mask k = (word_of_nat i :: u32)"
  by (simp add: masked_slot_no slot_no_of_nat)

lemma word_of_slot_inj:
  "k \<le> 32 \<Longrightarrow> i < 2 ^ k \<Longrightarrow> j < 2 ^ k \<Longrightarrow> (word_of_nat i :: u32) = word_of_nat j \<longleftrightarrow> i = j"
  by (metis slot_no_of_nat)

lemma slot_no_add:
  assumes "k \<le> 32"
  shows "slot_no k (a + b) = (unat a + unat b) mod 2 ^ k"
  using assms by (simp add: slot_no_def unat_word_ariths mod_2_32_nat)

lemma slot_no_succ:
  assumes "k \<le> 32"
  shows "slot_no k (pos + 1) = csucc (2 ^ k) (slot_no k pos)"
  using slot_no_add [OF assms, of pos 1] mod_Suc [of "unat pos" "2 ^ k"]
  by (simp add: slot_no_def csucc_def)

lemma int_cdist_mod:
  assumes "0 < n"
  shows "int (cdist n (y mod n) (x mod n)) = (int x - int y) mod int n"
proof -
  let ?r = "x mod n" and ?s = "y mod n"
  have rs: "?r < n" "?s < n" using assms by simp_all
  have "(int x - int y) mod int n = (int ?r - int ?s) mod int n"
    by (simp add: zmod_int mod_diff_eq)
  also have "\<dots> = int (cdist n ?s ?r)"
  proof (cases "?s \<le> ?r")
    case True
    then have "(int ?r - int ?s) mod int n = int ?r - int ?s"
      using rs by (intro mod_pos_pos_trivial) linarith+
    then show ?thesis using True by (simp add: cdist_def of_nat_diff)
  next
    case False
    then have "(int ?r - int ?s) mod int n = (int ?r - int ?s + int n) mod int n" by simp
    also have "\<dots> = int ?r - int ?s + int n" using False rs by (intro mod_pos_pos_trivial) auto
    finally show ?thesis using False rs by (simp add: cdist_def of_nat_diff)
  qed
  finally show ?thesis by simp
qed

lemma masked_diff:
  assumes "k \<le> 32"
  shows "unat ((a - b) AND mask k :: u32) = cdist (2 ^ k) (slot_no k b) (slot_no k a)"
proof -
  have "int (unat ((a - b) AND mask k)) = uint (a - b) mod 2 ^ k"
    by (simp add: unat_and_mask zmod_int)
  also have "\<dots> = (int (unat a) - int (unat b)) mod 2 ^ k"
    using assms by (simp add: uint_word_ariths mod_2_32_int)
  also have "\<dots> = int (cdist (2 ^ k) (slot_no k b) (slot_no k a))"
    by (simp add: slot_no_def int_cdist_mod)
  finally show ?thesis by (simp only: of_nat_eq_iff)
qed

end
