(* ===== verification/Store.thy ===== *)
theory Store
  imports Prelude
begin

text \<open>
  The contract of an order store, shared by core's \<open>OrderMap\<close> and exec's \<open>OrderTable\<close>:
  a bounded finite map whose operations return, and compute the map operation, while it
  has room.  \<open>None\<close> as the outer option of an operation is "does not return".  The client
  lemma \<open>run_refines\<close> lifts the contract to sequences of operations.
\<close>

datatype ('k, 'v) store_cmd = Put 'k 'v | Del 'k

primrec store_step :: "('s \<Rightarrow> 'k \<Rightarrow> 'v \<Rightarrow> 's option) \<Rightarrow> ('s \<Rightarrow> 'k \<Rightarrow> 's option)
    \<Rightarrow> 's \<Rightarrow> ('k, 'v) store_cmd \<Rightarrow> 's option" where
  "store_step put del s (Put k v) = put s k v"
| "store_step put del s (Del k) = del s k"

primrec store_run :: "('s \<Rightarrow> 'k \<Rightarrow> 'v \<Rightarrow> 's option) \<Rightarrow> ('s \<Rightarrow> 'k \<Rightarrow> 's option)
    \<Rightarrow> 's \<Rightarrow> ('k, 'v) store_cmd list \<Rightarrow> 's option" where
  "store_run put del s [] = Some s"
| "store_run put del s (c # cs) =
     (case store_step put del s c of None \<Rightarrow> None | Some s' \<Rightarrow> store_run put del s' cs)"

primrec spec_step :: "('k \<rightharpoonup> 'v) \<Rightarrow> ('k, 'v) store_cmd \<Rightarrow> ('k \<rightharpoonup> 'v)" where
  "spec_step m (Put k v) = m(k \<mapsto> v)"
| "spec_step m (Del k) = m(k := None)"

text \<open>
  A run is legal when it inserts valid entries under fresh keys into a map with room and erases
  present keys.
\<close>

primrec legal_cmd :: "('k \<Rightarrow> 'v \<Rightarrow> bool) \<Rightarrow> nat \<Rightarrow> ('k \<rightharpoonup> 'v) \<Rightarrow> ('k, 'v) store_cmd \<Rightarrow> bool" where
  "legal_cmd valid cap m (Put k v) \<longleftrightarrow> valid k v \<and> m k = None \<and> card (dom m) + 1 < cap"
| "legal_cmd valid cap m (Del k) \<longleftrightarrow> m k \<noteq> None"

primrec legal_run :: "('k \<Rightarrow> 'v \<Rightarrow> bool) \<Rightarrow> nat \<Rightarrow> ('k \<rightharpoonup> 'v) \<Rightarrow> ('k, 'v) store_cmd list \<Rightarrow> bool" where
  "legal_run valid cap m [] \<longleftrightarrow> True"
| "legal_run valid cap m (c # cs) \<longleftrightarrow> legal_cmd valid cap m c \<and> legal_run valid cap (spec_step m c) cs"

locale order_store =
  fixes inv :: "'s \<Rightarrow> bool" and abs :: "'s \<Rightarrow> 'k \<rightharpoonup> 'v" and cap :: nat
    and get :: "'s \<Rightarrow> 'k \<Rightarrow> 'v option option"
    and put :: "'s \<Rightarrow> 'k \<Rightarrow> 'v \<Rightarrow> 's option"
    and del :: "'s \<Rightarrow> 'k \<Rightarrow> 's option"
    and valid :: "'k \<Rightarrow> 'v \<Rightarrow> bool"
  assumes fin: "inv s \<Longrightarrow> finite (dom (abs s))"
    and get_ok: "inv s \<Longrightarrow> card (dom (abs s)) < cap \<Longrightarrow> get s k = Some (abs s k)"
    and put_ok: "inv s \<Longrightarrow> card (dom (abs s)) + 1 < cap \<Longrightarrow> abs s k = None
      \<Longrightarrow> valid k v \<Longrightarrow> \<exists>s'. put s k v = Some s' \<and> inv s' \<and> abs s' = (abs s)(k \<mapsto> v)"
    and del_ok: "inv s \<Longrightarrow> card (dom (abs s)) < cap \<Longrightarrow> abs s k \<noteq> None
      \<Longrightarrow> \<exists>s'. del s k = Some s' \<and> inv s' \<and> abs s' = (abs s)(k := None)"
begin

lemma step_refines:
  assumes "inv s" "card (dom (abs s)) < cap" "legal_cmd valid cap (abs s) c"
  shows "\<exists>s'. store_step put del s c = Some s' \<and> inv s' \<and> abs s' = spec_step (abs s) c
    \<and> card (dom (abs s')) < cap"
proof (cases c)
  case (Put k v)
  with assms put_ok [of s k v] obtain s' where
    s': "put s k v = Some s'" "inv s'" "abs s' = (abs s)(k \<mapsto> v)" by auto
  with assms Put fin [of s] show ?thesis by (auto simp: domIff)
next
  case (Del k)
  with assms del_ok [of s k] obtain s' where
    s': "del s k = Some s'" "inv s'" "abs s' = (abs s)(k := None)" by auto
  moreover have "card (dom (abs s) - {k}) < cap"
    using assms(2) by (meson card_Diff1_le order.strict_trans1)
  ultimately show ?thesis using Del by auto
qed

lemma run_refines:
  assumes "inv s" "card (dom (abs s)) < cap" "legal_run valid cap (abs s) cs"
  shows "\<exists>s'. store_run put del s cs = Some s' \<and> inv s' \<and> abs s' = foldl spec_step (abs s) cs
    \<and> (\<forall>k. get s' k = Some (foldl spec_step (abs s) cs k))"
  using assms
proof (induction cs arbitrary: s)
  case Nil
  then show ?case by (simp add: get_ok)
next
  case (Cons c cs)
  then obtain s' where s': "store_step put del s c = Some s'" "inv s'"
    "abs s' = spec_step (abs s) c" "card (dom (abs s')) < cap"
    using step_refines [of s c] by auto
  with Cons.IH [of s'] Cons.prems show ?case by simp
qed

end

end
