(* ===== verification/Events.thy ===== *)
theory Events
  imports Prelude
begin

text \<open>
  \<open>src/common/event.hpp\<close>: the sides of the book and the internal event that the ITCH
  parser publishes and core consumes.  Character fields are bytes, and \<open>stock\<close> is the
  list of its eight bytes.  The padding field is not modelled.
\<close>

datatype side = Sell | Buy

definition side_val :: "side \<Rightarrow> 8 word" where
  "side_val s = (case s of Sell \<Rightarrow> - 1 | Buy \<Rightarrow> 1)"

record event =
  message_type :: u8
  stock_locate :: u16
  tracking_number :: u16
  timestamp :: u64
  order_ref_number :: u64
  ev_side :: side
  ev_shares :: u32
  stock :: "u8 list"
  ev_price :: u32
  match_number :: u64
  new_order_ref_number :: u64
  ev_tsc_in :: u64

text \<open>A character constant of the source as the byte it is.\<close>

definition ch :: "char \<Rightarrow> u8" where
  "ch c = of_char c"

lemma ch_letters [simp]:
  "ch CHR ''A'' = 65" "ch CHR ''B'' = 66" "ch CHR ''C'' = 67" "ch CHR ''D'' = 68" "ch CHR ''E'' = 69"
  "ch CHR ''F'' = 70" "ch CHR ''P'' = 80" "ch CHR ''Q'' = 81" "ch CHR ''U'' = 85" "ch CHR ''X'' = 88"
  by (simp_all add: ch_def)

end
