(* ===== verification/Order_Map.thy ===== *)
theory Order_Map
  imports Linear_Probe Store Events
begin

text \<open>
  \<open>OrderMap<Capacity>\<close> of \<open>src/core/core.hpp\<close> and \<open>src/core/core.cpp\<close>: the flat
  open-addressed hash from order references to live orders.  The slot array is a function
  of the masked position and \<open>M\<close> is the template's \<open>MASK\<close>.  The three loops of the class
  have no exit but a slot that stops them, so each is a \<open>partial_function (option)\<close>.

  With one free slot and the probing invariant, \<open>find\<close>, \<open>insert\<close> and \<open>erase\<close> return and
  implement lookup, update and removal on a finite map; a \<open>find\<close> that misses in a full
  table does not return.
\<close>

section \<open>The class\<close>

record order_entry =
  oe_price :: u32
  oe_shares :: u32
  oe_side :: side

record slot =
  s_key :: u64
  s_entry :: order_entry
  s_occupied :: bool

type_synonym order_map = "u32 \<Rightarrow> slot"

text \<open>
  \<open>Slot slots_[Capacity]{}\<close>: all bytes zero.  The side of a slot never used is the byte 0,
  which is no enumerator; it is not read while \<open>occupied\<close> is false, and is \<open>Sell\<close> here.
\<close>

definition om_new :: order_map where
  "om_new = (\<lambda>_. \<lparr>s_key = 0,
     s_entry = \<lparr>oe_price = 0, oe_shares = 0, oe_side = Sell\<rparr>, s_occupied = False\<rparr>)"

definition om_hash :: "u64 \<Rightarrow> u32" where
  "om_hash ref = ucast (drop_bit 44 (ref * 0x9e3779b97f4a7c15))"

partial_function (option) om_find_from :: "u32 \<Rightarrow> order_map \<Rightarrow> u64 \<Rightarrow> u32 \<Rightarrow> u32 option option" where
  "om_find_from M slots ref pos =
     (let s = slots (pos AND M) in
      if \<not> s_occupied s then Some None
      else if s_key s = ref then Some (Some (pos AND M))
      else om_find_from M slots ref (pos + 1))"

text \<open>\<open>find\<close> returns a pointer to the entry: the index of its slot, or \<open>None\<close> for null.\<close>

definition om_find :: "u32 \<Rightarrow> order_map \<Rightarrow> u64 \<Rightarrow> u32 option option" where
  "om_find M slots ref = om_find_from M slots ref (om_hash ref)"

partial_function (option) om_insert_from ::
  "u32 \<Rightarrow> order_map \<Rightarrow> u64 \<Rightarrow> order_entry \<Rightarrow> u32 \<Rightarrow> order_map option" where
  "om_insert_from M slots ref e pos =
     (let s = slots (pos AND M) in
      if \<not> s_occupied s
      then Some (slots(pos AND M := \<lparr>s_key = ref, s_entry = e, s_occupied = True\<rparr>))
      else om_insert_from M slots ref e (pos + 1))"

definition om_insert :: "u32 \<Rightarrow> order_map \<Rightarrow> u64 \<Rightarrow> u32 \<Rightarrow> u32 \<Rightarrow> side \<Rightarrow> order_map option" where
  "om_insert M slots ref price shares sd =
     om_insert_from M slots ref \<lparr>oe_price = price, oe_shares = shares, oe_side = sd\<rparr> (om_hash ref)"

text \<open>The first loop of \<open>erase\<close> looks at keys only, not at \<open>occupied\<close>.\<close>

partial_function (option) om_seek :: "u32 \<Rightarrow> order_map \<Rightarrow> u64 \<Rightarrow> u32 \<Rightarrow> u32 option" where
  "om_seek M slots ref pos =
     (if s_key (slots (pos AND M)) \<noteq> ref then om_seek M slots ref (pos + 1) else Some pos)"

partial_function (option) om_shift :: "u32 \<Rightarrow> order_map \<Rightarrow> u32 \<Rightarrow> u32 \<Rightarrow> order_map option" where
  "om_shift M slots hole pos =
     (let s = slots (pos AND M) in
      if \<not> s_occupied s then Some slots
      else let home = om_hash (s_key s) in
        if (hole - home) AND M < (pos - home) AND M
        then om_shift M (slots(hole AND M := s, pos AND M := s\<lparr>s_occupied := False\<rparr>)) pos (pos + 1)
        else om_shift M slots hole (pos + 1))"

definition om_erase :: "u32 \<Rightarrow> order_map \<Rightarrow> u64 \<Rightarrow> order_map option" where
  "om_erase M slots ref =
     (case om_seek M slots ref (om_hash ref) of
        None \<Rightarrow> None
      | Some pos \<Rightarrow>
          om_shift M (slots(pos AND M := (slots (pos AND M))\<lparr>s_occupied := False\<rparr>)) pos (pos + 1))"

text \<open>Writing through the pointer that \<open>find\<close> returned.\<close>

definition om_write :: "order_map \<Rightarrow> u32 \<Rightarrow> order_entry \<Rightarrow> order_map" where
  "om_write slots p e = slots(p := (slots p)\<lparr>s_entry := e\<rparr>)"

section \<open>The finite map it stands for\<close>

definition om_tab :: "nat \<Rightarrow> order_map \<Rightarrow> (u64, order_entry) table" where
  "om_tab k slots i = (let s = slots (word_of_nat i) in
     if i < 2 ^ k \<and> s_occupied s then Some (s_key s, s_entry s) else None)"

definition om_home :: "nat \<Rightarrow> u64 \<Rightarrow> nat" where
  "om_home k ref = slot_no k (om_hash ref)"

definition om_abs :: "nat \<Rightarrow> order_map \<Rightarrow> u64 \<rightharpoonup> order_entry" where
  "om_abs k slots = probe_map (2 ^ k) (om_tab k slots)"

definition om_inv :: "nat \<Rightarrow> order_map \<Rightarrow> bool" where
  "om_inv k slots \<longleftrightarrow> probe_inv (2 ^ k) (om_home k) (om_tab k slots)"

interpretation om: linear_probe "2 ^ k" "om_home k" for k
  by unfold_locales (simp add: om_home_def)

lemma om_home_less [simp]: "om_home k ref < 2 ^ k"
  by (simp add: om_home_def)

lemma om_tab_slot:
  "om_tab k slots (slot_no k pos) = (if s_occupied (slots (pos AND mask k))
     then Some (s_key (slots (pos AND mask k)), s_entry (slots (pos AND mask k))) else None)"
  by (simp add: om_tab_def masked_slot_no Let_def)

lemma om_tab_upd:
  assumes "k \<le> 32"
  shows "om_tab k (slots(pos AND mask k := s))
    = (om_tab k slots)(slot_no k pos := (if s_occupied s then Some (s_key s, s_entry s) else None))"
proof
  fix i
  show "om_tab k (slots(pos AND mask k := s)) i = ((om_tab k slots)(slot_no k pos :=
    (if s_occupied s then Some (s_key s, s_entry s) else None))) i"
    using word_of_slot_inj [OF assms, of i "slot_no k pos"]
    by (cases "i < 2 ^ k") (auto simp: om_tab_def masked_slot_no)
qed

lemma om_inv_unique: "om_inv k slots \<Longrightarrow> unique_keys (2 ^ k) (om_tab k slots)"
  by (simp add: om_inv_def probe_inv_def)

lemma om_free_slot:
  assumes "om_inv k slots" and "card (dom (om_abs k slots)) < 2 ^ k"
  obtains e where "e < 2 ^ k" "om_tab k slots e = None"
  using assms free_slot [of "2 ^ k" "om_tab k slots"] by (auto simp: om_abs_def om_inv_def probe_inv_def)

section \<open>find\<close>

text \<open>\<open>points_to k slots ref p\<close>: slot \<open>p\<close> is the live slot of \<open>ref\<close>.\<close>

definition points_to :: "nat \<Rightarrow> order_map \<Rightarrow> u64 \<Rightarrow> u32 \<Rightarrow> bool" where
  "points_to k slots ref p \<longleftrightarrow> p AND mask k = p \<and> s_occupied (slots p) \<and> s_key (slots p) = ref
     \<and> om_abs k slots ref = Some (s_entry (slots p))"

lemma om_find_from_sound:
  assumes k: "k \<le> 32" and inv: "om_inv k slots"
    and e: "e < 2 ^ k" "om_tab k slots e = None"
    and path: "\<And>j. j < 2 ^ k \<Longrightarrow> cdist (2 ^ k) (om_home k ref) j < cdist (2 ^ k) (om_home k ref) (slot_no k pos)
      \<Longrightarrow> \<exists>x v. om_tab k slots j = Some (x, v) \<and> x \<noteq> ref"
  shows "\<exists>r. om_find_from (mask k) slots ref pos = Some r
    \<and> (case r of None \<Rightarrow> om_abs k slots ref = None | Some p \<Rightarrow> points_to k slots ref p)"
  using path
proof (induction "cdist (2 ^ k) (slot_no k pos) e" arbitrary: pos rule: less_induct)
  case less
  let ?s = "slots (pos AND mask k)" and ?C = "2 ^ k :: nat"
  note tab = om_tab_slot [of k slots pos]
  consider (empty) "\<not> s_occupied ?s" | (found) "s_occupied ?s" "s_key ?s = ref"
    | (other) "s_occupied ?s" "s_key ?s \<noteq> ref" by blast
  then show ?case
  proof cases
    case empty
    have "om_abs k slots ref = None"
      unfolding om_abs_def using inv [unfolded om_inv_def]
    proof (rule om.find_miss)
      show "om_tab k slots (slot_no k pos) = None" using empty tab by simp
    qed (use less.prems in force)+
    with empty show ?thesis by (subst om_find_from.simps) simp
  next
    case found
    then have "om_abs k slots ref = Some (s_entry ?s)"
      unfolding om_abs_def using inv [unfolded om_inv_def] tab
      by (intro om.find_hit [where i = "slot_no k pos"]) simp_all
    with found show ?thesis
      by (subst om_find_from.simps) (simp add: points_to_def and.assoc)
  next
    case other
    let ?Q = "\<lambda>j. \<exists>x v. om_tab k slots j = Some (x, v) \<and> x \<noteq> ref"
    have Q: "?Q (slot_no k pos)" "\<not> ?Q e" using other tab e by simp_all
    note adv = path_advance [of "om_home k ref" ?C "slot_no k pos" e ?Q, OF _ _ e(1) Q(2) less.prems Q(1)]
    have "\<exists>r. om_find_from (mask k) slots ref (pos + 1) = Some r
      \<and> (case r of None \<Rightarrow> om_abs k slots ref = None | Some p \<Rightarrow> points_to k slots ref p)"
      using adv by (intro less.hyps) (simp_all add: slot_no_succ [OF k])
    with other show ?thesis by (subst om_find_from.simps) (simp add: Let_def)
  qed
qed

lemma om_find_sound:
  assumes "k \<le> 32" and "om_inv k slots" and "card (dom (om_abs k slots)) < 2 ^ k"
  shows "\<exists>r. om_find (mask k) slots ref = Some r
    \<and> (case r of None \<Rightarrow> om_abs k slots ref = None | Some p \<Rightarrow> points_to k slots ref p)"
proof -
  obtain e where "e < 2 ^ k" "om_tab k slots e = None" using assms(2,3) by (rule om_free_slot)
  then show ?thesis
    unfolding om_find_def using assms(1,2)
    by (intro om_find_from_sound [of k slots e]) (simp_all add: om_home_def)
qed

section \<open>insert\<close>

lemma om_insert_from_sound:
  assumes k: "k \<le> 32" and inv: "om_inv k slots"
    and e: "e < 2 ^ k" "om_tab k slots e = None"
    and path: "occupied_path (2 ^ k) (om_home k ref) (om_tab k slots) (slot_no k pos)"
    and new: "om_abs k slots ref = None"
  shows "\<exists>slots'. om_insert_from (mask k) slots ref v pos = Some slots'
    \<and> om_inv k slots' \<and> om_abs k slots' = (om_abs k slots)(ref \<mapsto> v)"
  using path
proof (induction "cdist (2 ^ k) (slot_no k pos) e" arbitrary: pos rule: less_induct)
  case less
  let ?s = "slots (pos AND mask k)" and ?C = "2 ^ k :: nat"
  note tab = om_tab_slot [of k slots pos]
  show ?case
  proof (cases "s_occupied ?s")
    case False
    let ?n = "slots(pos AND mask k := \<lparr>s_key = ref, s_entry = v, s_occupied = True\<rparr>)"
    have upd: "om_tab k ?n = (om_tab k slots)(slot_no k pos \<mapsto> (ref, v))"
      by (simp add: om_tab_upd [OF k])
    have "om_tab k slots (slot_no k pos) = None" using False tab by simp
    note ins = om.insert_sound [OF inv [unfolded om_inv_def] slot_no_less this
        new [unfolded om_abs_def] less.prems]
    with False upd show ?thesis
      by (subst om_insert_from.simps) (simp add: om_inv_def om_abs_def)
  next
    case True
    let ?Q = "\<lambda>j. om_tab k slots j \<noteq> None"
    have Q: "?Q (slot_no k pos)" "\<not> ?Q e" using True tab e by simp_all
    note adv = path_advance [of "om_home k ref" ?C "slot_no k pos" e ?Q, OF _ _ e(1) Q(2) _ Q(1)]
    have "\<exists>slots'. om_insert_from (mask k) slots ref v (pos + 1) = Some slots'
      \<and> om_inv k slots' \<and> om_abs k slots' = (om_abs k slots)(ref \<mapsto> v)"
      using adv less.prems
      by (intro less.hyps) (simp_all add: slot_no_succ [OF k] occupied_path_def)
    with True show ?thesis by (subst om_insert_from.simps) (simp add: Let_def)
  qed
qed

lemma om_insert_sound:
  assumes "k \<le> 32" and "om_inv k slots" and "card (dom (om_abs k slots)) < 2 ^ k"
    and "om_abs k slots ref = None"
  shows "\<exists>slots'. om_insert (mask k) slots ref price shares sd = Some slots' \<and> om_inv k slots'
    \<and> om_abs k slots' = (om_abs k slots)(ref \<mapsto> \<lparr>oe_price = price, oe_shares = shares, oe_side = sd\<rparr>)"
proof -
  obtain e where "e < 2 ^ k" "om_tab k slots e = None" using assms(2,3) by (rule om_free_slot)
  then show ?thesis
    unfolding om_insert_def using assms
    by (intro om_insert_from_sound [of k slots e]) (simp_all add: om_home_def occupied_path_def)
qed

section \<open>erase\<close>

text \<open>
  The seek loop stops at the live slot of a present key: every slot before it on the path
  is live and holds another key, so no stale key of an emptied slot is met.
\<close>

lemma om_seek_sound:
  assumes k: "k \<le> 32" and inv: "om_inv k slots"
    and i: "i < 2 ^ k" "om_tab k slots i = Some (ref, v)"
    and path: "cdist (2 ^ k) (om_home k ref) (slot_no k pos) \<le> cdist (2 ^ k) (om_home k ref) i"
  shows "\<exists>p. om_seek (mask k) slots ref pos = Some p \<and> slot_no k p = i"
  using path
proof (induction "cdist (2 ^ k) (slot_no k pos) i" arbitrary: pos rule: less_induct)
  case less
  let ?s = "slots (pos AND mask k)" and ?C = "2 ^ k :: nat"
  note tab = om_tab_slot [of k slots pos]
  show ?case
  proof (cases "slot_no k pos = i")
    case True
    with i tab have "s_key ?s = ref" by (auto split: if_splits)
    with True show ?thesis by (subst om_seek.simps) simp
  next
    case False
    then have lt: "cdist ?C (om_home k ref) (slot_no k pos) < cdist ?C (om_home k ref) i"
      using less.prems cdist_inj [of "om_home k ref" ?C "slot_no k pos" i] i by simp
    then have "om_tab k slots (slot_no k pos) \<noteq> None"
      using probe_invD [OF inv [unfolded om_inv_def] i] by simp
    then obtain x w where x: "om_tab k slots (slot_no k pos) = Some (x, w)" by auto
    then have "x \<noteq> ref"
      using om_inv_unique [OF inv] i False unfolding unique_keys_def by (metis slot_no_less)
    with x tab have key: "s_key ?s \<noteq> ref" by (auto split: if_splits)
    let ?Q = "\<lambda>j. cdist ?C (om_home k ref) j < cdist ?C (om_home k ref) i"
    note adv = path_advance [of "om_home k ref" ?C "slot_no k pos" i ?Q, OF _ _ i(1) _ _ lt]
    have closer: "cdist ?C (slot_no k pos) i = Suc (cdist ?C (csucc ?C (slot_no k pos)) i)"
      using adv(2) lt by simp
    have "cdist ?C (om_home k ref) (csucc ?C (slot_no k pos)) \<le> cdist ?C (om_home k ref) i"
      using adv(1) [of i] lt i(1) by (simp add: not_less [symmetric]) (meson less_trans)
    then have "\<exists>p. om_seek (mask k) slots ref (pos + 1) = Some p \<and> slot_no k p = i"
      using closer by (intro less.hyps) (simp_all add: slot_no_succ [OF k])
    with key show ?thesis by (subst om_seek.simps) simp
  qed
qed

lemma om_shift_sound:
  assumes k: "k \<le> 32" and e: "e < 2 ^ k"
  shows "shift_inv (2 ^ k) (om_home k) (om_tab k slots) (slot_no k hole) (slot_no k pos)
    \<Longrightarrow> om_tab k slots e = None \<Longrightarrow> e \<noteq> slot_no k hole
    \<Longrightarrow> \<exists>slots'. om_shift (mask k) slots hole pos = Some slots' \<and> om_inv k slots'
      \<and> om_abs k slots' = om_abs k slots"
proof (induction "cdist (2 ^ k) (slot_no k pos) e" arbitrary: slots hole pos rule: less_induct)
  case less
  let ?s = "slots (pos AND mask k)" and ?C = "2 ^ k :: nat" and ?t = "om_tab k slots"
  let ?h = "slot_no k hole" and ?p = "slot_no k pos"
  let ?v = "(s_key ?s, s_entry ?s)" and ?home = "om_hash (s_key ?s)"
  note tab = om_tab_slot [of k slots pos]
  show ?case
  proof (cases "s_occupied ?s")
    case False
    then have "om_inv k slots"
      using less.prems(1) tab by (simp add: om_inv_def om.shift_done)
    with False show ?thesis by (subst om_shift.simps) simp
  next
    case True
    then have tp: "?t ?p = Some ?v" using tab by simp
    then have pe: "?p \<noteq> e" using less.prems(2) by auto
    have closer: "cdist ?C (slot_no k (pos + 1)) e < cdist ?C ?p e"
      using cdist_csucc_left [OF slot_no_less e pe] by (simp add: slot_no_succ [OF k])
    have test: "(hole - ?home) AND mask k < (pos - ?home) AND mask k
        \<longleftrightarrow> cdist ?C (om_home k (s_key ?s)) ?h < cdist ?C (om_home k (s_key ?s)) ?p"
      by (simp add: word_less_nat_alt masked_diff [OF k] om_home_def)
    show ?thesis
    proof (cases "(hole - ?home) AND mask k < (pos - ?home) AND mask k")
      case True
      let ?n = "slots(hole AND mask k := ?s, pos AND mask k := ?s\<lparr>s_occupied := False\<rparr>)"
      have upd: "om_tab k ?n = ?t(?h \<mapsto> ?v, ?p := None)"
        using \<open>s_occupied ?s\<close> by (simp add: om_tab_upd [OF k])
      note mv = om.shift_move [OF less.prems(1) tp True [unfolded test]]
      have "\<exists>slots'. om_shift (mask k) ?n pos (pos + 1) = Some slots' \<and> om_inv k slots'
          \<and> om_abs k slots' = om_abs k ?n"
        using closer mv(1) less.prems(2,3) pe by (intro less.hyps) (auto simp: upd slot_no_succ [OF k])
      moreover have "om_abs k ?n = om_abs k slots" using mv(2) by (simp add: om_abs_def upd)
      ultimately show ?thesis
        using True \<open>s_occupied ?s\<close> by (subst om_shift.simps) (simp add: Let_def)
    next
      case False
      have "\<exists>slots'. om_shift (mask k) slots hole (pos + 1) = Some slots' \<and> om_inv k slots'
          \<and> om_abs k slots' = om_abs k slots"
        using closer om.shift_skip [OF less.prems(1) tp _ e less.prems(2,3)] less.prems(2,3)
          False [unfolded test]
        by (intro less.hyps) (auto simp: slot_no_succ [OF k])
      then show ?thesis
        using False \<open>s_occupied ?s\<close> by (subst om_shift.simps) (simp add: Let_def)
    qed
  qed
qed

lemma om_erase_sound:
  assumes k: "0 < k" "k \<le> 32" and inv: "om_inv k slots" and room: "card (dom (om_abs k slots)) < 2 ^ k"
    and ref: "om_abs k slots ref \<noteq> None"
  shows "\<exists>slots'. om_erase (mask k) slots ref = Some slots' \<and> om_inv k slots'
    \<and> om_abs k slots' = (om_abs k slots)(ref := None)"
proof -
  let ?C = "2 ^ k :: nat"
  obtain e where e: "e < ?C" "om_tab k slots e = None" using inv room by (rule om_free_slot)
  obtain i v where i: "i < ?C" "om_tab k slots i = Some (ref, v)"
    using ref probe_map_Some [OF om_inv_unique [OF inv]] unfolding om_abs_def by blast
  have "om_home k ref = slot_no k (om_hash ref)" by (simp add: om_home_def)
  then obtain p where p: "om_seek (mask k) slots ref (om_hash ref) = Some p" "slot_no k p = i"
    using om_seek_sound [OF k(2) inv i, of "om_hash ref"] by auto
  let ?n = "slots(p AND mask k := (slots (p AND mask k))\<lparr>s_occupied := False\<rparr>)"
  have upd: "om_tab k ?n = (om_tab k slots)(i := None)" by (simp add: om_tab_upd [OF k(2)] p(2))
  have "1 < ?C" using k(1) by (intro one_less_power) simp_all
  note st = om.shift_start [OF inv [unfolded om_inv_def] i this]
  have "\<exists>slots'. om_shift (mask k) ?n p (p + 1) = Some slots' \<and> om_inv k slots'
      \<and> om_abs k slots' = om_abs k ?n"
    using e i st(1)
    by (intro om_shift_sound [OF k(2) e(1)]) (auto simp: upd p(2) slot_no_succ [OF k(2)])
  moreover have "om_abs k ?n = (om_abs k slots)(ref := None)"
    using st(2) by (simp add: om_abs_def upd)
  ultimately show ?thesis by (simp add: om_erase_def p(1))
qed

section \<open>Writing through the pointer, and the initial table\<close>

lemma points_to_slot:
  assumes "k \<le> 32" and "points_to k slots ref p"
  shows "om_tab k slots (slot_no k p) = Some (ref, s_entry (slots p))"
  using assms by (simp add: points_to_def om_tab_slot)

lemma om_write_sound:
  assumes k: "k \<le> 32" and inv: "om_inv k slots" and p: "points_to k slots ref p"
  shows "om_inv k (om_write slots p e)" and "om_abs k (om_write slots p e) = (om_abs k slots)(ref \<mapsto> e)"
proof -
  let ?t = "om_tab k slots" and ?C = "2 ^ k :: nat"
  note tp = points_to_slot [OF k p]
  have pm: "p AND mask k = p" and occ: "s_occupied (slots p)" "s_key (slots p) = ref"
    using p by (simp_all add: points_to_def)
  have upd: "om_tab k (om_write slots p e) = ?t(slot_no k p \<mapsto> (ref, e))"
    using om_tab_upd [OF k, of slots p "(slots p)\<lparr>s_entry := e\<rparr>"] occ
    by (simp add: om_write_def pm)
  have uq: "unique_keys ?C ?t" using inv by (rule om_inv_unique)
  have uq': "unique_keys ?C (?t(slot_no k p \<mapsto> (ref, e)))"
    unfolding unique_keys_def fun_upd_apply using uq tp unfolding unique_keys_def
    by (metis (no_types, lifting) option.inject prod.inject slot_no_less)
  have some: "(?t(slot_no k p \<mapsto> (ref, e))) j = None \<longleftrightarrow> ?t j = None" for j
    using tp by auto
  have keys: "\<exists>w. ?t j = Some (x, w)" if "(?t(slot_no k p \<mapsto> (ref, e))) j = Some (x, v)" for j x v
    using that tp by (auto split: if_splits)
  show "om_inv k (om_write slots p e)"
    using inv uq' unfolding om_inv_def upd probe_inv_def occupied_path_def some by (metis keys)
  have "probe_map ?C (?t(slot_no k p \<mapsto> (ref, e))) x = Some w \<longleftrightarrow> ((probe_map ?C ?t)(ref \<mapsto> e)) x = Some w"
    for x w
  proof (cases "x = ref")
    case True
    then show ?thesis
      using uq' unfolding probe_map_Some [OF uq'] unique_keys_def
      by (auto intro: exI [of _ "slot_no k p"])
  next
    case False
    then have "(?t(slot_no k p \<mapsto> (ref, e))) j = Some (x, w) \<longleftrightarrow> ?t j = Some (x, w)" for j
      using tp by auto
    with False show ?thesis by (simp add: probe_map_Some [OF uq] probe_map_Some [OF uq'])
  qed
  then show "om_abs k (om_write slots p e) = (om_abs k slots)(ref \<mapsto> e)"
    unfolding om_abs_def upd by (intro ext) (metis not_None_eq)
qed

lemma om_new_sound: "om_inv k om_new" "om_abs k om_new = Map.empty"
proof -
  have tab: "om_tab k om_new = (\<lambda>_. None)" by (simp add: om_tab_def om_new_def fun_eq_iff)
  then show "om_inv k om_new" by (simp add: om_inv_def probe_inv_def unique_keys_def)
  show "om_abs k om_new = Map.empty"
    by (intro ext) (simp add: om_abs_def tab probe_map_def find_None_iff split: option.splits)
qed

section \<open>The store contract\<close>

text \<open>The entry a \<open>find\<close> points to, and the class's operations in the shape of the contract.\<close>

definition om_get :: "nat \<Rightarrow> order_map \<Rightarrow> u64 \<Rightarrow> order_entry option option" where
  "om_get k slots ref = map_option (map_option (\<lambda>p. s_entry (slots p))) (om_find (mask k) slots ref)"

definition om_put :: "nat \<Rightarrow> order_map \<Rightarrow> u64 \<Rightarrow> order_entry \<Rightarrow> order_map option" where
  "om_put k slots ref e = om_insert (mask k) slots ref (oe_price e) (oe_shares e) (oe_side e)"

text \<open>The instance core uses: \<open>DEFAULT_ORDER_CAPACITY\<close> is \<open>2 ^ 20\<close>.\<close>

interpretation om_store: order_store "om_inv 20" "om_abs 20" "2 ^ 20" "om_get 20" "om_put 20"
  "om_erase (mask 20)" "\<lambda>_ _. True"
proof unfold_locales
  fix s ref v
  show "finite (dom (om_abs 20 s))" by (simp add: om_abs_def finite_dom_probe_map)
  assume inv: "om_inv 20 s"
  show "om_get 20 s ref = Some (om_abs 20 s ref)" if "card (dom (om_abs 20 s)) < 2 ^ 20"
    using om_find_sound [OF _ inv that, of ref]
    by (auto simp: om_get_def points_to_def split: option.splits)
  show "\<exists>s'. om_put 20 s ref v = Some s' \<and> om_inv 20 s' \<and> om_abs 20 s' = (om_abs 20 s)(ref \<mapsto> v)"
    if "card (dom (om_abs 20 s)) + 1 < 2 ^ 20" "om_abs 20 s ref = None"
    using om_insert_sound [OF _ inv _ that(2), of "oe_price v" "oe_shares v" "oe_side v"] that(1)
    by (cases v) (simp add: om_put_def)
  show "\<exists>s'. om_erase (mask 20) s ref = Some s' \<and> om_inv 20 s' \<and> om_abs 20 s' = (om_abs 20 s)(ref := None)"
    if "card (dom (om_abs 20 s)) < 2 ^ 20" "om_abs 20 s ref \<noteq> None"
    by (rule om_erase_sound) (use inv that in auto)
qed

section \<open>A full table\<close>

lemma om_find_from_stops:
  assumes "om_find_from M slots ref pos = Some r"
  shows "\<exists>i. \<not> s_occupied (slots (i AND M)) \<or> s_key (slots (i AND M)) = ref"
  by (rule om_find_from.raw_induct [OF _ assms, of "\<lambda>M slots ref pos r.
      \<exists>i. \<not> s_occupied (slots (i AND M)) \<or> s_key (slots (i AND M)) = ref"])
    (auto simp: Let_def split: if_splits)

end
