(* ===== verification/Bitmap.thy ===== *)
theory Bitmap
  imports Prelude
begin

text \<open>
  \<open>src/core/level_bitmap.hpp\<close>: the hierarchical radix-64 occupancy bitmap.  The template
  \<open>OccupancyBitmap<NBits>\<close> is recursive (a leaf word, or words summarised by a bitmap over
  the words), so the model is a datatype and the template argument is the first argument of
  the constructor function \<open>bm_empty\<close>.  The class is shown to implement a set of bit
  positions: \<open>bm_test\<close> reads the set, \<open>set\<close>/\<open>clear\<close>/\<open>reset\<close> update it, and
  \<open>next_set\<close>/\<open>prev_set\<close> return the nearest member, under the header's invariant that a
  summary bit is set iff its word is not empty.
\<close>

section \<open>The class\<close>

definition BITMAP_NPOS :: u32 where
  "BITMAP_NPOS = - 1"

datatype bitmap =
    Leaf u64
  | Interior nat "u32 \<Rightarrow> u64" bitmap \<comment> \<open>NWORDS, words, summary\<close>

text \<open>The default constructor: all words zero, at every tier.\<close>

fun bm_empty :: "nat \<Rightarrow> bitmap" where
  "bm_empty nbits =
     (if nbits \<le> 64 then Leaf 0
      else Interior ((nbits + 63) div 64) (\<lambda>_. 0) (bm_empty ((nbits + 63) div 64)))"

declare bm_empty.simps [simp del]

primrec bm_reset :: "bitmap \<Rightarrow> bitmap" where
  "bm_reset (Leaf w) = Leaf 0"
| "bm_reset (Interior n ws s) =
     Interior n (\<lambda>i. if unat i < n then 0 else ws i) (bm_reset s)"

primrec bm_set :: "bitmap \<Rightarrow> u32 \<Rightarrow> bitmap" where
  "bm_set (Leaf w) i = Leaf (w OR push_bit (unat i) 1)"
| "bm_set (Interior n ws s) i =
     (let k = drop_bit 6 i in
      Interior n (ws(k := ws k OR push_bit (unat (i AND 63)) 1)) (bm_set s k))"

primrec bm_clear :: "bitmap \<Rightarrow> u32 \<Rightarrow> bitmap" where
  "bm_clear (Leaf w) i = Leaf (w AND NOT (push_bit (unat i) 1))"
| "bm_clear (Interior n ws s) i =
     (let w = drop_bit 6 i;
          ws' = ws(w := ws w AND NOT (push_bit (unat (i AND 63)) 1))
      in Interior n ws' (if ws' w = 0 then bm_clear s w else s))"

primrec bm_next_set :: "bitmap \<Rightarrow> u32 \<Rightarrow> u32" where
  "bm_next_set (Leaf word) i =
     (if 64 \<le> i then BITMAP_NPOS
      else let m = word AND push_bit (unat i) (NOT 0)
           in if m \<noteq> 0 then word_of_nat (ctzll m) else BITMAP_NPOS)"
| "bm_next_set (Interior n ws s) i =
     (let w = drop_bit 6 i in
      if n \<le> unat w then BITMAP_NPOS
      else let m = ws w AND push_bit (unat (i AND 63)) (NOT 0)
           in if m \<noteq> 0 then push_bit 6 w OR word_of_nat (ctzll m)
              else let w' = bm_next_set s (w + 1)
                   in if w' = BITMAP_NPOS then BITMAP_NPOS
                      else push_bit 6 w' OR word_of_nat (ctzll (ws w')))"

primrec bm_prev_set :: "bitmap \<Rightarrow> u32 \<Rightarrow> u32" where
  "bm_prev_set (Leaf word) i =
     (let m = (if 63 \<le> i then word else word AND (push_bit (unat (i + 1)) 1 - 1))
      in if m \<noteq> 0 then 63 - word_of_nat (clzll m) else BITMAP_NPOS)"
| "bm_prev_set (Interior n ws s) i =
     (let w = drop_bit 6 i; b = i AND 63;
          m = (if b = 63 then ws w else ws w AND (push_bit (unat (b + 1)) 1 - 1))
      in if m \<noteq> 0 then push_bit 6 w OR (63 - word_of_nat (clzll m))
         else if w = 0 then BITMAP_NPOS
         else let w' = bm_prev_set s (w - 1)
              in if w' = BITMAP_NPOS then BITMAP_NPOS
                 else push_bit 6 w' OR (63 - word_of_nat (clzll (ws w'))))"

section \<open>Abstraction and invariant\<close>

text \<open>\<open>bm_test\<close> reads one bit of the lowest tier, the set the bitmap stands for.\<close>

primrec bm_test :: "bitmap \<Rightarrow> nat \<Rightarrow> bool" where
  "bm_test (Leaf w) j = bit w j"
| "bm_test (Interior n ws s) j =
     (j div 64 < n \<and> bit (ws (word_of_nat (j div 64))) (j mod 64))"

primrec bm_inv :: "nat \<Rightarrow> bitmap \<Rightarrow> bool" where
  "bm_inv nbits (Leaf w) = (nbits \<le> 64 \<and> (\<forall>j. bit w j \<longrightarrow> j < nbits))"
| "bm_inv nbits (Interior n ws s) =
     (64 < nbits \<and> n = (nbits + 63) div 64 \<and> bm_inv n s
      \<and> (\<forall>k<n. bm_test s k \<longleftrightarrow> ws (word_of_nat k) \<noteq> 0)
      \<and> (\<forall>j. j div 64 < n \<longrightarrow> bit (ws (word_of_nat (j div 64))) (j mod 64) \<longrightarrow> j < nbits))"

definition next_of :: "(nat \<Rightarrow> bool) \<Rightarrow> nat \<Rightarrow> u32 \<Rightarrow> bool" where
  "next_of P i r \<longleftrightarrow>
     (if r = BITMAP_NPOS then \<forall>j\<ge>i. \<not> P j
      else i \<le> unat r \<and> P (unat r) \<and> (\<forall>j. i \<le> j \<longrightarrow> j < unat r \<longrightarrow> \<not> P j))"

definition prev_of :: "(nat \<Rightarrow> bool) \<Rightarrow> nat \<Rightarrow> u32 \<Rightarrow> bool" where
  "prev_of P i r \<longleftrightarrow>
     (if r = BITMAP_NPOS then \<forall>j\<le>i. \<not> P j
      else unat r \<le> i \<and> P (unat r) \<and> (\<forall>j. unat r < j \<longrightarrow> j \<le> i \<longrightarrow> \<not> P j))"

section \<open>Words and positions\<close>

lemma drop_6_of_nat: "drop_bit 6 (i :: u32) = word_of_nat (unat i div 64)"
proof -
  have "unat i div 64 < 2 ^ 32"
    using unat_u32_less [of i] by (simp add: order.strict_trans1 [OF div_le_dividend])
  then show ?thesis
    by (simp add: word_unat_eq_iff unat_drop_bit unat_of_nat)
qed

lemma word_of_nat_inj_u32:
  "a < 2 ^ 32 \<Longrightarrow> b < 2 ^ 32 \<Longrightarrow> (word_of_nat a :: u32) = word_of_nat b \<longleftrightarrow> a = b"
  by (metis unat_of_nat_u32)

lemma bit_or_push: "bit (w OR push_bit n (1 :: u64)) j \<longleftrightarrow> bit w j \<or> (j = n \<and> n < 64)"
  by (auto simp: bit_or_iff bit_exp_iff)

lemma bit_clear_push: "bit (w AND NOT (push_bit n (1 :: u64))) j \<longleftrightarrow> bit w j \<and> j \<noteq> n"
  by (auto simp: bit_and_iff bit_not_iff bit_exp_iff dest: bit_imp_le_length)

lemma bit_ge_mask: "bit (w AND push_bit n (NOT (0 :: u64))) j \<longleftrightarrow> bit w j \<and> n \<le> j"
  by (auto simp: bit_and_iff bit_not_iff bit_mask_iff dest: bit_imp_le_length)

lemma bit_le_mask:
  "n < 64 \<Longrightarrow> bit (w AND (push_bit n (1 :: u64) - 1)) j \<longleftrightarrow> bit w j \<and> j < n"
  by (auto simp: bit_and_iff bit_mask_iff mask_eq_exp_minus_1 [symmetric]
      dest: bit_imp_le_length)

lemmas bit_masks = bit_or_push bit_or_push [simplified]
  bit_clear_push bit_clear_push [simplified]
  bit_ge_mask bit_ge_mask [simplified]
  bit_le_mask bit_le_mask [simplified]

lemma bit_nat_lt_64:
  assumes "c < 64" and "bit (c :: nat) k"
  shows "k < 6"
proof (rule ccontr)
  assume "\<not> k < 6"
  then have "(2 :: nat) ^ 6 \<le> 2 ^ k" by (intro power_increasing) simp_all
  with assms(1) have "c div 2 ^ k = 0" by simp
  with assms(2) show False by (simp add: bit_iff_odd)
qed

lemma unat_join:
  assumes "c < 64" and "unat (w :: u32) < 2 ^ 26"
  shows "unat (push_bit 6 w OR word_of_nat c) = 64 * unat w + c"
proof -
  have dis: "push_bit 6 w OR word_of_nat c = push_bit 6 w + (word_of_nat c :: u32)"
  proof (rule disjunctive_add [symmetric])
    show "\<not> bit (push_bit 6 w) k \<or> \<not> bit (word_of_nat c :: u32) k" for k
      using bit_nat_lt_64 [OF assms(1), of k]
      by (auto simp: bit_push_bit_iff bit_of_nat_iff)
  qed
  have p: "unat (push_bit 6 w) = 64 * unat w"
    using assms(2) by (simp add: push_bit_eq_mult unat_word_ariths mult.commute)
  have c: "unat (word_of_nat c :: u32) = c"
    using assms(1) by (simp add: unat_of_nat_u32)
  show ?thesis
    unfolding dis using assms by (subst unat_add_no_wrap) (simp_all add: p c)
qed

lemma unat_63_minus: "c < 64 \<Longrightarrow> unat (63 - word_of_nat c :: u32) = 63 - c"
  by (subst unat_sub_no_borrow) (simp_all add: unat_of_nat_u32)

section \<open>The operations on the set\<close>

lemma bm_test_less: "bm_inv N bm \<Longrightarrow> bm_test bm j \<Longrightarrow> j < N"
  by (cases bm) auto

lemma bm_inv_InteriorI:
  assumes "64 < N" "n = (N + 63) div 64" "bm_inv n s"
    and "\<And>k. k < n \<Longrightarrow> bm_test s k \<longleftrightarrow> ws (word_of_nat k) \<noteq> 0"
    and "\<And>j. bm_test (Interior n ws s) j \<Longrightarrow> j < N"
  shows "bm_inv N (Interior n ws s)"
  using assms by auto

lemma bm_inv_empty: "bm_inv n (bm_empty n) \<and> (\<forall>j. \<not> bm_test (bm_empty n) j)"
proof (induction n rule: bm_empty.induct)
  case (1 n)
  then show ?case
    by (subst (1 2) bm_empty.simps) auto
qed

lemma bm_reset_sound:
  "bm_inv N bm \<Longrightarrow> N < 2 ^ 31 \<Longrightarrow> bm_inv N (bm_reset bm) \<and> (\<forall>j. \<not> bm_test (bm_reset bm) j)"
proof (induction bm arbitrary: N)
  case (Interior n ws s)
  then have "n < 2 ^ 31" by auto
  with Interior show ?case
    by (auto simp: unat_of_nat_u32)
qed simp

lemma bm_set_sound:
  assumes "bm_inv N bm" and "unat i < N" and "N < 2 ^ 31"
  shows "bm_inv N (bm_set bm i) \<and> (\<forall>j. bm_test (bm_set bm i) j \<longleftrightarrow> j = unat i \<or> bm_test bm j)"
  using assms
proof (induction bm arbitrary: N i)
  case (Leaf w)
  then show ?case by (auto simp: bit_masks)
next
  case (Interior n ws s)
  define k where "k = unat i div 64"
  have k: "k < n" and n: "n < 2 ^ 31" and N: "64 * n < N + 64"
    using Interior.prems by (auto simp: k_def)
  have dk: "drop_bit 6 i = word_of_nat k" by (simp add: drop_6_of_nat k_def)
  have uk: "unat (word_of_nat k :: u32) = k" using k n by (simp add: unat_of_nat_u32)
  have IH: "bm_inv n (bm_set s (word_of_nat k))"
    "\<And>j. bm_test (bm_set s (word_of_nat k)) j \<longleftrightarrow> j = k \<or> bm_test s j"
    using Interior.IH [of n "word_of_nat k"] Interior.prems k n by (auto simp: uk)
  have eqk: "(word_of_nat j :: u32) = word_of_nat k \<longleftrightarrow> j = k" if "j < n" for j
    using that k n by (intro word_of_nat_inj_u32) auto
  let ?w = "ws (word_of_nat k) OR push_bit (unat i mod 64) (1 :: u64)"
  have bit: "bit ?w j \<longleftrightarrow> bit (ws (word_of_nat k)) j \<or> j = unat i mod 64" for j
    by (simp only: bit_or_push) simp
  then have nz: "?w \<noteq> 0" by (metis bit_0_eq bot_apply bot_bool_def)
  have eq: "bm_set (Interior n ws s) i
      = Interior n (ws(word_of_nat k := ?w)) (bm_set s (word_of_nat k))"
    by (simp only: bm_set.simps Let_def dk unat_and_63)
  have test: "bm_test (bm_set (Interior n ws s) i) j
      \<longleftrightarrow> j = unat i \<or> bm_test (Interior n ws s) j" for j
  proof (cases "j div 64 = k")
    case True
    then have "j = unat i \<longleftrightarrow> j mod 64 = unat i mod 64"
      using div_mult_mod_eq [of j 64] div_mult_mod_eq [of "unat i" 64] by (auto simp: k_def)
    then show ?thesis using True k by (simp only: eq bm_test.simps fun_upd_same bit) auto
  next
    case False
    then have ne: "j \<noteq> unat i" by (auto simp: k_def)
    have "j div 64 < n \<Longrightarrow> (word_of_nat (j div 64) :: u32) \<noteq> word_of_nat k"
      using False by (simp only: eqk not_False_eq_True)
    with ne show ?thesis by (simp only: eq bm_test.simps fun_upd_other ne cong: conj_cong) simp
  qed
  have "bm_inv N (bm_set (Interior n ws s) i)"
    unfolding eq
  proof (rule bm_inv_InteriorI)
    show "bm_test (bm_set s (word_of_nat k)) j \<longleftrightarrow> (ws(word_of_nat k := ?w)) (word_of_nat j) \<noteq> 0"
      if "j < n" for j
      using Interior.prems(1) IH(2) nz that by (simp only: fun_upd_apply eqk [OF that]) auto
    show "j < N" if "bm_test (Interior n (ws(word_of_nat k := ?w)) (bm_set s (word_of_nat k))) j" for j
      using that Interior.prems bm_test_less [OF Interior.prems(1)] by (auto simp only: test [unfolded eq])
  qed (use Interior.prems IH in auto)
  with test show ?case by blast
qed

lemma bm_clear_sound:
  assumes "bm_inv N bm" and "unat i < N" and "N < 2 ^ 31"
  shows "bm_inv N (bm_clear bm i) \<and> (\<forall>j. bm_test (bm_clear bm i) j \<longleftrightarrow> j \<noteq> unat i \<and> bm_test bm j)"
  using assms
proof (induction bm arbitrary: N i)
  case (Leaf w)
  then show ?case by (auto simp: bit_masks)
next
  case (Interior n ws s)
  define k where "k = unat i div 64"
  have k: "k < n" and n: "n < 2 ^ 31"
    using Interior.prems by (auto simp: k_def)
  have dk: "drop_bit 6 i = word_of_nat k" by (simp add: drop_6_of_nat k_def)
  have uk: "unat (word_of_nat k :: u32) = k" using k n by (simp add: unat_of_nat_u32)
  have IH: "bm_inv n (bm_clear s (word_of_nat k))"
    "\<And>j. bm_test (bm_clear s (word_of_nat k)) j \<longleftrightarrow> j \<noteq> k \<and> bm_test s j"
    using Interior.IH [of n "word_of_nat k"] Interior.prems k n by (auto simp: uk)
  have eqk: "(word_of_nat j :: u32) = word_of_nat k \<longleftrightarrow> j = k" if "j < n" for j
    using that k n by (intro word_of_nat_inj_u32) auto
  let ?w = "ws (word_of_nat k) AND NOT (push_bit (unat i mod 64) (1 :: u64))"
  let ?s = "if ?w = 0 then bm_clear s (word_of_nat k) else s"
  have bit: "bit ?w j \<longleftrightarrow> bit (ws (word_of_nat k)) j \<and> j \<noteq> unat i mod 64" for j
    by (rule bit_clear_push)
  then have nz: "?w \<noteq> 0 \<Longrightarrow> ws (word_of_nat k) \<noteq> 0" by (auto simp: bit_eq_iff)
  have eq: "bm_clear (Interior n ws s) i = Interior n (ws(word_of_nat k := ?w)) ?s"
    by (simp only: bm_clear.simps Let_def dk unat_and_63 fun_upd_same)
  have test: "bm_test (bm_clear (Interior n ws s) i) j
      \<longleftrightarrow> j \<noteq> unat i \<and> bm_test (Interior n ws s) j" for j
  proof (cases "j div 64 = k")
    case True
    then have "j = unat i \<longleftrightarrow> j mod 64 = unat i mod 64"
      using div_mult_mod_eq [of j 64] div_mult_mod_eq [of "unat i" 64] by (auto simp: k_def)
    then show ?thesis using True k by (simp only: eq bm_test.simps fun_upd_same bit) auto
  next
    case False
    then have ne: "j \<noteq> unat i" by (auto simp: k_def)
    have "j div 64 < n \<Longrightarrow> (word_of_nat (j div 64) :: u32) \<noteq> word_of_nat k"
      using False by (simp only: eqk not_False_eq_True)
    with ne show ?thesis by (simp only: eq bm_test.simps fun_upd_other ne cong: conj_cong) simp
  qed
  have sum: "bm_test ?s j \<longleftrightarrow> (ws(word_of_nat k := ?w)) (word_of_nat j) \<noteq> 0" if "j < n" for j
    using Interior.prems(1) IH(2) nz that k by (simp only: fun_upd_apply eqk [OF that]) auto
  have "bm_inv N (bm_clear (Interior n ws s) i)"
    unfolding eq
  proof (rule bm_inv_InteriorI)
    show "j < N" if "bm_test (Interior n (ws(word_of_nat k := ?w)) ?s) j" for j
      using that bm_test_less [OF Interior.prems(1)] by (simp only: test [unfolded eq])
    show "bm_inv n ?s" using Interior.prems(1) IH(1) by auto
  qed (use Interior.prems sum in auto)
  with test show ?case by blast
qed

section \<open>The scans\<close>

lemma next_ofI:
  assumes "r \<noteq> BITMAP_NPOS" "unat r = k" "i \<le> k" "P k" "\<And>j. i \<le> j \<Longrightarrow> j < k \<Longrightarrow> \<not> P j"
  shows "next_of P i r"
  using assms by (simp add: next_of_def)

lemma prev_ofI:
  assumes "r \<noteq> BITMAP_NPOS" "unat r = k" "k \<le> i" "P k" "\<And>j. k < j \<Longrightarrow> j \<le> i \<Longrightarrow> \<not> P j"
  shows "prev_of P i r"
  using assms by (simp add: prev_of_def)

lemma not_NPOS: "unat r < 2 ^ 31 \<Longrightarrow> r \<noteq> BITMAP_NPOS"
  by (auto simp: BITMAP_NPOS_def unsigned_minus_1_eq_mask mask_eq_exp_minus_1)

lemma div64_less: "a div 64 < b div 64 \<Longrightarrow> a < (b :: nat)"
  by (meson div_le_mono leI not_less)

lemma word_join_nth:
  assumes "c < 64" and "k < n" and "n \<le> 2 ^ 26"
  shows "unat (push_bit 6 (word_of_nat k :: u32) OR word_of_nat c) = 64 * k + c"
  using assms by (subst unat_join) (simp_all add: unat_of_nat_u32)

text \<open>
  One scan step: the lowest (highest) bit of a non-zero word \<open>m\<close> is the answer when \<open>m\<close>
  holds exactly the members of word \<open>k\<close> on the right side of \<open>i\<close> and no member lies between.
\<close>

lemma next_of_word:
  assumes m: "m \<noteq> 0" "\<And>c. c < 64 \<Longrightarrow> bit m c \<longleftrightarrow> P (64 * k + c) \<and> i \<le> 64 * k + c"
    and k: "k < n" "n \<le> 2 ^ 25"
    and gap: "\<And>j. i \<le> j \<Longrightarrow> j < 64 * k \<Longrightarrow> \<not> P j"
  shows "next_of P i (push_bit 6 (word_of_nat k) OR word_of_nat (ctzll m))"
proof (rule next_ofI)
  note c = ctzll_props [OF m(1)]
  show u: "unat (push_bit 6 (word_of_nat k :: u32) OR word_of_nat (ctzll m)) = 64 * k + ctzll m"
    using c(1) k by (intro word_join_nth) auto
  show "push_bit 6 (word_of_nat k) OR word_of_nat (ctzll m) \<noteq> BITMAP_NPOS"
    using u c(1) k by (intro not_NPOS) simp
  show "i \<le> 64 * k + ctzll m" and "P (64 * k + ctzll m)" using c m(2) by auto
  show "\<not> P j" if "i \<le> j" "j < 64 * k + ctzll m" for j
  proof (cases "j < 64 * k")
    case False
    with that c(1,3) m(2) [of "j - 64 * k"] show ?thesis by auto
  qed (use gap that in blast)
qed

lemma prev_of_word:
  assumes m: "m \<noteq> 0" "\<And>c. c < 64 \<Longrightarrow> bit m c \<longleftrightarrow> P (64 * k + c) \<and> 64 * k + c \<le> i"
    and k: "k < n" "n \<le> 2 ^ 25"
    and gap: "\<And>j. 64 * k + 63 < j \<Longrightarrow> j \<le> i \<Longrightarrow> \<not> P j"
  shows "prev_of P i (push_bit 6 (word_of_nat k) OR (63 - word_of_nat (clzll m)))"
proof (rule prev_ofI)
  note c = clzll_props [OF m(1)]
  have w: "63 - word_of_nat (clzll m) = (word_of_nat (63 - clzll m) :: u32)"
    using c(1) unat_63_minus [of "clzll m"] by (simp add: word_unat_eq_iff unat_of_nat_u32)
  show u: "unat (push_bit 6 (word_of_nat k :: u32) OR (63 - word_of_nat (clzll m)))
      = 64 * k + (63 - clzll m)"
    unfolding w using c(1) k by (intro word_join_nth) auto
  show "push_bit 6 (word_of_nat k) OR (63 - word_of_nat (clzll m)) \<noteq> BITMAP_NPOS"
    using u c(1) k by (intro not_NPOS) simp
  show "64 * k + (63 - clzll m) \<le> i" and "P (64 * k + (63 - clzll m))"
    using c m(2) [of "63 - clzll m"] by auto
  show "\<not> P j" if "64 * k + (63 - clzll m) < j" "j \<le> i" for j
  proof (cases "64 * k + 63 < j")
    case False
    then have "j - 64 * k < 64" and "63 - clzll m < j - 64 * k" using that by auto
    with that c(3) m(2) [of "j - 64 * k"] show ?thesis by auto
  qed (use gap that in blast)
qed

lemma interior_bit:
  assumes "k < n" "c < 64"
  shows "bm_test (Interior n ws s) (64 * k + c) \<longleftrightarrow> bit (ws (word_of_nat k)) c"
  using assms by simp

lemma le_block: "n \<le> 64 * (n div 64) + c \<longleftrightarrow> n mod 64 \<le> (c :: nat)"
  and ge_block: "64 * (n div 64) + c \<le> n \<longleftrightarrow> c \<le> n mod 64"
  using div_mult_mod_eq [of n 64] by linarith+

lemma interior_test_summary:
  "bm_inv N (Interior n ws s) \<Longrightarrow> bm_test (Interior n ws s) j \<Longrightarrow> j div 64 < n \<and> bm_test s (j div 64)"
  by auto

lemma interior_word_nonzero:
  "bm_inv N (Interior n ws s) \<Longrightarrow> bm_test s k \<Longrightarrow> k < n \<and> ws (word_of_nat k) \<noteq> 0"
  using bm_test_less by auto

lemma bm_next_set_sound:
  assumes "bm_inv N bm" and "N \<le> 2 ^ 31"
  shows "next_of (bm_test bm) (unat i) (bm_next_set bm i)"
  using assms
proof (induction bm arbitrary: N i)
  case (Leaf w)
  let ?m = "w AND push_bit (unat i) (NOT 0)"
  show ?case
  proof (cases "64 \<le> i \<or> ?m = 0")
    case True
    then have "\<not> bit w j" if "unat i \<le> j" for j
      using that bit_ge_mask [of w "unat i" j] bit_imp_le_length [of w j]
      by (auto simp: word_le_nat_alt)
    with True show ?thesis by (auto simp: next_of_def Let_def)
  next
    case False
    then show ?thesis
      using next_of_word [of ?m "bit w" 0 "unat i" 1] by (simp add: bit_masks Let_def)
  qed
next
  case (Interior n ws s)
  define k where "k = unat i div 64"
  have n: "n \<le> 2 ^ 25" "bm_inv n s" using Interior.prems by auto
  have dk: "drop_bit 6 i = word_of_nat k" by (simp add: drop_6_of_nat k_def)
  have k25: "k < 2 ^ 26" using unat_u32_less [of i] by (simp add: k_def)
  then have uk: "unat (word_of_nat k :: u32) = k" by (simp add: unat_of_nat_u32)
  have uk1: "unat (word_of_nat k + 1 :: u32) = k + 1"
    using k25 by (subst unat_Suc_no_wrap) (simp_all add: uk)
  let ?m = "ws (word_of_nat k) AND push_bit (unat i mod 64) (NOT 0)"
  let ?w = "bm_next_set s (word_of_nat k + 1)"
  let ?T = "bm_test (Interior n ws s)"
  have code: "bm_next_set (Interior n ws s) i =
    (if n \<le> k then BITMAP_NPOS
     else if ?m \<noteq> 0 then push_bit 6 (word_of_nat k) OR word_of_nat (ctzll ?m)
     else if ?w = BITMAP_NPOS then BITMAP_NPOS
     else push_bit 6 ?w OR word_of_nat (ctzll (ws ?w)))"
    by (simp only: bm_next_set.simps Let_def dk unat_and_63 uk)
  have bitm: "bit ?m c \<longleftrightarrow> ?T (64 * k + c) \<and> unat i \<le> 64 * k + c" if "k < n" "c < 64" for c
    using that interior_bit [OF that] by (auto simp only: bit_ge_mask) (auto simp: k_def le_block)
  have IH: "next_of (bm_test s) (k + 1) ?w"
    using Interior.IH [OF n(2), of "word_of_nat k + 1"] n(1) uk1 by simp
  have later: "k < j div 64" if "unat i \<le> j" "?T j" "n \<le> k \<or> ?m = 0" for j
  proof (rule ccontr)
    assume "\<not> k < j div 64"
    with div_le_mono [OF that(1), of 64] have "j div 64 = k" by (simp add: k_def)
    then have "k < n" "64 * k + j mod 64 = j"
      using interior_test_summary [OF Interior.prems(1) that(2)] div_mult_mod_eq [of j 64] by auto
    with bitm [of "j mod 64"] that have "bit ?m (j mod 64)" by simp
    moreover have "?m = 0" using \<open>k < n\<close> that(3) by (simp only: not_le [symmetric] simp_thms)
    ultimately show False by (simp only: bit_0_eq bot_apply bot_bool_def)
  qed
  consider (none) "n \<le> k \<or> ?m = 0 \<and> ?w = BITMAP_NPOS" | (here) "k < n" "?m \<noteq> 0"
    | (later) "k < n" "?m = 0" "?w \<noteq> BITMAP_NPOS" by linarith
  then show ?case
  proof cases
    case none
    then have "\<not> ?T j" if "unat i \<le> j" for j
      using later [OF that] interior_test_summary [OF Interior.prems(1), of j] IH
      by (auto simp: next_of_def)
    moreover have "bm_next_set (Interior n ws s) i = BITMAP_NPOS" unfolding code using none by presburger
    ultimately show ?thesis by (simp add: next_of_def)
  next
    case here
    have "next_of ?T (unat i) (push_bit 6 (word_of_nat k) OR word_of_nat (ctzll ?m))"
      using here(2) bitm [OF here(1)] here(1) n(1) by (rule next_of_word) (auto simp: k_def)
    with here show ?thesis by (simp only: code not_le if_not_P if_P simp_thms)
  next
    case later': later
    define k' where "k' = unat ?w"
    have w: "?w = word_of_nat k'" by (simp add: k'_def)
    have k': "k < k'" "bm_test s k'" "\<And>j. k < j \<Longrightarrow> j < k' \<Longrightarrow> \<not> bm_test s j"
      using IH later'(3) by (auto simp: next_of_def k'_def)
    note v = interior_word_nonzero [OF Interior.prems(1) k'(2)]
    have "next_of ?T (unat i) (push_bit 6 (word_of_nat k') OR word_of_nat (ctzll (ws (word_of_nat k'))))"
    proof (rule next_of_word [OF v [THEN conjunct2] _ v [THEN conjunct1] n(1)])
      show "bit (ws (word_of_nat k')) c \<longleftrightarrow> ?T (64 * k' + c) \<and> unat i \<le> 64 * k' + c" if "c < 64" for c
        using interior_bit [of k' n c ws s] that v k'(1) by (auto simp: k_def)
      show "\<not> ?T j" if "unat i \<le> j" "j < 64 * k'" for j
        using later [OF that(1)] k'(3) [of "j div 64"] later'(2) that(2)
          interior_test_summary [OF Interior.prems(1), of j] by auto
    qed
    with later' show ?thesis
      by (simp only: code w [symmetric] not_le if_not_P if_P simp_thms)
  qed
qed

lemma unat_and_63_eq_63: "(i :: u32) AND 63 = 63 \<longleftrightarrow> unat i mod 64 = 63"
  by (simp add: word_unat_eq_iff unat_and_63)

lemma prev_mask:
  "bit (if (b :: nat) = 63 then v else v AND (push_bit (Suc b) 1 - 1)) c \<longleftrightarrow> bit (v :: u64) c \<and> c \<le> b"
  if "b < 64"
proof (cases "b = 63")
  case False
  with that bit_le_mask [of "Suc b" v c] show ?thesis by (simp only: if_False) auto
qed (use bit_imp_le_length [of v c] in auto)

lemma bm_prev_set_sound:
  assumes "bm_inv N bm" and "N \<le> 2 ^ 31" and "unat i < N"
  shows "prev_of (bm_test bm) (unat i) (bm_prev_set bm i)"
  using assms
proof (induction bm arbitrary: N i)
  case (Leaf w)
  let ?m = "if 63 \<le> i then w else w AND (push_bit (unat (i + 1)) 1 - 1)"
  have i: "unat i < 64" "63 \<le> i \<longleftrightarrow> unat i = 63" and Si: "unat (i + 1) = Suc (unat i)"
    using Leaf by (auto simp: word_le_nat_alt unat_Suc_no_wrap)
  have m: "bit ?m c \<longleftrightarrow> bit w c \<and> c \<le> unat i" for c
    using prev_mask [OF i(1), of w c] by (simp only: i(2) Si)
  show ?case
  proof (cases "?m = 0")
    case True
    then have "\<not> bit w j" if "j \<le> unat i" for j using that m [of j] by simp
    with True show ?thesis by (simp only: bm_prev_set.simps Let_def) (auto simp: prev_of_def)
  next
    case False
    then have "prev_of (bit w) (unat i) (push_bit 6 (word_of_nat 0) OR (63 - word_of_nat (clzll ?m)))"
      by (rule prev_of_word [where n = 1]) (use m i in auto)
    with False show ?thesis by (simp only: bm_prev_set.simps Let_def bm_test.simps) simp
  qed
next
  case (Interior n ws s)
  define k where "k = unat i div 64"
  have n: "n \<le> 2 ^ 25" "bm_inv n s" and kn: "k < n" using Interior.prems by (auto simp: k_def)
  have dk: "drop_bit 6 i = word_of_nat k" by (simp add: drop_6_of_nat k_def)
  have uk: "unat (word_of_nat k :: u32) = k" using kn n by (simp add: unat_of_nat_u32)
  have uk1: "unat (word_of_nat k - 1 :: u32) = k - 1" if "k \<noteq> 0"
    using that by (subst unat_sub_no_borrow) (simp_all add: uk)
  have Sb: "unat ((i AND 63) + 1) = Suc (unat i mod 64)"
    by (subst unat_Suc_no_wrap) (simp_all add: unat_and_63)
  let ?b = "unat i mod 64"
  let ?m = "if ?b = 63 then ws (word_of_nat k)
    else ws (word_of_nat k) AND (push_bit (Suc ?b) 1 - 1)"
  let ?w = "bm_prev_set s (word_of_nat k - 1)"
  let ?T = "bm_test (Interior n ws s)"
  have k0: "(word_of_nat k :: u32) = 0 \<longleftrightarrow> k = 0" using uk by (auto simp: word_unat_eq_iff)
  have code: "bm_prev_set (Interior n ws s) i =
    (if ?m \<noteq> 0 then push_bit 6 (word_of_nat k) OR (63 - word_of_nat (clzll ?m))
     else if k = 0 then BITMAP_NPOS
     else if ?w = BITMAP_NPOS then BITMAP_NPOS
     else push_bit 6 ?w OR (63 - word_of_nat (clzll (ws ?w))))"
    by (simp only: bm_prev_set.simps Let_def dk unat_and_63_eq_63 Sb k0)
  have bitm: "bit ?m c \<longleftrightarrow> ?T (64 * k + c) \<and> 64 * k + c \<le> unat i" if "c < 64" for c
    using interior_bit [OF kn that] by (simp only: prev_mask [OF mod_less_divisor]) (auto simp: k_def ge_block)
  have IH: "prev_of (bm_test s) (k - 1) ?w" if "k \<noteq> 0"
    using Interior.IH [OF n(2), of "word_of_nat k - 1"] n(1) uk1 that kn by simp
  have sooner: "j div 64 < k" if "j \<le> unat i" "?T j" "?m = 0" for j
  proof (rule ccontr)
    assume "\<not> j div 64 < k"
    with div_le_mono [OF that(1), of 64] have "j div 64 = k" by (simp add: k_def)
    then have "64 * k + j mod 64 = j" using div_mult_mod_eq [of j 64] by auto
    with bitm [of "j mod 64"] that have "bit ?m (j mod 64)" by simp
    with that(3) show False by (simp only: bit_0_eq bot_apply bot_bool_def)
  qed
  consider (none) "?m = 0" "k = 0 \<or> ?w = BITMAP_NPOS" | (here) "?m \<noteq> 0"
    | (sooner) "?m = 0" "k \<noteq> 0" "?w \<noteq> BITMAP_NPOS" by blast
  then show ?case
  proof cases
    case none
    then have "\<not> ?T j" if "j \<le> unat i" for j
      using sooner [OF that] interior_test_summary [OF Interior.prems(1), of j] IH
      by (fastforce simp: prev_of_def)
    moreover have "bm_prev_set (Interior n ws s) i = BITMAP_NPOS" unfolding code using none by presburger
    ultimately show ?thesis by (simp add: prev_of_def)
  next
    case here
    have "prev_of ?T (unat i) (push_bit 6 (word_of_nat k) OR (63 - word_of_nat (clzll ?m)))"
      using here bitm kn n(1) by (rule prev_of_word) (auto simp: k_def)
    with here show ?thesis by (simp only: code not_False_eq_True if_True)
  next
    case sooner': sooner
    define k' where "k' = unat ?w"
    have w: "?w = word_of_nat k'" by (simp add: k'_def)
    have k': "k' < k" "bm_test s k'" "\<And>j. k' < j \<Longrightarrow> j < k \<Longrightarrow> \<not> bm_test s j"
      using IH [OF sooner'(2)] sooner'(2,3) by (auto simp: prev_of_def k'_def)
    note v = interior_word_nonzero [OF Interior.prems(1) k'(2)]
    have "prev_of ?T (unat i) (push_bit 6 (word_of_nat k') OR (63 - word_of_nat (clzll (ws (word_of_nat k')))))"
    proof (rule prev_of_word [OF v [THEN conjunct2] _ v [THEN conjunct1] n(1)])
      show "bit (ws (word_of_nat k')) c \<longleftrightarrow> ?T (64 * k' + c) \<and> 64 * k' + c \<le> unat i" if "c < 64" for c
        using interior_bit [of k' n c ws s] that v k'(1) by (auto simp: k_def)
      show "\<not> ?T j" if "64 * k' + 63 < j" "j \<le> unat i" for j
        using sooner [OF that(2)] k'(3) [of "j div 64"] sooner'(1) that(1)
          interior_test_summary [OF Interior.prems(1), of j] by auto
    qed
    with sooner' show ?thesis
      by (simp only: code w [symmetric] not_False_eq_True if_True if_False not_not simp_thms)
  qed
qed

section \<open>The index contract\<close>

text \<open>
  What the price-level array relies on: a set of positions below \<open>N\<close> with insertion,
  removal and the two nearest-member scans.
\<close>

text \<open>Sequences of insertions and removals, on an index and on the set it stands for.\<close>

datatype level_cmd = Mark u32 | Unmark u32

primrec level_apply :: "('b \<Rightarrow> u32 \<Rightarrow> 'b) \<Rightarrow> ('b \<Rightarrow> u32 \<Rightarrow> 'b) \<Rightarrow> level_cmd \<Rightarrow> 'b \<Rightarrow> 'b" where
  "level_apply ins del (Mark i) b = ins b i"
| "level_apply ins del (Unmark i) b = del b i"

primrec level_spec :: "level_cmd \<Rightarrow> nat set \<Rightarrow> nat set" where
  "level_spec (Mark i) S = insert (unat i) S"
| "level_spec (Unmark i) S = S - {unat i}"

primrec level_pos :: "level_cmd \<Rightarrow> nat" where
  "level_pos (Mark i) = unat i"
| "level_pos (Unmark i) = unat i"

locale level_index =
  fixes N :: nat and inv :: "'b \<Rightarrow> bool" and test :: "'b \<Rightarrow> nat \<Rightarrow> bool"
    and ins :: "'b \<Rightarrow> u32 \<Rightarrow> 'b" and del :: "'b \<Rightarrow> u32 \<Rightarrow> 'b"
    and succ_of :: "'b \<Rightarrow> u32 \<Rightarrow> u32" and pred_of :: "'b \<Rightarrow> u32 \<Rightarrow> u32"
  assumes test_less: "inv b \<Longrightarrow> test b j \<Longrightarrow> j < N"
    and ins_inv: "inv b \<Longrightarrow> unat i < N \<Longrightarrow> inv (ins b i)"
    and ins_test: "inv b \<Longrightarrow> unat i < N \<Longrightarrow> test (ins b i) j \<longleftrightarrow> j = unat i \<or> test b j"
    and del_inv: "inv b \<Longrightarrow> unat i < N \<Longrightarrow> inv (del b i)"
    and del_test: "inv b \<Longrightarrow> unat i < N \<Longrightarrow> test (del b i) j \<longleftrightarrow> j \<noteq> unat i \<and> test b j"
    and succ_ok: "inv b \<Longrightarrow> next_of (test b) (unat i) (succ_of b i)"
    and pred_ok: "inv b \<Longrightarrow> unat i < N \<Longrightarrow> prev_of (test b) (unat i) (pred_of b i)"
begin

lemma succ_none: "inv b \<Longrightarrow> succ_of b i = BITMAP_NPOS \<Longrightarrow> unat i \<le> j \<Longrightarrow> \<not> test b j"
  using succ_ok [of b i] by (simp add: next_of_def)

lemma succ_some:
  assumes "inv b" "succ_of b i \<noteq> BITMAP_NPOS"
  shows "unat i \<le> unat (succ_of b i)" "test b (unat (succ_of b i))" "unat (succ_of b i) < N"
    and "\<And>j. unat i \<le> j \<Longrightarrow> test b j \<Longrightarrow> unat (succ_of b i) \<le> j"
  using succ_ok [of b i] assms test_less [of b] by (auto simp: next_of_def not_less [symmetric])

lemma pred_none: "inv b \<Longrightarrow> unat i < N \<Longrightarrow> pred_of b i = BITMAP_NPOS \<Longrightarrow> j \<le> unat i \<Longrightarrow> \<not> test b j"
  using pred_ok [of b i] by (simp add: prev_of_def)

lemma pred_some:
  assumes "inv b" "unat i < N" "pred_of b i \<noteq> BITMAP_NPOS"
  shows "unat (pred_of b i) \<le> unat i" "test b (unat (pred_of b i))" "unat (pred_of b i) < N"
    and "\<And>j. j \<le> unat i \<Longrightarrow> test b j \<Longrightarrow> j \<le> unat (pred_of b i)"
  using pred_ok [of b i] assms test_less [of b] by (auto simp: prev_of_def not_less [symmetric])

lemma run_sound:
  assumes "inv b" and "\<forall>c\<in>set cs. level_pos c < N"
  shows "inv (fold (level_apply ins del) cs b)
    \<and> {j. test (fold (level_apply ins del) cs b) j} = fold level_spec cs {j. test b j}"
  using assms
proof (induction cs arbitrary: b)
  case (Cons c cs)
  then have "inv (level_apply ins del c b)" "{j. test (level_apply ins del c b) j} = level_spec c {j. test b j}"
    by (cases c; auto simp: ins_inv del_inv ins_test del_test)+
  with Cons.IH [of "level_apply ins del c b"] Cons.prems(2) show ?case by simp
qed simp

end

text \<open>The width core uses: \<open>DEFAULT_LEVEL_COUNT\<close> is \<open>2 ^ 20\<close>, so the bitmap has four tiers.\<close>

interpretation occ: level_index "2 ^ 20" "bm_inv (2 ^ 20)" bm_test bm_set bm_clear bm_next_set bm_prev_set
  by unfold_locales
    (use bm_test_less bm_set_sound bm_clear_sound bm_next_set_sound bm_prev_set_sound in auto)

end
