(* ===== verification/Price_Levels.thy ===== *)
theory Price_Levels
  imports Bitmap
begin

text \<open>
  \<open>PriceLevelArray<DEFAULT_LEVEL_COUNT>\<close> of \<open>src/core/core.hpp\<close> and \<open>src/core/core.cpp\<close>:
  one side's price levels in a flat array indexed by \<open>(price - base) / PRICE_TICK\<close>, with the
  occupancy bitmap beside it.  The lemmas give the arithmetic of the window (which prices
  are in range, and that \<open>index_of\<close> inverts \<open>base + i * PRICE_TICK\<close> on the tick grid) and
  what the two walks of the book return, through the bitmap's index contract.
\<close>

section \<open>The class\<close>

definition PRICE_TICK :: u32 where "PRICE_TICK = 100"

definition MAX_LEVELS :: u32 where "MAX_LEVELS = 1048576"

definition UINT32_MAX :: u32 where "UINT32_MAX = - 1"

record price_level =
  total_shares :: u32
  order_count :: u32

record level_array =
  la_base :: u32
  la_levels :: "u32 \<Rightarrow> price_level"
  la_occupied :: bitmap

text \<open>The default constructor.\<close>

definition la_new :: level_array where
  "la_new = \<lparr>la_base = 0, la_levels = (\<lambda>_. \<lparr>total_shares = 0, order_count = 0\<rparr>),
     la_occupied = bm_empty (2 ^ 20)\<rparr>"

definition la_init :: "u32 \<Rightarrow> level_array \<Rightarrow> level_array" where
  "la_init base_price la =
     \<lparr>la_base = (base_price div PRICE_TICK) * PRICE_TICK,
      la_levels = (\<lambda>i. if i < MAX_LEVELS then \<lparr>total_shares = 0, order_count = 0\<rparr>
                      else la_levels la i),
      la_occupied = bm_reset (la_occupied la)\<rparr>"

definition index_of :: "level_array \<Rightarrow> u32 \<Rightarrow> u32" where
  "index_of la price = (price - la_base la) div PRICE_TICK"

definition in_range :: "level_array \<Rightarrow> u32 \<Rightarrow> bool" where
  "in_range la price \<longleftrightarrow> index_of la price < MAX_LEVELS"

text \<open>\<open>at\<close> returns a reference: \<open>la_at\<close> reads it, \<open>la_write\<close> writes through it.\<close>

definition la_at :: "level_array \<Rightarrow> u32 \<Rightarrow> price_level" where
  "la_at la price = la_levels la (index_of la price)"

definition la_write :: "level_array \<Rightarrow> u32 \<Rightarrow> price_level \<Rightarrow> level_array" where
  "la_write la price lvl = la\<lparr>la_levels := (la_levels la)(index_of la price := lvl)\<rparr>"

definition mark_occupied :: "level_array \<Rightarrow> u32 \<Rightarrow> level_array" where
  "mark_occupied la price = la\<lparr>la_occupied := bm_set (la_occupied la) (index_of la price)\<rparr>"

definition mark_empty :: "level_array \<Rightarrow> u32 \<Rightarrow> level_array" where
  "mark_empty la price = la\<lparr>la_occupied := bm_clear (la_occupied la) (index_of la price)\<rparr>"

definition next_occupied_above :: "level_array \<Rightarrow> u32 \<Rightarrow> u32" where
  "next_occupied_above la price =
     (let i = bm_next_set (la_occupied la) (index_of la price + 1)
      in if i = BITMAP_NPOS then 0 else la_base la + i * PRICE_TICK)"

definition prev_occupied_below :: "level_array \<Rightarrow> u32 \<Rightarrow> u32" where
  "prev_occupied_below la price =
     (let idx = index_of la price in
      if idx = 0 then 0
      else let i = bm_prev_set (la_occupied la) (idx - 1)
           in if i = BITMAP_NPOS then 0 else la_base la + i * PRICE_TICK)"

section \<open>The window\<close>

text \<open>
  \<open>la_ok\<close>: the bitmap is well formed, the base is on the tick grid and the window ends
  below \<open>2 ^ 32\<close>, so that prices in range do not wrap.  \<open>level_price\<close> is the price of a level.
\<close>

definition la_ok :: "level_array \<Rightarrow> bool" where
  "la_ok la \<longleftrightarrow> bm_inv (2 ^ 20) (la_occupied la) \<and> unat (la_base la) mod 100 = 0
     \<and> unat (la_base la) + 104857600 \<le> 2 ^ 32"

definition level_price :: "level_array \<Rightarrow> nat \<Rightarrow> u32" where
  "level_price la i = la_base la + word_of_nat i * PRICE_TICK"

definition level_no :: "level_array \<Rightarrow> u32 \<Rightarrow> nat" where
  "level_no la price = unat (index_of la price)"

lemma in_range_less: "in_range la p \<longleftrightarrow> level_no la p < 2 ^ 20"
  by (simp add: in_range_def level_no_def word_less_nat_alt MAX_LEVELS_def)

lemma unat_u32_div_100: "unat ((w :: u32) div 100) = unat w div 100"
  by (simp add: unat_div)

lemma level_no_eq:
  assumes "unat (la_base la) \<le> unat p"
  shows "level_no la p = (unat p - unat (la_base la)) div 100"
  using assms by (simp add: level_no_def index_of_def PRICE_TICK_def unat_u32_div_100 unat_sub_no_borrow)

lemma unat_sub_wrap: "unat (p :: u32) < unat b \<Longrightarrow> unat (p - b) = 2 ^ 32 + unat p - unat b"
  using unat_u32_less [of b] by (simp add: unat_sub_if' word_le_nat_alt)

lemma in_range_iff:
  assumes "la_ok la"
  shows "in_range la p \<longleftrightarrow>
    unat (la_base la) \<le> unat p \<and> unat p < unat (la_base la) + 104857600"
proof (cases "unat (la_base la) \<le> unat p")
  case True
  then show ?thesis by (auto simp: in_range_less level_no_eq)
next
  case False
  then have "unat (p - la_base la) = 2 ^ 32 + unat p - unat (la_base la)" by (simp add: unat_sub_wrap)
  with assms False have "104857600 \<le> unat (p - la_base la)"
    unfolding la_ok_def by linarith
  then have "1048576 \<le> level_no la p"
    by (simp add: level_no_def index_of_def PRICE_TICK_def unat_u32_div_100)
  with False show ?thesis by (simp add: in_range_less)
qed

lemma unat_level_price:
  assumes "la_ok la" "i < 2 ^ 20"
  shows "unat (level_price la i) = unat (la_base la) + 100 * i"
proof -
  have i: "unat (word_of_nat i :: u32) = i" using assms(2) by (simp add: unat_of_nat_u32)
  then have m: "unat (word_of_nat i * PRICE_TICK) = 100 * i"
    using assms(2) by (simp add: PRICE_TICK_def unat_word_ariths)
  show ?thesis
    unfolding level_price_def using assms
    by (subst unat_add_no_wrap) (simp_all add: m la_ok_def)
qed

lemma level_no_level_price:
  assumes "la_ok la" "i < 2 ^ 20"
  shows "level_no la (level_price la i) = i"
  using assms by (simp add: level_no_eq unat_level_price)

lemma level_price_level_no:
  assumes ok: "la_ok la" and p: "in_range la p" "unat p mod 100 = 0"
  shows "level_price la (level_no la p) = p"
proof -
  have b: "unat (la_base la) \<le> unat p" using p ok by (simp add: in_range_iff)
  have m: "unat (la_base la) mod 100 = 0" using ok by (simp add: la_ok_def)
  have "unat (level_price la (level_no la p)) = unat (la_base la) + 100 * level_no la p"
    using ok p(1) by (intro unat_level_price) (simp_all add: in_range_less)
  also have "\<dots> = unat p"
    using b m p(2) by (simp add: level_no_eq) (metis dvd_minus_mod dvd_mult_div_cancel le_add_diff_inverse
        minus_mod_eq_mult_div mod_0_imp_dvd dvd_diff_nat)
  finally show ?thesis by (simp add: word_unat_eq_iff)
qed

lemma level_no_mono:
  assumes "la_ok la" "in_range la p" "in_range la q" "p \<le> q"
  shows "level_no la p \<le> level_no la q"
  using assms by (auto simp: in_range_iff level_no_eq word_le_nat_alt intro: div_le_mono)

lemma level_price_less:
  assumes "la_ok la" "i < 2 ^ 20" "j < 2 ^ 20"
  shows "level_price la i < level_price la j \<longleftrightarrow> i < j"
  using assms by (simp add: word_less_nat_alt unat_level_price)

section \<open>The walks\<close>

definition occupied_at :: "level_array \<Rightarrow> nat \<Rightarrow> bool" where
  "occupied_at la i \<longleftrightarrow> bm_test (la_occupied la) i"

lemma occupied_less: "la_ok la \<Longrightarrow> occupied_at la i \<Longrightarrow> i < 2 ^ 20"
  unfolding la_ok_def occupied_at_def by (metis occ.test_less)

lemma la_ok_new: "la_base la = 0 \<Longrightarrow> la_occupied la = bm_empty (2 ^ 20) \<Longrightarrow> la_ok la"
  by (simp add: la_ok_def bm_inv_empty)

lemma mark_occupied_sound:
  assumes "la_ok la" "in_range la p"
  shows "la_ok (mark_occupied la p)"
    and "occupied_at (mark_occupied la p) i \<longleftrightarrow> i = level_no la p \<or> occupied_at la i"
    and "la_base (mark_occupied la p) = la_base la" and "la_levels (mark_occupied la p) = la_levels la"
  using assms occ.ins_inv [of "la_occupied la" "index_of la p"]
    occ.ins_test [of "la_occupied la" "index_of la p" i]
  by (auto simp: mark_occupied_def la_ok_def occupied_at_def in_range_less level_no_def)

lemma mark_empty_sound:
  assumes "la_ok la" "in_range la p"
  shows "la_ok (mark_empty la p)"
    and "occupied_at (mark_empty la p) i \<longleftrightarrow> i \<noteq> level_no la p \<and> occupied_at la i"
    and "la_base (mark_empty la p) = la_base la" and "la_levels (mark_empty la p) = la_levels la"
  using assms occ.del_inv [of "la_occupied la" "index_of la p"]
    occ.del_test [of "la_occupied la" "index_of la p" i]
  by (auto simp: mark_empty_def la_ok_def occupied_at_def in_range_less level_no_def)

lemma la_base_simps [simp]:
  "la_base (la_write la p l) = la_base la" "la_occupied (la_write la p l) = la_occupied la"
  "la_base (mark_occupied la p) = la_base la" "la_base (mark_empty la p) = la_base la"
  "la_levels (mark_occupied la p) = la_levels la" "la_levels (mark_empty la p) = la_levels la"
  by (simp_all add: la_write_def mark_occupied_def mark_empty_def)

lemma la_write_inv [simp]:
  "la_ok (la_write la p l) = la_ok la" "occupied_at (la_write la p l) i = occupied_at la i"
  by (simp_all add: la_ok_def occupied_at_def)

lemma level_no_base: "la_base la' = la_base la \<Longrightarrow> level_no la' p = level_no la p"
  by (simp add: level_no_def index_of_def)

lemma in_range_base: "la_base la' = la_base la \<Longrightarrow> in_range la' p = in_range la p"
  by (simp add: in_range_def index_of_def)

lemma level_price_base: "la_base la' = la_base la \<Longrightarrow> level_price la' i = level_price la i"
  by (simp add: level_price_def)

lemma la_levels_write:
  assumes "in_range la p" and "i < 2 ^ 20"
  shows "la_levels (la_write la p l) (word_of_nat i)
    = (if i = level_no la p then l else la_levels la (word_of_nat i))"
proof -
  have "word_of_nat i = index_of la p \<longleftrightarrow> i = level_no la p"
    using assms(2) by (auto simp: level_no_def unat_of_nat_u32 word_unat_eq_iff)
  then show ?thesis by (simp add: la_write_def)
qed

lemma la_at_level: "la_at la p = la_levels la (word_of_nat (level_no la p))"
  by (simp add: la_at_def level_no_def)

text \<open>
  The walks.  A walk ends (returns 0) when no occupied level lies beyond, else it returns the
  price of the nearest occupied level; \<open>prev_occupied_below\<close> also returns 0 for an occupied
  level whose price is 0.
\<close>

lemma next_occupied_above_sound:
  assumes ok: "la_ok la" and p: "in_range la p"
  defines "n \<equiv> level_no la p" and "r \<equiv> next_occupied_above la p"
  shows "r = 0 \<and> (\<forall>i. occupied_at la i \<longrightarrow> i \<le> n)
    \<or> r \<noteq> 0 \<and> (\<exists>i. occupied_at la i \<and> n < i \<and> r = level_price la i
        \<and> (\<forall>j. occupied_at la j \<longrightarrow> n < j \<longrightarrow> i \<le> j))"
proof -
  let ?i = "index_of la p + 1" and ?b = "la_occupied la"
  have inv: "bm_inv (2 ^ 20) ?b" using ok by (simp add: la_ok_def)
  have "n < 2 ^ 20" using p by (simp add: n_def in_range_less)
  then have i: "unat ?i = n + 1" by (simp add: n_def level_no_def unat_Suc_no_wrap)
  show ?thesis
  proof (cases "bm_next_set ?b ?i = BITMAP_NPOS")
    case True
    have "j \<le> n" if "occupied_at la j" for j
      using occ.succ_none [OF inv True, of j] that i
      unfolding occupied_at_def by (metis Suc_eq_plus1 not_less_eq_eq)
    then show ?thesis using True by (simp add: r_def next_occupied_above_def)
  next
    case False
    define k where "k = unat (bm_next_set ?b ?i)"
    note s = occ.succ_some [OF inv False, folded k_def, unfolded i]
    have rk: "r = level_price la k"
      using False by (simp add: r_def next_occupied_above_def level_price_def k_def)
    have "unat r = unat (la_base la) + 100 * k"
      unfolding rk using ok s(3) by (rule unat_level_price)
    then have "r \<noteq> 0" using s(1) by (auto simp: word_unat_eq_iff)
    moreover have "k \<le> j" if "occupied_at la j" "n < j" for j
      using s(4) [of j] that by (simp add: occupied_at_def)
    ultimately show ?thesis using rk s(1,2) by (auto simp: occupied_at_def)
  qed
qed

lemma prev_occupied_below_sound:
  assumes ok: "la_ok la" and p: "in_range la p"
  defines "n \<equiv> level_no la p" and "r \<equiv> prev_occupied_below la p"
  shows "r = 0 \<and> (\<forall>i. occupied_at la i \<longrightarrow> n \<le> i)
    \<or> (\<exists>i. occupied_at la i \<and> i < n \<and> r = level_price la i
        \<and> (\<forall>j. occupied_at la j \<longrightarrow> j < n \<longrightarrow> j \<le> i))"
proof (cases "index_of la p = 0")
  case True
  then show ?thesis by (simp add: r_def prev_occupied_below_def n_def level_no_def)
next
  case nz: False
  let ?i = "index_of la p - 1" and ?b = "la_occupied la"
  have inv: "bm_inv (2 ^ 20) ?b" using ok by (simp add: la_ok_def)
  have n: "n < 2 ^ 20" "0 < n" using p nz by (auto simp: n_def in_range_less level_no_def unat_gt_0)
  then have i: "unat ?i = n - 1" by (simp add: n_def level_no_def unat_sub_no_borrow)
  then have lt: "unat ?i < 2 ^ 20" using n by simp
  show ?thesis
  proof (cases "bm_prev_set ?b ?i = BITMAP_NPOS")
    case True
    have "n \<le> j" if "occupied_at la j" for j
      using occ.pred_none [OF inv lt True, of j] that i n
      unfolding occupied_at_def by (metis Suc_pred' less_Suc_eq_le not_less)
    then show ?thesis using True nz by (simp add: r_def prev_occupied_below_def Let_def)
  next
    case False
    define k where "k = unat (bm_prev_set ?b ?i)"
    note s = occ.pred_some [OF inv lt False, folded k_def, unfolded i]
    have rk: "r = level_price la k"
      using False nz by (simp add: r_def prev_occupied_below_def level_price_def k_def Let_def)
    moreover have "j \<le> k" if "occupied_at la j" "j < n" for j
      using s(4) [of j] that n by (simp add: occupied_at_def)
    ultimately show ?thesis using s(1,2) n by (auto simp: occupied_at_def)
  qed
qed

end
