(* ===== verification/Order_Book.thy ===== *)
theory Order_Book
  imports Order_Map Price_Levels
begin

text \<open>
  \<open>OrderBook\<close> of \<open>src/core/core.hpp\<close> and \<open>src/core/core.cpp\<close>: one symbol's limit order
  book, composed of the order map, two level arrays and the cached top of book.  Every
  message handler is translated branch by branch.  The global drop counter \<open>g_drops\<close> is
  passed beside the book; a handler is an option because the order map's loops may spin.

  This theory is the class.  \<open>Book_Spec\<close> holds the abstract book and the invariants.
\<close>

section \<open>State\<close>

record order_book =
  ob_initialized :: bool
  best_bid :: u32 \<comment> \<open>\<open>tob_\<close>\<close>
  best_ask :: u32
  ob_stock_id :: u64
  ob_bids :: level_array
  ob_asks :: level_array
  ob_orders :: order_map

record book_level =
  lv_price :: u32
  lv_shares :: u32
  lv_order_count :: u32

record trade =
  tr_price :: u32
  tr_shares :: u32
  tr_side :: side

definition no_trade :: trade where
  "no_trade = \<lparr>tr_price = 0, tr_shares = 0, tr_side = Buy\<rparr>"

text \<open>\<open>OrderMap<DEFAULT_ORDER_CAPACITY>::MASK\<close>.\<close>

definition ORDER_MASK :: u32 where "ORDER_MASK = mask 20"

definition ob_new :: order_book where
  "ob_new = \<lparr>ob_initialized = False, best_bid = 0, best_ask = UINT32_MAX, ob_stock_id = 0,
     ob_bids = la_new, ob_asks = la_new, ob_orders = om_new\<rparr>"

definition ob_init :: "u64 \<Rightarrow> u32 \<Rightarrow> order_book \<Rightarrow> order_book" where
  "ob_init stock_id base_price b = b\<lparr>ob_stock_id := stock_id, best_bid := 0, best_ask := UINT32_MAX,
     ob_bids := la_init base_price (ob_bids b), ob_asks := la_init base_price (ob_asks b),
     ob_initialized := True\<rparr>"

section \<open>Handlers\<close>

definition on_level_emptied :: "side \<Rightarrow> u32 \<Rightarrow> order_book \<Rightarrow> order_book" where
  "on_level_emptied sd price b =
     (case sd of
        Buy \<Rightarrow>
          let bids = mark_empty (ob_bids b) price; b = b\<lparr>ob_bids := bids\<rparr>
          in if price = best_bid b then b\<lparr>best_bid := prev_occupied_below bids price\<rparr> else b
      | Sell \<Rightarrow>
          let asks = mark_empty (ob_asks b) price; b = b\<lparr>ob_asks := asks\<rparr>
          in if price = best_ask b
             then let nxt = next_occupied_above asks price
                  in b\<lparr>best_ask := (if nxt \<noteq> 0 then nxt else UINT32_MAX)\<rparr>
             else b)"

text \<open>
  The tail of \<open>on_add\<close> and of \<open>on_replace\<close> once the order is in the map: the level's
  totals, its occupancy bit and the top of book.
\<close>

definition add_bid :: "u32 \<Rightarrow> u32 \<Rightarrow> order_book \<Rightarrow> order_book" where
  "add_bid price shares b =
     (let lvl = la_at (ob_bids b) price;
          bids = la_write (ob_bids b) price
            \<lparr>total_shares = total_shares lvl + shares, order_count = order_count lvl + 1\<rparr>;
          bids = (if order_count lvl = 0 then mark_occupied bids price else bids);
          b = b\<lparr>ob_bids := bids\<rparr>
      in if best_bid b < price then b\<lparr>best_bid := price\<rparr> else b)"

definition add_ask :: "u32 \<Rightarrow> u32 \<Rightarrow> order_book \<Rightarrow> order_book" where
  "add_ask price shares b =
     (let lvl = la_at (ob_asks b) price;
          asks = la_write (ob_asks b) price
            \<lparr>total_shares = total_shares lvl + shares, order_count = order_count lvl + 1\<rparr>;
          asks = (if order_count lvl = 0 then mark_occupied asks price else asks);
          b = b\<lparr>ob_asks := asks\<rparr>
      in if price < best_ask b then b\<lparr>best_ask := price\<rparr> else b)"

definition on_add :: "u64 \<Rightarrow> side \<Rightarrow> u32 \<Rightarrow> u32 \<Rightarrow> u64 \<times> order_book \<Rightarrow> (u64 \<times> order_book) option" where
  "on_add ref sd price shares = (\<lambda>(drops, b).
     case sd of
       Buy \<Rightarrow>
         if \<not> in_range (ob_bids b) price then Some (drops + 1, b)
         else (case om_insert ORDER_MASK (ob_orders b) ref price shares sd of
                 None \<Rightarrow> None
               | Some orders \<Rightarrow> Some (drops, add_bid price shares (b\<lparr>ob_orders := orders\<rparr>)))
     | Sell \<Rightarrow>
         if \<not> in_range (ob_asks b) price then Some (drops + 1, b)
         else (case om_insert ORDER_MASK (ob_orders b) ref price shares sd of
                 None \<Rightarrow> None
               | Some orders \<Rightarrow> Some (drops, add_ask price shares (b\<lparr>ob_orders := orders\<rparr>))))"

text \<open>
  \<open>on_execute\<close> and \<open>on_cancel\<close> take shares off a live order in the same way: off the level's
  total and off the entry, and when the entry is used up off the level's count and the map.
\<close>

definition reduce_bid :: "u64 \<Rightarrow> u32 \<Rightarrow> u32 \<Rightarrow> order_book \<Rightarrow> order_book option" where
  "reduce_bid ref p taken b =
     (let entry = s_entry (ob_orders b p); price = oe_price entry;
          lvl = la_at (ob_bids b) price;
          lvl = lvl\<lparr>total_shares := total_shares lvl - taken\<rparr>;
          entry = entry\<lparr>oe_shares := oe_shares entry - taken\<rparr>;
          orders = om_write (ob_orders b) p entry
      in if oe_shares entry = 0
         then let lvl = lvl\<lparr>order_count := order_count lvl - 1\<rparr>
              in (case om_erase ORDER_MASK orders ref of
                    None \<Rightarrow> None
                  | Some orders \<Rightarrow>
                      let b = b\<lparr>ob_orders := orders, ob_bids := la_write (ob_bids b) price lvl\<rparr>
                      in Some (if order_count lvl = 0 then on_level_emptied Buy price b else b))
         else Some (b\<lparr>ob_orders := orders, ob_bids := la_write (ob_bids b) price lvl\<rparr>))"

definition reduce_ask :: "u64 \<Rightarrow> u32 \<Rightarrow> u32 \<Rightarrow> order_book \<Rightarrow> order_book option" where
  "reduce_ask ref p taken b =
     (let entry = s_entry (ob_orders b p); price = oe_price entry;
          lvl = la_at (ob_asks b) price;
          lvl = lvl\<lparr>total_shares := total_shares lvl - taken\<rparr>;
          entry = entry\<lparr>oe_shares := oe_shares entry - taken\<rparr>;
          orders = om_write (ob_orders b) p entry
      in if oe_shares entry = 0
         then let lvl = lvl\<lparr>order_count := order_count lvl - 1\<rparr>
              in (case om_erase ORDER_MASK orders ref of
                    None \<Rightarrow> None
                  | Some orders \<Rightarrow>
                      let b = b\<lparr>ob_orders := orders, ob_asks := la_write (ob_asks b) price lvl\<rparr>
                      in Some (if order_count lvl = 0 then on_level_emptied Sell price b else b))
         else Some (b\<lparr>ob_orders := orders, ob_asks := la_write (ob_asks b) price lvl\<rparr>))"

definition on_execute :: "u64 \<Rightarrow> u32 \<Rightarrow> order_book \<Rightarrow> (trade \<times> order_book) option" where
  "on_execute ref executed_shares b =
     (case om_find ORDER_MASK (ob_orders b) ref of
        None \<Rightarrow> None
      | Some None \<Rightarrow> Some (no_trade, b)
      | Some (Some p) \<Rightarrow>
          let entry = s_entry (ob_orders b p); price = oe_price entry; sd = oe_side entry
          in map_option (Pair \<lparr>tr_price = price, tr_shares = executed_shares, tr_side = sd\<rparr>)
               (case sd of Buy \<Rightarrow> reduce_bid ref p executed_shares b
                         | Sell \<Rightarrow> reduce_ask ref p executed_shares b))"

definition on_execute_with_price ::
  "u64 \<Rightarrow> u32 \<Rightarrow> u32 \<Rightarrow> order_book \<Rightarrow> (trade \<times> order_book) option" where
  "on_execute_with_price ref executed_shares execution_price b =
     (case on_execute ref executed_shares b of
        None \<Rightarrow> None
      | Some (t, b) \<Rightarrow>
          Some (if tr_shares t \<noteq> 0 then t\<lparr>tr_price := execution_price\<rparr> else t, b))"

definition on_cancel :: "u64 \<Rightarrow> u32 \<Rightarrow> order_book \<Rightarrow> order_book option" where
  "on_cancel ref cancelled_shares b =
     (case om_find ORDER_MASK (ob_orders b) ref of
        None \<Rightarrow> None
      | Some None \<Rightarrow> Some b
      | Some (Some p) \<Rightarrow>
          (case oe_side (s_entry (ob_orders b p)) of
             Buy \<Rightarrow> reduce_bid ref p cancelled_shares b
           | Sell \<Rightarrow> reduce_ask ref p cancelled_shares b))"

definition on_delete :: "u64 \<Rightarrow> order_book \<Rightarrow> order_book option" where
  "on_delete ref b =
     (case om_find ORDER_MASK (ob_orders b) ref of
        None \<Rightarrow> None
      | Some None \<Rightarrow> Some b
      | Some (Some p) \<Rightarrow>
          let entry = s_entry (ob_orders b p); price = oe_price entry; shares = oe_shares entry
          in (case oe_side entry of
                Buy \<Rightarrow>
                  let lvl = la_at (ob_bids b) price;
                      lvl = \<lparr>total_shares = total_shares lvl - shares, order_count = order_count lvl - 1\<rparr>
                  in (case om_erase ORDER_MASK (ob_orders b) ref of
                        None \<Rightarrow> None
                      | Some orders \<Rightarrow>
                          let b = b\<lparr>ob_orders := orders, ob_bids := la_write (ob_bids b) price lvl\<rparr>
                          in Some (if order_count lvl = 0 then on_level_emptied Buy price b else b))
              | Sell \<Rightarrow>
                  let lvl = la_at (ob_asks b) price;
                      lvl = \<lparr>total_shares = total_shares lvl - shares, order_count = order_count lvl - 1\<rparr>
                  in (case om_erase ORDER_MASK (ob_orders b) ref of
                        None \<Rightarrow> None
                      | Some orders \<Rightarrow>
                          let b = b\<lparr>ob_orders := orders, ob_asks := la_write (ob_asks b) price lvl\<rparr>
                          in Some (if order_count lvl = 0 then on_level_emptied Sell price b else b))))"

text \<open>
  \<open>on_replace\<close> reads the old level's count through its reference after the new order is
  in, so a replace onto the same level does not empty it.
\<close>

definition on_replace ::
  "u64 \<Rightarrow> u64 \<Rightarrow> u32 \<Rightarrow> u32 \<Rightarrow> u64 \<times> order_book \<Rightarrow> (u64 \<times> order_book) option" where
  "on_replace old_ref new_ref new_price new_shares = (\<lambda>(drops, b).
     case om_find ORDER_MASK (ob_orders b) old_ref of
       None \<Rightarrow> None
     | Some None \<Rightarrow> Some (drops, b)
     | Some (Some p) \<Rightarrow>
         let old_entry = s_entry (ob_orders b p); old_price = oe_price old_entry;
             old_shares = oe_shares old_entry; sd = oe_side old_entry
         in (case sd of
               Buy \<Rightarrow>
                 let lvl = la_at (ob_bids b) old_price;
                     lvl = \<lparr>total_shares = total_shares lvl - old_shares, order_count = order_count lvl - 1\<rparr>;
                     b = b\<lparr>ob_bids := la_write (ob_bids b) old_price lvl\<rparr>
                 in (case om_erase ORDER_MASK (ob_orders b) old_ref of
                       None \<Rightarrow> None
                     | Some orders \<Rightarrow>
                         let b = b\<lparr>ob_orders := orders\<rparr>;
                             res = (if in_range (ob_bids b) new_price
                                    then (case om_insert ORDER_MASK orders new_ref new_price new_shares sd of
                                            None \<Rightarrow> None
                                          | Some orders \<Rightarrow>
                                              Some (drops, add_bid new_price new_shares (b\<lparr>ob_orders := orders\<rparr>)))
                                    else Some (drops + 1, b))
                         in map_option (\<lambda>(drops, b).
                              (drops, if order_count (la_at (ob_bids b) old_price) = 0
                                      then on_level_emptied Buy old_price b else b)) res)
             | Sell \<Rightarrow>
                 let lvl = la_at (ob_asks b) old_price;
                     lvl = \<lparr>total_shares = total_shares lvl - old_shares, order_count = order_count lvl - 1\<rparr>;
                     b = b\<lparr>ob_asks := la_write (ob_asks b) old_price lvl\<rparr>
                 in (case om_erase ORDER_MASK (ob_orders b) old_ref of
                       None \<Rightarrow> None
                     | Some orders \<Rightarrow>
                         let b = b\<lparr>ob_orders := orders\<rparr>;
                             res = (if in_range (ob_asks b) new_price
                                    then (case om_insert ORDER_MASK orders new_ref new_price new_shares sd of
                                            None \<Rightarrow> None
                                          | Some orders \<Rightarrow>
                                              Some (drops, add_ask new_price new_shares (b\<lparr>ob_orders := orders\<rparr>)))
                                    else Some (drops + 1, b))
                         in map_option (\<lambda>(drops, b).
                              (drops, if order_count (la_at (ob_asks b) old_price) = 0
                                      then on_level_emptied Sell old_price b else b)) res)))"

section \<open>Queries\<close>

definition qty_at_bid :: "order_book \<Rightarrow> u32 \<Rightarrow> u32" where
  "qty_at_bid b p = total_shares (la_at (ob_bids b) p)"

definition qty_at_ask :: "order_book \<Rightarrow> u32 \<Rightarrow> u32" where
  "qty_at_ask b p = total_shares (la_at (ob_asks b) p)"

definition level_at :: "level_array \<Rightarrow> u32 \<Rightarrow> book_level" where
  "level_at la p = \<lparr>lv_price = p, lv_shares = total_shares (la_at la p),
     lv_order_count = order_count (la_at la p)\<rparr>"

text \<open>The walks' loops, by the room left in \<open>out\<close>; a walk returns the levels it wrote.\<close>

fun walk_bids :: "nat \<Rightarrow> level_array \<Rightarrow> u32 \<Rightarrow> book_level list" where
  "walk_bids 0 la p = []"
| "walk_bids (Suc room) la p =
     (if p = 0 then [] else level_at la p # walk_bids room la (prev_occupied_below la p))"

fun walk_asks :: "nat \<Rightarrow> level_array \<Rightarrow> u32 \<Rightarrow> book_level list" where
  "walk_asks 0 la p = []"
| "walk_asks (Suc room) la p =
     (if p = UINT32_MAX then []
      else let nxt = next_occupied_above la p
           in level_at la p # walk_asks room la (if nxt \<noteq> 0 then nxt else UINT32_MAX))"

definition top_bids :: "order_book \<Rightarrow> nat \<Rightarrow> book_level list" where
  "top_bids b max_out = walk_bids max_out (ob_bids b) (best_bid b)"

definition top_asks :: "order_book \<Rightarrow> nat \<Rightarrow> book_level list" where
  "top_asks b max_out = walk_asks max_out (ob_asks b) (best_ask b)"

end
