(* ===== verification/Book_Spec.thy ===== *)
theory Book_Spec
  imports Order_Book
begin

text \<open>
  What the order book promises.  The abstract book is the finite map of live orders; the
  level arrays must hold, for every level of either side, the sum of the shares and the
  number of the live orders there (\<open>side_inv\<close>), and, on the tick grid, the cached best prices
  must be the extreme live prices (\<open>is_top\<close>).  The lemmas show what each building block of
  the handlers does to these; the theorems on whole handlers are in \<open>Book_Correct\<close>.
\<close>

type_synonym live = "u64 \<rightharpoonup> order_entry"

definition live_orders :: "order_book \<Rightarrow> live" where
  "live_orders b = om_abs 20 (ob_orders b)"

section \<open>The abstract handlers\<close>

definition spec_add :: "u64 \<Rightarrow> side \<Rightarrow> u32 \<Rightarrow> u32 \<Rightarrow> live \<Rightarrow> live" where
  "spec_add ref sd price shares m = m(ref \<mapsto> \<lparr>oe_price = price, oe_shares = shares, oe_side = sd\<rparr>)"

text \<open>Shares taken off an order, which leaves the book when none are left.\<close>

definition spec_take :: "u64 \<Rightarrow> u32 \<Rightarrow> live \<Rightarrow> live" where
  "spec_take ref n m = (case m ref of
     None \<Rightarrow> m
   | Some e \<Rightarrow> if oe_shares e = n then m(ref := None)
              else m(ref \<mapsto> e\<lparr>oe_shares := oe_shares e - n\<rparr>))"

definition spec_delete :: "u64 \<Rightarrow> live \<Rightarrow> live" where
  "spec_delete ref m = m(ref := None)"

definition spec_replace :: "u64 \<Rightarrow> u64 \<Rightarrow> u32 \<Rightarrow> u32 \<Rightarrow> bool \<Rightarrow> live \<Rightarrow> live" where
  "spec_replace old_ref new_ref price shares kept m = (case m old_ref of
     None \<Rightarrow> m
   | Some e \<Rightarrow> if kept then spec_add new_ref (oe_side e) price shares (m(old_ref := None))
              else m(old_ref := None))"

section \<open>One side\<close>

definition at_level :: "level_array \<Rightarrow> side \<Rightarrow> live \<Rightarrow> nat \<Rightarrow> u64 set" where
  "at_level la sd m i =
     {r. \<exists>e. m r = Some e \<and> oe_side e = sd \<and> level_no la (oe_price e) = i}"

definition level_total :: "live \<Rightarrow> u64 set \<Rightarrow> price_level" where
  "level_total m R = \<lparr>total_shares = (\<Sum>r\<in>R. oe_shares (the (m r))), order_count = of_nat (card R)\<rparr>"

text \<open>
  \<open>J\<close> holds the levels whose occupancy bit may be stale: empty between handlers, the level
  an order has just left within one.
\<close>

definition side_inv :: "level_array \<Rightarrow> side \<Rightarrow> live \<Rightarrow> nat set \<Rightarrow> bool" where
  "side_inv la sd m J \<longleftrightarrow> la_ok la
     \<and> (\<forall>r e. m r = Some e \<longrightarrow> oe_side e = sd \<longrightarrow> in_range la (oe_price e))
     \<and> (\<forall>i<2 ^ 20. la_levels la (word_of_nat i) = level_total m (at_level la sd m i))
     \<and> (\<forall>i. occupied_at la i \<longleftrightarrow> at_level la sd m i \<noteq> {} \<or> i \<in> J)"

lemma at_level_dom: "at_level la sd m i \<subseteq> dom m"
  by (auto simp: at_level_def)

lemma at_level_finite: "finite (dom m) \<Longrightarrow> finite (at_level la sd m i)"
  using at_level_dom by (rule finite_subset)

lemma at_level_card: "finite (dom m) \<Longrightarrow> card (at_level la sd m i) \<le> card (dom m)"
  by (erule card_mono) (rule at_level_dom)

lemma at_level_base: "la_base la' = la_base la \<Longrightarrow> at_level la' sd m i = at_level la sd m i"
  by (simp add: at_level_def level_no_base [of la' la])

lemma level_count_zero:
  assumes "finite (dom m)" "card (dom m) < 2 ^ 32"
  shows "order_count (level_total m (at_level la sd m i)) = 0 \<longleftrightarrow> at_level la sd m i = {}"
proof -
  let ?R = "at_level la sd m i"
  have "card ?R < 2 ^ 32" using at_level_card [OF assms(1)] assms(2) by (rule order.strict_trans1)
  then have "unat (of_nat (card ?R) :: u32) = card ?R" by (rule unat_of_nat_u32)
  then have "(of_nat (card ?R) :: u32) = 0 \<longleftrightarrow> card ?R = 0" by (simp add: word_unat_eq_iff)
  then show ?thesis using at_level_finite [OF assms(1)] by (simp add: level_total_def)
qed

lemma side_inv_at:
  assumes "side_inv la sd m J" "in_range la p"
  shows "la_at la p = level_total m (at_level la sd m (level_no la p))"
  using assms by (simp add: side_inv_def la_at_level in_range_less)

lemma level_total_cong: "(\<And>r. r \<in> R \<Longrightarrow> m r = m' r) \<Longrightarrow> level_total m R = level_total m' R"
  by (simp add: level_total_def)

text \<open>A side sees its own orders only.\<close>

definition agree_on :: "side \<Rightarrow> live \<Rightarrow> live \<Rightarrow> bool" where
  "agree_on sd m m' \<longleftrightarrow> (\<forall>r e. oe_side e = sd \<longrightarrow> (m' r = Some e \<longleftrightarrow> m r = Some e))"

lemma agree_on_trans: "agree_on sd m m' \<Longrightarrow> agree_on sd m' m'' \<Longrightarrow> agree_on sd m m''"
  by (simp add: agree_on_def)

lemma agree_on_upd:
  assumes "\<And>e. m r = Some e \<Longrightarrow> oe_side e \<noteq> sd" and "\<And>e. x = Some e \<Longrightarrow> oe_side e \<noteq> sd"
  shows "agree_on sd m (m(r := x))"
  using assms by (auto simp: agree_on_def)

lemma side_inv_agree:
  assumes "side_inv la sd m J" and "agree_on sd m m'"
  shows "side_inv la sd m' J"
proof -
  have eq: "m' r = Some e \<longleftrightarrow> m r = Some e" if "oe_side e = sd" for r e
    using assms(2) that by (simp add: agree_on_def)
  have at: "at_level la sd m' i = at_level la sd m i" for i
    unfolding at_level_def using eq by blast
  have "m' r = m r" if "r \<in> at_level la sd m i" for r i
  proof -
    from that obtain e where "m r = Some e" "oe_side e = sd" unfolding at_level_def by blast
    with eq show ?thesis by simp
  qed
  then have "level_total m' (at_level la sd m i) = level_total m (at_level la sd m i)" for i
    by (intro level_total_cong) blast
  with assms(1) eq show ?thesis unfolding side_inv_def at by metis
qed

lemma at_level_put:
  assumes "m r = None" "oe_side e = sd"
  shows "at_level la sd (m(r \<mapsto> e)) i
    = (if i = level_no la (oe_price e) then insert r (at_level la sd m i) else at_level la sd m i)"
  using assms by (auto simp: at_level_def)

lemma at_level_del:
  fixes m :: live
  assumes "m r = Some e" "oe_side e = sd"
  shows "at_level la sd (m(r := None)) i = at_level la sd m i - {r}"
    and "r \<in> at_level la sd m i \<longleftrightarrow> i = level_no la (oe_price e)"
  using assms by (auto simp: at_level_def)

lemma level_total_insert:
  assumes "finite R" "r \<notin> R"
  shows "level_total (m(r \<mapsto> e)) (insert r R) =
    \<lparr>total_shares = total_shares (level_total m R) + oe_shares e,
     order_count = order_count (level_total m R) + 1\<rparr>"
proof -
  have "(\<Sum>x\<in>R. oe_shares (the ((m(r \<mapsto> e)) x))) = (\<Sum>x\<in>R. oe_shares (the (m x)))"
    using assms(2) by (intro sum.cong) auto
  then show ?thesis using assms by (simp add: level_total_def)
qed

lemma level_total_remove:
  fixes m :: live
  assumes "finite R" "r \<in> R" "m r = Some e"
  shows "level_total (m(r := None)) (R - {r}) =
    \<lparr>total_shares = total_shares (level_total m R) - oe_shares e,
     order_count = order_count (level_total m R) - 1\<rparr>"
proof -
  have R: "insert r (R - {r}) = R" using assms(2) by auto
  have "(m(r := None))(r \<mapsto> e) = m" using assms(3) by (simp add: fun_upd_idem)
  then show ?thesis
    using level_total_insert [of "R - {r}" r "m(r := None)" e] assms(1) R by simp
qed

lemma la_levels_write_same [simp]: "la_levels (la_write la p l) (word_of_nat (level_no la p)) = l"
  by (simp add: la_write_def level_no_def)

text \<open>What each write of a handler does to its side.\<close>

lemma side_inv_levelsI:
  assumes "la_ok la'" and "la_base la' = la_base la"
    and "\<And>r e. m r = Some e \<Longrightarrow> oe_side e = sd \<Longrightarrow> in_range la (oe_price e)"
    and "\<And>i. i < 2 ^ 20 \<Longrightarrow> la_levels la' (word_of_nat i) = level_total m (at_level la sd m i)"
    and "\<And>i. occupied_at la' i \<longleftrightarrow> at_level la sd m i \<noteq> {} \<or> i \<in> J"
  shows "side_inv la' sd m J"
  unfolding side_inv_def at_level_base [OF assms(2)] in_range_base [OF assms(2)]
  using assms(1,3,4,5) by blast

lemma side_invD:
  assumes "side_inv la sd m J"
  shows "la_ok la" and "m r = Some e \<Longrightarrow> oe_side e = sd \<Longrightarrow> in_range la (oe_price e)"
    and "i < 2 ^ 20 \<Longrightarrow> la_levels la (word_of_nat i) = level_total m (at_level la sd m i)"
    and "occupied_at la i \<longleftrightarrow> at_level la sd m i \<noteq> {} \<or> i \<in> J"
  using assms unfolding side_inv_def by blast+

lemma level_total_put:
  fixes m :: live
  assumes "finite (dom m)" "m r = None" "oe_side e = sd"
  shows "level_total (m(r \<mapsto> e)) (at_level la sd (m(r \<mapsto> e)) i) =
    (let l = level_total m (at_level la sd m i) in
     if i = level_no la (oe_price e)
     then \<lparr>total_shares = total_shares l + oe_shares e, order_count = order_count l + 1\<rparr> else l)"
proof -
  have r: "r \<notin> at_level la sd m i" using assms(2) by (simp add: at_level_def)
  show ?thesis
    using level_total_insert [where e = e, OF at_level_finite [OF assms(1)] r]
      level_total_cong [of "at_level la sd m i" "m(r \<mapsto> e)" m] r
    by (simp add: at_level_put [of m r e sd] assms Let_def)
      (metis fun_upd_other)
qed

lemma level_total_del:
  fixes m :: live
  assumes "finite (dom m)" "m r = Some e" "oe_side e = sd"
  shows "level_total (m(r := None)) (at_level la sd (m(r := None)) i) =
    (let l = level_total m (at_level la sd m i) in
     if i = level_no la (oe_price e)
     then \<lparr>total_shares = total_shares l - oe_shares e, order_count = order_count l - 1\<rparr> else l)"
proof (cases "i = level_no la (oe_price e)")
  case True
  then show ?thesis
    using level_total_remove [where R = "at_level la sd m i" and r = r and m = m and e = e] at_level_finite [OF assms(1), of la sd i]
    by (simp add: at_level_del [where m = m and r = r and e = e] assms Let_def)
next
  case False
  then have r: "r \<notin> at_level la sd m i" by (simp add: at_level_del [where m = m and r = r and e = e, OF assms(2,3)])
  then have "level_total (m(r := None)) (at_level la sd m i) = level_total m (at_level la sd m i)"
    by (intro level_total_cong) (metis fun_upd_other)
  with False r show ?thesis by (simp add: at_level_del [where m = m and r = r and e = e, OF assms(2,3)] Let_def)
qed

lemma side_inv_put:
  assumes inv: "side_inv la sd m J" and fin: "finite (dom m)" "card (dom m) < 2 ^ 32"
    and new: "m r = None" "oe_side e = sd" and p: "oe_price e = p" "in_range la p"
  defines "lvl \<equiv> la_at la p"
  defines "la1 \<equiv> la_write la p
    \<lparr>total_shares = total_shares lvl + oe_shares e, order_count = order_count lvl + 1\<rparr>"
  shows "side_inv (if order_count lvl = 0 then mark_occupied la1 p else la1) sd (m(r \<mapsto> e)) J"
    (is "side_inv ?la _ _ _")
proof -
  have la1: "la_ok la1" "in_range la1 p" "level_no la1 p = level_no la p"
    using side_invD(1) [OF inv] p(2) in_range_base [of la1 la] level_no_base [of la1 la]
    by (simp_all add: la1_def)
  have zero: "order_count lvl = 0 \<longleftrightarrow> at_level la sd m (level_no la p) = {}"
    unfolding lvl_def side_inv_at [OF inv p(2)] using fin by (rule level_count_zero)
  show ?thesis
  proof (rule side_inv_levelsI [of _ la])
    show "la_ok ?la" using mark_occupied_sound(1) [OF la1(1,2)] la1(1) by simp
    show "la_base ?la = la_base la" by (simp add: la1_def)
    show "in_range la (oe_price e')" if "(m(r \<mapsto> e)) r' = Some e'" "oe_side e' = sd" for r' e'
      using that side_invD(2) [OF inv, of r' e'] p by (auto split: if_splits)
    show "la_levels ?la (word_of_nat i) = level_total (m(r \<mapsto> e)) (at_level la sd (m(r \<mapsto> e)) i)"
      if i: "i < 2 ^ 20" for i
      using side_invD(3) [OF inv i] side_inv_at [OF inv p(2)]
      by (simp add: level_total_put [OF fin(1) new] p Let_def la1_def la_levels_write [OF p(2) i] lvl_def)
    show "occupied_at ?la i \<longleftrightarrow> at_level la sd (m(r \<mapsto> e)) i \<noteq> {} \<or> i \<in> J" for i
      using side_invD(4) [OF inv, of i] zero mark_occupied_sound(2) [OF la1(1,2), of i] la1(3)
      by (simp add: at_level_put [of m r e sd] new p la1_def)
  qed
qed

lemma side_inv_del:
  assumes inv: "side_inv la sd m {}" and fin: "finite (dom m)"
    and e: "m r = Some e" "oe_side e = sd" and p: "oe_price e = p"
  defines "lvl \<equiv> la_at la p"
  shows "side_inv (la_write la p
      \<lparr>total_shares = total_shares lvl - oe_shares e, order_count = order_count lvl - 1\<rparr>)
    sd (m(r := None)) {level_no la p}" (is "side_inv ?la _ _ _")
proof (rule side_inv_levelsI [of _ la])
  have r: "in_range la p" using side_invD(2) [OF inv e] p by simp
  show "la_ok ?la" using side_invD(1) [OF inv] by simp
  show "la_base ?la = la_base la" by simp
  show "in_range la (oe_price e')" if "(m(r := None)) r' = Some e'" "oe_side e' = sd" for r' e'
    using that side_invD(2) [OF inv, of r' e'] by (simp split: if_splits)
  show "la_levels ?la (word_of_nat i) = level_total (m(r := None)) (at_level la sd (m(r := None)) i)"
    if i: "i < 2 ^ 20" for i
    using side_invD(3) [OF inv i] side_inv_at [OF inv r]
    by (simp add: level_total_del [OF fin(1) e] p Let_def la_levels_write [OF r i] lvl_def)
  show "occupied_at ?la i \<longleftrightarrow> at_level la sd (m(r := None)) i \<noteq> {} \<or> i \<in> {level_no la p}" for i
    using side_invD(4) [OF inv, of i] at_level_del [where m = m and r = r and e = e and la = la and i = i, OF e] p by auto
qed

lemma side_inv_change:
  assumes inv: "side_inv la sd m J" and fin: "finite (dom m)"
    and e: "m r = Some e" "oe_side e = sd" and p: "oe_price e = p"
  defines "lvl \<equiv> la_at la p"
  shows "side_inv (la_write la p (lvl\<lparr>total_shares := total_shares lvl - k\<rparr>))
    sd (m(r \<mapsto> e\<lparr>oe_shares := oe_shares e - k\<rparr>)) J" (is "side_inv ?la _ ?m _")
proof (rule side_inv_levelsI [of _ la])
  let ?e = "e\<lparr>oe_shares := oe_shares e - k\<rparr>"
  have r: "in_range la p" using side_invD(2) [OF inv e] p by simp
  show "la_ok ?la" using side_invD(1) [OF inv] by simp
  show "la_base ?la = la_base la" by simp
  show "in_range la (oe_price e')" if "?m r' = Some e'" "oe_side e' = sd" for r' e'
    using that side_invD(2) [OF inv, of r' e'] r p by (auto split: if_splits)
  have at: "at_level la sd ?m i = at_level la sd m i" for i
    using e by (auto simp: at_level_def)
  have put: "level_total ?m (at_level la sd ?m i) =
    (let l = level_total (m(r := None)) (at_level la sd (m(r := None)) i) in
     if i = level_no la p
     then \<lparr>total_shares = total_shares l + (oe_shares e - k), order_count = order_count l + 1\<rparr> else l)" for i
    using level_total_put [of "m(r := None)" r ?e sd la i] fin e p by (simp add: Let_def)
  show "la_levels ?la (word_of_nat i) = level_total ?m (at_level la sd ?m i)" if i: "i < 2 ^ 20" for i
    using side_invD(3) [OF inv i] side_inv_at [OF inv r] unfolding put level_total_del [OF fin(1) e]
    by (simp add: p Let_def la_levels_write [OF r i] lvl_def)
  show "occupied_at ?la i \<longleftrightarrow> at_level la sd ?m i \<noteq> {} \<or> i \<in> J" for i
    using side_invD(4) [OF inv, of i] at by simp
qed

lemma side_inv_clear:
  assumes inv: "side_inv la sd m J" and p: "in_range la p" and J: "J \<subseteq> {level_no la p}"
    and empty: "at_level la sd m (level_no la p) = {}"
  shows "side_inv (mark_empty la p) sd m {}"
proof (rule side_inv_levelsI [of _ la])
  note ok = side_invD(1) [OF inv]
  show "la_ok (mark_empty la p)" using ok p by (rule mark_empty_sound)
  show "occupied_at (mark_empty la p) i \<longleftrightarrow> at_level la sd m i \<noteq> {} \<or> i \<in> {}" for i
    using side_invD(4) [OF inv, of i] mark_empty_sound(2) [OF ok p, of i] J empty by auto
qed (use side_invD [OF inv] in auto)

lemma side_inv_keep:
  assumes "side_inv la sd m J" and "J \<subseteq> {i. at_level la sd m i \<noteq> {}}"
  shows "side_inv la sd m {}"
  using assms unfolding side_inv_def by blast

end
