(* ===== verification/Book_Sides.thy ===== *)
theory Book_Sides
  imports Book_Spec
begin

text \<open>
  The two sides of the book are treated by mirrored code.  This theory gives one
  side-generic form of the pieces of the handlers (\<open>add_side\<close>, \<open>settle\<close>), shows that the
  code's mirrored forms are its instances, and proves what the pieces do to the side's
  invariant and to the cached best price, so that each handler is proved once for both sides.
\<close>

section \<open>Views of one side\<close>

definition levels_of :: "side \<Rightarrow> order_book \<Rightarrow> level_array" where
  "levels_of sd b = (case sd of Buy \<Rightarrow> ob_bids b | Sell \<Rightarrow> ob_asks b)"

definition set_levels :: "side \<Rightarrow> level_array \<Rightarrow> order_book \<Rightarrow> order_book" where
  "set_levels sd la b = (case sd of Buy \<Rightarrow> b\<lparr>ob_bids := la\<rparr> | Sell \<Rightarrow> b\<lparr>ob_asks := la\<rparr>)"

definition top_of :: "side \<Rightarrow> order_book \<Rightarrow> u32" where
  "top_of sd b = (case sd of Buy \<Rightarrow> best_bid b | Sell \<Rightarrow> best_ask b)"

definition set_top :: "side \<Rightarrow> u32 \<Rightarrow> order_book \<Rightarrow> order_book" where
  "set_top sd t b = (case sd of Buy \<Rightarrow> b\<lparr>best_bid := t\<rparr> | Sell \<Rightarrow> b\<lparr>best_ask := t\<rparr>)"

definition no_top :: "side \<Rightarrow> u32" where
  "no_top sd = (case sd of Buy \<Rightarrow> 0 | Sell \<Rightarrow> UINT32_MAX)"

definition better :: "side \<Rightarrow> u32 \<Rightarrow> u32 \<Rightarrow> bool" where
  "better sd p q = (case sd of Buy \<Rightarrow> q < p | Sell \<Rightarrow> p < q)"

text \<open>The next level away from the top, as both \<open>on_level_emptied\<close> and the walks compute it.\<close>

definition away :: "side \<Rightarrow> level_array \<Rightarrow> u32 \<Rightarrow> u32" where
  "away sd la p = (case sd of
     Buy \<Rightarrow> prev_occupied_below la p
   | Sell \<Rightarrow> (let nxt = next_occupied_above la p in if nxt \<noteq> 0 then nxt else UINT32_MAX))"

definition same_rest :: "side \<Rightarrow> order_book \<Rightarrow> order_book \<Rightarrow> bool" where
  "same_rest sd b b' \<longleftrightarrow> (\<forall>sd'. sd' \<noteq> sd \<longrightarrow> levels_of sd' b' = levels_of sd' b \<and> top_of sd' b' = top_of sd' b)
     \<and> ob_initialized b' = ob_initialized b \<and> ob_stock_id b' = ob_stock_id b"

lemmas side_views = levels_of_def set_levels_def top_of_def set_top_def

lemma side_view_simps [simp]:
  "levels_of sd (set_levels sd la b) = la" "levels_of sd (set_top sd' t b) = levels_of sd b"
  "top_of sd (set_top sd t b) = t" "top_of sd (set_levels sd' la b) = top_of sd b"
  "levels_of sd (b\<lparr>ob_orders := om\<rparr>) = levels_of sd b" "top_of sd (b\<lparr>ob_orders := om\<rparr>) = top_of sd b"
  "ob_orders (set_levels sd la b) = ob_orders b" "ob_orders (set_top sd t b) = ob_orders b"
  "set_levels sd la (set_levels sd la' b) = set_levels sd la b"
  by (simp_all add: side_views split: side.splits)

lemma same_rest_simps [simp]:
  "same_rest sd b b" "same_rest sd b (set_levels sd la b')= same_rest sd b b'"
  "same_rest sd b (set_top sd t b') = same_rest sd b b'"
  "same_rest sd b (b'\<lparr>ob_orders := om\<rparr>) = same_rest sd b b'"
  by (auto simp: same_rest_def side_views split: side.splits)

definition add_side :: "side \<Rightarrow> u32 \<Rightarrow> u32 \<Rightarrow> order_book \<Rightarrow> order_book" where
  "add_side sd price shares b =
     (let la = levels_of sd b; lvl = la_at la price;
          la = la_write la price
            \<lparr>total_shares = total_shares lvl + shares, order_count = order_count lvl + 1\<rparr>;
          la = (if order_count lvl = 0 then mark_occupied la price else la);
          b = set_levels sd la b
      in if better sd price (top_of sd b) then set_top sd price b else b)"

lemma add_side_code: "add_bid = add_side Buy" "add_ask = add_side Sell"
  by (simp_all add: fun_eq_iff add_bid_def add_ask_def add_side_def side_views better_def Let_def)

lemma on_level_emptied_side:
  "on_level_emptied sd price b =
     (let la = mark_empty (levels_of sd b) price; b = set_levels sd la b
      in if price = top_of sd b then set_top sd (away sd la price) b else b)"
  by (cases sd) (simp_all add: on_level_emptied_def side_views away_def Let_def)

text \<open>The common end of the handlers that take an order off a level.\<close>

definition settle :: "side \<Rightarrow> u32 \<Rightarrow> order_book \<Rightarrow> order_book" where
  "settle sd price b =
     (if order_count (la_at (levels_of sd b) price) = 0 then on_level_emptied sd price b else b)"

lemma settle_same_rest:
  "same_rest sd b (settle sd price b') = same_rest sd b b'" "ob_orders (settle sd price b') = ob_orders b'"
  by (simp_all add: settle_def on_level_emptied_side Let_def)

lemma add_side_same_rest:
  "same_rest sd b (add_side sd price shares b') = same_rest sd b b'"
  "ob_orders (add_side sd price shares b') = ob_orders b'"
  by (simp_all add: add_side_def Let_def)

section \<open>The best price\<close>

definition side_prices :: "side \<Rightarrow> live \<Rightarrow> u32 set" where
  "side_prices sd m = {oe_price e | r e. m r = Some e \<and> oe_side e = sd}"

text \<open>\<open>is_top sd P t\<close>: \<open>t\<close> is the best price of \<open>P\<close>, the code's sentinel when \<open>P\<close> is empty.\<close>

definition is_top :: "side \<Rightarrow> u32 set \<Rightarrow> u32 \<Rightarrow> bool" where
  "is_top sd P t \<longleftrightarrow> (if P = {} then t = no_top sd else t \<in> P \<and> (\<forall>p\<in>P. \<not> better sd p t))"

text \<open>Every price on the tick grid.\<close>

definition tick_ok :: "live \<Rightarrow> bool" where
  "tick_ok m \<longleftrightarrow> (\<forall>r e. m r = Some e \<longrightarrow> unat (oe_price e) mod 100 = 0)"

lemma better_no_top: "better sd p (no_top sd) \<longleftrightarrow> p \<noteq> no_top sd" "\<not> better sd (no_top sd) p"
proof -
  have mx: "x < - 1 \<longleftrightarrow> x \<noteq> - 1" "\<not> - 1 < x" for x :: u32
    using word_order.not_eq_extremum [of x] word_order.extremum_strict [of x] by blast+
  show "better sd p (no_top sd) \<longleftrightarrow> p \<noteq> no_top sd" "\<not> better sd (no_top sd) p"
    by (cases sd; simp add: better_def no_top_def UINT32_MAX_def word_gt_0 mx)+
qed

lemma better_total: "p \<noteq> q \<Longrightarrow> \<not> better sd q p \<Longrightarrow> better sd p q"
  by (cases sd) (auto simp: better_def)

lemma better_trans: "better sd p q \<Longrightarrow> better sd q r \<Longrightarrow> better sd p r"
  by (cases sd) (auto simp: better_def)

lemma better_irrefl: "\<not> better sd p p"
  by (cases sd) (auto simp: better_def)

lemma is_top_insert:
  assumes "is_top sd P t"
  shows "is_top sd (insert q P) (if better sd q t then q else t)"
proof (cases "P = {}")
  case True
  with assms have "t = no_top sd" by (simp add: is_top_def)
  with True show ?thesis
    using better_no_top [of sd q] better_irrefl [of sd q] by (auto simp: is_top_def)
next
  case False
  with assms have t: "t \<in> P" "\<And>p. p \<in> P \<Longrightarrow> \<not> better sd p t" by (auto simp: is_top_def)
  show ?thesis
  proof (cases "better sd q t")
    case True
    then have "\<not> better sd p q" if "p \<in> P" for p using t(2) [OF that] better_trans by blast
    with True show ?thesis by (simp add: is_top_def better_irrefl)
  qed (use t in \<open>auto simp: is_top_def\<close>)
qed

lemma is_top_remove:
  assumes "is_top sd (insert p P) t" and "t \<noteq> p"
  shows "is_top sd P t"
  using assms by (auto simp: is_top_def)

lemma is_top_empty: "is_top sd {} (no_top sd)"
  by (simp add: is_top_def)

lemma side_prices_put:
  "m r = None \<Longrightarrow> side_prices sd (m(r \<mapsto> e)) =
     (if oe_side e = sd then insert (oe_price e) (side_prices sd m) else side_prices sd m)"
  by (auto simp: side_prices_def split: if_splits) (metis option.distinct(1))+

lemma side_prices_del:
  "m r = Some e \<Longrightarrow> oe_side e = sd \<Longrightarrow>
     side_prices sd m = insert (oe_price e) (side_prices sd (m(r := None)))"
  by (auto simp: side_prices_def) (metis fun_upd_def option.inject)+

lemma side_prices_other:
  "m r = Some e \<Longrightarrow> oe_side e \<noteq> sd \<Longrightarrow> side_prices sd (m(r := None)) = side_prices sd m"
  by (auto simp: side_prices_def) (metis option.inject)

lemma side_prices_agree: "agree_on sd m m' \<Longrightarrow> side_prices sd m' = side_prices sd m"
  unfolding agree_on_def side_prices_def by (intro Collect_cong) blast

lemma side_prices_change:
  assumes "m r = Some e" and "oe_price e' = oe_price e" "oe_side e' = oe_side e"
  shows "side_prices sd (m(r \<mapsto> e')) = side_prices sd m"
proof -
  have "side_prices sd (m(r \<mapsto> e')) = side_prices sd ((m(r := None))(r \<mapsto> e'))" by simp
  also have "\<dots> = side_prices sd m"
    using assms side_prices_del [of m r e sd] side_prices_other [of m r e sd]
    by (subst side_prices_put) auto
  finally show ?thesis .
qed

end
