(* ===== verification/Book_Correct.thy ===== *)
theory Book_Correct
  imports Book_Sides
begin

text \<open>
  Correctness of the order book's handlers: each returns while the map has room, implements
  its abstract handler on the live orders, and keeps the level arrays (\<open>book_inv\<close>) and, on
  the tick grid, the top of book (\<open>top_inv\<close>); the depth walks return the best levels in
  order.
\<close>

section \<open>Levels and prices on the tick grid\<close>

lemma side_priceD:
  assumes inv: "side_inv la sd m J" and tick: "tick_ok m" and q: "q \<in> side_prices sd m"
  shows "in_range la q" and "level_price la (level_no la q) = q" and "at_level la sd m (level_no la q) \<noteq> {}"
proof -
  from q obtain r e where e: "m r = Some e" "oe_side e = sd" "oe_price e = q"
    by (auto simp: side_prices_def)
  show rng: "in_range la q" using side_invD(2) [OF inv e(1,2)] e(3) by simp
  show "level_price la (level_no la q) = q"
    using level_price_level_no [OF side_invD(1) [OF inv] rng] tick e by (auto simp: tick_ok_def)
  show "at_level la sd m (level_no la q) \<noteq> {}" using e by (auto simp: at_level_def)
qed

lemma at_level_price:
  assumes inv: "side_inv la sd m J" and tick: "tick_ok m" and i: "at_level la sd m i \<noteq> {}"
  shows "level_price la i \<in> side_prices sd m" and "i < 2 ^ 20" and "level_no la (level_price la i) = i"
proof -
  from i obtain r e where e: "m r = Some e" "oe_side e = sd" "level_no la (oe_price e) = i"
    by (auto simp: at_level_def)
  then have q: "oe_price e \<in> side_prices sd m" by (auto simp: side_prices_def)
  from side_priceD [OF inv tick q] e(3) q show "level_price la i \<in> side_prices sd m" "i < 2 ^ 20"
    "level_no la (level_price la i) = i" by (auto simp: in_range_less)
qed

lemma occupied_price:
  assumes inv: "side_inv la sd m {}" and tick: "tick_ok m"
  shows "occupied_at la i \<longleftrightarrow> i < 2 ^ 20 \<and> level_price la i \<in> side_prices sd m"
proof
  assume "occupied_at la i"
  then have "at_level la sd m i \<noteq> {}" using side_invD(4) [OF inv] by blast
  from at_level_price [OF inv tick this] show "i < 2 ^ 20 \<and> level_price la i \<in> side_prices sd m" by blast
next
  assume i: "i < 2 ^ 20 \<and> level_price la i \<in> side_prices sd m"
  then have "at_level la sd m (level_no la (level_price la i)) \<noteq> {}"
    using side_priceD(3) [OF inv tick] by blast
  then show "occupied_at la i"
    using i side_invD(4) [OF inv] level_no_level_price [OF side_invD(1) [OF inv]] by metis
qed

lemma level_no_less:
  assumes "la_ok la" "in_range la p" "unat p mod 100 = 0" "in_range la q" "unat q mod 100 = 0"
  shows "level_no la p < level_no la q \<longleftrightarrow> p < q"
  using level_price_less [OF assms(1), of "level_no la p" "level_no la q"]
    level_price_level_no [OF assms(1)] assms by (simp add: in_range_less)

text \<open>A step away from \<open>p\<close> arrives at the best price beyond \<open>p\<close>.\<close>

lemma away_sound:
  assumes inv: "side_inv la sd m {}" and tick: "tick_ok m"
    and p: "in_range la p" "unat p mod 100 = 0"
  shows "is_top sd {q \<in> side_prices sd m. better sd p q} (away sd la p)"
proof -
  note ok = side_invD(1) [OF inv] and occ = occupied_price [OF inv tick]
  have lp: "level_price la (level_no la p) = p" using level_price_level_no [OF ok p] .
  have np: "level_no la p < 2 ^ 20" using p(1) by (simp add: in_range_less)
  have q: "\<exists>j. occupied_at la j \<and> q = level_price la j \<and> j < 2 ^ 20" if "q \<in> side_prices sd m" for q
    using side_priceD [OF inv tick that] that occ by (metis in_range_less)
  have cmp: "level_price la i < p \<longleftrightarrow> i < level_no la p" "p < level_price la i \<longleftrightarrow> level_no la p < i"
    if "i < 2 ^ 20" for i
    using level_price_less [OF ok that np] level_price_less [OF ok np that] lp by simp_all
  show ?thesis
  proof (cases sd)
    case Buy
    consider (none) "prev_occupied_below la p = 0" "\<forall>i. occupied_at la i \<longrightarrow> level_no la p \<le> i"
      | (some) i where "occupied_at la i" "i < level_no la p" "prev_occupied_below la p = level_price la i"
          "\<forall>j. occupied_at la j \<longrightarrow> j < level_no la p \<longrightarrow> j \<le> i"
      using prev_occupied_below_sound [OF ok p(1)] by blast
    then show ?thesis
    proof cases
      case none
      have "\<not> q < p" if "q \<in> side_prices sd m" for q
        using q [OF that] none(2) cmp(1) by (metis not_less)
      then have "{q \<in> side_prices sd m. better sd p q} = {}" using Buy by (auto simp: better_def)
      then show ?thesis using none(1) Buy by (simp add: is_top_def away_def no_top_def)
    next
      case some
      have i: "i < 2 ^ 20" using occupied_less [OF ok some(1)] .
      have "level_price la i \<in> {q \<in> side_prices sd m. better sd p q}"
        using occ [of i] some(1,2) cmp(1) [OF i] Buy by (simp add: better_def)
      moreover have "\<not> level_price la i < q" if "q \<in> side_prices sd m" "q < p" for q
        using q [OF that(1)] some(4) cmp(1) that(2) level_price_less [OF ok i] by (metis not_less)
      ultimately show ?thesis
        using Buy some(3) unfolding is_top_def away_def better_def by auto
    qed
  next
    case Sell
    consider (none) "next_occupied_above la p = 0" "\<forall>i. occupied_at la i \<longrightarrow> i \<le> level_no la p"
      | (some) i where "next_occupied_above la p \<noteq> 0" "occupied_at la i" "level_no la p < i"
          "next_occupied_above la p = level_price la i"
          "\<forall>j. occupied_at la j \<longrightarrow> level_no la p < j \<longrightarrow> i \<le> j"
      using next_occupied_above_sound [OF ok p(1)] by blast
    then show ?thesis
    proof cases
      case none
      have "\<not> p < q" if "q \<in> side_prices sd m" for q
        using q [OF that] none(2) cmp(2) by (metis not_less)
      then have "{q \<in> side_prices sd m. better sd p q} = {}" using Sell by (auto simp: better_def)
      then show ?thesis using none(1) Sell by (simp add: is_top_def away_def no_top_def)
    next
      case some
      have i: "i < 2 ^ 20" using occupied_less [OF ok some(2)] .
      have "level_price la i \<in> {q \<in> side_prices sd m. better sd p q}"
        using occ [of i] some(2,3) cmp(2) [OF i] Sell by (simp add: better_def)
      moreover have "\<not> q < level_price la i" if "q \<in> side_prices sd m" "p < q" for q
        using q [OF that(1)] some(5) cmp(2) that(2) level_price_less [OF ok _ i] by (metis not_less)
      ultimately show ?thesis
        using Sell some(1,4) unfolding is_top_def away_def better_def by (auto simp: Let_def)
    qed
  qed
qed

section \<open>The pieces\<close>

lemma add_side_levels:
  "levels_of sd (add_side sd price shares b) =
     (let la = levels_of sd b; lvl = la_at la price;
          la1 = la_write la price
            \<lparr>total_shares = total_shares lvl + shares, order_count = order_count lvl + 1\<rparr>
      in if order_count lvl = 0 then mark_occupied la1 price else la1)"
  by (simp add: add_side_def Let_def)

lemma settle_levels:
  "levels_of sd (settle sd price b) =
     (if order_count (la_at (levels_of sd b) price) = 0 then mark_empty (levels_of sd b) price
      else levels_of sd b)"
  by (simp add: settle_def on_level_emptied_side Let_def)

lemma settle_top:
  "top_of sd (settle sd price b) =
     (if order_count (la_at (levels_of sd b) price) = 0 \<and> price = top_of sd b
      then away sd (mark_empty (levels_of sd b) price) price else top_of sd b)"
  by (auto simp: settle_def on_level_emptied_side Let_def)

lemma add_side_sound:
  assumes inv: "side_inv (levels_of sd b) sd m J" and fin: "finite (dom m)" "card (dom m) < 2 ^ 32"
    and new: "m r = None" and p: "in_range (levels_of sd b) price"
  shows "side_inv (levels_of sd (add_side sd price shares b)) sd
      (m(r \<mapsto> \<lparr>oe_price = price, oe_shares = shares, oe_side = sd\<rparr>)) J"
    and "is_top sd P (top_of sd b) \<Longrightarrow> is_top sd (insert price P) (top_of sd (add_side sd price shares b))"
proof -
  show "side_inv (levels_of sd (add_side sd price shares b)) sd
      (m(r \<mapsto> \<lparr>oe_price = price, oe_shares = shares, oe_side = sd\<rparr>)) J"
    using side_inv_put [OF inv fin new, of "\<lparr>oe_price = price, oe_shares = shares, oe_side = sd\<rparr>" price] p
    unfolding add_side_levels Let_def by (simp only: order_entry.select_convs)
  have "top_of sd (add_side sd price shares b) =
      (if better sd price (top_of sd b) then price else top_of sd b)"
    by (simp add: add_side_def Let_def)
  then show "is_top sd P (top_of sd b) \<Longrightarrow>
      is_top sd (insert price P) (top_of sd (add_side sd price shares b))"
    using is_top_insert [of sd P "top_of sd b" price] by simp
qed

lemma settle_sound:
  assumes inv: "side_inv (levels_of sd b) sd m J" and fin: "finite (dom m)" "card (dom m) < 2 ^ 32"
    and p: "in_range (levels_of sd b) price" and J: "J \<subseteq> {level_no (levels_of sd b) price}"
  shows "side_inv (levels_of sd (settle sd price b)) sd m {}"
    and "tick_ok m \<Longrightarrow> unat price mod 100 = 0
      \<Longrightarrow> is_top sd (insert price (side_prices sd m)) (top_of sd b)
      \<Longrightarrow> is_top sd (side_prices sd m) (top_of sd (settle sd price b))"
proof -
  let ?la = "levels_of sd b" and ?n = "level_no (levels_of sd b) price"
  have zero: "order_count (la_at ?la price) = 0 \<longleftrightarrow> at_level ?la sd m ?n = {}"
    unfolding side_inv_at [OF inv p] using fin by (rule level_count_zero)
  show "side_inv (levels_of sd (settle sd price b)) sd m {}"
  proof (cases "at_level ?la sd m ?n = {}")
    case True
    then show ?thesis using side_inv_clear [OF inv p J] zero by (simp add: settle_levels)
  next
    case False
    then have "side_inv ?la sd m {}" using side_inv_keep [OF inv] J by blast
    with False zero show ?thesis by (simp add: settle_levels)
  qed
  assume tick: "tick_ok m" and pm: "unat price mod 100 = 0"
    and top: "is_top sd (insert price (side_prices sd m)) (top_of sd b)"
  show "is_top sd (side_prices sd m) (top_of sd (settle sd price b))"
  proof (cases "at_level ?la sd m ?n = {}")
    case False
    from at_level_price [OF inv tick False] level_price_level_no [OF side_invD(1) [OF inv] p pm]
    have "price \<in> side_prices sd m" by simp
    with top False zero show ?thesis by (simp add: settle_top insert_absorb)
  next
    case True
    have out: "price \<notin> side_prices sd m" using side_priceD(3) [OF inv tick, of price] True by blast
    show ?thesis
    proof (cases "top_of sd b = price")
      case same: True
      let ?la' = "mark_empty ?la price"
      have inv': "side_inv ?la' sd m {}" using inv p J True by (rule side_inv_clear)
      have p': "in_range ?la' price" using p in_range_base [of ?la' ?la] by simp
      have "better sd price q" if q: "q \<in> side_prices sd m" for q
      proof -
        have "\<not> better sd q price" using top same q by (simp add: is_top_def)
        moreover have "q \<noteq> price" using q out by blast
        ultimately show ?thesis using better_total by blast
      qed
      then have eq: "{q \<in> side_prices sd m. better sd price q} = side_prices sd m" by blast
      show ?thesis
        using away_sound [OF inv' tick p' pm] True zero same unfolding eq
        by (simp add: settle_top)
    next
      case False
      then show ?thesis using is_top_remove [OF top False] zero True by (simp add: settle_top)
    qed
  qed
qed

section \<open>The invariants\<close>

definition book_inv :: "order_book \<Rightarrow> bool" where
  "book_inv b \<longleftrightarrow> om_inv 20 (ob_orders b) \<and> card (dom (live_orders b)) < 2 ^ 20
     \<and> (\<forall>sd. side_inv (levels_of sd b) sd (live_orders b) {})"

definition top_inv :: "order_book \<Rightarrow> bool" where
  "top_inv b \<longleftrightarrow> (\<forall>sd. is_top sd (side_prices sd (live_orders b)) (top_of sd b))"

lemma live_finite: "finite (dom (live_orders b))"
  by (simp add: live_orders_def om_abs_def finite_dom_probe_map)

lemma book_invD:
  assumes "book_inv b"
  shows "om_inv 20 (ob_orders b)" and "card (dom (live_orders b)) < 2 ^ 20"
    and "card (dom (live_orders b)) < 2 ^ 32" and "side_inv (levels_of sd b) sd (live_orders b) {}"
  using assms unfolding book_inv_def by auto

text \<open>A handler touches one side only.\<close>

lemma book_inv_stepI:
  assumes inv: "book_inv b" and rest: "same_rest sd b b'"
    and om: "om_inv 20 (ob_orders b')"
    and own: "\<And>sd'. sd' \<noteq> sd \<Longrightarrow> agree_on sd' (live_orders b) (live_orders b')"
    and card: "card (dom (live_orders b')) < 2 ^ 20"
    and side: "side_inv (levels_of sd b') sd (live_orders b') {}"
  shows "book_inv b'"
  unfolding book_inv_def
proof (intro conjI allI om card)
  fix sd'
  show "side_inv (levels_of sd' b') sd' (live_orders b') {}"
  proof (cases "sd' = sd")
    case False
    then show ?thesis
      using rest side_inv_agree [OF book_invD(4) [OF inv] own] by (simp add: same_rest_def)
  qed (use side in simp)
qed

lemma top_inv_stepI:
  assumes inv: "top_inv b" and rest: "same_rest sd b b'"
    and own: "\<And>sd'. sd' \<noteq> sd \<Longrightarrow> agree_on sd' (live_orders b) (live_orders b')"
    and side: "is_top sd (side_prices sd (live_orders b')) (top_of sd b')"
  shows "top_inv b'"
  unfolding top_inv_def
proof
  fix sd'
  show "is_top sd' (side_prices sd' (live_orders b')) (top_of sd' b')"
  proof (cases "sd' = sd")
    case False
    with rest inv show ?thesis
      unfolding top_inv_def same_rest_def by (simp add: side_prices_agree [OF own])
  qed (use side in simp)
qed

section \<open>Adding an order\<close>

definition add_order :: "u64 \<Rightarrow> side \<Rightarrow> u32 \<Rightarrow> u32 \<Rightarrow> order_book \<Rightarrow> order_book option" where
  "add_order ref sd price shares b =
     map_option (\<lambda>orders. add_side sd price shares (b\<lparr>ob_orders := orders\<rparr>))
       (om_insert ORDER_MASK (ob_orders b) ref price shares sd)"

lemma on_add_side:
  "on_add ref sd price shares (drops, b) =
     (if in_range (levels_of sd b) price then map_option (Pair drops) (add_order ref sd price shares b)
      else Some (drops + 1, b))"
  by (cases sd) (simp_all add: on_add_def add_order_def add_side_code levels_of_def option.map_comp
      comp_def split: option.splits)

lemma card_dom_put: "finite (dom m) \<Longrightarrow> card (dom (m(r \<mapsto> e))) \<le> card (dom m) + 1"
  by (simp add: card_insert_if)

lemma add_order_sound:
  assumes inv: "book_inv b" and new: "live_orders b ref = None"
    and room: "card (dom (live_orders b)) + 1 < 2 ^ 20" and p: "in_range (levels_of sd b) price"
  shows "\<exists>b'. add_order ref sd price shares b = Some b' \<and> book_inv b'
    \<and> live_orders b' = spec_add ref sd price shares (live_orders b) \<and> (top_inv b \<longrightarrow> top_inv b')"
proof -
  let ?m = "live_orders b" and ?e = "\<lparr>oe_price = price, oe_shares = shares, oe_side = sd\<rparr>"
  obtain orders where o: "om_insert ORDER_MASK (ob_orders b) ref price shares sd = Some orders"
    "om_inv 20 orders" "om_abs 20 orders = ?m(ref \<mapsto> ?e)"
    using om_insert_sound [of 20 "ob_orders b" ref price shares sd] book_invD(1) [OF inv] room new
    by (auto simp: ORDER_MASK_def live_orders_def)
  let ?b0 = "b\<lparr>ob_orders := orders\<rparr>"
  let ?b' = "add_side sd price shares ?b0"
  have rest: "same_rest sd b ?b'" by (simp add: add_side_same_rest)
  have om: "ob_orders ?b' = orders" by (simp add: add_side_same_rest)
  then have live: "live_orders ?b' = ?m(ref := Some ?e)" using o(3) by (simp add: live_orders_def)
  have own: "agree_on sd' ?m (live_orders ?b')" if "sd' \<noteq> sd" for sd'
    unfolding live using new that by (intro agree_on_upd) auto
  have inv0: "side_inv (levels_of sd ?b0) sd ?m {}" using book_invD(4) [OF inv] by simp
  have p0: "in_range (levels_of sd ?b0) price" using p by simp
  note s = add_side_sound [where shares = shares, OF inv0 live_finite book_invD(3) [OF inv] new p0]
  have "book_inv ?b'"
  proof (rule book_inv_stepI [OF inv rest _ own])
    show "card (dom (live_orders ?b')) < 2 ^ 20"
      unfolding live using card_dom_put [OF live_finite, of b ref ?e] room by linarith
  qed (use s(1) o(2) om live in auto)
  moreover have "top_inv ?b'" if top: "top_inv b"
  proof (rule top_inv_stepI [OF top rest own])
    have "is_top sd (side_prices sd ?m) (top_of sd ?b0)" using top by (simp add: top_inv_def)
    from s(2) [OF this] new show "is_top sd (side_prices sd (live_orders ?b')) (top_of sd ?b')"
      unfolding live by (simp add: side_prices_put)
  qed
  ultimately show ?thesis
    using o(1) live by (intro exI [of _ ?b']) (simp add: add_order_def spec_add_def)
qed

section \<open>Taking an order off\<close>

definition remove_order :: "side \<Rightarrow> u64 \<Rightarrow> u32 \<Rightarrow> price_level \<Rightarrow> order_map \<Rightarrow> order_book \<Rightarrow> order_book option" where
  "remove_order sd ref price lvl orders b =
     map_option (\<lambda>orders. settle sd price
         (set_levels sd (la_write (levels_of sd b) price lvl) (b\<lparr>ob_orders := orders\<rparr>)))
       (om_erase ORDER_MASK orders ref)"

definition reduce_side :: "side \<Rightarrow> u64 \<Rightarrow> u32 \<Rightarrow> u32 \<Rightarrow> order_book \<Rightarrow> order_book option" where
  "reduce_side sd ref p taken b =
     (let entry = s_entry (ob_orders b p); price = oe_price entry; lvl = la_at (levels_of sd b) price;
          left = entry\<lparr>oe_shares := oe_shares entry - taken\<rparr>;
          orders = om_write (ob_orders b) p left
      in if oe_shares left = 0
         then remove_order sd ref price
           \<lparr>total_shares = total_shares lvl - taken, order_count = order_count lvl - 1\<rparr> orders b
         else Some (set_levels sd (la_write (levels_of sd b) price
           (lvl\<lparr>total_shares := total_shares lvl - taken\<rparr>)) (b\<lparr>ob_orders := orders\<rparr>)))"

lemma la_at_write [simp]: "la_at (la_write la p l) p = l"
  by (simp add: la_at_def la_write_def index_of_def)

lemma level_upd_both [simp]:
  "(l :: price_level)\<lparr>total_shares := a, order_count := c\<rparr> = \<lparr>total_shares = a, order_count = c\<rparr>"
  by (cases l) simp

lemma reduce_side_code: "reduce_bid = reduce_side Buy" "reduce_ask = reduce_side Sell"
  by (simp_all add: fun_eq_iff reduce_bid_def reduce_ask_def reduce_side_def remove_order_def settle_def
      side_views Let_def split: option.splits)

lemma on_delete_side:
  "on_delete ref b =
     (case om_find ORDER_MASK (ob_orders b) ref of
        None \<Rightarrow> None
      | Some None \<Rightarrow> Some b
      | Some (Some p) \<Rightarrow>
          let entry = s_entry (ob_orders b p); sd = oe_side entry; price = oe_price entry;
              lvl = la_at (levels_of sd b) price
          in remove_order sd ref price \<lparr>total_shares = total_shares lvl - oe_shares entry,
               order_count = order_count lvl - 1\<rparr> (ob_orders b) b)"
  by (simp add: on_delete_def remove_order_def settle_def side_views Let_def
      split: option.splits side.splits)

lemma find_live:
  assumes "book_inv b"
  shows "\<exists>r. om_find ORDER_MASK (ob_orders b) ref = Some r \<and> (case r of None \<Rightarrow> live_orders b ref = None
    | Some p \<Rightarrow> points_to 20 (ob_orders b) ref p \<and> live_orders b ref = Some (s_entry (ob_orders b p)))"
  using om_find_sound [of 20 "ob_orders b" ref] book_invD [OF assms]
  by (auto simp: ORDER_MASK_def live_orders_def points_to_def split: option.splits)

lemma card_dom_del: "finite (dom m) \<Longrightarrow> card (dom (m(r := None))) \<le> card (dom m)"
  by (simp add: card_Diff1_le)

lemma remove_order_sound:
  fixes b :: order_book
  defines "m \<equiv> live_orders b"
  assumes inv: "book_inv b" and e: "m ref = Some e" "oe_side e = sd" "oe_price e = price"
    and om: "om_inv 20 orders" "om_abs 20 orders = m(ref \<mapsto> e')"
    and lvl: "lvl = \<lparr>total_shares = total_shares (la_at (levels_of sd b) price) - oe_shares e,
      order_count = order_count (la_at (levels_of sd b) price) - 1\<rparr>"
  shows "\<exists>b'. remove_order sd ref price lvl orders b = Some b' \<and> book_inv b' \<and> live_orders b' = m(ref := None)
    \<and> (top_inv b \<and> tick_ok m \<longrightarrow> top_inv b')"
proof -
  have card_m: "card (dom m) < 2 ^ 20" and fin: "finite (dom m)"
    using book_invD(2) [OF inv] live_finite by (simp_all add: m_def)
  have "dom (m(ref \<mapsto> e')) = dom m" using e(1) by (simp add: domI insert_absorb)
  then have "card (dom (om_abs 20 orders)) < 2 ^ 20" "om_abs 20 orders ref \<noteq> None"
    using om(2) card_m by simp_all
  then obtain orders' where o: "om_erase ORDER_MASK orders ref = Some orders'" "om_inv 20 orders'"
    "om_abs 20 orders' = m(ref := None)"
    using om_erase_sound [of 20 orders ref] om by (auto simp: ORDER_MASK_def)
  let ?b1 = "set_levels sd (la_write (levels_of sd b) price lvl) (b\<lparr>ob_orders := orders'\<rparr>)"
  let ?b' = "settle sd price ?b1" and ?m' = "m(ref := None)"
  have rest: "same_rest sd b ?b'" and ord: "ob_orders ?b' = orders'"
    by (simp_all add: settle_same_rest)
  then have live: "live_orders ?b' = (live_orders b)(ref := None)"
    using o(3) by (simp add: live_orders_def m_def)
  have own: "agree_on sd' (live_orders b) (live_orders ?b')" if "sd' \<noteq> sd" for sd'
    unfolding live using e that by (intro agree_on_upd) (auto simp: m_def)
  note inv_sd = book_invD(4) [OF inv, of sd, folded m_def]
  have rng: "in_range (levels_of sd b) price" using side_invD(2) [OF inv_sd e(1,2)] e(3) by simp
  have inv1: "side_inv (levels_of sd ?b1) sd ?m' {level_no (levels_of sd b) price}"
    using side_inv_del [OF inv_sd fin e] by (simp add: lvl)
  have rng1: "in_range (levels_of sd ?b1) price"
    and no1: "level_no (levels_of sd ?b1) price = level_no (levels_of sd b) price"
    using rng in_range_base [of "levels_of sd ?b1" "levels_of sd b"]
      level_no_base [of "levels_of sd ?b1" "levels_of sd b"] by simp_all
  have fin': "finite (dom ?m')" and card': "card (dom ?m') < 2 ^ 20"
    using fin card_m card_dom_del [OF fin, of ref] by (simp_all add: order.strict_trans1)
  then have card'': "card (dom ?m') < 2 ^ 32" by simp
  have J: "{level_no (levels_of sd b) price} \<subseteq> {level_no (levels_of sd ?b1) price}" using no1 by simp
  note s = settle_sound [OF inv1 fin' card'' rng1 J]
  have "book_inv ?b'"
    by (rule book_inv_stepI [OF inv rest _ own]) (use s(1) o(2) ord live card' in \<open>auto simp: m_def\<close>)
  moreover have "top_inv ?b'" if top: "top_inv b" and tick: "tick_ok m"
  proof (rule top_inv_stepI [OF top rest own])
    have "tick_ok ?m'" using tick by (simp add: tick_ok_def)
    moreover have "unat price mod 100 = 0" using tick e by (auto simp: tick_ok_def)
    moreover have "is_top sd (side_prices sd m) (top_of sd ?b1)"
      using top by (simp add: top_inv_def m_def)
    then have "is_top sd (insert price (side_prices sd ?m')) (top_of sd ?b1)"
      unfolding side_prices_del [where m = m and r = ref, OF e(1,2)] e(3) .
    ultimately show "is_top sd (side_prices sd (live_orders ?b')) (top_of sd ?b')"
      using s(2) unfolding live by (simp add: m_def)
  qed
  ultimately show ?thesis
    using o(1) live by (intro exI [of _ ?b']) (simp add: remove_order_def m_def)
qed

lemma reduce_side_sound:
  assumes inv: "book_inv b" and p: "points_to 20 (ob_orders b) ref p"
    and e: "s_entry (ob_orders b p) = e" "oe_side e = sd"
  shows "\<exists>b'. reduce_side sd ref p taken b = Some b' \<and> book_inv b'
    \<and> live_orders b' = spec_take ref taken (live_orders b)
    \<and> (top_inv b \<and> tick_ok (live_orders b) \<longrightarrow> top_inv b')"
proof -
  let ?m = "live_orders b" and ?l = "e\<lparr>oe_shares := oe_shares e - taken\<rparr>"
  let ?o = "om_write (ob_orders b) p ?l" and ?la = "levels_of sd b"
  let ?lvl = "la_at ?la (oe_price e)"
  have live: "?m ref = Some e" using p e by (simp add: points_to_def live_orders_def)
  have om: "om_inv 20 ?o" "om_abs 20 ?o = ?m(ref \<mapsto> ?l)"
    using om_write_sound [OF _ book_invD(1) [OF inv] p, of ?l] by (simp_all add: live_orders_def)
  show ?thesis
  proof (cases "oe_shares e = taken")
    case True
    then show ?thesis
      using remove_order_sound [OF inv live e(2) refl om refl] live e
      by (simp add: reduce_side_def Let_def spec_take_def)
  next
    case False
    let ?b' = "set_levels sd (la_write ?la (oe_price e)
      (?lvl\<lparr>total_shares := total_shares ?lvl - taken\<rparr>)) (b\<lparr>ob_orders := ?o\<rparr>)"
    have rest: "same_rest sd b ?b'" by simp
    have live': "live_orders ?b' = ?m(ref := Some ?l)" using om(2) by (simp add: live_orders_def)
    have own: "agree_on sd' ?m (live_orders ?b')" if "sd' \<noteq> sd" for sd'
      unfolding live' using live e(2) that by (intro agree_on_upd) auto
    have "dom (?m(ref \<mapsto> ?l)) = dom ?m" using live by (simp add: domI insert_absorb)
    then have card: "card (dom (live_orders ?b')) < 2 ^ 20"
      using book_invD(2) [OF inv] by (simp only: live')
    have "book_inv ?b'"
      by (rule book_inv_stepI [OF inv rest _ own])
        (use side_inv_change [OF book_invD(4) [OF inv] live_finite live e(2) refl] card om(1) live' in auto)
    moreover have "top_inv ?b'" if "top_inv b"
    proof (rule top_inv_stepI [OF that rest own])
      have "side_prices sd (live_orders ?b') = side_prices sd ?m"
        unfolding live' using live by (intro side_prices_change) simp_all
      then show "is_top sd (side_prices sd (live_orders ?b')) (top_of sd ?b')"
        using that by (simp add: top_inv_def)
    qed
    ultimately show ?thesis
      using False live live' e by (simp add: reduce_side_def Let_def spec_take_def)
  qed
qed

section \<open>The handlers\<close>

lemma on_add_sound:
  assumes "book_inv b" "live_orders b ref = None" "card (dom (live_orders b)) + 1 < 2 ^ 20"
    and "in_range (levels_of sd b) price"
  shows "\<exists>b'. on_add ref sd price shares (drops, b) = Some (drops, b') \<and> book_inv b'
    \<and> live_orders b' = spec_add ref sd price shares (live_orders b) \<and> (top_inv b \<longrightarrow> top_inv b')"
  using add_order_sound [OF assms, of shares] assms(4) by (auto simp: on_add_side)

lemma on_execute_side:
  "on_execute ref n b =
     (case om_find ORDER_MASK (ob_orders b) ref of
        None \<Rightarrow> None
      | Some None \<Rightarrow> Some (no_trade, b)
      | Some (Some p) \<Rightarrow>
          let entry = s_entry (ob_orders b p)
          in map_option (Pair \<lparr>tr_price = oe_price entry, tr_shares = n, tr_side = oe_side entry\<rparr>)
               (reduce_side (oe_side entry) ref p n b))"
  by (simp add: on_execute_def reduce_side_code Let_def split: option.splits side.splits)

lemma on_cancel_side:
  "on_cancel ref n b =
     (case om_find ORDER_MASK (ob_orders b) ref of
        None \<Rightarrow> None
      | Some None \<Rightarrow> Some b
      | Some (Some p) \<Rightarrow> reduce_side (oe_side (s_entry (ob_orders b p))) ref p n b)"
  by (simp add: on_cancel_def reduce_side_code split: option.splits side.splits)

text \<open>The print of an execution.\<close>

definition spec_trade :: "u64 \<Rightarrow> u32 \<Rightarrow> live \<Rightarrow> trade" where
  "spec_trade ref n m = (case m ref of
     None \<Rightarrow> no_trade
   | Some e \<Rightarrow> \<lparr>tr_price = oe_price e, tr_shares = n, tr_side = oe_side e\<rparr>)"

lemma on_execute_sound:
  assumes inv: "book_inv b"
  shows "\<exists>b'. on_execute ref n b = Some (spec_trade ref n (live_orders b), b') \<and> book_inv b'
    \<and> live_orders b' = spec_take ref n (live_orders b)
    \<and> (top_inv b \<and> tick_ok (live_orders b) \<longrightarrow> top_inv b')"
proof -
  obtain r where r: "om_find ORDER_MASK (ob_orders b) ref = Some r"
    "case r of None \<Rightarrow> live_orders b ref = None
     | Some p \<Rightarrow> points_to 20 (ob_orders b) ref p \<and> live_orders b ref = Some (s_entry (ob_orders b p))"
    using find_live [OF inv] by blast
  show ?thesis
  proof (cases r)
    case None
    with r inv show ?thesis by (simp add: on_execute_side spec_take_def spec_trade_def)
  next
    case (Some p)
    with r obtain b' where "reduce_side (oe_side (s_entry (ob_orders b p))) ref p n b = Some b'"
      "book_inv b'" "live_orders b' = spec_take ref n (live_orders b)"
      "top_inv b \<and> tick_ok (live_orders b) \<longrightarrow> top_inv b'"
      using reduce_side_sound [OF inv _ refl refl, of ref p n] by auto
    with r Some show ?thesis by (simp add: on_execute_side Let_def spec_trade_def)
  qed
qed

lemma on_cancel_sound:
  assumes inv: "book_inv b"
  shows "\<exists>b'. on_cancel ref n b = Some b' \<and> book_inv b'
    \<and> live_orders b' = spec_take ref n (live_orders b)
    \<and> (top_inv b \<and> tick_ok (live_orders b) \<longrightarrow> top_inv b')"
proof -
  obtain r where r: "om_find ORDER_MASK (ob_orders b) ref = Some r"
    "case r of None \<Rightarrow> live_orders b ref = None
     | Some p \<Rightarrow> points_to 20 (ob_orders b) ref p \<and> live_orders b ref = Some (s_entry (ob_orders b p))"
    using find_live [OF inv] by blast
  with inv reduce_side_sound [OF inv _ refl refl, of ref _ n] show ?thesis
    by (cases r) (simp_all add: on_cancel_side spec_take_def)
qed

lemma on_delete_sound:
  assumes inv: "book_inv b"
  shows "\<exists>b'. on_delete ref b = Some b' \<and> book_inv b'
    \<and> live_orders b' = spec_delete ref (live_orders b)
    \<and> (top_inv b \<and> tick_ok (live_orders b) \<longrightarrow> top_inv b')"
proof -
  obtain r where r: "om_find ORDER_MASK (ob_orders b) ref = Some r"
    "case r of None \<Rightarrow> live_orders b ref = None
     | Some p \<Rightarrow> points_to 20 (ob_orders b) ref p \<and> live_orders b ref = Some (s_entry (ob_orders b p))"
    using find_live [OF inv] by blast
  show ?thesis
  proof (cases r)
    case None
    with r inv show ?thesis by (simp add: on_delete_side spec_delete_def fun_upd_idem)
  next
    case (Some p)
    let ?e = "s_entry (ob_orders b p)"
    have live: "live_orders b ref = Some ?e" using r Some by simp
    have om: "om_abs 20 (ob_orders b) = (live_orders b)(ref \<mapsto> ?e)"
      using live by (simp add: live_orders_def fun_upd_idem)
    show ?thesis
      using remove_order_sound [OF inv live refl refl book_invD(1) [OF inv] om refl] r Some
      by (simp add: on_delete_side Let_def spec_delete_def)
  qed
qed

section \<open>Replace\<close>

definition replace_side ::
  "side \<Rightarrow> u64 \<Rightarrow> u64 \<Rightarrow> u32 \<Rightarrow> u32 \<Rightarrow> order_entry \<Rightarrow> u64 \<times> order_book \<Rightarrow> (u64 \<times> order_book) option" where
  "replace_side sd old_ref new_ref price shares e = (\<lambda>(drops, b).
     let lvl = la_at (levels_of sd b) (oe_price e);
         lvl = \<lparr>total_shares = total_shares lvl - oe_shares e, order_count = order_count lvl - 1\<rparr>;
         b = set_levels sd (la_write (levels_of sd b) (oe_price e) lvl) b
     in (case om_erase ORDER_MASK (ob_orders b) old_ref of
           None \<Rightarrow> None
         | Some orders \<Rightarrow> map_option (\<lambda>(drops, b). (drops, settle sd (oe_price e) b))
             (on_add new_ref sd price shares (drops, b\<lparr>ob_orders := orders\<rparr>))))"

lemma on_replace_side:
  "on_replace old_ref new_ref price shares (drops, b) =
     (case om_find ORDER_MASK (ob_orders b) old_ref of
        None \<Rightarrow> None
      | Some None \<Rightarrow> Some (drops, b)
      | Some (Some p) \<Rightarrow>
          let entry = s_entry (ob_orders b p)
          in replace_side (oe_side entry) old_ref new_ref price shares entry (drops, b))"
  by (simp add: on_replace_def replace_side_def on_add_def settle_def side_views Let_def
      split: option.splits side.splits)

text \<open>A replace is kept unless the new price is out of the window of the order's side.\<close>

definition replace_kept :: "order_book \<Rightarrow> u64 \<Rightarrow> u32 \<Rightarrow> bool" where
  "replace_kept b old_ref price = (case live_orders b old_ref of
     None \<Rightarrow> True | Some e \<Rightarrow> in_range (levels_of (oe_side e) b) price)"

lemma set_levels_orders:
  "(set_levels sd la b)\<lparr>ob_orders := om\<rparr> = set_levels sd la (b\<lparr>ob_orders := om\<rparr>)"
  by (simp add: set_levels_def split: side.splits)

lemma tick_ok_del: "tick_ok m \<Longrightarrow> tick_ok (m(r := None))"
  by (simp add: tick_ok_def)

lemma tick_ok_put: "tick_ok m \<Longrightarrow> unat (oe_price e) mod 100 = 0 \<Longrightarrow> tick_ok (m(r \<mapsto> e))"
  by (simp add: tick_ok_def)

text \<open>The end of a replace, after the old order is out and the new one is in or dropped.\<close>

lemma replace_settle:
  assumes inv: "book_inv b" and rest: "same_rest sd b b2" and e: "live_orders b r = Some e" "oe_side e = sd"
    and om: "om_inv 20 (ob_orders b2)" "live_orders b2 = m2" "card (dom m2) < 2 ^ 20"
    and own: "\<And>sd'. sd' \<noteq> sd \<Longrightarrow> agree_on sd' (live_orders b) m2"
    and base: "la_base (levels_of sd b2) = la_base (levels_of sd b)"
    and side: "side_inv (levels_of sd b2) sd m2 {level_no (levels_of sd b) (oe_price e)}"
  shows "book_inv (settle sd (oe_price e) b2)" and "live_orders (settle sd (oe_price e) b2) = m2"
    and "top_inv b \<Longrightarrow> tick_ok m2 \<Longrightarrow> unat (oe_price e) mod 100 = 0
      \<Longrightarrow> is_top sd (insert (oe_price e) (side_prices sd m2)) (top_of sd b2)
      \<Longrightarrow> top_inv (settle sd (oe_price e) b2)"
proof -
  let ?b' = "settle sd (oe_price e) b2"
  have rest': "same_rest sd b ?b'" using rest by (simp add: settle_same_rest)
  show live: "live_orders ?b' = m2" using om(2) by (simp add: live_orders_def settle_same_rest)
  have fin: "finite (dom m2)" using om(2) live_finite by blast
  have card: "card (dom m2) < 2 ^ 32" using om(3) by simp
  have rng: "in_range (levels_of sd b2) (oe_price e)"
    using side_invD(2) [OF book_invD(4) [OF inv] e] in_range_base [OF base] by simp
  have J: "{level_no (levels_of sd b) (oe_price e)} \<subseteq> {level_no (levels_of sd b2) (oe_price e)}"
    using level_no_base [OF base] by simp
  note s = settle_sound [OF side fin card rng J]
  have own': "agree_on sd' (live_orders b) (live_orders ?b')" if "sd' \<noteq> sd" for sd'
    using own [OF that] live by simp
  show "book_inv ?b'"
    by (rule book_inv_stepI [OF inv rest' _ own']) (use s(1) om live in \<open>simp_all add: settle_same_rest\<close>)
  show "top_inv ?b'" if "top_inv b" "tick_ok m2" "unat (oe_price e) mod 100 = 0"
    "is_top sd (insert (oe_price e) (side_prices sd m2)) (top_of sd b2)"
    by (rule top_inv_stepI [OF that(1) rest' own']) (use s(2) that(2-) live in simp_all)
qed

lemma replace_side_sound:
  fixes b :: order_book and price :: u32
  defines "m \<equiv> live_orders b"
  assumes inv: "book_inv b" and e: "m old_ref = Some e" "oe_side e = sd"
    and new: "m new_ref = None \<or> new_ref = old_ref"
  defines "kept \<equiv> in_range (levels_of sd b) price"
  shows "\<exists>b'. replace_side sd old_ref new_ref price shares e (drops, b)
      = Some (if kept then drops else drops + 1, b') \<and> book_inv b'
    \<and> live_orders b' = spec_replace old_ref new_ref price shares kept m
    \<and> (top_inv b \<and> tick_ok m \<and> unat price mod 100 = 0 \<longrightarrow> top_inv b')"
proof -
  let ?la = "levels_of sd b" and ?m1 = "m(old_ref := None)"
  let ?lvl = "\<lparr>total_shares = total_shares (la_at ?la (oe_price e)) - oe_shares e,
    order_count = order_count (la_at ?la (oe_price e)) - 1\<rparr>"
  note inv_sd = book_invD(4) [OF inv, of sd, folded m_def]
  have fin: "finite (dom m)" and card: "card (dom m) < 2 ^ 20"
    using live_finite book_invD(2) [OF inv] by (simp_all add: m_def)
  obtain orders where o: "om_erase ORDER_MASK (ob_orders b) old_ref = Some orders" "om_inv 20 orders"
    "om_abs 20 orders = ?m1"
    using om_erase_sound [of 20 "ob_orders b" old_ref] book_invD(1) [OF inv] card e(1)
    by (auto simp: ORDER_MASK_def m_def live_orders_def)
  have fin1: "finite (dom ?m1)" using fin by simp
  have c: "card (dom ?m1) + 1 = card (dom m)"
  proof -
    have "old_ref \<in> dom m" using e(1) by blast
    from card_Suc_Diff1 [OF fin this] show ?thesis by simp
  qed
  then have card1: "card (dom ?m1) + 1 < 2 ^ 20" "card (dom ?m1) < 2 ^ 32" using card by simp_all
  define b1 where "b1 = set_levels sd (la_write ?la (oe_price e) ?lvl) (b\<lparr>ob_orders := orders\<rparr>)"
  have l1: "levels_of sd b1 = la_write ?la (oe_price e) ?lvl" and t1: "top_of sd b1 = top_of sd b"
    and r1: "same_rest sd b b1" and o1: "ob_orders b1 = orders"
    by (simp_all add: b1_def)
  have inv1: "side_inv (levels_of sd b1) sd ?m1 {level_no ?la (oe_price e)}"
    using side_inv_del [OF inv_sd fin e refl] by (simp add: l1)
  have code: "replace_side sd old_ref new_ref price shares e (drops, b)
    = map_option (\<lambda>(drops, b). (drops, settle sd (oe_price e) b)) (on_add new_ref sd price shares (drops, b1))"
    using o(1) by (simp add: replace_side_def Let_def b1_def set_levels_orders)
  have rng1: "in_range (levels_of sd b1) price = kept"
    using in_range_base [of "levels_of sd b1" ?la] by (simp add: kept_def l1)
  have agree1: "agree_on sd' m ?m1" if "sd' \<noteq> sd" for sd'
    using e that by (intro agree_on_upd) auto
  have tops: "is_top sd (insert (oe_price e) (side_prices sd ?m1)) (top_of sd b1)" if "top_inv b"
  proof -
    have "is_top sd (side_prices sd m) (top_of sd b1)" using that by (simp add: top_inv_def m_def t1)
    then show ?thesis unfolding side_prices_del [where m = m and r = old_ref, OF e] .
  qed
  have tick_e: "unat (oe_price e) mod 100 = 0" if "tick_ok m" using that e(1) by (simp add: tick_ok_def)
  show ?thesis
  proof (cases kept)
    case False
    note s = replace_settle [OF inv r1 e [unfolded m_def], of ?m1]
    show ?thesis
      using False s o(2,3) o1 card1 agree1 inv1 l1 e tops tick_e tick_ok_del [of m old_ref] rng1
      by (simp add: code on_add_side spec_replace_def live_orders_def m_def)
  next
    case True
    let ?e2 = "\<lparr>oe_price = price, oe_shares = shares, oe_side = sd\<rparr>" and ?m2 = "spec_add new_ref sd price shares ?m1"
    have new1: "?m1 new_ref = None" using new by auto
    obtain orders2 where o2: "om_insert ORDER_MASK orders new_ref price shares sd = Some orders2"
      "om_inv 20 orders2" "om_abs 20 orders2 = ?m2"
      using om_insert_sound [of 20 orders new_ref price shares sd] o(2,3) card1(1) new1
      by (auto simp: ORDER_MASK_def spec_add_def)
    let ?b0 = "b1\<lparr>ob_orders := orders2\<rparr>"
    let ?b2 = "add_side sd price shares ?b0"
    have inv0: "side_inv (levels_of sd ?b0) sd ?m1 {level_no ?la (oe_price e)}" using inv1 by simp
    have p0: "in_range (levels_of sd ?b0) price" using rng1 True by simp
    note a = add_side_sound [where shares = shares, OF inv0 fin1 card1(2) new1 p0]
    have base: "la_base (levels_of sd ?b2) = la_base ?la" by (simp add: add_side_levels Let_def l1)
    have agree2: "agree_on sd' (live_orders b) ?m2" if "sd' \<noteq> sd" for sd'
      using agree_on_trans [OF agree1 [OF that]] agree_on_upd [of ?m1 new_ref sd' "Some ?e2"] new1 that
      by (simp add: spec_add_def m_def)
    have r2: "same_rest sd b ?b2" using r1 by (simp add: add_side_same_rest)
    have ob2: "om_inv 20 (ob_orders ?b2)" "live_orders ?b2 = ?m2"
      using o2 by (simp_all add: add_side_same_rest live_orders_def)
    have card2: "card (dom ?m2) < 2 ^ 20"
      unfolding spec_add_def using card_dom_put [OF fin1, of new_ref ?e2] card1(1) by linarith
    have side2: "side_inv (levels_of sd ?b2) sd ?m2 {level_no ?la (oe_price e)}"
      unfolding spec_add_def by (rule a(1))
    note s = replace_settle [OF inv r2 e [unfolded m_def] ob2 card2 agree2 base side2]
    have "top_inv (settle sd (oe_price e) ?b2)" if "top_inv b" "tick_ok m" "unat price mod 100 = 0"
    proof (rule s(3) [OF _ that(1) _ tick_e [OF that(2)]])
      show "tick_ok ?m2" unfolding spec_add_def using that by (intro tick_ok_put tick_ok_del) simp_all
      have "side_prices sd ?m2 = insert price (side_prices sd ?m1)"
        unfolding spec_add_def using side_prices_put [where m = ?m1 and r = new_ref and e = ?e2 and sd = sd, OF new1]
        by (simp only: order_entry.select_convs if_True refl)
      then show "is_top sd (insert (oe_price e) (side_prices sd ?m2)) (top_of sd ?b2)"
        using a(2) [of "insert (oe_price e) (side_prices sd ?m1)"] tops [OF that(1)]
        by (simp add: insert_commute)
    qed simp
    then show ?thesis
      using True s(1,2) e o2(1) o1 rng1
      by (simp add: code on_add_side add_order_def spec_replace_def)
  qed
qed

lemma on_replace_sound:
  assumes inv: "book_inv b" and new: "live_orders b new_ref = None \<or> new_ref = old_ref"
  shows "\<exists>b'. on_replace old_ref new_ref price shares (drops, b)
      = Some (if replace_kept b old_ref price then drops else drops + 1, b') \<and> book_inv b'
    \<and> live_orders b' = spec_replace old_ref new_ref price shares (replace_kept b old_ref price) (live_orders b)
    \<and> (top_inv b \<and> tick_ok (live_orders b) \<and> unat price mod 100 = 0 \<longrightarrow> top_inv b')"
proof -
  obtain r where r: "om_find ORDER_MASK (ob_orders b) old_ref = Some r"
    "case r of None \<Rightarrow> live_orders b old_ref = None
     | Some p \<Rightarrow> points_to 20 (ob_orders b) old_ref p \<and> live_orders b old_ref = Some (s_entry (ob_orders b p))"
    using find_live [OF inv] by blast
  show ?thesis
  proof (cases r)
    case None
    with r inv show ?thesis by (simp add: on_replace_side replace_kept_def spec_replace_def)
  next
    case (Some p)
    with r have live: "live_orders b old_ref = Some (s_entry (ob_orders b p))" by simp
    from replace_side_sound [OF inv live refl new, of price shares drops] Some r live
    show ?thesis by (simp add: on_replace_side replace_kept_def Let_def)
  qed
qed

section \<open>The depth walks\<close>

text \<open>Live prices of a side, best first.\<close>

definition ordered :: "side \<Rightarrow> u32 set \<Rightarrow> u32 list" where
  "ordered sd P = (case sd of Buy \<Rightarrow> rev (sorted_list_of_set P) | Sell \<Rightarrow> sorted_list_of_set P)"

fun walk :: "side \<Rightarrow> nat \<Rightarrow> level_array \<Rightarrow> u32 \<Rightarrow> book_level list" where
  "walk sd 0 la p = []"
| "walk sd (Suc room) la p =
     (if p = no_top sd then [] else level_at la p # walk sd room la (away sd la p))"

lemma walk_code: "walk_bids n la p = walk Buy n la p" "walk_asks n la p = walk Sell n la p"
  by (induction n arbitrary: p) (simp_all add: no_top_def away_def Let_def)

lemma sorted_list_Min:
  fixes P :: "u32 set"
  assumes "finite P" "t \<in> P" "\<And>p. p \<in> P \<Longrightarrow> t \<le> p"
  shows "sorted_list_of_set P = t # sorted_list_of_set (P - {t})"
proof -
  have "Min P = t" using assms by (intro Min_eqI) auto
  then show ?thesis using sorted_list_of_set_nonempty [of P] assms(1,2) by auto
qed

lemma sorted_list_Max:
  fixes P :: "u32 set"
  assumes "finite P" "t \<in> P" "\<And>p. p \<in> P \<Longrightarrow> p \<le> t"
  shows "sorted_list_of_set P = sorted_list_of_set (P - {t}) @ [t]"
proof (rule sorted_distinct_set_unique)
  show "sorted (sorted_list_of_set (P - {t}) @ [t])" using assms by (auto simp: sorted_append)
  show "distinct (sorted_list_of_set (P - {t}) @ [t])" by simp
  show "set (sorted_list_of_set P) = set (sorted_list_of_set (P - {t}) @ [t])" using assms by auto
qed simp_all

lemma ordered_top:
  assumes "finite P" "t \<in> P" "\<And>p. p \<in> P \<Longrightarrow> \<not> better sd p t"
  shows "ordered sd P = t # ordered sd (P - {t})"
  using sorted_list_Min [of P t] sorted_list_Max [of P t] assms
  by (cases sd) (simp_all add: ordered_def better_def not_less)

lemma side_prices_finite: "finite (dom m) \<Longrightarrow> finite (side_prices sd m)"
proof (rule finite_subset [of _ "oe_price ` ran m"])
  show "side_prices sd m \<subseteq> oe_price ` ran m" by (auto simp: side_prices_def ran_def)
qed (simp add: finite_ran)

lemma walk_sound:
  assumes inv: "side_inv la sd m {}" and tick: "tick_ok m" and fin: "finite (dom m)"
  shows "is_top sd Q p \<Longrightarrow> Q \<subseteq> side_prices sd m
    \<Longrightarrow> \<forall>q\<in>side_prices sd m. q \<in> Q \<or> better sd q p
    \<Longrightarrow> walk sd n la p = map (level_at la) (take n (ordered sd (Q - {no_top sd})))"
proof (induction n arbitrary: Q p)
  case (Suc n)
  have finQ: "finite Q" using Suc.prems(2) side_prices_finite [OF fin] by (rule finite_subset)
  show ?case
  proof (cases "p = no_top sd")
    case True
    have "q = no_top sd" if "q \<in> Q" for q
      using Suc.prems(1) that True better_no_top(1) [of sd q] unfolding is_top_def by (auto split: if_splits)
    then have "Q - {no_top sd} = {}" by blast
    with True show ?thesis by (simp only: walk.simps) (simp add: ordered_def split: side.splits)
  next
    case False
    with Suc.prems(1) have p: "p \<in> Q" "\<And>q. q \<in> Q \<Longrightarrow> \<not> better sd q p" by (auto simp: is_top_def split: if_splits)
    let ?Q = "{q \<in> side_prices sd m. better sd p q}"
    have sp: "p \<in> side_prices sd m" using p(1) Suc.prems(2) by blast
    have rng: "in_range la p" using side_priceD(1) [OF inv tick sp] .
    have pm: "unat p mod 100 = 0" using sp tick by (auto simp: side_prices_def tick_ok_def)
    have Q: "?Q = Q - {p}"
      using p Suc.prems(2,3) better_total [of _ p sd] better_total [of p _ sd] better_irrefl [of sd p]
        better_trans [of sd p _ p] by blast
    have "walk sd n la (away sd la p) = map (level_at la) (take n (ordered sd (?Q - {no_top sd})))"
    proof (rule Suc.IH [OF away_sound [OF inv tick rng pm]])
      show "\<forall>q\<in>side_prices sd m. q \<in> ?Q \<or> better sd q (away sd la p)"
      proof (intro ballI disjCI)
        fix q assume q: "q \<in> side_prices sd m" "\<not> better sd q (away sd la p)"
        have "better sd p (away sd la p)"
        proof (cases "?Q = {}")
          case True
          with away_sound [OF inv tick rng pm] have "away sd la p = no_top sd" by (simp add: is_top_def)
          with False better_no_top(1) show ?thesis by metis
        next
          case False
          with away_sound [OF inv tick rng pm] show ?thesis unfolding is_top_def by (auto split: if_splits)
        qed
        then have "better sd p q"
          using q(2) better_total [of p q sd] better_trans [of sd q p "away sd la p"] by blast
        with q(1) show "q \<in> ?Q" by blast
      qed
    qed blast
    moreover have "ordered sd (Q - {no_top sd}) = p # ordered sd (Q - {no_top sd} - {p})"
      using finQ p False by (intro ordered_top) auto
    moreover have "Q - {no_top sd} - {p} = ?Q - {no_top sd}" using Q by blast
    ultimately show ?thesis using False by simp
  qed
qed simp

lemma top_levels_sound:
  assumes inv: "book_inv b" and top: "top_inv b" and tick: "tick_ok (live_orders b)"
  shows "top_bids b n = map (level_at (ob_bids b))
      (take n (rev (sorted_list_of_set (side_prices Buy (live_orders b) - {0}))))"
    and "top_asks b n = map (level_at (ob_asks b))
      (take n (sorted_list_of_set (side_prices Sell (live_orders b) - {UINT32_MAX})))"
proof -
  have *: "walk sd n (levels_of sd b) (top_of sd b) = map (level_at (levels_of sd b))
      (take n (ordered sd (side_prices sd (live_orders b) - {no_top sd})))" for sd
    using top by (intro walk_sound [OF book_invD(4) [OF inv] tick live_finite]) (auto simp: top_inv_def)
  show "top_bids b n = map (level_at (ob_bids b))
      (take n (rev (sorted_list_of_set (side_prices Buy (live_orders b) - {0}))))"
    using * [of Buy] by (simp add: top_bids_def walk_code side_views ordered_def no_top_def)
  show "top_asks b n = map (level_at (ob_asks b))
      (take n (sorted_list_of_set (side_prices Sell (live_orders b) - {UINT32_MAX})))"
    using * [of Sell] by (simp add: top_asks_def walk_code side_views ordered_def no_top_def)
qed

text \<open>A fresh book, once initialised at its first price.\<close>

lemma ob_init_sound:
  assumes "unat base_price + 104857600 \<le> 2 ^ 32"
  shows "book_inv (ob_init stock_id base_price ob_new)" and "top_inv (ob_init stock_id base_price ob_new)"
    and "live_orders (ob_init stock_id base_price ob_new) = Map.empty"
proof -
  let ?b = "ob_init stock_id base_price ob_new" and ?la = "la_init base_price la_new"
  show live: "live_orders ?b = Map.empty"
    using om_new_sound by (simp add: live_orders_def ob_init_def ob_new_def)
  have bm: "bm_inv (2 ^ 20) (bm_reset (bm_empty (2 ^ 20))) \<and> (\<forall>j. \<not> bm_test (bm_reset (bm_empty (2 ^ 20))) j)"
    using bm_reset_sound [of "2 ^ 20" "bm_empty (2 ^ 20)"] bm_inv_empty [of "2 ^ 20"] by simp
  have base: "unat (la_base ?la) = (unat base_price div 100) * 100"
  proof -
    have "(unat base_price div 100) * 100 < 2 ^ 32" using unat_u32_less [of base_price] by linarith
    then show ?thesis by (simp add: la_init_def PRICE_TICK_def unat_word_ariths unat_u32_div_100)
  qed
  have "la_ok ?la"
    unfolding la_ok_def using bm base assms by (auto simp: la_init_def la_new_def)
  moreover have "la_levels ?la i = \<lparr>total_shares = 0, order_count = 0\<rparr>" for i
    by (simp add: la_init_def la_new_def)
  moreover have "\<not> occupied_at ?la i" for i
    using bm by (simp add: occupied_at_def la_init_def la_new_def)
  ultimately have "side_inv ?la sd Map.empty {}" for sd
    by (simp add: side_inv_def at_level_def level_total_def)
  then show "book_inv ?b"
    unfolding book_inv_def live using om_new_sound
    by (simp add: levels_of_def ob_init_def ob_new_def split: side.splits)
  show "top_inv ?b"
    unfolding top_inv_def live
    by (simp add: is_top_def side_prices_def top_of_def no_top_def ob_init_def ob_new_def split: side.splits)
qed

end
