(* ===== verification/Primary_Feed.thy ===== *)
theory Primary_Feed
  imports Book_Correct
begin

text \<open>
  \<open>BookArray\<close> (\<open>src/core/core.hpp\<close>, \<open>core.cpp\<close>) and \<open>PrimaryFeed\<close>
  (\<open>src/core/primary_feed.hpp\<close>): the books by stock locate and the dispatch of ITCH events
  to the book of the subscribed symbol.  The specification is a map from locates to abstract
  books (the base of the price window and the live orders); the theorem is that a run of
  legal events returns and computes it, with the books' invariants.
\<close>

section \<open>The books\<close>

record book_array =
  ba_books :: "u16 \<rightharpoonup> order_book"
  ba_spare :: "order_book option"

definition prewarm :: "book_array \<Rightarrow> book_array" where
  "prewarm a = (case ba_spare a of None \<Rightarrow> a\<lparr>ba_spare := Some ob_new\<rparr> | Some _ \<Rightarrow> a)"

definition ensure :: "u16 \<Rightarrow> u64 \<Rightarrow> u32 \<Rightarrow> book_array \<Rightarrow> book_array" where
  "ensure locate stock_id base_price a = (case ba_books a locate of
     Some _ \<Rightarrow> a
   | None \<Rightarrow>
       let book = (case ba_spare a of Some b \<Rightarrow> b | None \<Rightarrow> ob_new)
       in a\<lparr>ba_books := (ba_books a)(locate \<mapsto> ob_init stock_id base_price book), ba_spare := None\<rparr>)"

definition ba_get :: "u16 \<Rightarrow> book_array \<Rightarrow> order_book option" where
  "ba_get locate a = ba_books a locate"

section \<open>The feed\<close>

text \<open>\<open>g_drops\<close> is kept with the feed.  The result of \<open>apply\<close> is the locate of the book it
  touched (\<open>None\<close> for the null pointer) and the trade; \<open>Trade{}\<close> is passed in by the caller.\<close>

record feed =
  fd_engine :: book_array
  fd_symbol :: "u8 list"
  fd_count :: u64
  fd_drops :: u64

definition HALF :: u32 where "HALF = 1048576 div 2 * PRICE_TICK"

definition book_switch :: "event \<Rightarrow> trade \<Rightarrow> u64 \<times> order_book \<Rightarrow> (trade \<times> u64 \<times> order_book) option" where
  "book_switch ev t = (\<lambda>(drops, b).
     let mt = message_type ev; ref = order_ref_number ev in
     if mt = ch CHR ''A'' \<or> mt = ch CHR ''F'' then
       map_option (Pair t) (on_add ref (ev_side ev) (ev_price ev) (ev_shares ev) (drops, b))
     else if mt = ch CHR ''E'' then
       map_option (\<lambda>(t, b). (t, drops, b)) (on_execute ref (ev_shares ev) b)
     else if mt = ch CHR ''C'' then
       map_option (\<lambda>(t, b). (t, drops, b)) (on_execute_with_price ref (ev_shares ev) (ev_price ev) b)
     else if mt = ch CHR ''X'' then
       map_option (\<lambda>b. (t, drops, b)) (on_cancel ref (ev_shares ev) b)
     else if mt = ch CHR ''D'' then
       map_option (\<lambda>b. (t, drops, b)) (on_delete ref b)
     else if mt = ch CHR ''U'' then
       map_option (Pair t) (on_replace ref (new_order_ref_number ev) (ev_price ev) (ev_shares ev) (drops, b))
     else if mt = ch CHR ''P'' then
       Some (\<lparr>tr_price = ev_price ev, tr_shares = ev_shares ev, tr_side = ev_side ev\<rparr>, drops, b)
     else if mt = ch CHR ''Q'' then
       Some (\<lparr>tr_price = ev_price ev, tr_shares = ev_shares ev, tr_side = Buy\<rparr>, drops, b)
     else Some (t, drops, b))"

definition is_add :: "event \<Rightarrow> bool" where
  "is_add ev \<longleftrightarrow> message_type ev = ch CHR ''A'' \<or> message_type ev = ch CHR ''F''"

definition feed_apply :: "event \<Rightarrow> trade \<Rightarrow> feed \<Rightarrow> (u16 option \<times> trade \<times> feed) option" where
  "feed_apply ev trade f =
     (if is_add ev \<and> stock ev \<noteq> fd_symbol f then Some (None, trade, f)
      else let loc = stock_locate ev;
               base = (if HALF < ev_price ev then ev_price ev - HALF else 0);
               engine = (if is_add ev then ensure loc (ucast loc) base (fd_engine f) else fd_engine f)
           in (case ba_get loc engine of
                 None \<Rightarrow> Some (None, trade, f)
               | Some book \<Rightarrow>
                   (case book_switch ev trade (fd_drops f, book) of
                      None \<Rightarrow> None
                    | Some (trade, drops, book) \<Rightarrow>
                        Some (Some loc, trade,
                          f\<lparr>fd_count := fd_count f + 1, fd_drops := drops,
                            fd_engine := engine\<lparr>ba_books := (ba_books engine)(loc \<mapsto> book)\<rparr>\<rparr>))))"

primrec feed_run :: "event list \<Rightarrow> feed \<Rightarrow> feed option" where
  "feed_run [] f = Some f"
| "feed_run (ev # evs) f = (case feed_apply ev no_trade f of
     None \<Rightarrow> None | Some (_, _, f') \<Rightarrow> feed_run evs f')"

definition feed_new :: "u8 list \<Rightarrow> feed" where
  "feed_new symbol = \<lparr>fd_engine = prewarm \<lparr>ba_books = Map.empty, ba_spare = None\<rparr>,
     fd_symbol = symbol, fd_count = 0, fd_drops = 0\<rparr>"

section \<open>The specification\<close>

text \<open>An abstract book: the base of its window and its live orders.\<close>

type_synonym abs_book = "u32 \<times> live"

definition in_window :: "u32 \<Rightarrow> u32 \<Rightarrow> bool" where
  "in_window base p \<longleftrightarrow> unat base \<le> unat p \<and> unat p < unat base + 104857600"

definition first_base :: "u32 \<Rightarrow> u32" where
  "first_base p = (if 52428800 < p then (p - 52428800) div 100 * 100 else 0)"

definition spec_book :: "event \<Rightarrow> abs_book \<Rightarrow> abs_book" where
  "spec_book ev = (\<lambda>(base, m).
     let mt = message_type ev; ref = order_ref_number ev; kept = in_window base (ev_price ev) in
     (base,
      if mt = 65 \<or> mt = 70 then (if kept then spec_add ref (ev_side ev) (ev_price ev) (ev_shares ev) m else m)
      else if mt = 69 \<or> mt = 67 \<or> mt = 88 then spec_take ref (ev_shares ev) m
      else if mt = 68 then spec_delete ref m
      else if mt = 85 then
        spec_replace ref (new_order_ref_number ev) (ev_price ev) (ev_shares ev) kept m
      else m))"

definition spec_feed :: "u8 list \<Rightarrow> event \<Rightarrow> (u16 \<rightharpoonup> abs_book) \<Rightarrow> (u16 \<rightharpoonup> abs_book)" where
  "spec_feed symbol ev B =
     (if is_add ev \<and> stock ev \<noteq> symbol then B
      else case B (stock_locate ev) of
        Some ab \<Rightarrow> B(stock_locate ev \<mapsto> spec_book ev ab)
      | None \<Rightarrow> if is_add ev then B(stock_locate ev \<mapsto> spec_book ev (first_base (ev_price ev), Map.empty)) else B)"

text \<open>
  What a well-formed feed never does: reuse a live reference, fill the order map, quote off
  the tick grid, or open a book so high that the window would pass \<open>2 ^ 32\<close>.
\<close>

definition legal_book :: "event \<Rightarrow> abs_book \<Rightarrow> bool" where
  "legal_book ev = (\<lambda>(base, m).
     let mt = message_type ev; ref = order_ref_number ev in
     (mt = 65 \<or> mt = 70 \<longrightarrow> m ref = None \<and> card (dom m) + 1 < 2 ^ 20 \<and> unat (ev_price ev) mod 100 = 0)
     \<and> (mt = 85 \<longrightarrow> (m (new_order_ref_number ev) = None \<or> new_order_ref_number ev = ref)
           \<and> unat (ev_price ev) mod 100 = 0))"

definition legal_event :: "u8 list \<Rightarrow> event \<Rightarrow> (u16 \<rightharpoonup> abs_book) \<Rightarrow> bool" where
  "legal_event symbol ev B \<longleftrightarrow> (is_add ev \<and> stock ev \<noteq> symbol)
     \<or> (case B (stock_locate ev) of
          Some ab \<Rightarrow> legal_book ev ab
        | None \<Rightarrow> is_add ev \<longrightarrow> unat (ev_price ev) \<le> 2 ^ 32 - 52428800 \<and> unat (ev_price ev) mod 100 = 0)"

primrec legal_feed :: "u8 list \<Rightarrow> event list \<Rightarrow> (u16 \<rightharpoonup> abs_book) \<Rightarrow> bool" where
  "legal_feed symbol [] B \<longleftrightarrow> True"
| "legal_feed symbol (ev # evs) B \<longleftrightarrow> legal_event symbol ev B \<and> legal_feed symbol evs (spec_feed symbol ev B)"

section \<open>One book\<close>

text \<open>Both sides keep the base they were initialised with.\<close>

definition bases :: "order_book \<Rightarrow> u32 \<Rightarrow> bool" where
  "bases b base \<longleftrightarrow> (\<forall>sd. la_base (levels_of sd b) = base)"

definition book_rel :: "order_book \<Rightarrow> abs_book \<Rightarrow> bool" where
  "book_rel b ab \<longleftrightarrow> book_inv b \<and> top_inv b \<and> bases b (fst ab) \<and> live_orders b = snd ab \<and> tick_ok (snd ab)"

lemma bases_rest:
  assumes "same_rest sd b b'" and "la_base (levels_of sd b') = la_base (levels_of sd b)"
  shows "bases b' base = bases b base"
  using assms unfolding bases_def same_rest_def by metis

lemma bases_orders: "bases (b\<lparr>ob_orders := om\<rparr>) base = bases b base"
  by (simp add: bases_def)

lemma bases_settle: "bases (settle sd p b) base = bases b base"
  by (rule bases_rest [of sd]) (simp_all add: settle_same_rest settle_levels)

lemma bases_add_side: "bases (add_side sd p n b) base = bases b base"
  by (rule bases_rest [of sd]) (simp_all add: add_side_same_rest add_side_levels Let_def)

lemma bases_write: "bases (set_levels sd (la_write (levels_of sd b) p l) b) base = bases b base"
  by (rule bases_rest [of sd]) simp_all

lemma bases_write_orders:
  "bases (set_levels sd (la_write (levels_of sd b) p l) (b\<lparr>ob_orders := om\<rparr>)) base = bases b base"
  using bases_write [of sd "b\<lparr>ob_orders := om\<rparr>" p l base] by (simp add: bases_orders)

lemma bases_on_add:
  assumes "on_add ref sd p n (d, b) = Some (d', b')" shows "bases b' base = bases b base"
  using assms by (auto simp: on_add_side add_order_def bases_add_side bases_orders split: if_splits)

lemma bases_remove:
  assumes "remove_order sd ref p l om b = Some b'" shows "bases b' base = bases b base"
  using assms by (auto simp: remove_order_def bases_settle bases_write_orders)

lemma bases_reduce:
  assumes "reduce_side sd ref p n b = Some b'" shows "bases b' base = bases b base"
  using assms by (auto simp: reduce_side_def Let_def bases_remove bases_write_orders split: if_splits)

lemma bases_on_execute:
  assumes "on_execute ref n b = Some (t, b')" shows "bases b' base = bases b base"
  using assms by (auto simp: on_execute_side Let_def bases_reduce split: option.splits)

lemma bases_on_cancel:
  assumes "on_cancel ref n b = Some b'" shows "bases b' base = bases b base"
  using assms by (auto simp: on_cancel_side bases_reduce split: option.splits)

lemma bases_on_delete:
  assumes "on_delete ref b = Some b'" shows "bases b' base = bases b base"
  using assms by (auto simp: on_delete_side Let_def bases_remove split: option.splits)

lemma bases_on_replace:
  assumes "on_replace ref new p n (d, b) = Some (d', b')" shows "bases b' base = bases b base"
  using assms
  by (auto simp: on_replace_side replace_side_def Let_def bases_settle bases_write bases_orders
      dest!: bases_on_add [where base = base] split: option.splits)

lemma book_rel_window:
  assumes "book_rel b ab" shows "in_range (levels_of sd b) p \<longleftrightarrow> in_window (fst ab) p"
proof -
  have "la_ok (levels_of sd b)" "la_base (levels_of sd b) = fst ab"
    using assms side_invD(1) [OF book_invD(4)] by (auto simp: book_rel_def bases_def)
  then show ?thesis by (simp add: in_range_iff in_window_def)
qed

lemma tick_ok_take: "tick_ok m \<Longrightarrow> tick_ok (spec_take ref n m)"
  by (auto simp: tick_ok_def spec_take_def split: option.splits)

lemma book_switch_sound:
  assumes rel: "book_rel b ab" and legal: "legal_book ev ab"
  shows "\<exists>t' drops' b'. book_switch ev t (drops, b) = Some (t', drops', b') \<and> book_rel b' (spec_book ev ab)"
proof -
  obtain base m where ab: "ab = (base, m)" by (cases ab)
  note R = rel [unfolded book_rel_def ab fst_conv snd_conv]
  have inv: "book_inv b" and top: "top_inv b" and bas: "bases b base" and live: "live_orders b = m"
    and tick: "tick_ok m" using R by simp_all
  let ?mt = "message_type ev" and ?ref = "order_ref_number ev"
  consider (add) "?mt = 65 \<or> ?mt = 70" | (exec) "?mt = 69" | (execp) "?mt = 67" | (cancel) "?mt = 88"
    | (del) "?mt = 68" | (repl) "?mt = 85"
    | (other) "?mt \<notin> {65, 70, 69, 67, 88, 68, 85}" by blast
  then show ?thesis
  proof cases
    case add
    then have l: "live_orders b ?ref = None" "card (dom (live_orders b)) + 1 < 2 ^ 20"
      and p: "unat (ev_price ev) mod 100 = 0" using legal live by (auto simp: legal_book_def ab)
    have w: "in_range (levels_of (ev_side ev) b) (ev_price ev) \<longleftrightarrow> in_window base (ev_price ev)"
      using book_rel_window [OF rel] by (simp add: ab)
    have code: "book_switch ev t (drops, b) =
        map_option (Pair t) (on_add ?ref (ev_side ev) (ev_price ev) (ev_shares ev) (drops, b))"
      using add by (simp add: book_switch_def Let_def)
    have spec: "spec_book ev ab = (base, if in_window base (ev_price ev)
        then spec_add ?ref (ev_side ev) (ev_price ev) (ev_shares ev) m else m)"
      using add by (simp add: spec_book_def ab Let_def)
    show ?thesis
    proof (cases "in_window base (ev_price ev)")
      case True
      with w have rng: "in_range (levels_of (ev_side ev) b) (ev_price ev)" by simp
      obtain b' where b': "on_add ?ref (ev_side ev) (ev_price ev) (ev_shares ev) (drops, b) = Some (drops, b')"
        "book_inv b'" "live_orders b' = spec_add ?ref (ev_side ev) (ev_price ev) (ev_shares ev) m" "top_inv b'"
        using on_add_sound [OF inv l rng, of "ev_shares ev" drops] top live by blast
      moreover have "tick_ok (spec_add ?ref (ev_side ev) (ev_price ev) (ev_shares ev) m)"
        unfolding spec_add_def using tick p by (intro tick_ok_put) simp_all
      ultimately show ?thesis
        using True bas bases_on_add [OF b'(1)] by (simp add: code spec book_rel_def)
    next
      case False
      with w rel show ?thesis unfolding code spec by (simp add: on_add_side ab)
    qed
  next
    case exec
    then show ?thesis
      using on_execute_sound [OF inv, of ?ref "ev_shares ev"] top tick live bas tick_ok_take [OF tick]
        bases_on_execute [where b = b and base = base]
      by (auto simp: book_switch_def spec_book_def book_rel_def ab Let_def)
  next
    case execp
    then show ?thesis
      using on_execute_sound [OF inv, of ?ref "ev_shares ev"] top tick live bas tick_ok_take [OF tick]
        bases_on_execute [where b = b and base = base]
      by (auto simp: book_switch_def on_execute_with_price_def spec_book_def book_rel_def ab Let_def)
  next
    case cancel
    then show ?thesis
      using on_cancel_sound [OF inv, of ?ref "ev_shares ev"] top tick live bas tick_ok_take [OF tick]
        bases_on_cancel [where b = b and base = base]
      by (auto simp: book_switch_def spec_book_def book_rel_def ab Let_def)
  next
    case del
    then show ?thesis
      using on_delete_sound [OF inv, of ?ref] top tick live bas tick_ok_del [OF tick, of ?ref]
        bases_on_delete [where b = b and base = base]
      by (auto simp: book_switch_def spec_book_def spec_delete_def book_rel_def ab Let_def)
  next
    case repl
    let ?new = "new_order_ref_number ev" and ?k = "in_window base (ev_price ev)"
    have l: "live_orders b ?new = None \<or> ?new = ?ref" and p: "unat (ev_price ev) mod 100 = 0"
      using repl legal live by (auto simp: legal_book_def ab)
    have k: "spec_replace ?ref ?new (ev_price ev) (ev_shares ev) (replace_kept b ?ref (ev_price ev)) m
      = spec_replace ?ref ?new (ev_price ev) (ev_shares ev) ?k m"
      using book_rel_window [OF rel] live by (simp add: replace_kept_def spec_replace_def ab split: option.splits)
    have tick': "tick_ok (spec_replace ?ref ?new (ev_price ev) (ev_shares ev) ?k m)"
      using tick p by (auto simp: spec_replace_def spec_add_def split: option.splits intro!: tick_ok_put tick_ok_del)
    obtain b' where b': "on_replace ?ref ?new (ev_price ev) (ev_shares ev) (drops, b) =
        Some (if replace_kept b ?ref (ev_price ev) then drops else drops + 1, b')" "book_inv b'" "top_inv b'"
      "live_orders b' = spec_replace ?ref ?new (ev_price ev) (ev_shares ev) ?k m"
      using on_replace_sound [OF inv l, of "ev_price ev" "ev_shares ev" drops] top tick live p k by auto
    show ?thesis
      using repl b' bas tick' bases_on_replace [OF b'(1)]
      by (simp add: book_switch_def spec_book_def book_rel_def ab Let_def)
  next
    case other
    then show ?thesis using rel by (auto simp: book_switch_def spec_book_def ab Let_def)
  qed
qed

section \<open>All books\<close>

definition abs_books :: "feed \<Rightarrow> (u16 \<rightharpoonup> abs_book)" where
  "abs_books f l = map_option (\<lambda>b. (la_base (ob_bids b), live_orders b)) (ba_books (fd_engine f) l)"

definition feed_inv :: "feed \<Rightarrow> bool" where
  "feed_inv f \<longleftrightarrow> (\<forall>l b. ba_books (fd_engine f) l = Some b \<longrightarrow> book_rel b (la_base (ob_bids b), live_orders b))
     \<and> (ba_spare (fd_engine f) = None \<or> ba_spare (fd_engine f) = Some ob_new)"

lemma book_rel_abs: "book_rel b ab \<Longrightarrow> ab = (la_base (ob_bids b), live_orders b)"
  by (cases ab) (auto simp: book_rel_def bases_def levels_of_def split: side.splits)

lemma new_book_rel:
  assumes "unat p \<le> 2 ^ 32 - 52428800"
  shows "book_rel (ob_init stock_id (if HALF < p then p - HALF else 0) ob_new) (first_base p, Map.empty)"
proof -
  let ?base = "if HALF < p then p - HALF else 0"
  have u: "unat ?base + 104857600 \<le> 2 ^ 32"
    using assms by (auto simp: HALF_def PRICE_TICK_def word_less_nat_alt unat_sub_no_borrow)
  have "bases (ob_init stock_id ?base ob_new) (first_base p)"
    by (auto simp: bases_def ob_init_def la_init_def levels_of_def first_base_def HALF_def PRICE_TICK_def
        split: side.splits)
  then show ?thesis using ob_init_sound [OF u] by (simp add: book_rel_def tick_ok_def)
qed

lemma feed_apply_sound:
  assumes inv: "feed_inv f" and legal: "legal_event (fd_symbol f) ev (abs_books f)"
  shows "\<exists>l t' f'. feed_apply ev t f = Some (l, t', f') \<and> feed_inv f'
    \<and> abs_books f' = spec_feed (fd_symbol f) ev (abs_books f) \<and> fd_symbol f' = fd_symbol f
    \<and> (l = None \<longrightarrow> f' = f)"
proof (cases "is_add ev \<and> stock ev \<noteq> fd_symbol f")
  case True
  with inv show ?thesis by (simp add: feed_apply_def spec_feed_def)
next
  case go: False
  let ?l = "stock_locate ev" and ?p = "ev_price ev"
  show ?thesis
  proof (cases "ba_books (fd_engine f) ?l")
    case (Some b)
    let ?ab = "(la_base (ob_bids b), live_orders b)"
    have ab: "abs_books f ?l = Some ?ab" using Some by (simp add: abs_books_def)
    have rel: "book_rel b ?ab" using inv Some by (simp add: feed_inv_def)
    have "legal_book ev ?ab" using legal go ab by (simp add: legal_event_def)
    from book_switch_sound [OF rel this, of t "fd_drops f"]
    obtain t' drops' b' where b': "book_switch ev t (fd_drops f, b) = Some (t', drops', b')"
      "book_rel b' (spec_book ev ?ab)" by blast
    show ?thesis
      using go Some b' inv ab book_rel_abs [OF b'(2)]
      by (auto simp: feed_apply_def ba_get_def ensure_def Let_def feed_inv_def abs_books_def spec_feed_def fun_eq_iff)
  next
    case None
    have ab: "abs_books f ?l = None" using None by (simp add: abs_books_def)
    show ?thesis
    proof (cases "is_add ev")
      case False
      then show ?thesis using inv None ab by (simp add: feed_apply_def ba_get_def spec_feed_def)
    next
      case True
      let ?ab = "(first_base ?p, Map.empty)"
      let ?b = "ob_init (ucast ?l) (if HALF < ?p then ?p - HALF else 0) ob_new"
      have p: "unat ?p \<le> 2 ^ 32 - 52428800" "unat ?p mod 100 = 0"
        using legal go True ab by (auto simp: legal_event_def)
      have spare: "(case ba_spare (fd_engine f) of Some b \<Rightarrow> b | None \<Rightarrow> ob_new) = ob_new"
        using inv by (auto simp: feed_inv_def)
      have "message_type ev = 65 \<or> message_type ev = 70" using True by (simp add: is_add_def)
      then have "legal_book ev ?ab" using p by (auto simp: legal_book_def Let_def)
      from book_switch_sound [where t = t and drops = "fd_drops f",
        OF new_book_rel [where stock_id = "ucast ?l", OF p(1)] this]
      obtain t' drops' b' where b': "book_switch ev t (fd_drops f, ?b) = Some (t', drops', b')"
        "book_rel b' (spec_book ev ?ab)" by blast
      show ?thesis
        using go None True b' inv ab book_rel_abs [OF b'(2)] spare
        by (auto simp: feed_apply_def ba_get_def ensure_def Let_def feed_inv_def abs_books_def spec_feed_def fun_eq_iff)
    qed
  qed
qed

lemma feed_run_sound:
  assumes "feed_inv f" and "legal_feed (fd_symbol f) evs (abs_books f)"
  shows "\<exists>f'. feed_run evs f = Some f' \<and> feed_inv f'
    \<and> abs_books f' = fold (spec_feed (fd_symbol f)) evs (abs_books f)"
  using assms
proof (induction evs arbitrary: f)
  case (Cons ev evs)
  then have "legal_event (fd_symbol f) ev (abs_books f)" by simp
  from feed_apply_sound [OF Cons.prems(1) this, of no_trade] obtain l t' f' where
    f': "feed_apply ev no_trade f = Some (l, t', f')" "feed_inv f'"
    "abs_books f' = spec_feed (fd_symbol f) ev (abs_books f)" "fd_symbol f' = fd_symbol f" by blast
  with Cons.IH [of f'] Cons.prems show ?case by simp
qed simp

lemma feed_new_inv: "feed_inv (feed_new symbol)" "abs_books (feed_new symbol) = Map.empty"
  "fd_symbol (feed_new symbol) = symbol"
  by (simp_all add: feed_inv_def feed_new_def prewarm_def abs_books_def fun_eq_iff)

end
