(* ===== verification/Market_Update.thy ===== *)
theory Market_Update
  imports Primary_Feed
begin

text \<open>
  The market-data frame (\<open>src/common/ipc/market_update.hpp\<close>), the in-process book snapshot
  (\<open>src/core/snapshot/book_snapshot.hpp\<close>) and \<open>build_market_update\<close>
  (\<open>src/core/market_update_builder.hpp\<close>).  Both are filled in place, so the levels past the
  counted ones keep what the slot held.  \<open>int64_t\<close> fields are integers: only conversions
  from 32 bits are stored in them here.
\<close>

section \<open>The frame\<close>

record mu_level =
  ml_price :: int
  ml_qty :: int
  ml_order_count :: u32

record market_update =
  mu_event_seq :: u64
  mu_event_time :: u64
  mu_tsc_in :: u64
  mu_best_bid :: int
  mu_best_ask :: int
  mu_trade_price :: int
  mu_trade_qty :: int
  mu_instrument :: u16
  mu_trade_side :: side
  mu_flags :: u8
  mu_nb :: int
  mu_na :: int
  mu_bids :: "mu_level list"
  mu_asks :: "mu_level list"

definition TWO_SIDED :: u8 where "TWO_SIDED = 1"
definition SNAPSHOT :: u8 where "SNAPSHOT = 2"
definition FEED_RESET :: u8 where "FEED_RESET = 4"
definition LAST_IN_BATCH :: u8 where "LAST_IN_BATCH = 8"
definition CROSS :: u8 where "CROSS = 16"

lemmas frame_flags = TWO_SIDED_def SNAPSHOT_def FEED_RESET_def LAST_IN_BATCH_def CROSS_def

definition INT64_MAX :: int where "INT64_MAX = 2 ^ 63 - 1"
definition EMPTY_BID :: int where "EMPTY_BID = 0"
definition EMPTY_ASK :: int where "EMPTY_ASK = INT64_MAX"
definition EXEC_DEPTH :: nat where "EXEC_DEPTH = 10"
definition DASH_DEPTH :: nat where "DASH_DEPTH = 15"

section \<open>The snapshot\<close>

record book_snapshot =
  sn_event_seq :: u64
  sn_stock_id :: "u8 list"
  sn_best_bid :: u32
  sn_best_ask :: u32
  sn_nb :: nat
  sn_na :: nat
  sn_bids :: "book_level list"
  sn_asks :: "book_level list"

text \<open>Writing the first elements of an array.\<close>

definition overlay :: "'a list \<Rightarrow> 'a list \<Rightarrow> 'a list" where
  "overlay xs arr = xs @ drop (length xs) arr"

definition capture :: "nat \<Rightarrow> book_snapshot \<Rightarrow> order_book \<Rightarrow> u8 list \<Rightarrow> u64 \<Rightarrow> book_snapshot" where
  "capture depth out book symbol event_seq =
     (let bids = top_bids book depth; asks = top_asks book depth in
      \<lparr>sn_event_seq = event_seq, sn_stock_id = symbol, sn_best_bid = best_bid book,
       sn_best_ask = best_ask book, sn_nb = length bids, sn_na = length asks,
       sn_bids = overlay bids (sn_bids out), sn_asks = overlay asks (sn_asks out)\<rparr>)"

section \<open>The builder\<close>

definition mu_level_of :: "book_level \<Rightarrow> mu_level" where
  "mu_level_of l = \<lparr>ml_price = uint (lv_price l), ml_qty = uint (lv_shares l),
     ml_order_count = lv_order_count l\<rparr>"

definition build_market_update ::
  "market_update \<Rightarrow> event \<Rightarrow> book_snapshot \<Rightarrow> trade \<Rightarrow> u16 \<Rightarrow> u8 \<Rightarrow> market_update" where
  "build_market_update mu ev snap tr inst extra_flags =
     (let nb = min (sn_nb snap) EXEC_DEPTH; na = min (sn_na snap) EXEC_DEPTH;
          flags = LAST_IN_BATCH OR extra_flags;
          flags = (if 0 < nb \<and> 0 < na then flags OR TWO_SIDED else flags);
          flags = (if message_type ev = ch CHR ''Q'' then flags OR CROSS else flags)
      in \<lparr>mu_event_seq = sn_event_seq snap, mu_event_time = timestamp ev, mu_tsc_in = ev_tsc_in ev,
          mu_best_bid = (if 0 < sn_nb snap then uint (sn_best_bid snap) else EMPTY_BID),
          mu_best_ask = (if 0 < sn_na snap then uint (sn_best_ask snap) else EMPTY_ASK),
          mu_trade_price = uint (tr_price tr), mu_trade_qty = uint (tr_shares tr),
          mu_instrument = inst, mu_trade_side = tr_side tr, mu_flags = flags,
          mu_nb = int nb, mu_na = int na,
          mu_bids = overlay (map mu_level_of (take nb (sn_bids snap))) (mu_bids mu),
          mu_asks = overlay (map mu_level_of (take na (sn_asks snap))) (mu_asks mu)\<rparr>)"

text \<open>The levels a consumer reads.\<close>

definition mu_bid_levels :: "market_update \<Rightarrow> mu_level list" where
  "mu_bid_levels u = take (nat (mu_nb u)) (mu_bids u)"

definition mu_ask_levels :: "market_update \<Rightarrow> mu_level list" where
  "mu_ask_levels u = take (nat (mu_na u)) (mu_asks u)"

section \<open>What a frame says\<close>

lemma take_overlay: "n \<le> length xs \<Longrightarrow> take n (overlay xs arr) = take n xs"
  by (simp add: overlay_def)

text \<open>The published depth of one side: the best live prices with their totals.\<close>

definition depth_of :: "side \<Rightarrow> nat \<Rightarrow> order_book \<Rightarrow> mu_level list" where
  "depth_of sd n b = map (\<lambda>p. mu_level_of (level_at (levels_of sd b) p))
     (take n (ordered sd (side_prices sd (live_orders b) - {no_top sd})))"

lemma top_levels_ordered:
  assumes "book_inv b" "top_inv b" "tick_ok (live_orders b)"
  shows "map mu_level_of (top_bids b n) = depth_of Buy n b"
    and "map mu_level_of (top_asks b n) = depth_of Sell n b"
  using top_levels_sound [OF assms, of n]
  by (simp_all add: depth_of_def side_views ordered_def no_top_def comp_def)

lemma capture_fields:
  "sn_event_seq (capture d out b name n) = n" "sn_best_bid (capture d out b name n) = best_bid b"
  "sn_best_ask (capture d out b name n) = best_ask b"
  "sn_nb (capture d out b name n) = length (top_bids b d)" "sn_na (capture d out b name n) = length (top_asks b d)"
  "sn_bids (capture d out b name n) = overlay (top_bids b d) (sn_bids out)"
  "sn_asks (capture d out b name n) = overlay (top_asks b d) (sn_asks out)"
  by (simp_all add: capture_def Let_def)

lemma depth_of_prefix: "m \<le> n \<Longrightarrow> take m (depth_of sd n b) = depth_of sd m b"
  by (simp add: depth_of_def take_map [symmetric] min_def)

lemma depth_of_empty:
  assumes "book_inv b" "0 < n"
  shows "depth_of sd n b = [] \<longleftrightarrow> side_prices sd (live_orders b) \<subseteq> {no_top sd}"
proof -
  have "finite (side_prices sd (live_orders b))" using live_finite by (rule side_prices_finite)
  then show ?thesis using assms(2)
    by (cases sd) (auto simp: depth_of_def ordered_def)
qed

text \<open>
  The frame built from a captured book: ten levels of each side are the best live prices in
  order with the true totals, and the best prices are the sentinels on an empty side.
\<close>

lemma frame_sound:
  fixes mu :: market_update and ev :: event and out :: book_snapshot and name :: "u8 list"
    and n :: u64 and tr :: trade and inst :: u16 and extra :: u8
  assumes inv: "book_inv b" and top: "top_inv b" and tick: "tick_ok (live_orders b)"
  defines "u \<equiv> build_market_update mu ev (capture DASH_DEPTH out b name n) tr inst extra"
  shows "mu_bid_levels u = depth_of Buy EXEC_DEPTH b" and "mu_ask_levels u = depth_of Sell EXEC_DEPTH b"
    and "mu_best_bid u = (if depth_of Buy 1 b = [] then EMPTY_BID else uint (best_bid b))"
    and "mu_best_ask u = (if depth_of Sell 1 b = [] then EMPTY_ASK else uint (best_ask b))"
    and "mu_event_seq u = n" and "mu_trade_qty u = uint (tr_shares tr)"
proof -
  note t = top_levels_ordered [OF inv top tick]
  have len: "length (top_bids b d) = length (depth_of Buy d b)" "length (top_asks b d) = length (depth_of Sell d b)" for d
    using t(1) [of d] t(2) [of d] by (metis length_map)+
  have e: "depth_of sd DASH_DEPTH b = [] \<longleftrightarrow> depth_of sd 1 b = []" for sd
    using depth_of_empty [OF inv, of DASH_DEPTH sd] depth_of_empty [OF inv, of 1 sd] by (simp add: DASH_DEPTH_def)
  have p: "take EXEC_DEPTH (depth_of sd DASH_DEPTH b) = depth_of sd EXEC_DEPTH b" for sd
    by (rule depth_of_prefix) (simp add: EXEC_DEPTH_def DASH_DEPTH_def)
  have "mu_bid_levels u = take EXEC_DEPTH (map mu_level_of (top_bids b DASH_DEPTH))"
    by (simp add: mu_bid_levels_def u_def build_market_update_def capture_fields Let_def overlay_def take_map min_def)
  then show "mu_bid_levels u = depth_of Buy EXEC_DEPTH b" using t(1) p by simp
  have "mu_ask_levels u = take EXEC_DEPTH (map mu_level_of (top_asks b DASH_DEPTH))"
    by (simp add: mu_ask_levels_def u_def build_market_update_def capture_fields Let_def overlay_def take_map min_def)
  then show "mu_ask_levels u = depth_of Sell EXEC_DEPTH b" using t(2) p by simp
  show "mu_best_bid u = (if depth_of Buy 1 b = [] then EMPTY_BID else uint (best_bid b))"
    "mu_best_ask u = (if depth_of Sell 1 b = [] then EMPTY_ASK else uint (best_ask b))"
    using e [of Buy] e [of Sell] by (simp_all add: u_def build_market_update_def capture_fields Let_def len)
  show "mu_event_seq u = n" "mu_trade_qty u = uint (tr_shares tr)"
    by (simp_all add: u_def build_market_update_def capture_fields Let_def)
qed

end
