(* ===== verification/Spsc.thy ===== *)
theory Spsc
  imports Prelude
begin

text \<open>
  \<open>SpscRing<T, capacity>\<close> of \<open>src/common/spsc_ring.hpp\<close>: the lock-free ring that links the
  processes.  \<open>head\<close> and \<open>tail\<close> are free-running 32-bit counters that wrap; the capacity is
  \<open>2 ^ k\<close>.  First the operations as whole steps and their refinement of a bounded queue
  (locale \<open>bounded_fifo\<close>), at every value of the counters, the wrap included; then the two
  threads as a step relation over the single atomic accesses.
\<close>

section \<open>The class\<close>

record 'a ring =
  r_head :: u32
  r_tail :: u32
  r_slots :: "u32 \<Rightarrow> 'a"

definition ring_new :: "(u32 \<Rightarrow> 'a) \<Rightarrow> 'a ring" where
  "ring_new slots = \<lparr>r_head = 0, r_tail = 0, r_slots = slots\<rparr>"

text \<open>The claimed slot's index, or \<open>None\<close> for the null pointer.\<close>

definition try_claim :: "u32 \<Rightarrow> 'a ring \<Rightarrow> u32 option" where
  "try_claim capacity r =
     (let write_idx = r_tail r; read_idx = r_head r
      in if write_idx - read_idx = capacity then None else Some (write_idx AND (capacity - 1)))"

definition publish :: "'a ring \<Rightarrow> 'a ring" where
  "publish r = r\<lparr>r_tail := r_tail r + 1\<rparr>"

text \<open>A store through the pointer \<open>try_claim\<close> returned.\<close>

definition slot_put :: "u32 \<Rightarrow> 'a \<Rightarrow> 'a ring \<Rightarrow> 'a ring" where
  "slot_put i x r = r\<lparr>r_slots := (r_slots r)(i := x)\<rparr>"

definition try_push :: "u32 \<Rightarrow> 'a \<Rightarrow> 'a ring \<Rightarrow> bool \<times> 'a ring" where
  "try_push capacity item r = (case try_claim capacity r of
     None \<Rightarrow> (False, r)
   | Some i \<Rightarrow> (True, publish (slot_put i item r)))"

definition try_pop :: "u32 \<Rightarrow> 'a ring \<Rightarrow> 'a option \<times> 'a ring" where
  "try_pop capacity r =
     (let read_idx = r_head r; write_idx = r_tail r
      in if write_idx = read_idx then (None, r)
         else (Some (r_slots r (read_idx AND (capacity - 1))), r\<lparr>r_head := read_idx + 1\<rparr>))"

definition ring_size :: "'a ring \<Rightarrow> u32" where
  "ring_size r = r_tail r - r_head r"

section \<open>The bounded queue it stands for\<close>

datatype 'a fifo_cmd = Push 'a | Pop

text \<open>A sequence of commands: the accepted pushes, the popped items and the final state.\<close>

primrec fifo_run :: "('a \<Rightarrow> 's \<Rightarrow> bool \<times> 's) \<Rightarrow> ('s \<Rightarrow> 'a option \<times> 's) \<Rightarrow> 's \<Rightarrow> 'a fifo_cmd list
    \<Rightarrow> 'a list \<times> 'a list \<times> 's" where
  "fifo_run push pop s [] = ([], [], s)"
| "fifo_run push pop s (c # cs) = (case c of
     Push x \<Rightarrow> (case push x s of (ok, s') \<Rightarrow> (case fifo_run push pop s' cs of
       (ins, outs, t) \<Rightarrow> ((if ok then x # ins else ins), outs, t)))
   | Pop \<Rightarrow> (case pop s of (x, s') \<Rightarrow> (case fifo_run push pop s' cs of
       (ins, outs, t) \<Rightarrow> (ins, (case x of None \<Rightarrow> outs | Some y \<Rightarrow> y # outs), t))))"

text \<open>The answers of a sequence of calls, one by one, and the final state.\<close>

datatype 'a fifo_answer = Pushed bool | Popped "'a option"

primrec fifo_trace :: "('a \<Rightarrow> 's \<Rightarrow> bool \<times> 's) \<Rightarrow> ('s \<Rightarrow> 'a option \<times> 's) \<Rightarrow> 's \<Rightarrow> 'a fifo_cmd list
    \<Rightarrow> 'a fifo_answer list \<times> 's" where
  "fifo_trace push pop s [] = ([], s)"
| "fifo_trace push pop s (c # cs) = (case c of
     Push x \<Rightarrow> (case push x s of (ok, s') \<Rightarrow> apfst (Cons (Pushed ok)) (fifo_trace push pop s' cs))
   | Pop \<Rightarrow> (case pop s of (x, s') \<Rightarrow> apfst (Cons (Popped x)) (fifo_trace push pop s' cs)))"

text \<open>The bounded queue itself: a list of at most \<open>cap\<close> items, refusing a push only when it is full.\<close>

definition queue_push :: "nat \<Rightarrow> 'a \<Rightarrow> 'a list \<Rightarrow> bool \<times> 'a list" where
  "queue_push cap x xs = (if length xs < cap then (True, xs @ [x]) else (False, xs))"

fun queue_pop :: "'a list \<Rightarrow> 'a option \<times> 'a list" where
  "queue_pop [] = (None, [])"
| "queue_pop (x # xs) = (Some x, xs)"

locale bounded_fifo =
  fixes inv :: "'s \<Rightarrow> bool" and content :: "'s \<Rightarrow> 'a list" and cap :: nat
    and push :: "'a \<Rightarrow> 's \<Rightarrow> bool \<times> 's" and pop :: "'s \<Rightarrow> 'a option \<times> 's"
  assumes bounded: "inv s \<Longrightarrow> length (content s) \<le> cap"
    and push_room: "inv s \<Longrightarrow> length (content s) < cap
      \<Longrightarrow> \<exists>s'. push x s = (True, s') \<and> inv s' \<and> content s' = content s @ [x]"
    and push_full: "inv s \<Longrightarrow> length (content s) = cap \<Longrightarrow> push x s = (False, s)"
    and pop_some: "inv s \<Longrightarrow> content s = x # xs \<Longrightarrow> \<exists>s'. pop s = (Some x, s') \<and> inv s' \<and> content s' = xs"
    and pop_none: "inv s \<Longrightarrow> content s = [] \<Longrightarrow> pop s = (None, s)"
begin

lemma push_cases:
  assumes "inv s"
  obtains (accepted) s' where "push x s = (True, s')" "inv s'" "content s' = content s @ [x]"
    | (refused) "push x s = (False, s)" "length (content s) = cap"
  using push_room [OF assms] push_full [OF assms] bounded [OF assms]
  by (metis le_neq_implies_less)

lemma pop_cases:
  assumes "inv s"
  obtains (item) x s' where "pop s = (Some x, s')" "inv s'" "content s = x # content s'"
    | (empty) "pop s = (None, s)" "content s = []"
  using pop_some [OF assms] pop_none [OF assms] by (cases "content s") auto

text \<open>Every accepted item comes out once, in order; what is still inside is the rest.\<close>

lemma run_fifo:
  assumes "inv s"
  shows "case fifo_run push pop s cs of
    (ins, outs, t) \<Rightarrow> inv t \<and> content s @ ins = outs @ content t \<and> length (content t) \<le> cap"
  using assms
proof (induction cs arbitrary: s)
  case (Cons c cs)
  show ?case
  proof (cases c)
    case (Push x)
    from Cons.prems show ?thesis
    proof (cases rule: push_cases [where x = x])
      case (accepted s')
      with Cons.IH [of s'] Push show ?thesis by (auto split: prod.splits)
    next
      case refused
      with Cons.IH [of s] Cons.prems Push show ?thesis by (auto split: prod.splits)
    qed
  next
    case Pop
    from Cons.prems show ?thesis
    proof (cases rule: pop_cases)
      case (item x s')
      with Cons.IH [of s'] Pop show ?thesis by (auto split: prod.splits)
    next
      case empty
      with Cons.IH [of s] Cons.prems Pop show ?thesis by (auto split: prod.splits)
    qed
  qed
qed (simp add: bounded)

text \<open>Every answer is the bounded queue's, and so is the state it leaves.\<close>

lemma trace_queue:
  assumes "inv s"
  shows "map_prod id content (fifo_trace push pop s cs) = fifo_trace (queue_push cap) queue_pop (content s) cs"
  using assms
proof (induction cs arbitrary: s)
  case (Cons c cs)
  show ?case
  proof (cases c)
    case (Push x)
    from Cons.prems show ?thesis
    proof (cases rule: push_cases [where x = x])
      case (accepted s')
      have "length (content s) < cap" using bounded [OF accepted(2)] accepted(3) by simp
      with accepted Cons.IH [OF accepted(2)] Push show ?thesis
        by (simp add: queue_push_def map_prod_def apfst_def split_beta prod_eq_iff)
    next
      case refused
      with Cons.IH [OF Cons.prems] Push show ?thesis
        by (simp add: queue_push_def map_prod_def apfst_def split_beta prod_eq_iff)
    qed
  next
    case Pop
    from Cons.prems show ?thesis
    proof (cases rule: pop_cases)
      case (item x s')
      with Cons.IH [OF item(2)] Pop show ?thesis
        by (simp add: map_prod_def apfst_def split_beta prod_eq_iff)
    next
      case empty
      with Cons.IH [OF Cons.prems] Pop show ?thesis
        by (simp add: map_prod_def apfst_def split_beta prod_eq_iff)
    qed
  qed
qed simp

end

section \<open>Counters that wrap\<close>

definition ring_content :: "nat \<Rightarrow> 'a ring \<Rightarrow> 'a list" where
  "ring_content k r =
     map (\<lambda>i. r_slots r ((r_head r + word_of_nat i) AND mask k)) [0..<unat (r_tail r - r_head r)]"

definition ring_inv :: "nat \<Rightarrow> 'a ring \<Rightarrow> bool" where
  "ring_inv k r \<longleftrightarrow> unat (r_tail r - r_head r) \<le> 2 ^ k"

lemma capacity_mask: "(2 :: u32) ^ k - 1 = mask k"
  by (simp add: mask_eq_exp_minus_1)

lemma unat_capacity:
  assumes "k < 32"
  shows "unat (2 ^ k :: u32) = 2 ^ k"
proof -
  have "(2 ^ k :: nat) < 2 ^ 32" using assms by (intro power_strict_increasing) simp_all
  from unat_of_nat_u32 [OF this] show ?thesis by simp
qed

lemma masked_eq_iff: "(a :: u32) AND mask k = b AND mask k \<longleftrightarrow> unat a mod 2 ^ k = unat b mod 2 ^ k"
  by (simp add: word_unat_eq_iff unat_and_mask)

text \<open>Two positions less than a capacity apart are distinct slots.\<close>

lemma mod_add_neq:
  fixes i j n :: nat
  assumes "i < j" "j < n"
  shows "(a + i) mod n \<noteq> (a + j) mod n"
proof
  assume "(a + i) mod n = (a + j) mod n"
  then have "n dvd (a + j) - (a + i)" using assms(1) by (metis mod_eq_dvd_iff_nat add_le_cancel_left less_imp_le)
  then have "n dvd j - i" by simp
  with assms show False using dvd_imp_le [of n "j - i"] by simp
qed

lemma unat_offset_mod:
  assumes "k < 32" "n < 2 ^ k"
  shows "unat ((h :: u32) + word_of_nat n) mod 2 ^ k = (unat h + n) mod 2 ^ k"
proof -
  have lt: "(2 ^ k :: nat) < 2 ^ 32" using assms(1) by (intro power_strict_increasing) simp_all
  then have n: "unat (word_of_nat n :: u32) = n" using assms(2) by (intro unat_of_nat_u32) linarith
  have "(2 ^ k :: nat) dvd 2 ^ 32" using assms(1) by (intro le_imp_power_dvd) simp
  then have "(x mod 2 ^ 32) mod 2 ^ k = x mod (2 ^ k :: nat)" for x by (rule mod_mod_cancel)
  then show ?thesis by (simp add: unat_word_ariths n)
qed

lemma masked_distinct:
  assumes "k < 32" "i < 2 ^ k" "j < 2 ^ k" "i \<noteq> j"
  shows "((h :: u32) + word_of_nat i) AND mask k \<noteq> (h + word_of_nat j) AND mask k"
  using assms mod_add_neq [of i j "2 ^ k" "unat h"] mod_add_neq [of j i "2 ^ k" "unat h"]
  by (simp add: masked_eq_iff unat_offset_mod) (metis nat_neq_iff)

lemma length_ring_content [simp]: "length (ring_content k r) = unat (r_tail r - r_head r)"
  by (simp add: ring_content_def)

lemma ring_push_room:
  assumes k: "k < 32" and inv: "ring_inv k r" and room: "length (ring_content k r) < 2 ^ k"
  shows "\<exists>r'. try_push (2 ^ k) x r = (True, r') \<and> ring_inv k r' \<and> ring_content k r' = ring_content k r @ [x]"
proof -
  let ?n = "unat (r_tail r - r_head r)" and ?i = "r_tail r AND mask k"
  let ?r' = "publish (slot_put ?i x r)"
  have n: "?n < 2 ^ k" using room by simp
  then have "r_tail r - r_head r \<noteq> 2 ^ k" using unat_capacity [OF k] by auto
  then have "try_push (2 ^ k) x r = (True, ?r')"
    by (simp add: try_push_def try_claim_def capacity_mask)
  moreover have "(2 ^ k :: nat) < 2 ^ 32" using k by (intro power_strict_increasing) simp_all
  then have "unat (r_tail r - r_head r + 1) = ?n + 1" using n by (intro unat_Suc_no_wrap) linarith
  then have n': "unat (r_tail ?r' - r_head ?r') = Suc ?n"
    by (simp add: publish_def slot_put_def algebra_simps)
  have "(r_head r + word_of_nat j) AND mask k \<noteq> ?i" if "j < ?n" for j
    using masked_distinct [OF k, of j ?n "r_head r"] that n by simp
  then have "ring_content k ?r' = ring_content k r @ [x]"
    unfolding ring_content_def n' by (simp add: publish_def slot_put_def)
  moreover have "ring_inv k ?r'" unfolding ring_inv_def n' using n by simp
  ultimately show ?thesis by blast
qed

lemma ring_pop_some:
  assumes k: "k < 32" and inv: "ring_inv k r" and c: "ring_content k r = x # xs"
  shows "\<exists>r'. try_pop (2 ^ k) r = (Some x, r') \<and> ring_inv k r' \<and> ring_content k r' = xs"
proof -
  let ?n = "unat (r_tail r - r_head r)" and ?r' = "r\<lparr>r_head := r_head r + 1\<rparr>"
  have n: "?n = Suc (length xs)" using length_ring_content [of k r] c by simp
  have "r_tail r \<noteq> r_head r" using n by auto
  then have pop: "try_pop (2 ^ k) r = (Some (r_slots r (r_head r AND mask k)), ?r')"
    by (simp add: try_pop_def capacity_mask Let_def)
  have "unat (r_tail r - (r_head r + 1)) = length xs"
  proof -
    have "r_tail r - (r_head r + 1) = (r_tail r - r_head r) - 1" by simp
    also have "unat \<dots> = ?n - 1" using n by (subst unat_sub_no_borrow) simp_all
    finally show ?thesis using n by simp
  qed
  then have n': "unat (r_tail ?r' - r_head ?r') = length xs" by simp
  have "ring_content k r = map (\<lambda>i. r_slots r ((r_head r + word_of_nat i) AND mask k)) [0..<Suc (length xs)]"
    by (simp only: ring_content_def n)
  also have "\<dots> = r_slots r (r_head r AND mask k) # ring_content k ?r'"
    unfolding ring_content_def n' by (simp add: upt_rec [of 0] map_Suc_upt [symmetric] algebra_simps del: upt_Suc)
  finally have "x = r_slots r (r_head r AND mask k)" "xs = ring_content k ?r'" using c by simp_all
  moreover have "ring_inv k ?r'" using inv n n' by (simp add: ring_inv_def)
  ultimately show ?thesis using pop by blast
qed

text \<open>The rings of the program have at most \<open>2 ^ 20\<close> slots; the contract holds up to \<open>2 ^ 31\<close>.\<close>

definition ring_exp :: "nat \<Rightarrow> nat" where "ring_exp k = min k 31"

interpretation spsc: bounded_fifo "ring_inv (ring_exp k)" "ring_content (ring_exp k)" "2 ^ ring_exp k"
  "try_push (2 ^ ring_exp k)" "try_pop (2 ^ ring_exp k)" for k
proof
  let ?k = "ring_exp k"
  have k: "?k < 32" by (simp add: ring_exp_def)
  fix s :: "'a ring" and x xs
  assume inv: "ring_inv ?k s"
  show "length (ring_content ?k s) \<le> 2 ^ ?k" using inv by (simp add: ring_inv_def)
  show "\<exists>s'. try_push (2 ^ ?k) x s = (True, s') \<and> ring_inv ?k s' \<and> ring_content ?k s' = ring_content ?k s @ [x]"
    if "length (ring_content ?k s) < 2 ^ ?k" using ring_push_room [OF k inv that] .
  show "try_push (2 ^ ?k) x s = (False, s)" if "length (ring_content ?k s) = 2 ^ ?k"
  proof -
    have "r_tail s - r_head s = 2 ^ ?k" using that unat_capacity [OF k] by (simp add: word_unat_eq_iff)
    then show ?thesis by (simp add: try_push_def try_claim_def)
  qed
  show "\<exists>s'. try_pop (2 ^ ?k) s = (Some x, s') \<and> ring_inv ?k s' \<and> ring_content ?k s' = xs"
    if "ring_content ?k s = x # xs" using ring_pop_some [OF k inv that] .
  show "try_pop (2 ^ ?k) s = (None, s)" if "ring_content ?k s = []"
    using that by (simp add: ring_content_def try_pop_def unat_eq_0)
qed

lemma ring_new_inv: "ring_inv k (ring_new slots)" "ring_content k (ring_new slots) = []"
  by (simp_all add: ring_inv_def ring_content_def ring_new_def)

end
