(* ===== verification/Core_Main.thy ===== *)
theory Core_Main
  imports Market_Update Spsc
begin

text \<open>
  The hot thread of \<open>src/core/core_main.cpp\<close>: \<open>set_primary\<close>, the \<open>process\<close> lambda and the
  event loop, with the exec process popping the feed ring at any point in between.  A full
  ring drops the frame and flags the next one that fits.  Shown: the loop never spins on a
  legal feed, the frames arrive in order and whole, and a consumer can trust \<open>FEED_RESET\<close>:
  a frame carries it exactly when frames were dropped just before it.

  The loop's time stamps and histograms are in \<open>Core_Loop\<close>, the snapshotter in \<open>Dashboard_Frame\<close>, the
  log in \<open>Latency_Log\<close> and the start-up in \<open>Worker_Mains\<close>.
\<close>

section \<open>The subscribed symbol\<close>

text \<open>A C string is the list of its bytes before the terminator.\<close>

fun symbol_prefix :: "nat \<Rightarrow> u8 list \<Rightarrow> u8 list" where
  "symbol_prefix 0 s = []"
| "symbol_prefix (Suc n) [] = []"
| "symbol_prefix (Suc n) (c # s) = (if c = ch CHR '','' then [] else c # symbol_prefix n s)"

definition set_primary :: "u8 list \<Rightarrow> u8 list" where
  "set_primary symbols = overlay (symbol_prefix 8 symbols) (replicate 8 (ch CHR '' ''))"

section \<open>The hot thread\<close>

record core_state =
  cs_feed :: feed
  cs_scratch :: book_snapshot
  cs_ring :: "market_update ring"
  cs_pushed :: u64
  cs_dropped :: u64
  cs_pending_reset :: bool
  cs_book_seq :: "book_snapshot option" \<comment> \<open>the last value stored in the snapshot seqlock\<close>

definition FEED_RING_CAPACITY :: u32 where "FEED_RING_CAPACITY = 2 ^ 13"

definition core_process :: "u16 \<Rightarrow> event \<Rightarrow> core_state \<Rightarrow> core_state option" where
  "core_process primary_instrument ev s =
     (case feed_apply ev no_trade (cs_feed s) of
        None \<Rightarrow> None
      | Some (None, _, f) \<Rightarrow> Some (s\<lparr>cs_feed := f\<rparr>)
      | Some (Some l, tr, f) \<Rightarrow>
          let scratch = (case ba_get l (fd_engine f) of
                None \<Rightarrow> cs_scratch s
              | Some book \<Rightarrow> capture DASH_DEPTH (cs_scratch s) book (fd_symbol f) (fd_count f));
              s = s\<lparr>cs_feed := f, cs_scratch := scratch\<rparr>;
              s = (case try_claim FEED_RING_CAPACITY (cs_ring s) of
                Some i \<Rightarrow>
                  let frame = build_market_update (r_slots (cs_ring s) i) ev scratch tr primary_instrument
                        (if cs_pending_reset s then FEED_RESET else 0)
                  in s\<lparr>cs_ring := publish (slot_put i frame (cs_ring s)), cs_pushed := cs_pushed s + 1,
                       cs_pending_reset := False\<rparr>
              | None \<Rightarrow> s\<lparr>cs_dropped := cs_dropped s + 1, cs_pending_reset := True\<rparr>)
          in Some (s\<lparr>cs_book_seq := Some scratch\<rparr>))"

text \<open>The loop and the consumer, in any interleaving; the frames pushed and popped.\<close>

datatype core_cmd = Event event | Consume

fun core_run :: "u16 \<Rightarrow> core_cmd list \<Rightarrow> core_state
    \<Rightarrow> (market_update list \<times> market_update list \<times> core_state) option" where
  "core_run inst [] s = Some ([], [], s)"
| "core_run inst (Event ev # cs) s =
     (case core_process inst ev s of
        None \<Rightarrow> None
      | Some s' \<Rightarrow> map_option (\<lambda>(ins, outs, t).
          (drop (length (ring_content 13 (cs_ring s))) (ring_content 13 (cs_ring s')) @ ins, outs, t))
          (core_run inst cs s'))"
| "core_run inst (Consume # cs) s =
     (case try_pop FEED_RING_CAPACITY (cs_ring s) of
        (x, r) \<Rightarrow> map_option (\<lambda>(ins, outs, t). (ins, (case x of None \<Rightarrow> outs | Some u \<Rightarrow> u # outs), t))
          (core_run inst cs (s\<lparr>cs_ring := r\<rparr>)))"

definition core_new :: "u8 list \<Rightarrow> book_snapshot \<Rightarrow> (u32 \<Rightarrow> market_update) \<Rightarrow> core_state" where
  "core_new symbol scratch slots = \<lparr>cs_feed = feed_new symbol, cs_scratch = scratch, cs_ring = ring_new slots,
     cs_pushed = 0, cs_dropped = 0, cs_pending_reset = False, cs_book_seq = None\<rparr>"

section \<open>Gaps are flagged\<close>

definition flagged :: "market_update \<Rightarrow> bool" where
  "flagged u \<longleftrightarrow> mu_flags u AND FEED_RESET \<noteq> 0"

text \<open>\<open>prev\<close> is the sequence number of the frame before; the numbers increase.\<close>

primrec gaps_flagged :: "u64 \<Rightarrow> market_update list \<Rightarrow> bool" where
  "gaps_flagged prev [] \<longleftrightarrow> True"
| "gaps_flagged prev (u # us) \<longleftrightarrow>
     prev < mu_event_seq u \<and> flagged u = (mu_event_seq u \<noteq> prev + 1) \<and> gaps_flagged (mu_event_seq u) us"

lemma gaps_flagged_prefix: "gaps_flagged prev (us @ vs) \<Longrightarrow> gaps_flagged prev us"
  by (induction us arbitrary: prev) auto

fun events_of :: "core_cmd list \<Rightarrow> event list" where
  "events_of [] = []"
| "events_of (Event ev # cs) = ev # events_of cs"
| "events_of (Consume # cs) = events_of cs"

lemma flagged_bit: "(w :: u8) AND FEED_RESET \<noteq> 0 \<longleftrightarrow> bit w 2"
  using and_exp_eq_0_iff_not_bit [of w 2] by (simp add: FEED_RESET_def)

lemma build_flagged:
  "flagged (build_market_update mu ev snap tr inst (if p then FEED_RESET else 0)) = p"
proof -
  have b: "\<not> bit (8 :: u8) 2" "bit (4 :: u8) 2" "\<not> bit (1 :: u8) 2" "\<not> bit (16 :: u8) 2"
    by (simp_all add: bit_iff_odd)
  show ?thesis unfolding flagged_def flagged_bit build_market_update_def
    by (simp add: Let_def bit_or_iff frame_flags b)
qed

lemma feed_apply_touched:
  assumes "feed_apply ev t f = Some (Some l, t', f')"
  obtains book where "ba_get l (fd_engine f') = Some book" "fd_count f' = fd_count f + 1"
    "fd_symbol f' = fd_symbol f"
  using assms by (auto simp: feed_apply_def ba_get_def Let_def split: if_splits option.splits)

text \<open>One event: filtered, pushed, or dropped on a full ring.\<close>

lemma core_process_cases:
  assumes step: "core_process inst ev s = Some s'" and ring: "ring_inv 13 (cs_ring s)"
  obtains (filtered) "s' = s\<lparr>cs_feed := cs_feed s'\<rparr>" "fd_count (cs_feed s') = fd_count (cs_feed s)"
  | (pushed) u where "ring_inv 13 (cs_ring s')" "ring_content 13 (cs_ring s') = ring_content 13 (cs_ring s) @ [u]"
      "mu_event_seq u = fd_count (cs_feed s')" "flagged u = cs_pending_reset s" "\<not> cs_pending_reset s'"
      "fd_count (cs_feed s') = fd_count (cs_feed s) + 1" "cs_pushed s' = cs_pushed s + 1" "cs_dropped s' = cs_dropped s"
  | (dropped) "cs_ring s' = cs_ring s" "cs_pending_reset s'" "length (ring_content 13 (cs_ring s)) = 8192"
      "fd_count (cs_feed s') = fd_count (cs_feed s) + 1" "cs_pushed s' = cs_pushed s" "cs_dropped s' = cs_dropped s + 1"
proof -
  obtain l tr f where a: "feed_apply ev no_trade (cs_feed s) = Some (l, tr, f)"
    using step by (auto simp: core_process_def split: option.splits)
  show thesis
  proof (cases l)
    case None
    then have "f = cs_feed s"
      using a by (auto simp: feed_apply_def Let_def split: if_splits option.splits)
    then show thesis using a None step by (intro filtered) (auto simp: core_process_def)
  next
    case (Some loc)
    from feed_apply_touched [OF a [unfolded Some]] obtain book where
      book: "ba_get loc (fd_engine f) = Some book" and cnt: "fd_count f = fd_count (cs_feed s) + 1" by blast
    let ?snap = "capture DASH_DEPTH (cs_scratch s) book (fd_symbol f) (fd_count f)"
    show thesis
    proof (cases "try_claim FEED_RING_CAPACITY (cs_ring s)")
      case None
      then have "unat (r_tail (cs_ring s) - r_head (cs_ring s)) = 8192"
        by (auto simp: try_claim_def FEED_RING_CAPACITY_def Let_def split: if_splits)
      then show thesis using a Some book cnt None step
        by (intro dropped) (auto simp: core_process_def Let_def)
    next
      case (Some i)
      let ?u = "build_market_update (r_slots (cs_ring s) i) ev ?snap tr inst
        (if cs_pending_reset s then FEED_RESET else 0)"
      have s': "s' = s\<lparr>cs_feed := f, cs_scratch := ?snap, cs_ring := publish (slot_put i ?u (cs_ring s)),
          cs_pushed := cs_pushed s + 1, cs_pending_reset := False, cs_book_seq := Some ?snap\<rparr>"
        using step a \<open>l = Some loc\<close> book Some by (simp add: core_process_def Let_def)
      have push: "try_push (2 ^ 13) ?u (cs_ring s) = (True, publish (slot_put i ?u (cs_ring s)))"
        using Some by (simp add: try_push_def FEED_RING_CAPACITY_def)
      have ok: "ring_inv 13 (cs_ring s') \<and> ring_content 13 (cs_ring s') = ring_content 13 (cs_ring s) @ [?u]"
      proof -
        have "unat (r_tail (cs_ring s) - r_head (cs_ring s)) \<noteq> 2 ^ 13"
          using Some by (auto simp: try_claim_def FEED_RING_CAPACITY_def Let_def word_unat_eq_iff split: if_splits)
        then have "length (ring_content 13 (cs_ring s)) < 2 ^ 13"
          using ring unfolding ring_inv_def length_ring_content by linarith
        from ring_push_room [OF _ ring this, of ?u] push show ?thesis by (simp add: s')
      qed
      have u: "mu_event_seq ?u = fd_count f" "flagged ?u = cs_pending_reset s"
        by (simp_all add: build_flagged) (simp add: build_market_update_def Let_def capture_fields)
      show thesis
        by (rule pushed [OF ok [THEN conjunct1] ok [THEN conjunct2]]) (use u in \<open>simp_all add: s' cnt\<close>)
    qed
  qed
qed

section \<open>Runs\<close>

text \<open>The frame before the next had number \<open>prev\<close>; a reset is pending iff frames were dropped since.\<close>

definition gap_inv :: "u64 \<Rightarrow> core_state \<Rightarrow> bool" where
  "gap_inv prev s \<longleftrightarrow> prev \<le> fd_count (cs_feed s) \<and> (cs_pending_reset s \<longleftrightarrow> prev < fd_count (cs_feed s))"

lemma unat_succ_u64: "unat (c :: u64) + 1 < 2 ^ 64 \<Longrightarrow> unat (c + 1) = unat c + 1"
  by (simp add: unat_word_ariths)

text \<open>Frames pushed and dropped against events applied: a difference every run keeps.\<close>

definition frame_debt :: "core_state \<Rightarrow> u64" where
  "frame_debt s = cs_pushed s + cs_dropped s - fd_count (cs_feed s)"

text \<open>What a run from \<open>s\<close> to \<open>t\<close> guarantees of its frames.\<close>

definition run_ok :: "u64 \<Rightarrow> core_state \<Rightarrow> market_update list \<Rightarrow> market_update list \<Rightarrow> core_state \<Rightarrow> bool" where
  "run_ok prev s ins outs t \<longleftrightarrow> gaps_flagged prev ins
     \<and> ring_content 13 (cs_ring s) @ ins = outs @ ring_content 13 (cs_ring t)
     \<and> cs_pushed t = cs_pushed s + word_of_nat (length ins)
     \<and> frame_debt t = frame_debt s"

lemma run_ok_same:
  assumes "run_ok prev s' ins outs t" "cs_ring s' = cs_ring s" "cs_pushed s' = cs_pushed s"
    and "frame_debt s' = frame_debt s"
  shows "run_ok prev s ins outs t"
  using assms unfolding run_ok_def by metis

lemma core_run_sound:
  assumes "core_run inst cs s = Some (ins, outs, t)" and "ring_inv 13 (cs_ring s)"
    and "unat (fd_count (cs_feed s)) + length (events_of cs) < 2 ^ 64" and "gap_inv prev s"
  shows "run_ok prev s ins outs t"
  using assms
proof (induction inst cs s arbitrary: ins outs prev rule: core_run.induct)
  case (1 inst s)
  then show ?case by (simp add: run_ok_def)
next
  case (2 inst ev cs s)
  then obtain s' ins' where step: "core_process inst ev s = Some s'"
    and run: "core_run inst cs s' = Some (ins', outs, t)"
    and ins: "ins = drop (length (ring_content 13 (cs_ring s))) (ring_content 13 (cs_ring s')) @ ins'"
    by (auto split: option.splits)
  note IH = "2.IH" [OF step run]
  note ring = "2.prems"(2) and bound = "2.prems"(3) and gap = "2.prems"(4)
  have succ: "unat (fd_count (cs_feed s) + 1) = unat (fd_count (cs_feed s)) + 1"
    using bound by (intro unat_succ_u64) simp
  then have less: "prev < fd_count (cs_feed s) + 1"
    using gap by (simp add: gap_inv_def word_less_nat_alt word_le_nat_alt)
  have next_iff: "fd_count (cs_feed s) + 1 = prev + 1 \<longleftrightarrow> \<not> prev < fd_count (cs_feed s)"
    using gap by (auto simp: gap_inv_def)
  from step ring show ?case
  proof (cases rule: core_process_cases)
    case filtered
    have eq: "cs_ring s' = cs_ring s" "cs_pushed s' = cs_pushed s" "cs_dropped s' = cs_dropped s"
      "cs_pending_reset s' = cs_pending_reset s" by (subst filtered(1), simp)+
    have "run_ok prev s' ins' outs t"
      using IH ring bound gap filtered(2) eq by (simp add: gap_inv_def)
    then show ?thesis using run_ok_same [of prev s' ins' outs t s] eq filtered(2) ins by (simp add: frame_debt_def)
  next
    case (pushed u)
    have "run_ok (mu_event_seq u) s' ins' outs t"
      using pushed bound succ by (intro IH) (simp_all add: gap_inv_def)
    moreover have "ins = u # ins'" using ins pushed(2) by simp
    moreover have "flagged u = (mu_event_seq u \<noteq> prev + 1)"
      using pushed(3,4,6) gap next_iff by (simp add: gap_inv_def)
    moreover have "frame_debt s' = frame_debt s" using pushed by (simp add: frame_debt_def)
    moreover have "prev < mu_event_seq u" using less pushed(3,6) by simp
    ultimately show ?thesis using pushed(2,7) by (simp add: run_ok_def)
  next
    case dropped
    have "run_ok prev s' ins' outs t"
      using dropped ring bound succ less by (intro IH) (simp_all add: gap_inv_def)
    moreover have "ins = ins'" using ins dropped(1) by simp
    moreover have "frame_debt s' = frame_debt s" using dropped by (simp add: frame_debt_def)
    ultimately show ?thesis using dropped(1,5) by (simp add: run_ok_def)
  qed
next
  case (3 inst cs s)
  obtain x r where pop: "try_pop FEED_RING_CAPACITY (cs_ring s) = (x, r)" by (cases "try_pop FEED_RING_CAPACITY (cs_ring s)")
  then obtain outs' where run: "core_run inst cs (s\<lparr>cs_ring := r\<rparr>) = Some (ins, outs', t)"
    and outs: "outs = (case x of None \<Rightarrow> outs' | Some u \<Rightarrow> u # outs')"
    using "3.prems"(1) by auto
  have content: "ring_inv 13 r \<and> ring_content 13 (cs_ring s) = (case x of None \<Rightarrow> [] | Some u \<Rightarrow> [u]) @ ring_content 13 r"
  proof (cases "ring_content 13 (cs_ring s)")
    case Nil
    then have "r_tail (cs_ring s) = r_head (cs_ring s)" by (simp add: ring_content_def unat_eq_0)
    then show ?thesis using pop "3.prems"(2) by (auto simp: try_pop_def Nil)
  next
    case (Cons u us)
    from ring_pop_some [OF _ "3.prems"(2) this] pop show ?thesis
      by (auto simp: FEED_RING_CAPACITY_def Cons)
  qed
  then have "run_ok prev (s\<lparr>cs_ring := r\<rparr>) ins outs' t"
    using "3.IH" [OF pop [symmetric] run] "3.prems"(3,4) by (simp add: gap_inv_def)
  with content outs show ?case by (auto simp: run_ok_def frame_debt_def split: option.splits)
qed

text \<open>On a legal feed the run returns.\<close>

lemma core_process_returns:
  assumes "feed_inv (cs_feed s)" and "legal_event (fd_symbol (cs_feed s)) ev (abs_books (cs_feed s))"
  shows "\<exists>s'. core_process inst ev s = Some s' \<and> feed_inv (cs_feed s')
    \<and> fd_symbol (cs_feed s') = fd_symbol (cs_feed s)
    \<and> abs_books (cs_feed s') = spec_feed (fd_symbol (cs_feed s)) ev (abs_books (cs_feed s))"
proof -
  obtain l t' f' where a: "feed_apply ev no_trade (cs_feed s) = Some (l, t', f')" "feed_inv f'"
    "abs_books f' = spec_feed (fd_symbol (cs_feed s)) ev (abs_books (cs_feed s))"
    "fd_symbol f' = fd_symbol (cs_feed s)"
    using feed_apply_sound [OF assms, of no_trade] by blast
  then show ?thesis
    by (cases l; cases "try_claim FEED_RING_CAPACITY (cs_ring s)")
      (simp_all add: core_process_def Let_def)
qed

lemma core_run_returns:
  assumes "feed_inv (cs_feed s)" and "legal_feed (fd_symbol (cs_feed s)) (events_of cs) (abs_books (cs_feed s))"
  shows "\<exists>ins outs t. core_run inst cs s = Some (ins, outs, t) \<and> feed_inv (cs_feed t)
    \<and> abs_books (cs_feed t) = fold (spec_feed (fd_symbol (cs_feed s))) (events_of cs) (abs_books (cs_feed s))"
  using assms
proof (induction inst cs s rule: core_run.induct)
  case (2 inst ev cs s)
  then have "legal_event (fd_symbol (cs_feed s)) ev (abs_books (cs_feed s))" by simp
  from core_process_returns [OF "2.prems"(1) this, of inst] obtain s' where
    s': "core_process inst ev s = Some s'" "feed_inv (cs_feed s')" "fd_symbol (cs_feed s') = fd_symbol (cs_feed s)"
    "abs_books (cs_feed s') = spec_feed (fd_symbol (cs_feed s)) ev (abs_books (cs_feed s))" by blast
  then show ?case using "2.IH" [OF s'(1,2)] "2.prems"(2) by auto
next
  case (3 inst cs s)
  obtain x r where pop: "try_pop FEED_RING_CAPACITY (cs_ring s) = (x, r)" by (cases "try_pop FEED_RING_CAPACITY (cs_ring s)")
  then show ?case using "3.IH" [OF pop [symmetric]] "3.prems" by auto
qed simp

text \<open>From the start: what \<open>core_run_returns\<close> and \<open>core_run_sound\<close> say of a fresh core on a legal stream.\<close>

lemma core_frames:
  assumes "legal_feed symbol (events_of cs) Map.empty" and "length (events_of cs) < 2 ^ 64"
  obtains ins outs t where "core_run inst cs (core_new symbol scratch slots) = Some (ins, outs, t)"
    "ins = outs @ ring_content 13 (cs_ring t)" "gaps_flagged 0 ins" "gaps_flagged 0 outs"
    "cs_pushed t = of_nat (length ins)" "cs_pushed t + cs_dropped t = fd_count (cs_feed t)"
proof -
  let ?s = "core_new symbol scratch slots"
  have s: "feed_inv (cs_feed ?s)" "abs_books (cs_feed ?s) = Map.empty" "fd_symbol (cs_feed ?s) = symbol"
    "ring_inv 13 (cs_ring ?s)" "ring_content 13 (cs_ring ?s) = []" "fd_count (cs_feed ?s) = 0"
    by (simp_all add: core_new_def feed_new_inv ring_new_inv) (simp add: feed_new_def)
  obtain ins outs t where run: "core_run inst cs ?s = Some (ins, outs, t)"
    using core_run_returns [of ?s cs inst] s assms(1) by auto
  have "run_ok 0 ?s ins outs t"
    using core_run_sound [OF run s(4)] s(6) assms(2) by (simp add: gap_inv_def core_new_def)
  then have r: "gaps_flagged 0 ins" "ring_content 13 (cs_ring ?s) @ ins = outs @ ring_content 13 (cs_ring t)"
    "cs_pushed t = cs_pushed ?s + word_of_nat (length ins)" "frame_debt t = frame_debt ?s"
    unfolding run_ok_def by blast+
  have "frame_debt ?s = 0" using s(6) by (simp add: frame_debt_def core_new_def)
  with r(4) have "cs_pushed t + cs_dropped t = fd_count (cs_feed t)" by (simp add: frame_debt_def)
  moreover have eq: "ins = outs @ ring_content 13 (cs_ring t)" using r(2) s(5) by simp
  moreover have "gaps_flagged 0 outs" using r(1) unfolding eq by (rule gaps_flagged_prefix)
  moreover have "cs_pushed t = of_nat (length ins)" using r(3) by (simp add: core_new_def)
  ultimately show thesis using r(1) by (intro that [OF run]) simp_all
qed

end
