(* ===== verification/Book_Ticks.thy ===== *)
theory Book_Ticks
  imports Primary_Feed
begin

text \<open>
  Off the tick grid.  The level arrays hold a hundred price units per level while the top of
  book is cached and compared as an exact price, so with two prices in one level the cache
  goes stale: the last order of the level leaves and the best bid stays.  This is why the
  theorems on the top of book have \<open>tick_ok\<close>.
\<close>

lemma on_add_top:
  assumes "on_add ref sd price shares (d, b) = Some (d', b')" and "in_range (levels_of sd b) price"
  shows "top_of sd b' = (if better sd price (top_of sd b) then price else top_of sd b)"
  using assms by (auto simp: on_add_side add_order_def add_side_def Let_def)

lemma on_delete_top:
  assumes inv: "book_inv b" and e: "live_orders b ref = Some e" "oe_side e = sd"
    and del: "on_delete ref b = Some b'"
    and stay: "oe_price e \<noteq> top_of sd b
      \<or> at_level (levels_of sd b) sd ((live_orders b)(ref := None)) (level_no (levels_of sd b) (oe_price e)) \<noteq> {}"
  shows "top_of sd b' = top_of sd b"
proof -
  let ?la = "levels_of sd b" and ?p = "oe_price e" and ?m' = "(live_orders b)(ref := None)"
  let ?lvl = "\<lparr>total_shares = total_shares (la_at ?la ?p) - oe_shares e,
    order_count = order_count (la_at ?la ?p) - 1\<rparr>"
  obtain r where r: "om_find ORDER_MASK (ob_orders b) ref = Some r"
    "case r of None \<Rightarrow> live_orders b ref = None
     | Some p \<Rightarrow> points_to 20 (ob_orders b) ref p \<and> live_orders b ref = Some (s_entry (ob_orders b p))"
    using find_live [OF inv] by blast
  with e obtain p where p: "r = Some p" "s_entry (ob_orders b p) = e" by (cases r) auto
  have "remove_order sd ref ?p ?lvl (ob_orders b) b = Some b'"
    using del r(1) p e(2) by (simp add: on_delete_side Let_def)
  then obtain om where b': "b' = settle sd ?p (set_levels sd (la_write ?la ?p ?lvl) (b\<lparr>ob_orders := om\<rparr>))"
    (is "b' = settle sd ?p ?b1") by (auto simp: remove_order_def)
  have side: "side_inv (levels_of sd ?b1) sd ?m' {level_no ?la ?p}"
    using side_inv_del [OF book_invD(4) [OF inv] live_finite e refl] by simp
  have rng: "in_range (levels_of sd ?b1) ?p" and no: "level_no (levels_of sd ?b1) ?p = level_no ?la ?p"
    and at: "at_level (levels_of sd ?b1) sd ?m' i = at_level ?la sd ?m' i" for i
    using side_invD(2) [OF book_invD(4) [OF inv] e] in_range_base [of "levels_of sd ?b1" ?la]
      level_no_base [of "levels_of sd ?b1" ?la] at_level_base [of "levels_of sd ?b1" ?la] by simp_all
  have fin: "finite (dom ?m')" using live_finite by simp
  have card: "card (dom ?m') < 2 ^ 32"
    using card_dom_del [OF live_finite, of b ref] book_invD(3) [OF inv] by (rule order.strict_trans1)
  have "order_count (la_at (levels_of sd ?b1) ?p) = 0 \<longleftrightarrow> at_level ?la sd ?m' (level_no ?la ?p) = {}"
    using side_inv_at [OF side rng] level_count_zero [OF fin card, of "levels_of sd ?b1" sd "level_no ?la ?p"]
    by (simp only: no at)
  with stay show ?thesis unfolding b' settle_top by auto
qed

text \<open>Two bids of one level, added to a fresh book and deleted, the better one first.\<close>

lemma stale_best_bid_run:
  defines "b0 \<equiv> ob_init 7 0 ob_new"
  shows "\<exists>b1 b2 b3 b4. on_add 1 Buy 10050 5 (0, b0) = Some (0, b1) \<and> on_add 2 Buy 10099 5 (0, b1) = Some (0, b2)
    \<and> on_delete 2 b2 = Some b3 \<and> on_delete 1 b3 = Some b4
    \<and> live_orders b4 = Map.empty \<and> best_bid b4 = 10099"
proof -
  let ?e1 = "\<lparr>oe_price = 10050, oe_shares = 5, oe_side = Buy\<rparr>" and ?e2 = "\<lparr>oe_price = 10099, oe_shares = 5, oe_side = Buy\<rparr>"
  have i0: "book_inv b0" "live_orders b0 = Map.empty" "top_of Buy b0 = 0" "bases b0 0"
    using ob_init_sound [of 0 7]
    by (simp_all add: b0_def ob_init_def top_of_def bases_def levels_of_def la_init_def split: side.splits)
  have rng: "in_range (levels_of Buy b) 10050" "in_range (levels_of Buy b) 10099"
    and no: "level_no (levels_of Buy b) 10050 = 100" "level_no (levels_of Buy b) 10099 = 100"
    if "bases b 0" for b
    using that by (simp_all add: bases_def in_range_def index_of_def level_no_def PRICE_TICK_def MAX_LEVELS_def)
  obtain b1 where b1: "on_add 1 Buy 10050 5 (0, b0) = Some (0, b1)" "book_inv b1" "live_orders b1 = [1 \<mapsto> ?e1]"
    using on_add_sound [OF i0(1) _ _ rng(1) [OF i0(4)], of 1 5 0] i0(2) by (auto simp: spec_add_def)
  have t1: "top_of Buy b1 = 10050" "bases b1 0"
    using on_add_top [OF b1(1) rng(1) [OF i0(4)]] bases_on_add [OF b1(1)] i0 by (simp_all add: better_def)
  obtain b2 where b2: "on_add 2 Buy 10099 5 (0, b1) = Some (0, b2)" "book_inv b2"
    "live_orders b2 = [1 \<mapsto> ?e1, 2 \<mapsto> ?e2]"
    using on_add_sound [OF b1(2) _ _ rng(2) [OF t1(2)], of 2 5 0] b1(3) by (auto simp: spec_add_def)
  have t2: "top_of Buy b2 = 10099" "bases b2 0"
    using on_add_top [OF b2(1) rng(2) [OF t1(2)]] bases_on_add [OF b2(1)] t1 by (simp_all add: better_def)
  obtain b3 where b3: "on_delete 2 b2 = Some b3" "book_inv b3" "live_orders b3 = [1 \<mapsto> ?e1]"
    using on_delete_sound [OF b2(2), of 2] b2(3) by (auto simp: spec_delete_def)
  have t3: "top_of Buy b3 = 10099"
    using on_delete_top [OF b2(2) _ _ b3(1), of ?e2 Buy] b2(3) t2 no [OF t2(2)] by (auto simp: at_level_def)
  obtain b4 where b4: "on_delete 1 b3 = Some b4" "live_orders b4 = Map.empty"
    using on_delete_sound [OF b3(2), of 1] b3(3) by (auto simp: spec_delete_def)
  have t4: "top_of Buy b4 = 10099"
    using on_delete_top [OF b3(2) _ _ b4(1), of ?e1 Buy] b3(3) t3 by simp
  show ?thesis using b1(1) b2(1) b3(1) b4 t4 by (auto simp: top_of_def)
qed

end
