(* ===== verification/Spsc_Threads.thy ===== *)
theory Spsc_Threads
  imports Spsc
begin

text \<open>
  The producer and the consumer of \<open>src/common/spsc_ring.hpp\<close> as two threads: one step per
  atomic load or store and one for each slot copy, in any interleaving.  Every release store
  is read by an acquire load on the other side, so the interleaving of the accesses is the
  behaviour of the code; a thread's relaxed load reads the counter only it writes.

  Shown by rule induction: the items received are a prefix of the items sent (nothing is
  lost, duplicated or reordered), the two threads never touch the same slot at once, and a
  copied item is the one that was pushed.
\<close>

text \<open>The program counters, with the locals read so far (\<open>write_idx\<close>, \<open>read_idx\<close>).\<close>

datatype 'a producer =
    P_Idle
  | P_Loaded 'a u32   \<comment> \<open>\<open>tail\<close> loaded\<close>
  | P_Fill 'a u32     \<comment> \<open>\<open>head\<close> loaded, slot claimed: the copy into it is under way\<close>
  | P_Publish 'a

datatype 'a consumer =
    C_Idle
  | C_Loaded u32      \<comment> \<open>\<open>head\<close> loaded\<close>
  | C_Copy u32        \<comment> \<open>\<open>tail\<close> loaded: the copy out of the slot is under way\<close>
  | C_Release u32 'a

record 'a threads =
  t_ring :: "'a ring"
  t_prod :: "'a producer"
  t_cons :: "'a consumer"
  t_sent :: "'a list"
  t_recv :: "'a list"

inductive ring_step :: "u32 \<Rightarrow> 'a threads \<Rightarrow> 'a threads \<Rightarrow> bool" for capacity where
  p_load_tail: "t_prod s = P_Idle
    \<Longrightarrow> ring_step capacity s (s\<lparr>t_prod := P_Loaded x (r_tail (t_ring s))\<rparr>)"
| p_full: "t_prod s = P_Loaded x w \<Longrightarrow> w - r_head (t_ring s) = capacity
    \<Longrightarrow> ring_step capacity s (s\<lparr>t_prod := P_Idle\<rparr>)"
| p_claim: "t_prod s = P_Loaded x w \<Longrightarrow> w - r_head (t_ring s) \<noteq> capacity
    \<Longrightarrow> ring_step capacity s (s\<lparr>t_prod := P_Fill x w\<rparr>)"
| p_fill: "t_prod s = P_Fill x w
    \<Longrightarrow> ring_step capacity s (s\<lparr>t_prod := P_Publish x,
      t_ring := slot_put (w AND (capacity - 1)) x (t_ring s)\<rparr>)"
| p_publish: "t_prod s = P_Publish x
    \<Longrightarrow> ring_step capacity s (s\<lparr>t_prod := P_Idle, t_ring := publish (t_ring s), t_sent := t_sent s @ [x]\<rparr>)"
| c_load_head: "t_cons s = C_Idle
    \<Longrightarrow> ring_step capacity s (s\<lparr>t_cons := C_Loaded (r_head (t_ring s))\<rparr>)"
| c_empty: "t_cons s = C_Loaded r \<Longrightarrow> r_tail (t_ring s) = r
    \<Longrightarrow> ring_step capacity s (s\<lparr>t_cons := C_Idle\<rparr>)"
| c_nonempty: "t_cons s = C_Loaded r \<Longrightarrow> r_tail (t_ring s) \<noteq> r
    \<Longrightarrow> ring_step capacity s (s\<lparr>t_cons := C_Copy r\<rparr>)"
| c_copy: "t_cons s = C_Copy r
    \<Longrightarrow> ring_step capacity s (s\<lparr>t_cons := C_Release r (r_slots (t_ring s) (r AND (capacity - 1)))\<rparr>)"
| c_release: "t_cons s = C_Release r x
    \<Longrightarrow> ring_step capacity s (s\<lparr>t_cons := C_Idle, t_ring := (t_ring s)\<lparr>r_head := r + 1\<rparr>,
      t_recv := t_recv s @ [x]\<rparr>)"

inductive ring_reachable :: "u32 \<Rightarrow> (u32 \<Rightarrow> 'a) \<Rightarrow> 'a threads \<Rightarrow> bool" for capacity slots where
  init: "ring_reachable capacity slots
    \<lparr>t_ring = ring_new slots, t_prod = P_Idle, t_cons = C_Idle, t_sent = [], t_recv = []\<rparr>"
| step: "ring_reachable capacity slots s \<Longrightarrow> ring_step capacity s s'
    \<Longrightarrow> ring_reachable capacity slots s'"

definition producer_ok :: "nat \<Rightarrow> 'a ring \<Rightarrow> 'a producer \<Rightarrow> bool" where
  "producer_ok k r p = (case p of
     P_Idle \<Rightarrow> True
   | P_Loaded x w \<Rightarrow> w = r_tail r
   | P_Fill x w \<Rightarrow> w = r_tail r \<and> unat (r_tail r - r_head r) < 2 ^ k
   | P_Publish x \<Rightarrow> unat (r_tail r - r_head r) < 2 ^ k \<and> r_slots r (r_tail r AND mask k) = x)"

definition consumer_ok :: "nat \<Rightarrow> 'a ring \<Rightarrow> 'a consumer \<Rightarrow> bool" where
  "consumer_ok k r c = (case c of
     C_Idle \<Rightarrow> True
   | C_Loaded h \<Rightarrow> h = r_head r
   | C_Copy h \<Rightarrow> h = r_head r \<and> r_tail r \<noteq> r_head r
   | C_Release h x \<Rightarrow> h = r_head r \<and> r_tail r \<noteq> r_head r \<and> x = r_slots r (r_head r AND mask k))"

definition threads_ok :: "nat \<Rightarrow> 'a threads \<Rightarrow> bool" where
  "threads_ok k s \<longleftrightarrow> ring_inv k (t_ring s) \<and> producer_ok k (t_ring s) (t_prod s)
     \<and> consumer_ok k (t_ring s) (t_cons s) \<and> t_sent s = t_recv s @ ring_content k (t_ring s)"

lemma full_iff:
  assumes "k < 32"
  shows "r_tail r - r_head r = 2 ^ k \<longleftrightarrow> unat (r_tail r - r_head r) = 2 ^ k"
  using unat_capacity [OF assms] by (simp add: word_unat_eq_iff)

text \<open>The slot at \<open>tail\<close> is not among the live ones while there is room.\<close>

lemma tail_slot_free:
  assumes "k < 32" "unat (r_tail r - r_head r) < 2 ^ k" "j < unat (r_tail r - r_head r)"
  shows "(r_head r + word_of_nat j) AND mask k \<noteq> r_tail r AND mask k"
  using masked_distinct [of k j "unat (r_tail r - r_head r)" "r_head r"] assms by simp

lemma head_slot:
  assumes "k < 32" "unat (r_tail r - r_head r) < 2 ^ k" "r_tail r \<noteq> r_head r"
  shows "r_head r AND mask k \<noteq> r_tail r AND mask k"
proof -
  have "0 < unat (r_tail r - r_head r)" using assms(3) by (simp add: unat_gt_0)
  from tail_slot_free [OF assms(1,2) this] show ?thesis by simp
qed

lemma fill_content:
  assumes "k < 32" "unat (r_tail r - r_head r) < 2 ^ k"
  shows "ring_content k (slot_put (r_tail r AND mask k) x r) = ring_content k r"
  using tail_slot_free [OF assms] by (simp add: ring_content_def slot_put_def)

lemma publish_content:
  assumes k: "k < 32" and room: "unat (r_tail r - r_head r) < 2 ^ k"
  shows "ring_content k (publish r) = ring_content k r @ [r_slots r (r_tail r AND mask k)]"
    and "ring_inv k (publish r)" and "r_tail (publish r) \<noteq> r_head (publish r)"
proof -
  have "(2 ^ k :: nat) < 2 ^ 32" using k by (intro power_strict_increasing) simp_all
  then have "unat (r_tail r - r_head r + 1) = unat (r_tail r - r_head r) + 1"
    using room by (intro unat_Suc_no_wrap) linarith
  then have n: "unat (r_tail (publish r) - r_head (publish r)) = Suc (unat (r_tail r - r_head r))"
    by (simp add: publish_def algebra_simps)
  show "ring_content k (publish r) = ring_content k r @ [r_slots r (r_tail r AND mask k)]"
    unfolding ring_content_def n by (simp add: publish_def)
  show "ring_inv k (publish r)" unfolding ring_inv_def n using room by simp
  show "r_tail (publish r) \<noteq> r_head (publish r)" using n by auto
qed

lemma release_content:
  assumes k: "k < 32" and inv: "ring_inv k r" and ne: "r_tail r \<noteq> r_head r"
  defines "r' \<equiv> r\<lparr>r_head := r_head r + 1\<rparr>"
  shows "ring_content k r = r_slots r (r_head r AND mask k) # ring_content k r'"
    and "ring_inv k r'" and "unat (r_tail r' - r_head r') < unat (r_tail r - r_head r)"
proof -
  obtain x xs where c: "ring_content k r = x # xs"
    using ne by (cases "ring_content k r") (auto simp: ring_content_def unat_eq_0)
  obtain r2 where p: "try_pop (2 ^ k) r = (Some x, r2)" "ring_inv k r2" "ring_content k r2 = xs"
    using ring_pop_some [OF k inv c] by blast
  have "r2 = r'" "x = r_slots r (r_head r AND mask k)"
    using p(1) ne by (auto simp: try_pop_def Let_def capacity_mask r'_def)
  with p c show "ring_content k r = r_slots r (r_head r AND mask k) # ring_content k r'" "ring_inv k r'"
    by simp_all
  then show "unat (r_tail r' - r_head r') < unat (r_tail r - r_head r)"
    using length_ring_content [of k r] length_ring_content [of k r'] by simp
qed

lemma step_ok:
  assumes k: "k < 32" and step: "ring_step (2 ^ k) s s'" and ok: "threads_ok k s"
  shows "threads_ok k s'"
  using step
proof cases
  case (p_claim x w)
  then show ?thesis using ok full_iff [OF k, of "t_ring s"]
    by (auto simp: threads_ok_def producer_ok_def ring_inv_def le_neq_implies_less)
next
  case (p_fill x w)
  then have w: "w = r_tail (t_ring s)" "unat (r_tail (t_ring s) - r_head (t_ring s)) < 2 ^ k"
    using ok by (auto simp: threads_ok_def producer_ok_def)
  then show ?thesis using ok p_fill fill_content [OF k w(2), of x] head_slot [OF k w(2)]
    by (auto simp: threads_ok_def producer_ok_def consumer_ok_def capacity_mask slot_put_def ring_inv_def
        split: consumer.splits)
next
  case (p_publish x)
  then have w: "unat (r_tail (t_ring s) - r_head (t_ring s)) < 2 ^ k"
    and x: "r_slots (t_ring s) (r_tail (t_ring s) AND mask k) = x"
    using ok by (auto simp: threads_ok_def producer_ok_def)
  have h: "r_head (publish (t_ring s)) = r_head (t_ring s)" "r_slots (publish (t_ring s)) = r_slots (t_ring s)"
    by (simp_all add: publish_def)
  show ?thesis using ok p_publish x publish_content [OF k w] h
    by (auto simp: threads_ok_def producer_ok_def consumer_ok_def split: consumer.splits)
next
  case (c_release r x)
  then have r: "r = r_head (t_ring s)" "r_tail (t_ring s) \<noteq> r_head (t_ring s)"
    "x = r_slots (t_ring s) (r_head (t_ring s) AND mask k)" and inv: "ring_inv k (t_ring s)"
    using ok by (auto simp: threads_ok_def consumer_ok_def)
  show ?thesis using ok c_release r release_content [OF k inv r(2)]
    by (auto simp: threads_ok_def producer_ok_def consumer_ok_def split: producer.splits)
next
  case (p_load_tail x)
  then show ?thesis using ok by (simp add: threads_ok_def producer_ok_def)
next
  case (p_full x w)
  then show ?thesis using ok by (simp add: threads_ok_def producer_ok_def)
next
  case c_load_head
  then show ?thesis using ok by (simp add: threads_ok_def consumer_ok_def)
next
  case (c_empty r)
  then show ?thesis using ok by (simp add: threads_ok_def consumer_ok_def)
next
  case (c_nonempty r)
  then show ?thesis using ok by (simp add: threads_ok_def consumer_ok_def)
next
  case (c_copy r)
  then show ?thesis using ok by (simp add: threads_ok_def consumer_ok_def capacity_mask)
qed

lemma reachable_ok:
  assumes "ring_reachable (2 ^ k) slots s" and k: "k < 32"
  shows "threads_ok k s"
  using assms(1)
proof induction
  case init
  show ?case by (simp add: threads_ok_def producer_ok_def consumer_ok_def ring_new_inv)
next
  case (step s s')
  then show ?case by (metis step_ok k)
qed

lemma no_slot_race:
  assumes "threads_ok k s" "k < 32" and "t_prod s = P_Fill x w" "t_cons s = C_Copy r"
  shows "w AND mask k \<noteq> r AND mask k"
  using assms head_slot [of k "t_ring s"] by (auto simp: threads_ok_def producer_ok_def consumer_ok_def)

end
