(* ===== verification/Seqlock.thy ===== *)
theory Seqlock
  imports Prelude
begin

text \<open>
  \<open>Seqlock<T>\<close> of \<open>src/common/seqlock.hpp\<close>: one writer, any number of readers, none of which
  blocks.  The value is the list of its words and \<open>memcpy\<close> moves one word at a time, so a
  reader may see a mixture of two stores; the sequence number tells it so.  First the two
  operations as whole steps, then the interleaving of a writer with a reader, one step per
  access.  A successful load returns a value that was stored whole and was current when the
  load began, as long as fewer than \<open>2 ^ 63\<close> stores are made (the 64-bit sequence number
  then does not wrap).
\<close>

section \<open>The class\<close>

record 'w seqlock =
  q_seq :: u64
  q_data :: "'w list"

definition seq_store :: "'w list \<Rightarrow> 'w seqlock \<Rightarrow> 'w seqlock" where
  "seq_store v q = (let s = q_seq q; q = q\<lparr>q_seq := s + 1\<rparr>; q = q\<lparr>q_data := v\<rparr> in q\<lparr>q_seq := s + 2\<rparr>)"

definition seq_try_load :: "'w seqlock \<Rightarrow> 'w list option" where
  "seq_try_load q = (let pre = q_seq q in
     if pre AND 1 \<noteq> 0 then None
     else let out = q_data q in if pre = q_seq q then Some out else None)"

section \<open>A writer and a reader\<close>

datatype 'w writer =
    W_Idle
  | W_Copy u64 "'w list" nat   \<comment> \<open>the \<open>s\<close> loaded, the new value, words copied so far\<close>

datatype 'w reader =
    R_Idle
  | R_Copy u64 "'w list"       \<comment> \<open>\<open>pre\<close>, the words copied so far\<close>
  | R_Done u64 "'w list"       \<comment> \<open>a load that returned true\<close>

record 'w seq_state =
  sq_lock :: "'w seqlock"
  sq_writer :: "'w writer"
  sq_reader :: "'w reader"
  sq_hist :: "'w list list"    \<comment> \<open>the values stored so far, the initial one first\<close>

inductive seq_step :: "nat \<Rightarrow> 'w seq_state \<Rightarrow> 'w seq_state \<Rightarrow> bool" for words where
  w_begin: "sq_writer s = W_Idle \<Longrightarrow> length v = words \<Longrightarrow> n = q_seq (sq_lock s)
    \<Longrightarrow> seq_step words s (s\<lparr>sq_writer := W_Copy n v 0, sq_lock := (sq_lock s)\<lparr>q_seq := n + 1\<rparr>\<rparr>)"
| w_copy: "sq_writer s = W_Copy n v i \<Longrightarrow> i < words
    \<Longrightarrow> seq_step words s (s\<lparr>sq_writer := W_Copy n v (i + 1),
      sq_lock := (sq_lock s)\<lparr>q_data := (q_data (sq_lock s))[i := v ! i]\<rparr>\<rparr>)"
| w_end: "sq_writer s = W_Copy n v words
    \<Longrightarrow> seq_step words s (s\<lparr>sq_writer := W_Idle, sq_lock := (sq_lock s)\<lparr>q_seq := n + 2\<rparr>,
      sq_hist := sq_hist s @ [v]\<rparr>)"
| r_odd: "sq_reader s = R_Idle \<or> (\<exists>p v. sq_reader s = R_Done p v) \<Longrightarrow> q_seq (sq_lock s) AND 1 \<noteq> 0
    \<Longrightarrow> seq_step words s (s\<lparr>sq_reader := R_Idle\<rparr>)"
| r_begin: "sq_reader s = R_Idle \<or> (\<exists>p v. sq_reader s = R_Done p v) \<Longrightarrow> q_seq (sq_lock s) AND 1 = 0
    \<Longrightarrow> seq_step words s (s\<lparr>sq_reader := R_Copy (q_seq (sq_lock s)) []\<rparr>)"
| r_copy: "sq_reader s = R_Copy pre out \<Longrightarrow> length out < words
    \<Longrightarrow> seq_step words s (s\<lparr>sq_reader := R_Copy pre (out @ [q_data (sq_lock s) ! length out])\<rparr>)"
| r_torn: "sq_reader s = R_Copy pre out \<Longrightarrow> length out = words \<Longrightarrow> pre \<noteq> q_seq (sq_lock s)
    \<Longrightarrow> seq_step words s (s\<lparr>sq_reader := R_Idle\<rparr>)"
| r_done: "sq_reader s = R_Copy pre out \<Longrightarrow> length out = words \<Longrightarrow> pre = q_seq (sq_lock s)
    \<Longrightarrow> seq_step words s (s\<lparr>sq_reader := R_Done pre out\<rparr>)"

inductive seq_reachable :: "nat \<Rightarrow> 'w list \<Rightarrow> 'w seq_state \<Rightarrow> bool" for words v0 where
  init: "length v0 = words \<Longrightarrow> seq_reachable words v0
    \<lparr>sq_lock = \<lparr>q_seq = 0, q_data = v0\<rparr>, sq_writer = W_Idle, sq_reader = R_Idle, sq_hist = [v0]\<rparr>"
| step: "seq_reachable words v0 s \<Longrightarrow> seq_step words s s' \<Longrightarrow> seq_reachable words v0 s'"

section \<open>The invariant\<close>

text \<open>The stores made, counting one half for a store under way: \<open>q_seq\<close> modulo \<open>2 ^ 64\<close>.\<close>

definition seq_no :: "'w seq_state \<Rightarrow> nat" where
  "seq_no s = 2 * (length (sq_hist s) - 1) + (case sq_writer s of W_Idle \<Rightarrow> 0 | W_Copy _ _ _ \<Rightarrow> 1)"

definition writer_ok :: "nat \<Rightarrow> 'w seq_state \<Rightarrow> bool" where
  "writer_ok words s \<longleftrightarrow> sq_hist s \<noteq> [] \<and> q_seq (sq_lock s) = word_of_nat (seq_no s)
     \<and> length (last (sq_hist s)) = words \<and> length (q_data (sq_lock s)) = words
     \<and> (case sq_writer s of
          W_Idle \<Rightarrow> q_data (sq_lock s) = last (sq_hist s)
        | W_Copy n v i \<Rightarrow> n + 1 = word_of_nat (seq_no s) \<and> length v = words \<and> i \<le> words
            \<and> q_data (sq_lock s) = take i v @ drop i (last (sq_hist s)))"

text \<open>
  A load that began at store \<open>j\<close> holds words of it as long as the sequence number still
  says \<open>j\<close>, and else it will be refused.
\<close>

definition reader_ok :: "'w seq_state \<Rightarrow> bool" where
  "reader_ok s \<longleftrightarrow> (case sq_reader s of
     R_Idle \<Rightarrow> True
   | R_Copy pre out \<Rightarrow> \<exists>j < length (sq_hist s). pre = word_of_nat (2 * j)
       \<and> (seq_no s = 2 * j \<longrightarrow> out = take (length out) (sq_hist s ! j))
   | R_Done pre out \<Rightarrow> \<exists>j < length (sq_hist s). pre = word_of_nat (2 * j) \<and> out = sq_hist s ! j)"

definition seq_ok :: "nat \<Rightarrow> 'w seq_state \<Rightarrow> bool" where
  "seq_ok words s \<longleftrightarrow> writer_ok words s \<and> reader_ok s"

lemma seq_no_bounds: "sq_hist s \<noteq> [] \<Longrightarrow> seq_no s div 2 = length (sq_hist s) - 1"
  by (simp add: seq_no_def split: writer.splits)

lemma seq_no_less: "length (sq_hist s) < 2 ^ 63 \<Longrightarrow> seq_no s < 2 ^ 64"
  by (cases "length (sq_hist s)") (auto simp: seq_no_def split: writer.splits)

lemma seq_eq_iff:
  assumes "writer_ok words s" "length (sq_hist s) < 2 ^ 63" "j < length (sq_hist s)"
  shows "word_of_nat (2 * j) = q_seq (sq_lock s) \<longleftrightarrow> seq_no s = 2 * j"
proof -
  have "unat (word_of_nat (2 * j) :: u64) = 2 * j" using assms(2,3) by (intro unat_of_nat_u64) simp
  moreover have "unat (q_seq (sq_lock s)) = seq_no s"
    using assms(1,2) seq_no_less [of s] by (simp add: writer_ok_def unat_of_nat_u64)
  ultimately show ?thesis by (auto simp: word_unat_eq_iff)
qed

lemma word_odd_iff: "(w :: u64) AND 1 = 0 \<longleftrightarrow> even (unat w)"
  by (simp add: and_one_eq even_iff_mod_2_eq_zero word_unat_eq_iff unat_mod)

lemma seq_even_idle:
  assumes ok: "writer_ok words s" and bound: "length (sq_hist s) < 2 ^ 63"
  shows "q_seq (sq_lock s) AND 1 = 0 \<longleftrightarrow> sq_writer s = W_Idle"
proof -
  have "unat (q_seq (sq_lock s)) = seq_no s"
    using ok bound seq_no_less [of s] by (simp add: writer_ok_def unat_of_nat_u64)
  then show ?thesis unfolding word_odd_iff by (simp add: seq_no_def split: writer.splits)
qed

lemma seq_no_reader [simp]: "seq_no (s\<lparr>sq_reader := r\<rparr>) = seq_no s"
  by (simp add: seq_no_def)

lemma writer_ok_reader [simp]: "writer_ok words (s\<lparr>sq_reader := r\<rparr>) = writer_ok words s"
  by (simp add: writer_ok_def split: writer.splits)

lemma writer_step:
  assumes "seq_step words s s'" and "writer_ok words s"
  shows "writer_ok words s'"
  using assms
proof cases
  case (w_copy n v i)
  with assms(2) have "(q_data (sq_lock s))[i := v ! i] = take (Suc i) v @ drop (Suc i) (last (sq_hist s))"
    by (simp add: writer_ok_def list_update_append take_Suc_conv_app_nth Cons_nth_drop_Suc [symmetric])
  with w_copy assms(2) show ?thesis by (simp add: writer_ok_def seq_no_def)
next
  case (w_end n v)
  with assms(2) show ?thesis
    by (cases "sq_hist s") (auto simp: writer_ok_def seq_no_def algebra_simps)
next
  case (w_begin v n)
  with assms(2) show ?thesis by (simp add: writer_ok_def seq_no_def algebra_simps)
qed (use assms(2) in simp_all)

lemma reader_step:
  assumes step: "seq_step words s s'" and w: "writer_ok words s" and r: "reader_ok s"
    and bound: "length (sq_hist s) < 2 ^ 63"
  shows "reader_ok s'"
  using step
proof cases
  case (w_begin v n)
  have "seq_no s' \<noteq> 2 * j" for j using w_begin by (simp add: seq_no_def) presburger
  with w_begin r show ?thesis by (auto simp: reader_ok_def split: reader.splits)
next
  case (w_copy n v i)
  then have "seq_no s' = seq_no s" by (simp add: seq_no_def)
  with w_copy r show ?thesis by (auto simp: reader_ok_def split: reader.splits)
next
  case (w_end n v)
  have ne: "sq_hist s \<noteq> []" using w by (simp add: writer_ok_def)
  have "seq_no s' \<noteq> 2 * j" if "j < length (sq_hist s)" for j
    using w_end that by (simp add: seq_no_def)
  moreover have "(sq_hist s @ [v]) ! j = sq_hist s ! j" if "j < length (sq_hist s)" for j
    using that by (simp add: nth_append)
  ultimately show ?thesis using w_end(1) r unfolding reader_ok_def
    by (auto split: reader.splits) (metis less_SucI)+
next
  case r_begin
  then have idle: "sq_writer s = W_Idle" using seq_even_idle [OF w bound] by simp
  have "sq_hist s \<noteq> []" and "q_seq (sq_lock s) = word_of_nat (seq_no s)" using w by (simp_all add: writer_ok_def)
  with idle r_begin show ?thesis
    by (auto simp: reader_ok_def seq_no_def intro!: exI [of _ "length (sq_hist s) - 1"])
next
  case (r_copy pre out)
  with r obtain j where j: "j < length (sq_hist s)" "pre = word_of_nat (2 * j)"
    "seq_no s = 2 * j \<longrightarrow> out = take (length out) (sq_hist s ! j)" by (auto simp: reader_ok_def)
  have "out @ [q_data (sq_lock s) ! length out] = take (Suc (length out)) (sq_hist s ! j)" if n: "seq_no s = 2 * j"
  proof -
    have idle: "sq_writer s = W_Idle" using n by (auto simp: seq_no_def split: writer.splits) presburger
    then have "j = length (sq_hist s) - 1" using n by (simp add: seq_no_def)
    with idle w j(1) have d: "q_data (sq_lock s) = sq_hist s ! j" "length (sq_hist s ! j) = words"
      by (auto simp: writer_ok_def last_conv_nth)
    then show ?thesis using j(3) n r_copy by (simp add: take_Suc_conv_app_nth)
  qed
  moreover have "seq_no s' = seq_no s" using r_copy by (simp add: seq_no_def)
  ultimately show ?thesis using r_copy j by (auto simp: reader_ok_def)
next
  case (r_done pre out)
  with r obtain j where j: "j < length (sq_hist s)" "pre = word_of_nat (2 * j)"
    "seq_no s = 2 * j \<longrightarrow> out = take (length out) (sq_hist s ! j)" by (auto simp: reader_ok_def)
  have n: "seq_no s = 2 * j" using seq_eq_iff [OF w bound j(1)] r_done j(2) by simp
  then have "sq_writer s = W_Idle" by (auto simp: seq_no_def split: writer.splits) presburger
  moreover from this have "j = length (sq_hist s) - 1" using n by (simp add: seq_no_def)
  ultimately have "length (sq_hist s ! j) = words" using w j(1) by (auto simp: writer_ok_def last_conv_nth)
  then show ?thesis using n j r_done by (auto simp: reader_ok_def)
qed (auto simp: reader_ok_def)

lemma hist_mono: "seq_step words s s' \<Longrightarrow> length (sq_hist s) \<le> length (sq_hist s')"
  by (cases rule: seq_step.cases) auto

lemma seq_reachable_ok:
  assumes "seq_reachable words v0 s" and "length (sq_hist s) < 2 ^ 63"
  shows "seq_ok words s"
  using assms
proof induction
  case init
  then show ?case by (simp add: seq_ok_def writer_ok_def reader_ok_def seq_no_def)
next
  case (step s s')
  have "length (sq_hist s) < 2 ^ 63" using step.prems hist_mono [OF step.hyps(2)] by linarith
  with step show ?case unfolding seq_ok_def using writer_step reader_step by blast
qed

end
