(* ===== verification/Core_Properties.thy ===== *)
theory Core_Properties
  imports Core_Main Book_Ticks Spsc_Threads Seqlock
begin

text \<open>
  The properties of core: the feed and its books against the specification of
  \<open>Primary_Feed\<close>, what is published to exec, and the containers underneath.  Each is
  followed by a witness that applies it to a concrete input.
\<close>

section \<open>Sample input\<close>

definition TQQQ :: "u8 list" where
  "TQQQ = [84, 81, 81, 81, 32, 32, 32, 32]"

definition sample_event :: "u8 \<Rightarrow> u64 \<Rightarrow> side \<Rightarrow> u32 \<Rightarrow> u32 \<Rightarrow> u64 \<Rightarrow> event" where
  "sample_event mt ref sd shares price new_ref = \<lparr>message_type = mt, stock_locate = 7, tracking_number = 0,
     timestamp = 1, order_ref_number = ref, ev_side = sd, ev_shares = shares, stock = TQQQ, ev_price = price,
     match_number = 0, new_order_ref_number = new_ref, ev_tsc_in = 0\<rparr>"

text \<open>Two bids in one level and an ask; a partial and a full execution; a replace; a delete.\<close>

definition sample_feed :: "event list" where
  "sample_feed =
    [sample_event 65 1 Buy 100 500000 0, sample_event 65 2 Buy 50 500000 0, sample_event 70 3 Sell 70 500300 0,
     sample_event 69 1 Buy 40 0 0, sample_event 69 2 Buy 50 0 0, sample_event 85 1 Buy 30 499900 9,
     sample_event 68 3 Sell 0 0 0]"

lemma sample_legal: "legal_feed TQQQ sample_feed Map.empty"
  by (simp add: sample_feed_def sample_event_def legal_event_def legal_book_def spec_feed_def spec_book_def
      is_add_def in_window_def first_base_def spec_add_def spec_take_def spec_replace_def Let_def)

section \<open>The feed\<close>

text \<open>
  C1.  Every legal ITCH event stream is applied without getting stuck, and the books it leaves
  are the abstract ones: for each stock locate, the price window fixed by the first add and
  the map of live orders computed by the specification's add, take, delete and replace.  The
  level totals, the occupancy bitmaps and the best prices then agree with those orders.
\<close>

theorem feed_refines_spec:
  assumes "legal_feed symbol evs Map.empty"
  shows "\<exists>f. feed_run evs (feed_new symbol) = Some f \<and> feed_inv f
    \<and> abs_books f = fold (spec_feed symbol) evs Map.empty"
  using feed_run_sound [OF feed_new_inv(1)] assms by (simp add: feed_new_inv)

lemma feed_refines_spec_witness:
  "\<exists>f. feed_run sample_feed (feed_new TQQQ) = Some f \<and> feed_inv f
    \<and> abs_books f = [7 \<mapsto> (0, [9 \<mapsto> \<lparr>oe_price = 499900, oe_shares = 30, oe_side = Buy\<rparr>])]"
  using feed_refines_spec [OF sample_legal]
  by (simp add: sample_feed_def sample_event_def spec_feed_def spec_book_def is_add_def in_window_def
      first_base_def spec_add_def spec_take_def spec_replace_def spec_delete_def Let_def fun_upd_twist)

text \<open>The book of a locate after a legal run.\<close>

lemma run_book:
  assumes "legal_feed symbol evs Map.empty" "feed_run evs (feed_new symbol) = Some f"
    and "ba_get loc (fd_engine f) = Some b"
  shows "book_inv b" "top_inv b" "tick_ok (live_orders b)"
    and "bases b (la_base (ob_bids b))"
proof -
  have "feed_inv f" using feed_run_sound [OF feed_new_inv(1), of symbol evs] assms(1,2) by (auto simp: feed_new_inv)
  then have "book_rel b (la_base (ob_bids b), live_orders b)"
    using assms(3) by (simp add: feed_inv_def ba_get_def)
  then show "book_inv b" "top_inv b" "tick_ok (live_orders b)" "bases b (la_base (ob_bids b))"
    by (simp_all add: book_rel_def)
qed

lemma is_top_Max: "finite P \<Longrightarrow> is_top Buy P t \<Longrightarrow> t = (if P = {} then 0 else Max P)"
  by (cases "P = {}") (auto simp: is_top_def no_top_def better_def not_less intro!: Max_eqI [symmetric])

lemma is_top_Min: "finite P \<Longrightarrow> is_top Sell P t \<Longrightarrow> t = (if P = {} then UINT32_MAX else Min P)"
  by (cases "P = {}") (auto simp: is_top_def no_top_def better_def not_less intro!: Min_eqI [symmetric])

text \<open>
  C2.  At any point of a legal stream the cached top of book is exact: the best bid is the
  highest live bid price and the best ask the lowest live ask price, with the sentinels 0 and
  \<open>UINT32_MAX\<close> on an empty side.
\<close>

theorem best_prices_exact:
  assumes "legal_feed symbol evs Map.empty" and "feed_run evs (feed_new symbol) = Some f"
    and "ba_get loc (fd_engine f) = Some b"
  defines "bids \<equiv> side_prices Buy (live_orders b)" and "asks \<equiv> side_prices Sell (live_orders b)"
  shows "best_bid b = (if bids = {} then 0 else Max bids)
    \<and> best_ask b = (if asks = {} then UINT32_MAX else Min asks)"
proof -
  have top: "is_top sd (side_prices sd (live_orders b)) (top_of sd b)" for sd
    using run_book(2) [OF assms(1-3)] by (simp add: top_inv_def)
  have fin: "finite (side_prices sd (live_orders b))" for sd
    using live_finite by (rule side_prices_finite)
  show ?thesis
    using is_top_Max [OF fin top [of Buy]] is_top_Min [OF fin top [of Sell]]
    by (simp add: top_of_def bids_def asks_def)
qed

text \<open>The sample feed's book.\<close>

lemma sample_run:
  obtains f b where "feed_run sample_feed (feed_new TQQQ) = Some f" "ba_get 7 (fd_engine f) = Some b"
    "la_base (ob_bids b) = 0"
    "live_orders b = [9 \<mapsto> \<lparr>oe_price = 499900, oe_shares = 30, oe_side = Buy\<rparr>]"
proof -
  obtain f where f: "feed_run sample_feed (feed_new TQQQ) = Some f"
    "abs_books f = fold (spec_feed TQQQ) sample_feed Map.empty"
    using feed_run_sound [OF feed_new_inv(1), of TQQQ sample_feed] sample_legal by (auto simp: feed_new_inv)
  have "fold (spec_feed TQQQ) sample_feed Map.empty
    = [7 \<mapsto> (0, [9 \<mapsto> \<lparr>oe_price = 499900, oe_shares = 30, oe_side = Buy\<rparr>])]"
    by (simp add: sample_feed_def sample_event_def spec_feed_def spec_book_def is_add_def in_window_def
      first_base_def spec_add_def spec_take_def spec_replace_def spec_delete_def Let_def fun_upd_twist)
  with f(2) have "abs_books f 7 = Some (0, [9 \<mapsto> \<lparr>oe_price = 499900, oe_shares = 30, oe_side = Buy\<rparr>])"
    by simp
  then show thesis using that f(1) by (auto simp: abs_books_def ba_get_def)
qed

lemma sample_prices:
  "side_prices Buy [9 \<mapsto> \<lparr>oe_price = 499900, oe_shares = 30, oe_side = Buy\<rparr>] = {499900}"
  "side_prices Sell [9 \<mapsto> \<lparr>oe_price = 499900, oe_shares = 30, oe_side = Buy\<rparr>] = {}"
  by (auto simp: side_prices_def)

lemma best_prices_exact_witness:
  "\<exists>f b. feed_run sample_feed (feed_new TQQQ) = Some f \<and> ba_get 7 (fd_engine f) = Some b
    \<and> best_bid b = 499900 \<and> best_ask b = UINT32_MAX"
proof -
  obtain f b where fb: "feed_run sample_feed (feed_new TQQQ) = Some f" "ba_get 7 (fd_engine f) = Some b"
    "live_orders b = [9 \<mapsto> \<lparr>oe_price = 499900, oe_shares = 30, oe_side = Buy\<rparr>]"
    using sample_run by metis
  show ?thesis
    using best_prices_exact [OF sample_legal fb(1,2)] fb by (simp add: sample_prices)
qed

text \<open>
  C3.  At any point of a legal stream, the quantity the book reports at a price of the grid is
  the sum of the shares of the live orders there, and the level's order count is their number
  (as 32-bit counters, without an assumption on overflow).
\<close>

theorem level_totals_exact:
  assumes "legal_feed symbol evs Map.empty" and "feed_run evs (feed_new symbol) = Some f"
    and "ba_get loc (fd_engine f) = Some b" and "in_window (la_base (ob_bids b)) p" and "unat p mod 100 = 0"
  defines "R sd \<equiv> {r. \<exists>e. live_orders b r = Some e \<and> oe_side e = sd \<and> oe_price e = p}"
  shows "qty_at_bid b p = (\<Sum>r\<in>R Buy. oe_shares (the (live_orders b r)))
    \<and> qty_at_ask b p = (\<Sum>r\<in>R Sell. oe_shares (the (live_orders b r)))
    \<and> lv_order_count (level_at (ob_bids b) p) = of_nat (card (R Buy))
    \<and> lv_order_count (level_at (ob_asks b) p) = of_nat (card (R Sell))"
proof -
  note rb = run_book [OF assms(1-3)]
  have level: "la_at (levels_of sd b) p = level_total (live_orders b) (R sd)" for sd
  proof -
    note inv = book_invD(4) [OF rb(1), of sd]
    have base: "la_base (levels_of sd b) = la_base (ob_bids b)" using rb(4) by (simp add: bases_def)
    then have p: "in_range (levels_of sd b) p"
      using assms(4) side_invD(1) [OF inv] by (simp add: in_range_iff in_window_def)
    have "level_no (levels_of sd b) (oe_price e) = level_no (levels_of sd b) p \<longleftrightarrow> oe_price e = p"
      if "live_orders b r = Some e" "oe_side e = sd" for r e
      using level_price_level_no [OF side_invD(1) [OF inv] side_invD(2) [OF inv that]] rb(3) that
        level_price_level_no [OF side_invD(1) [OF inv] p assms(5)]
      by (metis tick_ok_def)
    then have "at_level (levels_of sd b) sd (live_orders b) (level_no (levels_of sd b) p) = R sd"
      unfolding at_level_def R_def by blast
    with side_inv_at [OF inv p] show ?thesis by simp
  qed
  show ?thesis using level [of Buy] level [of Sell]
    by (simp add: qty_at_bid_def qty_at_ask_def level_at_def levels_of_def level_total_def)
qed

lemma level_totals_exact_witness:
  "\<exists>f b. feed_run sample_feed (feed_new TQQQ) = Some f \<and> ba_get 7 (fd_engine f) = Some b
    \<and> qty_at_bid b 499900 = 30 \<and> qty_at_ask b 499900 = 0"
proof -
  obtain f b where fb: "feed_run sample_feed (feed_new TQQQ) = Some f" "ba_get 7 (fd_engine f) = Some b"
    "la_base (ob_bids b) = 0" "live_orders b = [9 \<mapsto> \<lparr>oe_price = 499900, oe_shares = 30, oe_side = Buy\<rparr>]"
    using sample_run by metis
  have R: "{r. \<exists>e. live_orders b r = Some e \<and> oe_side e = Buy \<and> oe_price e = 499900} = {9}"
    "{r. \<exists>e. live_orders b r = Some e \<and> oe_side e = Sell \<and> oe_price e = 499900} = {}"
    by (auto simp: fb(4) split: if_splits)
  have w: "in_window (la_base (ob_bids b)) 499900" "unat (499900 :: u32) mod 100 = 0"
    by (simp_all add: fb(3) in_window_def)
  show ?thesis
    using level_totals_exact [OF sample_legal fb(1,2) w] fb(1,2) unfolding R by (simp add: fb(4))
qed

text \<open>
  The depth walks return the best levels in order: \<open>top_bids\<close> the highest live bid prices
  first, \<open>top_asks\<close> the lowest live ask prices first, as many as there are up to the limit,
  each with its totals; the occupancy bitmap skips no level and invents none.
\<close>

theorem depth_walks_exact:
  assumes "legal_feed symbol evs Map.empty" and "feed_run evs (feed_new symbol) = Some f"
    and "ba_get loc (fd_engine f) = Some b"
  shows "top_bids b n = map (level_at (ob_bids b))
      (take n (rev (sorted_list_of_set (side_prices Buy (live_orders b) - {0}))))
    \<and> top_asks b n = map (level_at (ob_asks b))
      (take n (sorted_list_of_set (side_prices Sell (live_orders b) - {UINT32_MAX})))"
  using top_levels_sound [OF run_book(1-3) [OF assms]] by blast

lemma depth_walks_exact_witness:
  "\<exists>f b. feed_run sample_feed (feed_new TQQQ) = Some f \<and> ba_get 7 (fd_engine f) = Some b
    \<and> map lv_price (top_bids b 10) = [499900] \<and> top_asks b 10 = []"
proof -
  obtain f b where fb: "feed_run sample_feed (feed_new TQQQ) = Some f" "ba_get 7 (fd_engine f) = Some b"
    "live_orders b = [9 \<mapsto> \<lparr>oe_price = 499900, oe_shares = 30, oe_side = Buy\<rparr>]"
    using sample_run by metis
  show ?thesis
    using depth_walks_exact [OF sample_legal fb(1,2), of 10] fb by (simp add: sample_prices level_at_def)
qed

section \<open>Single handlers\<close>

text \<open>A book with one order, for the witnesses.\<close>

lemma one_order_book:
  obtains b where "book_inv b" "top_inv b" "tick_ok (live_orders b)"
    "live_orders b = [1 \<mapsto> \<lparr>oe_price = 500000, oe_shares = 100, oe_side = Buy\<rparr>]" "bases b 0"
proof -
  let ?b = "ob_init 7 0 ob_new"
  have i: "book_inv ?b" "top_inv ?b" "live_orders ?b = Map.empty"
    using ob_init_sound [of 0 7] by simp_all
  have base: "bases ?b 0"
    by (simp add: bases_def levels_of_def ob_init_def la_init_def split: side.splits)
  then have rng: "in_range (levels_of Buy ?b) 500000"
    by (simp add: bases_def in_range_def index_of_def PRICE_TICK_def MAX_LEVELS_def)
  obtain b where b: "on_add 1 Buy 500000 100 (0, ?b) = Some (0, b)" "book_inv b" "top_inv b"
    "live_orders b = [1 \<mapsto> \<lparr>oe_price = 500000, oe_shares = 100, oe_side = Buy\<rparr>]"
    using on_add_sound [OF i(1) _ _ rng, of 1 100 0] i by (auto simp: spec_add_def)
  moreover have "tick_ok (live_orders b)" by (simp add: b(4) tick_ok_def)
  moreover have "bases b 0" using bases_on_add [OF b(1)] base by simp
  ultimately show thesis using that by blast
qed

text \<open>
  A replace (ITCH U) takes the old order off and puts the new one on the same side; when
  the new price is outside the window only the removal happens and the drop is counted, and an
  unknown reference changes nothing.  Level totals, occupancy and best prices stay exact, also
  when both orders are on one level.
\<close>

theorem replace_refines:
  assumes "book_inv b" and "live_orders b new_ref = None \<or> new_ref = old_ref"
  shows "\<exists>b'. on_replace old_ref new_ref price shares (drops, b)
      = Some (if replace_kept b old_ref price then drops else drops + 1, b') \<and> book_inv b'
    \<and> live_orders b' = spec_replace old_ref new_ref price shares (replace_kept b old_ref price) (live_orders b)
    \<and> (top_inv b \<and> tick_ok (live_orders b) \<and> unat price mod 100 = 0 \<longrightarrow> top_inv b')"
  by (rule on_replace_sound [OF assms])

lemma replace_refines_witness:
  "\<exists>b b'. live_orders b = [1 \<mapsto> \<lparr>oe_price = 500000, oe_shares = 100, oe_side = Buy\<rparr>]
    \<and> on_replace 1 2 500000 30 (0, b) = Some (0, b') \<and> top_inv b'
    \<and> live_orders b' = [2 \<mapsto> \<lparr>oe_price = 500000, oe_shares = 30, oe_side = Buy\<rparr>]"
proof -
  obtain b where b: "book_inv b" "top_inv b" "tick_ok (live_orders b)"
    "live_orders b = [1 \<mapsto> \<lparr>oe_price = 500000, oe_shares = 100, oe_side = Buy\<rparr>]" "bases b 0"
    by (rule one_order_book)
  have "replace_kept b 1 500000"
    using b(5) by (simp add: replace_kept_def b(4) bases_def in_range_def index_of_def PRICE_TICK_def MAX_LEVELS_def)
  then show ?thesis
    using replace_refines [OF b(1), of 2 1 500000 30 0] b(2-4)
    by (auto simp: spec_replace_def spec_add_def)
qed

text \<open>
  An execution (ITCH E) reports the resting order's price and side with the executed
  quantity, takes the shares off the order and removes it at zero; an execution of an unknown
  reference reports no trade and changes nothing.
\<close>

theorem execute_refines:
  assumes "book_inv b"
  shows "\<exists>b'. on_execute ref n b = Some (spec_trade ref n (live_orders b), b') \<and> book_inv b'
    \<and> live_orders b' = spec_take ref n (live_orders b)
    \<and> (top_inv b \<and> tick_ok (live_orders b) \<longrightarrow> top_inv b')"
  by (rule on_execute_sound [OF assms])

lemma execute_refines_witness:
  "\<exists>b b'. live_orders b = [1 \<mapsto> \<lparr>oe_price = 500000, oe_shares = 100, oe_side = Buy\<rparr>]
    \<and> on_execute 1 100 b = Some (\<lparr>tr_price = 500000, tr_shares = 100, tr_side = Buy\<rparr>, b')
    \<and> live_orders b' = Map.empty \<and> top_inv b'"
proof -
  obtain b where b: "book_inv b" "top_inv b" "tick_ok (live_orders b)"
    "live_orders b = [1 \<mapsto> \<lparr>oe_price = 500000, oe_shares = 100, oe_side = Buy\<rparr>]"
    by (rule one_order_book)
  then show ?thesis
    using execute_refines [OF b(1), of 1 100] by (auto simp: spec_take_def spec_trade_def)
qed

text \<open>
  C4.  Off the tick grid the cached best bid can outlive the book: two bids in one level, added
  to a fresh book and deleted with the better one first, leave a best bid of 10099 and no
  order at all.
\<close>

theorem stale_best_bid:
  "\<exists>b1 b2 b3 b4. on_add 1 Buy 10050 5 (0, ob_init 7 0 ob_new) = Some (0, b1)
    \<and> on_add 2 Buy 10099 5 (0, b1) = Some (0, b2)
    \<and> on_delete 2 b2 = Some b3 \<and> on_delete 1 b3 = Some b4
    \<and> live_orders b4 = Map.empty \<and> best_bid b4 = 10099"
  by (rule stale_best_bid_run)

section \<open>Publishing\<close>

text \<open>
  C5.  On a legal stream, whatever the consumer's timing, the core loop returns, the frames the
  consumer takes off the feed ring are those pushed, in order, none lost or repeated, and each
  carries \<open>FEED_RESET\<close> exactly when its sequence number does not follow its predecessor's,
  that is, when frames were dropped on a full ring just before it.  The counters account for
  every event applied.
\<close>

theorem published_frames:
  assumes "legal_feed symbol (events_of cs) Map.empty" and "length (events_of cs) < 2 ^ 64"
  shows "\<exists>ins outs t. core_run inst cs (core_new symbol scratch slots) = Some (ins, outs, t)
    \<and> ins = outs @ ring_content 13 (cs_ring t) \<and> gaps_flagged 0 ins \<and> gaps_flagged 0 outs
    \<and> cs_pushed t = of_nat (length ins)
    \<and> cs_pushed t + cs_dropped t = fd_count (cs_feed t)"
  by (rule core_frames [OF assms, of inst scratch slots]) blast

lemma published_frames_witness:
  "\<forall>scratch slots. \<exists>ins outs t. core_run 0 (map Event sample_feed @ [Consume]) (core_new TQQQ scratch slots) = Some (ins, outs, t)
    \<and> gaps_flagged 0 outs \<and> cs_pushed t + cs_dropped t = fd_count (cs_feed t)"
proof (intro allI)
  fix scratch slots
  have e: "events_of (map Event sample_feed @ [Consume]) = sample_feed" by (simp add: sample_feed_def)
  have "length sample_feed < 2 ^ 64" by (simp add: sample_feed_def)
  then show "\<exists>ins outs t. core_run 0 (map Event sample_feed @ [Consume]) (core_new TQQQ scratch slots)
      = Some (ins, outs, t) \<and> gaps_flagged 0 outs \<and> cs_pushed t + cs_dropped t = fd_count (cs_feed t)"
    using published_frames [of TQQQ "map Event sample_feed @ [Consume]" 0 scratch slots] sample_legal
    unfolding e by blast
qed

text \<open>
  C6.  A frame built from a captured book shows exactly the book: its ten bid and ask levels are
  the best live prices in order with their totals, and the best prices are the sentinels
  \<open>EMPTY_BID\<close> and \<open>EMPTY_ASK\<close> when the side has no level.  What the slot held before does
  not show.
\<close>

theorem frame_shows_book:
  assumes "book_inv b" and "top_inv b" and "tick_ok (live_orders b)"
  defines "u mu ev out name n tr inst extra \<equiv>
    build_market_update mu ev (capture DASH_DEPTH out b name n) tr inst extra"
  shows "mu_bid_levels (u mu ev out name n tr inst extra) = depth_of Buy EXEC_DEPTH b
    \<and> mu_ask_levels (u mu ev out name n tr inst extra) = depth_of Sell EXEC_DEPTH b
    \<and> mu_best_bid (u mu ev out name n tr inst extra)
        = (if depth_of Buy 1 b = [] then EMPTY_BID else uint (best_bid b))
    \<and> mu_best_ask (u mu ev out name n tr inst extra)
        = (if depth_of Sell 1 b = [] then EMPTY_ASK else uint (best_ask b))"
  unfolding u_def by (intro conjI frame_sound [OF assms(1-3)])

lemma frame_shows_book_witness:
  "\<forall>mu ev out name n tr inst. \<exists>b. live_orders b = [1 \<mapsto> \<lparr>oe_price = 500000, oe_shares = 100, oe_side = Buy\<rparr>]
    \<and> map ml_price (mu_bid_levels (build_market_update mu ev (capture DASH_DEPTH out b name n) tr inst 0)) = [500000]
    \<and> mu_best_ask (build_market_update mu ev (capture DASH_DEPTH out b name n) tr inst 0) = EMPTY_ASK"
proof (intro allI)
  fix mu ev out name n tr inst
  obtain b where b: "book_inv b" "top_inv b" "tick_ok (live_orders b)"
    "live_orders b = [1 \<mapsto> \<lparr>oe_price = 500000, oe_shares = 100, oe_side = Buy\<rparr>]"
    by (rule one_order_book)
  have P: "side_prices Buy (live_orders b) = {500000}" "side_prices Sell (live_orders b) = {}"
    by (auto simp: b(4) side_prices_def)
  show "\<exists>b. live_orders b = [1 \<mapsto> \<lparr>oe_price = 500000, oe_shares = 100, oe_side = Buy\<rparr>]
    \<and> map ml_price (mu_bid_levels (build_market_update mu ev (capture DASH_DEPTH out b name n) tr inst 0)) = [500000]
    \<and> mu_best_ask (build_market_update mu ev (capture DASH_DEPTH out b name n) tr inst 0) = EMPTY_ASK"
    using frame_shows_book [OF b(1-3), of mu ev out name n tr inst 0] b(4)
    by (intro exI [of _ b]) (simp add: depth_of_def P [unfolded b(4)] ordered_def no_top_def EXEC_DEPTH_def mu_level_of_def level_at_def)
qed

section \<open>Queues and the snapshot lock\<close>

text \<open>
  C7.  The SPSC ring is a FIFO queue of its capacity from any equal values of its free-running
  counters, so also across their wrap at \<open>2 ^ 32\<close>: in any sequence of pushes and pops each call
  answers as the bounded queue does, so a push is refused exactly when \<open>2 ^ k\<close> items are
  inside and a pop finds nothing exactly when none is, and what is inside is the queue's content.  The
  items accepted are the items popped followed by those still inside, in order.
\<close>

theorem ring_is_fifo:
  assumes "k \<le> 31" and "r_head r = r_tail r"
  shows "map_prod id (ring_content k) (fifo_trace (try_push (2 ^ k)) (try_pop (2 ^ k)) r cs)
      = fifo_trace (queue_push (2 ^ k)) queue_pop [] cs
    \<and> (case fifo_run (try_push (2 ^ k)) (try_pop (2 ^ k)) r cs of
      (ins, outs, t) \<Rightarrow> ins = outs @ ring_content k t \<and> length (ring_content k t) \<le> 2 ^ k)"
proof -
  have k: "ring_exp k = k" using assms(1) by (simp add: ring_exp_def)
  have i: "ring_inv k r" "ring_content k r = []" using assms(2) by (simp_all add: ring_inv_def ring_content_def)
  have "map_prod id (ring_content k) (fifo_trace (try_push (2 ^ k)) (try_pop (2 ^ k)) r cs)
      = fifo_trace (queue_push (2 ^ k)) queue_pop [] cs"
    using spsc.trace_queue [of k r cs, unfolded k, OF i(1)] unfolding i(2) .
  then show ?thesis using spsc.run_fifo [of k r cs, unfolded k] i by (auto split: prod.splits)
qed

lemma ring_is_fifo_witness:
  "fst (fifo_trace (try_push (2 ^ 1)) (try_pop (2 ^ 1)) \<lparr>r_head = - 1, r_tail = - 1, r_slots = \<lambda>_. 0 :: nat\<rparr>
      [Push 5, Push 6, Push 7, Pop, Push 8, Pop, Pop, Pop])
    = [Pushed True, Pushed True, Pushed False, Popped (Some 5), Pushed True, Popped (Some 6), Popped (Some 8), Popped None]"
proof -
  let ?r = "\<lparr>r_head = - 1, r_tail = - 1, r_slots = \<lambda>_. 0 :: nat\<rparr>" and ?cs = "[Push 5, Push 6, Push 7, Pop, Push 8, Pop, Pop, Pop]"
  have "map_prod id (ring_content 1) (fifo_trace (try_push (2 ^ 1)) (try_pop (2 ^ 1)) ?r ?cs)
    = fifo_trace (queue_push (2 ^ 1)) queue_pop [] ?cs"
    using ring_is_fifo [of 1 ?r ?cs] by simp
  from arg_cong [where f = fst, OF this] show ?thesis by (simp add: queue_push_def)
qed

text \<open>
  C8.  In every interleaving of the ring's producer and consumer threads, access by access, the
  items received are a prefix of the items sent, and the rest is in the ring: nothing is lost,
  duplicated, reordered or torn.
\<close>

theorem ring_threads_fifo:
  assumes "ring_reachable (2 ^ k) slots s" and "k \<le> 31"
  shows "t_sent s = t_recv s @ ring_content k (t_ring s) \<and> length (ring_content k (t_ring s)) \<le> 2 ^ k"
proof -
  have "threads_ok k s" using reachable_ok [OF assms(1)] assms(2) by simp
  then show ?thesis by (simp add: threads_ok_def ring_inv_def)
qed

text \<open>A push under way, with the item copied but not yet published.\<close>

lemma ring_sample_reachable:
  "ring_reachable (2 ^ 1) (\<lambda>_. 0 :: nat) \<lparr>t_ring = slot_put 0 9 (ring_new (\<lambda>_. 0)), t_prod = P_Publish 9,
     t_cons = C_Idle, t_sent = [], t_recv = []\<rparr>"
proof -
  let ?s = "\<lambda>p. \<lparr>t_ring = ring_new (\<lambda>_. 0 :: nat), t_prod = p, t_cons = C_Idle, t_sent = [], t_recv = []\<rparr>"
  have 1: "ring_reachable (2 ^ 1) (\<lambda>_. 0) (?s (P_Loaded 9 0))"
    using ring_reachable.step [OF ring_reachable.init ring_step.p_load_tail [of "?s P_Idle" "2 ^ 1" 9]]
    by (simp add: ring_new_def)
  have 2: "ring_reachable (2 ^ 1) (\<lambda>_. 0) (?s (P_Fill 9 0))"
    using ring_reachable.step [OF 1 ring_step.p_claim [of "?s (P_Loaded 9 0)" 9 0 "2 ^ 1"]]
    by (simp add: ring_new_def)
  show ?thesis
    using ring_reachable.step [OF 2 ring_step.p_fill [of "?s (P_Fill 9 0)" 9 0 "2 ^ 1"]] by simp
qed

lemma ring_threads_fifo_witness:
  "\<exists>s. ring_reachable (2 ^ 1) (\<lambda>_. 0 :: nat) s \<and> t_prod s = P_Publish 9
    \<and> t_sent s = t_recv s @ ring_content 1 (t_ring s)"
  using ring_threads_fifo [OF ring_sample_reachable] ring_sample_reachable by force

text \<open>
  C9.  The producer never writes a slot while the consumer copies it.
\<close>

theorem ring_threads_no_race:
  assumes "ring_reachable (2 ^ k) slots s" and "k \<le> 31"
    and "t_prod s = P_Fill x w" and "t_cons s = C_Copy r"
  shows "w AND (2 ^ k - 1) \<noteq> r AND (2 ^ k - 1)"
proof -
  have "threads_ok k s" using reachable_ok [OF assms(1)] assms(2) by simp
  from no_slot_race [OF this _ assms(3,4)] assms(2) show ?thesis by (simp only: capacity_mask) simp
qed

text \<open>The ring after one item was published, with both threads inside a slot.\<close>

lemma ring_busy_reachable:
  "\<exists>s. ring_reachable (2 ^ 1) (\<lambda>_. 0 :: nat) s \<and> t_prod s = P_Fill 4 1 \<and> t_cons s = C_Copy 0"
proof -
  let ?r = "publish (slot_put 0 9 (ring_new (\<lambda>_. 0 :: nat)))"
  let ?s = "\<lambda>p c. \<lparr>t_ring = ?r, t_prod = p, t_cons = c, t_sent = [9], t_recv = []\<rparr>"
  have t: "r_tail ?r = 1" "r_head ?r = 0" by (simp_all add: publish_def slot_put_def ring_new_def)
  have 1: "ring_reachable (2 ^ 1) (\<lambda>_. 0) (?s P_Idle C_Idle)"
    using ring_reachable.step [OF ring_sample_reachable ring_step.p_publish] by simp
  have 2: "ring_reachable (2 ^ 1) (\<lambda>_. 0) (?s (P_Loaded 4 1) C_Idle)"
    using ring_reachable.step [OF 1 ring_step.p_load_tail [of "?s P_Idle C_Idle" "2 ^ 1" 4]] t by simp
  have 3: "ring_reachable (2 ^ 1) (\<lambda>_. 0) (?s (P_Fill 4 1) C_Idle)"
    using ring_reachable.step [OF 2 ring_step.p_claim [of "?s (P_Loaded 4 1) C_Idle" 4 1 "2 ^ 1"]] t by simp
  have 4: "ring_reachable (2 ^ 1) (\<lambda>_. 0) (?s (P_Fill 4 1) (C_Loaded 0))"
    using ring_reachable.step [OF 3 ring_step.c_load_head [of "?s (P_Fill 4 1) C_Idle" "2 ^ 1"]] t by simp
  have "ring_reachable (2 ^ 1) (\<lambda>_. 0) (?s (P_Fill 4 1) (C_Copy 0))"
    using ring_reachable.step [OF 4 ring_step.c_nonempty [of "?s (P_Fill 4 1) (C_Loaded 0)" 0 "2 ^ 1"]] t by simp
  then show ?thesis by (intro exI [of _ "?s (P_Fill 4 1) (C_Copy 0)"]) simp
qed

lemma ring_threads_no_race_witness:
  "\<exists>s. ring_reachable (2 ^ 1) (\<lambda>_. 0 :: nat) s \<and> t_prod s = P_Fill 4 1 \<and> t_cons s = C_Copy 0
    \<and> (1 :: u32) AND (2 ^ 1 - 1) \<noteq> 0 AND (2 ^ 1 - 1)"
proof -
  obtain s where s: "ring_reachable (2 ^ 1) (\<lambda>_. 0 :: nat) s" "t_prod s = P_Fill 4 1" "t_cons s = C_Copy 0"
    using ring_busy_reachable by blast
  from ring_threads_no_race [OF s(1) _ s(2,3)] s show ?thesis by force
qed

text \<open>
  C10.  A \<open>try_load\<close> of the seqlock that returns true returns a value stored whole, the one
  current when the load began, in every interleaving with the writer, as long as fewer than
  \<open>2 ^ 63\<close> stores have been made.
\<close>

theorem seqlock_loads_whole_values:
  assumes "seq_reachable words v0 s" and "length (sq_hist s) < 2 ^ 63" and "sq_reader s = R_Done pre out"
  shows "\<exists>j < length (sq_hist s). pre = of_nat (2 * j) \<and> out = sq_hist s ! j"
  using seq_reachable_ok [OF assms(1,2)] assms(3) by (simp add: seq_ok_def reader_ok_def)

text \<open>A load of the two-word initial value, started and finished.\<close>

lemma seqlock_sample_reachable:
  "seq_reachable 2 [3, 4 :: nat] \<lparr>sq_lock = \<lparr>q_seq = 0, q_data = [3, 4]\<rparr>, sq_writer = W_Idle,
     sq_reader = R_Done 0 [3, 4], sq_hist = [[3, 4]]\<rparr>"
proof -
  let ?s = "\<lambda>r. \<lparr>sq_lock = \<lparr>q_seq = 0, q_data = [3, 4 :: nat]\<rparr>, sq_writer = W_Idle, sq_reader = r,
     sq_hist = [[3, 4]]\<rparr>"
  have 0: "seq_reachable 2 [3, 4] (?s R_Idle)" by (rule seq_reachable.init) simp
  have 1: "seq_reachable 2 [3, 4] (?s (R_Copy 0 []))"
    using seq_reachable.step [OF 0 seq_step.r_begin [of "?s R_Idle" 2]] by simp
  have 2: "seq_reachable 2 [3, 4] (?s (R_Copy 0 [3]))"
    using seq_reachable.step [OF 1 seq_step.r_copy [of "?s (R_Copy 0 [])" 0 "[]" 2]] by simp
  have 3: "seq_reachable 2 [3, 4] (?s (R_Copy 0 [3, 4]))"
    using seq_reachable.step [OF 2 seq_step.r_copy [of "?s (R_Copy 0 [3])" 0 "[3]" 2]] by simp
  show ?thesis
    using seq_reachable.step [OF 3 seq_step.r_done [of "?s (R_Copy 0 [3, 4])" 0 "[3, 4]" 2]] by simp
qed

lemma seqlock_loads_whole_values_witness: "\<exists>j < 1. (0 :: u64) = of_nat (2 * j) \<and> [3, 4 :: nat] = [[3, 4]] ! j"
  using seqlock_loads_whole_values [OF seqlock_sample_reachable] by simp

section \<open>The order map and the level index\<close>

text \<open>
  C11.  The order map of core (\<open>2 ^ 20\<close> slots, linear probing, backward-shift deletion)
  implements a finite map: any sequence of insertions of fresh references and erasures of
  present ones, never filling the table, returns, and afterwards every \<open>find\<close> returns and
  finds what the finite map holds.
\<close>

theorem order_map_refines:
  assumes "legal_run (\<lambda>_ _. True) (2 ^ 20) Map.empty cs"
  shows "\<exists>m. store_run (om_put 20) (om_erase (mask 20)) om_new cs = Some m
    \<and> om_abs 20 m = foldl spec_step Map.empty cs
    \<and> (\<forall>ref. om_get 20 m ref = Some (foldl spec_step Map.empty cs ref))"
  using om_store.run_refines [of om_new cs] assms by (auto simp: om_new_sound)

lemma order_map_refines_witness:
  "\<exists>m. store_run (om_put 20) (om_erase (mask 20)) om_new
      [Put 1 \<lparr>oe_price = 100, oe_shares = 5, oe_side = Buy\<rparr>, Put 2 \<lparr>oe_price = 200, oe_shares = 6, oe_side = Sell\<rparr>, Del 1]
    = Some m \<and> om_get 20 m 1 = Some None
    \<and> om_get 20 m 2 = Some (Some \<lparr>oe_price = 200, oe_shares = 6, oe_side = Sell\<rparr>)"
  using order_map_refines [of "[Put 1 \<lparr>oe_price = 100, oe_shares = 5, oe_side = Buy\<rparr>,
      Put 2 \<lparr>oe_price = 200, oe_shares = 6, oe_side = Sell\<rparr>, Del 1]"] by auto

text \<open>
  The probing loops have no bound: a \<open>find\<close> of an absent reference in a table without a
  free slot does not return, whatever the capacity.
\<close>

theorem full_table_find_spins:
  assumes "\<And>i. i < 2 ^ k \<Longrightarrow> s_occupied (slots (word_of_nat i)) \<and> s_key (slots (word_of_nat i)) \<noteq> ref"
    and "k \<le> 32"
  shows "om_find (mask k) slots ref = None"
proof (rule ccontr)
  assume "om_find (mask k) slots ref \<noteq> None"
  then obtain i where i: "\<not> s_occupied (slots (i AND mask k)) \<or> s_key (slots (i AND mask k)) = ref"
    using om_find_from_stops unfolding om_find_def by blast
  have "unat (i AND mask k) < 2 ^ k" by (simp add: unat_and_mask)
  from assms(1) [OF this] i show False by simp
qed

lemma full_table_find_spins_witness:
  "om_find (mask 1) (\<lambda>i. \<lparr>s_key = ucast i, s_entry = \<lparr>oe_price = 1, oe_shares = 1, oe_side = Buy\<rparr>,
     s_occupied = True\<rparr>) 77 = None"
proof (rule full_table_find_spins)
  fix i :: nat assume "i < 2 ^ 1"
  then have "i = 0 \<or> i = 1" by auto
  then show "s_occupied \<lparr>s_key = ucast (word_of_nat i :: u32), s_entry = \<lparr>oe_price = 1, oe_shares = 1, oe_side = Buy\<rparr>,
      s_occupied = True\<rparr>
    \<and> s_key \<lparr>s_key = ucast (word_of_nat i :: u32), s_entry = \<lparr>oe_price = 1, oe_shares = 1, oe_side = Buy\<rparr>,
      s_occupied = True\<rparr> \<noteq> 77"
    by auto
qed simp

text \<open>
  C12.  The four-tier occupancy bitmap of \<open>2 ^ 20\<close> levels: after any sequence of \<open>set\<close> and
  \<open>clear\<close> of positions in range, \<open>next_set\<close> returns the least set position from \<open>i\<close> up and
  \<open>prev_set\<close> the greatest from \<open>i\<close> down, and \<open>BITMAP_NPOS\<close> exactly when there is none.
\<close>

theorem bitmap_finds_neighbours:
  assumes "\<forall>c\<in>set cs. level_pos c < 2 ^ 20" and "unat i < 2 ^ 20"
  defines "b \<equiv> fold (level_apply bm_set bm_clear) cs (bm_empty (2 ^ 20))"
    and "S \<equiv> fold level_spec cs {}"
  shows "next_of (\<lambda>j. j \<in> S) (unat i) (bm_next_set b i) \<and> prev_of (\<lambda>j. j \<in> S) (unat i) (bm_prev_set b i)"
proof -
  have e: "bm_inv (2 ^ 20) (bm_empty (2 ^ 20))" "{j. bm_test (bm_empty (2 ^ 20)) j} = {}"
    using bm_inv_empty [of "2 ^ 20"] by simp_all
  have "bm_inv (2 ^ 20) b" and "{j. bm_test b j} = S"
    using occ.run_sound [OF e(1) assms(1)] unfolding e(2) b_def S_def by blast+
  moreover from this(2) have "bm_test b = (\<lambda>j. j \<in> S)" by auto
  ultimately show ?thesis using occ.succ_ok [of b i] occ.pred_ok [of b i] assms(2) by simp
qed

lemma bitmap_finds_neighbours_witness:
  "next_of (\<lambda>j. j \<in> {700000}) 12
     (bm_next_set (fold (level_apply bm_set bm_clear) [Mark 700000, Mark 5, Unmark 5] (bm_empty (2 ^ 20))) 12)"
  using bitmap_finds_neighbours [of "[Mark 700000, Mark 5, Unmark 5]" 12] by simp

end
