(* ===== verification/Bytes.thy ===== *)
theory Bytes
  imports Prelude
begin

text \<open>
  Fixed-width integers as bytes in memory.  The host is little-endian, as the program
  assumes: a \<open>memcpy\<close> into an integer reads \<open>le_word\<close>, and \<open>__builtin_bswap\<close> reverses the
  bytes.  \<open>be_bytes\<close> is the network order of the ITCH wire format.
\<close>

definition le_bytes :: "nat \<Rightarrow> 'a::len word \<Rightarrow> u8 list" where
  "le_bytes n w = map (\<lambda>i. ucast (drop_bit (8 * i) w)) [0..<n]"

primrec le_word :: "u8 list \<Rightarrow> 'a::len word" where
  "le_word [] = 0"
| "le_word (b # bs) = ucast b OR push_bit 8 (le_word bs)"

definition be_bytes :: "nat \<Rightarrow> 'a::len word \<Rightarrow> u8 list" where
  "be_bytes n w = rev (le_bytes n w)"

definition bswap16 :: "u16 \<Rightarrow> u16" where "bswap16 w = le_word (rev (le_bytes 2 w))"
definition bswap32 :: "u32 \<Rightarrow> u32" where "bswap32 w = le_word (rev (le_bytes 4 w))"
definition bswap64 :: "u64 \<Rightarrow> u64" where "bswap64 w = le_word (rev (le_bytes 8 w))"

lemma length_bytes [simp]: "length (le_bytes n w) = n" "length (be_bytes n w) = n"
  by (simp_all add: le_bytes_def be_bytes_def)

lemma bit_le_word:
  "bit (le_word bs :: 'a::len word) i \<longleftrightarrow> i < LENGTH('a) \<and> i div 8 < length bs \<and> bit (bs ! (i div 8)) (i mod 8)"
proof (induction bs arbitrary: i)
  case (Cons b bs)
  have "\<not> bit b i" if "8 \<le> i" using that bit_imp_le_length [of b i] by auto
  then show ?case
    using Cons.IH [of "i - 8"]
    by (cases "i < 8") (auto simp: bit_or_iff bit_push_bit_iff bit_ucast_iff le_div_geq le_mod_geq)
qed simp

lemma bit_le_bytes:
  "j < n \<Longrightarrow> bit (le_bytes n (w :: 'a::len word) ! j) i \<longleftrightarrow> i < 8 \<and> 8 * j + i < LENGTH('a) \<and> bit w (8 * j + i)"
  by (auto simp: le_bytes_def bit_ucast_iff bit_drop_bit_eq dest: bit_imp_le_length)

lemma le_word_bytes: "LENGTH('a) \<le> 8 * n \<Longrightarrow> le_word (le_bytes n w) = (w :: 'a::len word)"
  by (rule bit_eqI) (auto simp: bit_le_word bit_le_bytes)

lemma le_bytes_word:
  assumes "8 * length bs \<le> LENGTH('a)"
  shows "le_bytes (length bs) (le_word bs :: 'a::len word) = bs"
proof (rule nth_equalityI)
  fix j assume "j < length (le_bytes (length bs) (le_word bs :: 'a word))"
  then have j: "j < length bs" by simp
  show "le_bytes (length bs) (le_word bs :: 'a word) ! j = bs ! j"
  proof (rule bit_eqI)
    fix i assume "possible_bit TYPE(u8) i"
    then have "i < 8" by simp
    moreover from this j assms have "8 * j + i < LENGTH('a)" by linarith
    ultimately show "bit (le_bytes (length bs) (le_word bs :: 'a word) ! j) i = bit (bs ! j) i"
      using j by (simp add: bit_le_bytes bit_le_word)
  qed
qed simp

text \<open>Reading a field sent in network order.\<close>

lemma bswap_be:
  "bswap16 (le_word (be_bytes 2 a)) = a" "bswap32 (le_word (be_bytes 4 b)) = b"
  "bswap64 (le_word (be_bytes 8 c)) = c"
  using le_bytes_word [of "be_bytes 2 a", where 'a = 16] le_bytes_word [of "be_bytes 4 b", where 'a = 32]
    le_bytes_word [of "be_bytes 8 c", where 'a = 64]
  by (simp_all add: bswap16_def bswap32_def bswap64_def) (simp_all add: be_bytes_def le_word_bytes)

text \<open>\<open>be48tou64h\<close> of the ITCH parser: six bytes in network order.\<close>

definition be48tou64h :: "u8 list \<Rightarrow> u64" where
  "be48tou64h data = drop_bit 16 (bswap64 (le_word (take 6 data)))"

lemma le_word_append_zero: "le_word (bs @ replicate n 0) = (le_word bs :: 'a::len word)"
  by (rule bit_eqI) (auto simp: bit_le_word nth_append)

lemma be48_be_bytes:
  assumes "unat w < 2 ^ 48"
  shows "be48tou64h (be_bytes 6 w) = w"
proof -
  have hi: "\<not> bit w i" if "48 \<le> i" for i
  proof -
    have "(2 ^ 48 :: nat) \<le> 2 ^ i" using that by (intro power_increasing) simp_all
    then have "unat w div 2 ^ i = 0" using assms by simp
    then have "\<not> bit (unat w) i" by (simp add: bit_iff_odd)
    then show ?thesis using bit_imp_le_length [of w i] by (auto simp: bit_unsigned_iff)
  qed
  have "le_word (be_bytes 6 w) = (le_word (be_bytes 6 w @ [0, 0]) :: u64)"
    using le_word_append_zero [of "be_bytes 6 w" 2, where 'a = 64] by (simp add: numeral_2_eq_2)
  then have "bswap64 (le_word (be_bytes 6 w)) = le_word (rev (be_bytes 6 w @ [0, 0]))"
    using le_bytes_word [of "be_bytes 6 w @ [0, 0]", where 'a = 64] by (simp add: bswap64_def)
  also have "\<dots> = le_word (0 # 0 # le_bytes 6 w)" by (simp add: be_bytes_def)
  finally have eq: "be48tou64h (be_bytes 6 w) = drop_bit 16 (le_word (0 # 0 # le_bytes 6 w))"
    by (simp add: be48tou64h_def)
  show ?thesis unfolding eq
  proof (rule bit_eqI)
    fix i assume "possible_bit TYPE(u64) i"
    then have i: "i < 64" by simp
    have d: "(16 + i) div 8 = 2 + i div 8" by simp
    show "bit (drop_bit 16 (le_word (0 # 0 # le_bytes 6 w) :: u64)) i = bit w i"
      using hi [of i] i by (cases "i < 48") (auto simp: bit_drop_bit_eq bit_push_bit_iff bit_le_word d bit_le_bytes)
  qed
qed

end
