(* ===== verification/Itch_Types.thy ===== *)
theory Itch_Types
  imports Bytes Events
begin

text \<open>
  The packed wire structs of \<open>src/exchange/itch/itch_event_types.hpp\<close> that the parser reads.
  A \<open>memcpy\<close> into a struct is a \<open>load_\<close> function on its bytes; integer fields hold the bytes
  as the host reads them, before \<open>__builtin_bswap\<close>.  The structs the parser does not use
  (administrative messages) are not modelled.
\<close>

definition field :: "nat \<Rightarrow> nat \<Rightarrow> u8 list \<Rightarrow> u8 list" where
  "field off n bs = take n (drop off bs)"

definition int_field :: "nat \<Rightarrow> nat \<Rightarrow> u8 list \<Rightarrow> 'a::len word" where
  "int_field off n bs = le_word (field off n bs)"

definition byte_field :: "nat \<Rightarrow> u8 list \<Rightarrow> u8" where
  "byte_field off bs = int_field off 1 bs"

text \<open>The first eleven bytes of every message.\<close>

record itch_header =
  ih_message_type :: u8
  ih_stock_locate :: u16
  ih_tracking_number :: u16
  ih_timestamp :: "u8 list"

record add_order = itch_header +
  ao_order_ref_number :: u64
  ao_buy_sell_indicator :: u8
  ao_shares :: u32
  ao_stock :: "u8 list"
  ao_price :: u32

record add_order_with_mpid = add_order +
  am_attribution :: "u8 list"

record exec_order = itch_header +
  eo_order_ref_number :: u64
  eo_executed_shares :: u32
  eo_match_number :: u64

record exec_order_with_message = exec_order +
  em_printable :: u8
  em_execution_price :: u32

record cancel_order = itch_header +
  co_order_ref_number :: u64
  co_cancelled_shares :: u32

record delete_order = itch_header +
  do_order_ref_number :: u64

record replace_order = itch_header +
  ro_original_order_ref_number :: u64
  ro_new_order_ref_number :: u64
  ro_shares :: u32
  ro_price :: u32

record trade_message_non_cross = itch_header +
  tn_order_ref_number :: u64
  tn_buy_sell_indicator :: u8
  tn_shares :: u32
  tn_stock :: "u8 list"
  tn_price :: u32
  tn_match_number :: u64

record trade_message_cross = itch_header +
  tc_shares :: u64
  tc_stock :: "u8 list"
  tc_cross_price :: u32
  tc_match_number :: u64
  tc_cross_type :: u8

definition load_header :: "u8 list \<Rightarrow> itch_header" where
  "load_header bs = \<lparr>ih_message_type = byte_field 0 bs, ih_stock_locate = int_field 1 2 bs,
     ih_tracking_number = int_field 3 2 bs, ih_timestamp = field 5 6 bs\<rparr>"

definition load_add_order :: "u8 list \<Rightarrow> add_order" where
  "load_add_order bs = itch_header.extend (load_header bs)
     \<lparr>ao_order_ref_number = int_field 11 8 bs, ao_buy_sell_indicator = byte_field 19 bs,
      ao_shares = int_field 20 4 bs, ao_stock = field 24 8 bs, ao_price = int_field 32 4 bs\<rparr>"

definition load_add_order_with_mpid :: "u8 list \<Rightarrow> add_order_with_mpid" where
  "load_add_order_with_mpid bs = add_order.extend (load_add_order bs) \<lparr>am_attribution = field 36 4 bs\<rparr>"

definition load_exec_order :: "u8 list \<Rightarrow> exec_order" where
  "load_exec_order bs = itch_header.extend (load_header bs)
     \<lparr>eo_order_ref_number = int_field 11 8 bs, eo_executed_shares = int_field 19 4 bs,
      eo_match_number = int_field 23 8 bs\<rparr>"

definition load_exec_order_with_message :: "u8 list \<Rightarrow> exec_order_with_message" where
  "load_exec_order_with_message bs = exec_order.extend (load_exec_order bs)
     \<lparr>em_printable = byte_field 31 bs, em_execution_price = int_field 32 4 bs\<rparr>"

definition load_cancel_order :: "u8 list \<Rightarrow> cancel_order" where
  "load_cancel_order bs = itch_header.extend (load_header bs)
     \<lparr>co_order_ref_number = int_field 11 8 bs, co_cancelled_shares = int_field 19 4 bs\<rparr>"

definition load_delete_order :: "u8 list \<Rightarrow> delete_order" where
  "load_delete_order bs = itch_header.extend (load_header bs) \<lparr>do_order_ref_number = int_field 11 8 bs\<rparr>"

definition load_replace_order :: "u8 list \<Rightarrow> replace_order" where
  "load_replace_order bs = itch_header.extend (load_header bs)
     \<lparr>ro_original_order_ref_number = int_field 11 8 bs, ro_new_order_ref_number = int_field 19 8 bs,
      ro_shares = int_field 27 4 bs, ro_price = int_field 31 4 bs\<rparr>"

definition load_trade_message_non_cross :: "u8 list \<Rightarrow> trade_message_non_cross" where
  "load_trade_message_non_cross bs = itch_header.extend (load_header bs)
     \<lparr>tn_order_ref_number = int_field 11 8 bs, tn_buy_sell_indicator = byte_field 19 bs,
      tn_shares = int_field 20 4 bs, tn_stock = field 24 8 bs, tn_price = int_field 32 4 bs,
      tn_match_number = int_field 36 8 bs\<rparr>"

definition load_trade_message_cross :: "u8 list \<Rightarrow> trade_message_cross" where
  "load_trade_message_cross bs = itch_header.extend (load_header bs)
     \<lparr>tc_shares = int_field 11 8 bs, tc_stock = field 19 8 bs, tc_cross_price = int_field 27 4 bs,
      tc_match_number = int_field 31 8 bs, tc_cross_type = byte_field 39 bs\<rparr>"

lemmas load_defs = load_header_def load_add_order_def load_add_order_with_mpid_def load_exec_order_def
  load_exec_order_with_message_def load_cancel_order_def load_delete_order_def load_replace_order_def
  load_trade_message_non_cross_def load_trade_message_cross_def
  itch_header.defs add_order.defs add_order_with_mpid.defs exec_order.defs exec_order_with_message.defs
  cancel_order.defs delete_order.defs replace_order.defs trade_message_non_cross.defs trade_message_cross.defs

end
