(* ===== verification/Itch_Parser.thy ===== *)
theory Itch_Parser
  imports Itch_Types Spsc
begin

text \<open>
  \<open>ItchParser\<close> of \<open>src/exchange/itch/itch_parser.hpp\<close> and \<open>itch_parser.cpp\<close>: one call of
  \<open>next\<close> parses one length-prefixed frame of the mapped file into a claimed slot of the
  core ring.  The file is a list of bytes and the cursor an offset; a read past the end of the
  mapping is the outcome \<open>Out_Of_Bounds\<close>.  The spin on a full ring is driven by what each
  attempt finds: the consumer's \<open>head\<close> and the shutdown flag.  \<open>read_tsc\<close> is an argument.
\<close>

record itch_parser =
  ip_data :: "u8 list"
  ip_cursor :: nat
  ip_ring :: "event ring"

definition CORE_RING_CAPACITY :: u32 where "CORE_RING_CAPACITY = 2 ^ 13"

definition itch_done :: "itch_parser \<Rightarrow> bool" where
  "itch_done p \<longleftrightarrow> length (ip_data p) \<le> ip_cursor p"

text \<open>A read of \<open>n\<close> bytes of the mapping.\<close>

definition read_bytes :: "u8 list \<Rightarrow> nat \<Rightarrow> nat \<Rightarrow> u8 list option" where
  "read_bytes data c n = (if c + n \<le> length data then Some (take n (drop c data)) else None)"

section \<open>Filling the slot\<close>

definition side_of :: "u8 \<Rightarrow> side" where
  "side_of c = (if c = ch CHR ''B'' then Buy else Sell)"

definition fill_header :: "u8 \<Rightarrow> 'a itch_header_scheme \<Rightarrow> event \<Rightarrow> event" where
  "fill_header mt msg slot = slot\<lparr>message_type := mt, stock_locate := bswap16 (ih_stock_locate msg),
     tracking_number := bswap16 (ih_tracking_number msg), timestamp := be48tou64h (ih_timestamp msg)\<rparr>"

definition fill_add :: "u8 \<Rightarrow> 'a add_order_scheme \<Rightarrow> event \<Rightarrow> event" where
  "fill_add mt msg slot = (fill_header mt msg slot)
     \<lparr>order_ref_number := bswap64 (ao_order_ref_number msg), ev_side := side_of (ao_buy_sell_indicator msg),
      ev_shares := bswap32 (ao_shares msg), stock := ao_stock msg, ev_price := bswap32 (ao_price msg)\<rparr>"

definition fill_exec :: "u8 \<Rightarrow> 'a exec_order_scheme \<Rightarrow> event \<Rightarrow> event" where
  "fill_exec mt msg slot = (fill_header mt msg slot)
     \<lparr>order_ref_number := bswap64 (eo_order_ref_number msg), ev_shares := bswap32 (eo_executed_shares msg),
      match_number := bswap64 (eo_match_number msg)\<rparr>"

text \<open>The size of the struct a message type is copied into, \<open>None\<close> for the \<open>default\<close> case.\<close>

definition itch_size :: "u8 \<Rightarrow> nat option" where
  "itch_size mt =
     (if mt = ch CHR ''A'' then Some 36 else if mt = ch CHR ''F'' then Some 40
      else if mt = ch CHR ''E'' then Some 31 else if mt = ch CHR ''C'' then Some 36
      else if mt = ch CHR ''X'' then Some 23 else if mt = ch CHR ''D'' then Some 19
      else if mt = ch CHR ''U'' then Some 35 else if mt = ch CHR ''P'' then Some 44
      else if mt = ch CHR ''Q'' then Some 40 else None)"

definition fill_slot :: "u8 \<Rightarrow> u8 list \<Rightarrow> event \<Rightarrow> event" where
  "fill_slot mt bs slot =
     (if mt = ch CHR ''A'' then fill_add mt (load_add_order bs) slot
      else if mt = ch CHR ''F'' then fill_add mt (load_add_order_with_mpid bs) slot
      else if mt = ch CHR ''E'' then fill_exec mt (load_exec_order bs) slot
      else if mt = ch CHR ''C'' then
        (let msg = load_exec_order_with_message bs
         in (fill_exec mt msg slot)\<lparr>ev_price := bswap32 (em_execution_price msg)\<rparr>)
      else if mt = ch CHR ''X'' then
        (let msg = load_cancel_order bs
         in (fill_header mt msg slot)\<lparr>order_ref_number := bswap64 (co_order_ref_number msg),
              ev_shares := bswap32 (co_cancelled_shares msg)\<rparr>)
      else if mt = ch CHR ''D'' then
        (let msg = load_delete_order bs
         in (fill_header mt msg slot)\<lparr>order_ref_number := bswap64 (do_order_ref_number msg)\<rparr>)
      else if mt = ch CHR ''U'' then
        (let msg = load_replace_order bs
         in (fill_header mt msg slot)\<lparr>order_ref_number := bswap64 (ro_original_order_ref_number msg),
              new_order_ref_number := bswap64 (ro_new_order_ref_number msg),
              ev_shares := bswap32 (ro_shares msg), ev_price := bswap32 (ro_price msg)\<rparr>)
      else if mt = ch CHR ''P'' then
        (let msg = load_trade_message_non_cross bs
         in (fill_header mt msg slot)\<lparr>order_ref_number := bswap64 (tn_order_ref_number msg),
              ev_side := side_of (tn_buy_sell_indicator msg), ev_shares := bswap32 (tn_shares msg),
              stock := tn_stock msg, ev_price := bswap32 (tn_price msg),
              match_number := bswap64 (tn_match_number msg)\<rparr>)
      else
        (let msg = load_trade_message_cross bs
         in (fill_header mt msg slot)\<lparr>ev_shares := ucast (bswap64 (tc_shares msg)), stock := tc_stock msg,
              ev_price := bswap32 (tc_cross_price msg), match_number := bswap64 (tc_match_number msg)\<rparr>))"

section \<open>next\<close>

datatype claim_result = Claimed "event ring" u32 | Shutdown "event ring" | Still_Full

text \<open>Each attempt sees the head the consumer has got to; a failed one looks at the flag.\<close>

primrec claim_spin :: "(u32 \<times> bool) list \<Rightarrow> event ring \<Rightarrow> claim_result" where
  "claim_spin [] r = Still_Full"
| "claim_spin (ob # obs) r =
     (let r = r\<lparr>r_head := fst ob\<rparr>
      in case try_claim CORE_RING_CAPACITY r of
           Some i \<Rightarrow> Claimed r i
         | None \<Rightarrow> if snd ob then Shutdown r else claim_spin obs r)"

datatype itch_next = Out_Of_Bounds | Spinning | Next itch_parser

definition parser_next :: "(u32 \<times> bool) list \<Rightarrow> u64 \<Rightarrow> itch_parser \<Rightarrow> itch_next" where
  "parser_next obs tsc p =
     (let c = ip_cursor p; data = ip_data p
      in case (read_bytes data c 2, read_bytes data (c + 2) 1) of
           (Some len_be, Some ty) \<Rightarrow>
             let frame_length = unat (bswap16 (le_word len_be)); msg_type = ty ! 0; p = p\<lparr>ip_cursor := c + 3\<rparr>
             in (case claim_spin obs (ip_ring p) of
                   Still_Full \<Rightarrow> Spinning
                 | Shutdown r \<Rightarrow> Next (p\<lparr>ip_ring := r\<rparr>)
                 | Claimed r i \<Rightarrow>
                     (case itch_size msg_type of
                        None \<Rightarrow> Next (p\<lparr>ip_ring := r, ip_cursor := c + 3 + frame_length - 1\<rparr>)
                      | Some n \<Rightarrow>
                          (case read_bytes data (c + 3 - 1) n of
                             None \<Rightarrow> Out_Of_Bounds
                           | Some bs \<Rightarrow>
                               let slot = (fill_slot msg_type bs (r_slots r i))\<lparr>ev_tsc_in := tsc\<rparr>
                               in Next (p\<lparr>ip_cursor := c + 3 + frame_length - 1,
                                    ip_ring := publish (slot_put i slot r)\<rparr>))))
         | _ \<Rightarrow> Out_Of_Bounds)"

end
