(* ===== verification/Itch_Wire.thy ===== *)
theory Itch_Wire
  imports Itch_Parser
begin

text \<open>
  The wire format the parser reads, as an encoder of abstract messages, and the parser's
  round trip with it: a mapped file of well-formed frames is parsed frame by frame, each call
  publishing the message's event (or skipping a message of another type), until the cursor
  stands at the end of the file.  Fields a message does not carry keep the slot's old value.
\<close>

section \<open>Messages and their encoding\<close>

text \<open>Each message starts with the stock locate, the tracking number and the time stamp.\<close>

datatype itch_msg =
    Msg_Add u16 u16 u64 u64 side u32 "u8 list" u32
  | Msg_Add_Mpid u16 u16 u64 u64 side u32 "u8 list" u32 "u8 list"
  | Msg_Exec u16 u16 u64 u64 u32 u64
  | Msg_Exec_Price u16 u16 u64 u64 u32 u64 u8 u32
  | Msg_Cancel u16 u16 u64 u64 u32
  | Msg_Delete u16 u16 u64 u64
  | Msg_Replace u16 u16 u64 u64 u64 u32 u32
  | Msg_Trade u16 u16 u64 u64 side u32 "u8 list" u32 u64
  | Msg_Cross u16 u16 u64 u64 "u8 list" u32 u64 u8
  | Msg_Other u8 "u8 list"

definition wire_header :: "u8 \<Rightarrow> u16 \<Rightarrow> u16 \<Rightarrow> u64 \<Rightarrow> u8 list" where
  "wire_header mt loc trk ts = mt # be_bytes 2 loc @ be_bytes 2 trk @ be_bytes 6 ts"

definition wire_side :: "side \<Rightarrow> u8" where
  "wire_side sd = (case sd of Buy \<Rightarrow> ch CHR ''B'' | Sell \<Rightarrow> ch CHR ''S'')"

fun encode_msg :: "itch_msg \<Rightarrow> u8 list" where
  "encode_msg (Msg_Add loc trk ts ref sd n st px) = wire_header (ch CHR ''A'') loc trk ts
     @ be_bytes 8 ref @ wire_side sd # be_bytes 4 n @ st @ be_bytes 4 px"
| "encode_msg (Msg_Add_Mpid loc trk ts ref sd n st px attr) = wire_header (ch CHR ''F'') loc trk ts
     @ be_bytes 8 ref @ wire_side sd # be_bytes 4 n @ st @ be_bytes 4 px @ attr"
| "encode_msg (Msg_Exec loc trk ts ref n mno) = wire_header (ch CHR ''E'') loc trk ts
     @ be_bytes 8 ref @ be_bytes 4 n @ be_bytes 8 mno"
| "encode_msg (Msg_Exec_Price loc trk ts ref n mno pr px) = wire_header (ch CHR ''C'') loc trk ts
     @ be_bytes 8 ref @ be_bytes 4 n @ be_bytes 8 mno @ pr # be_bytes 4 px"
| "encode_msg (Msg_Cancel loc trk ts ref n) = wire_header (ch CHR ''X'') loc trk ts
     @ be_bytes 8 ref @ be_bytes 4 n"
| "encode_msg (Msg_Delete loc trk ts ref) = wire_header (ch CHR ''D'') loc trk ts @ be_bytes 8 ref"
| "encode_msg (Msg_Replace loc trk ts ref new n px) = wire_header (ch CHR ''U'') loc trk ts
     @ be_bytes 8 ref @ be_bytes 8 new @ be_bytes 4 n @ be_bytes 4 px"
| "encode_msg (Msg_Trade loc trk ts ref sd n st px mno) = wire_header (ch CHR ''P'') loc trk ts
     @ be_bytes 8 ref @ wire_side sd # be_bytes 4 n @ st @ be_bytes 4 px @ be_bytes 8 mno"
| "encode_msg (Msg_Cross loc trk ts n st px mno ct) = wire_header (ch CHR ''Q'') loc trk ts
     @ be_bytes 8 n @ st @ be_bytes 4 px @ be_bytes 8 mno @ [ct]"
| "encode_msg (Msg_Other mt body) = mt # body"

definition encode_frame :: "itch_msg \<Rightarrow> u8 list" where
  "encode_frame m = be_bytes 2 (word_of_nat (length (encode_msg m)) :: u16) @ encode_msg m"

text \<open>Time stamps have 48 bits, tickers eight characters, and another type is not one of ours.\<close>

fun msg_ok :: "itch_msg \<Rightarrow> bool" where
  "msg_ok (Msg_Add loc trk ts ref sd n st px) \<longleftrightarrow> unat ts < 2 ^ 48 \<and> length st = 8"
| "msg_ok (Msg_Add_Mpid loc trk ts ref sd n st px attr) \<longleftrightarrow> unat ts < 2 ^ 48 \<and> length st = 8 \<and> length attr = 4"
| "msg_ok (Msg_Exec loc trk ts ref n mno) \<longleftrightarrow> unat ts < 2 ^ 48"
| "msg_ok (Msg_Exec_Price loc trk ts ref n mno pr px) \<longleftrightarrow> unat ts < 2 ^ 48"
| "msg_ok (Msg_Cancel loc trk ts ref n) \<longleftrightarrow> unat ts < 2 ^ 48"
| "msg_ok (Msg_Delete loc trk ts ref) \<longleftrightarrow> unat ts < 2 ^ 48"
| "msg_ok (Msg_Replace loc trk ts ref new n px) \<longleftrightarrow> unat ts < 2 ^ 48"
| "msg_ok (Msg_Trade loc trk ts ref sd n st px mno) \<longleftrightarrow> unat ts < 2 ^ 48 \<and> length st = 8"
| "msg_ok (Msg_Cross loc trk ts n st px mno ct) \<longleftrightarrow> unat ts < 2 ^ 48 \<and> length st = 8"
| "msg_ok (Msg_Other mt body) \<longleftrightarrow> itch_size mt = None \<and> length body + 1 < 2 ^ 16"

text \<open>The event of a message, over what the slot held before; \<open>None\<close> when it is skipped.\<close>

definition with_header :: "u8 \<Rightarrow> u16 \<Rightarrow> u16 \<Rightarrow> u64 \<Rightarrow> event \<Rightarrow> event" where
  "with_header mt loc trk ts old =
     old\<lparr>message_type := mt, stock_locate := loc, tracking_number := trk, timestamp := ts\<rparr>"

fun msg_event :: "itch_msg \<Rightarrow> event \<Rightarrow> event option" where
  "msg_event (Msg_Add loc trk ts ref sd n st px) old = Some ((with_header (ch CHR ''A'') loc trk ts old)
     \<lparr>order_ref_number := ref, ev_side := sd, ev_shares := n, stock := st, ev_price := px\<rparr>)"
| "msg_event (Msg_Add_Mpid loc trk ts ref sd n st px attr) old = Some ((with_header (ch CHR ''F'') loc trk ts old)
     \<lparr>order_ref_number := ref, ev_side := sd, ev_shares := n, stock := st, ev_price := px\<rparr>)"
| "msg_event (Msg_Exec loc trk ts ref n mno) old = Some ((with_header (ch CHR ''E'') loc trk ts old)
     \<lparr>order_ref_number := ref, ev_shares := n, match_number := mno\<rparr>)"
| "msg_event (Msg_Exec_Price loc trk ts ref n mno pr px) old = Some ((with_header (ch CHR ''C'') loc trk ts old)
     \<lparr>order_ref_number := ref, ev_shares := n, match_number := mno, ev_price := px\<rparr>)"
| "msg_event (Msg_Cancel loc trk ts ref n) old = Some ((with_header (ch CHR ''X'') loc trk ts old)
     \<lparr>order_ref_number := ref, ev_shares := n\<rparr>)"
| "msg_event (Msg_Delete loc trk ts ref) old = Some ((with_header (ch CHR ''D'') loc trk ts old)
     \<lparr>order_ref_number := ref\<rparr>)"
| "msg_event (Msg_Replace loc trk ts ref new n px) old = Some ((with_header (ch CHR ''U'') loc trk ts old)
     \<lparr>order_ref_number := ref, new_order_ref_number := new, ev_shares := n, ev_price := px\<rparr>)"
| "msg_event (Msg_Trade loc trk ts ref sd n st px mno) old = Some ((with_header (ch CHR ''P'') loc trk ts old)
     \<lparr>order_ref_number := ref, ev_side := sd, ev_shares := n, stock := st, ev_price := px, match_number := mno\<rparr>)"
| "msg_event (Msg_Cross loc trk ts n st px mno ct) old = Some ((with_header (ch CHR ''Q'') loc trk ts old)
     \<lparr>ev_shares := ucast n, stock := st, ev_price := px, match_number := mno\<rparr>)"
| "msg_event (Msg_Other mt body) old = None"

section \<open>One message\<close>

definition msg_type_of :: "itch_msg \<Rightarrow> u8" where
  "msg_type_of m = hd (encode_msg m)"

lemma le_word_one: "le_word [b] = (b :: u8)"
  by simp

lemma side_of_wire: "side_of (wire_side sd) = sd"
  by (cases sd) (simp_all add: side_of_def wire_side_def ch_def)

lemma encode_length:
  assumes "msg_ok m"
  shows "length (encode_msg m) < 2 ^ 16" and "encode_msg m \<noteq> []"
    and "itch_size (msg_type_of m) = (case m of Msg_Other _ _ \<Rightarrow> None | _ \<Rightarrow> Some (length (encode_msg m)))"
  using assms by (cases m; simp add: wire_header_def msg_type_of_def itch_size_def)+

lemmas field_simps_itch = field_def int_field_def byte_field_def wire_header_def drop_Cons' take_Cons'

lemma fill_slot_encode:
  assumes "msg_ok m" and "itch_size (msg_type_of m) \<noteq> None"
  shows "Some (fill_slot (msg_type_of m) (encode_msg m) old) = msg_event m old"
  using assms
  by (cases m) (simp_all add: msg_type_of_def fill_slot_def fill_add_def fill_exec_def fill_header_def
      load_defs with_header_def Let_def itch_size_def field_simps_itch bswap_be be48_be_bytes side_of_wire)

lemma msg_event_none: "msg_ok m \<Longrightarrow> msg_event m old = None \<longleftrightarrow> itch_size (msg_type_of m) = None"
  by (cases m) (simp_all add: msg_type_of_def itch_size_def wire_header_def)

lemma read_bytes_at: "read_bytes (pre @ bs @ rest) (length pre) (length bs) = Some bs"
  by (simp add: read_bytes_def)

text \<open>One call of \<open>next\<close> at the start of a frame.\<close>

lemma next_frame:
  assumes ok: "msg_ok m" and data: "ip_data p = pre @ encode_frame m @ rest" and cur: "ip_cursor p = length pre"
    and claim: "claim_spin obs (ip_ring p) = Claimed r i"
  shows "parser_next obs tsc p = Next (p\<lparr>ip_cursor := length (pre @ encode_frame m),
    ip_ring := (case msg_event m (r_slots r i) of None \<Rightarrow> r
                | Some ev \<Rightarrow> publish (slot_put i (ev\<lparr>ev_tsc_in := tsc\<rparr>) r))\<rparr>)"
proof -
  let ?n = "length (encode_msg m)" and ?L = "be_bytes 2 (word_of_nat (length (encode_msg m)) :: u16)"
  note len = encode_length [OF ok]
  obtain b bs where b: "encode_msg m = b # bs" using len(2) by (cases "encode_msg m") auto
  have mt: "msg_type_of m = b" by (simp add: msg_type_of_def b)
  have d: "ip_data p = pre @ ?L @ encode_msg m @ rest" using data by (simp add: encode_frame_def)
  have r1: "read_bytes (ip_data p) (length pre) 2 = Some ?L"
    using read_bytes_at [of pre ?L "encode_msg m @ rest"] by (simp add: d)
  have r2: "read_bytes (ip_data p) (length pre + 2) 1 = Some [b]"
    using read_bytes_at [of "pre @ ?L" "[b]" "bs @ rest"] by (simp add: d b)
  have r3: "read_bytes (ip_data p) (length pre + 3 - 1) ?n = Some (encode_msg m)"
    using read_bytes_at [of "pre @ ?L" "encode_msg m" rest] by (simp add: d)
  have fl: "unat (bswap16 (le_word ?L)) = ?n"
    using len(1) by (simp add: bswap_be unat_of_nat)
  have c: "length pre + 3 + ?n - 1 = length (pre @ encode_frame m)" by (simp add: encode_frame_def)
  show ?thesis
  proof (cases "itch_size b")
    case None
    then have "msg_event m (r_slots r i) = None" using msg_event_none [OF ok] mt by simp
    then show ?thesis using None c [symmetric]
      by (simp add: parser_next_def Let_def cur r1 r2 [simplified] fl claim)
  next
    case (Some n)
    then have n: "n = ?n" using len(3) mt by (cases m) auto
    have "msg_event m (r_slots r i) = Some (fill_slot b (encode_msg m) (r_slots r i))"
      using fill_slot_encode [OF ok] mt Some by simp
    then show ?thesis using Some r3 [simplified] c [symmetric]
      by (simp add: parser_next_def Let_def cur r1 r2 [simplified] fl claim n)
  qed
qed

section \<open>A whole file\<close>

text \<open>The event a call published, if any: the slot at the tail it moved.\<close>

definition published_by :: "itch_parser \<Rightarrow> itch_parser \<Rightarrow> event option" where
  "published_by p p' = (if r_tail (ip_ring p') = r_tail (ip_ring p) then None
     else Some (r_slots (ip_ring p') (r_tail (ip_ring p) AND (CORE_RING_CAPACITY - 1))))"

text \<open>The loop of \<open>exchange_main\<close>, by what its calls see; the events published, in order.\<close>

primrec parser_run :: "((u32 \<times> bool) list \<times> u64) list \<Rightarrow> itch_parser \<Rightarrow> (event list \<times> itch_parser) option" where
  "parser_run [] p = Some ([], p)"
| "parser_run (x # xs) p = (case parser_next (fst x) (snd x) p of
     Next p' \<Rightarrow> map_option (\<lambda>(evs, q). ((case published_by p p' of None \<Rightarrow> evs | Some e \<Rightarrow> e # evs), q))
       (parser_run xs p')
   | _ \<Rightarrow> None)"

text \<open>The consumer makes room in time: every call's spin ends with a claimed slot.\<close>

primrec makes_room :: "((u32 \<times> bool) list \<times> u64) list \<Rightarrow> itch_parser \<Rightarrow> bool" where
  "makes_room [] p \<longleftrightarrow> True"
| "makes_room (x # xs) p \<longleftrightarrow> (case claim_spin (fst x) (ip_ring p) of Claimed _ _ \<Rightarrow> True | _ \<Rightarrow> False)
     \<and> (case parser_next (fst x) (snd x) p of Next p' \<Rightarrow> makes_room xs p' | _ \<Rightarrow> True)"

text \<open>An event carries a message when it is the message's event over some old slot content.\<close>

definition carries :: "itch_msg \<Rightarrow> event \<Rightarrow> bool" where
  "carries m ev \<longleftrightarrow> (\<exists>old tsc e. msg_event m old = Some e \<and> ev = e\<lparr>ev_tsc_in := tsc\<rparr>)"

definition is_event_msg :: "itch_msg \<Rightarrow> bool" where
  "is_event_msg m = (case m of Msg_Other _ _ \<Rightarrow> False | _ \<Rightarrow> True)"

lemma msg_event_some: "is_event_msg m \<longleftrightarrow> (\<exists>e. msg_event m old = Some e)"
  by (cases m) (simp_all add: is_event_msg_def)

lemma claim_spin_slot:
  "claim_spin obs r = Claimed r' i \<Longrightarrow> i = r_tail r AND (CORE_RING_CAPACITY - 1) \<and> r_tail r' = r_tail r"
proof (induction obs arbitrary: r)
  case (Cons ob obs)
  show ?case
  proof (cases "try_claim CORE_RING_CAPACITY (r\<lparr>r_head := fst ob\<rparr>)")
    case None
    then show ?thesis using Cons.prems Cons.IH [of "r\<lparr>r_head := fst ob\<rparr>"] by (auto simp: Let_def split: if_splits)
  next
    case (Some j)
    then show ?thesis using Cons.prems by (auto simp: try_claim_def Let_def split: if_splits)
  qed
qed simp

lemma parser_run_from:
  assumes "list_all msg_ok msgs" and "length xs = length msgs" and "makes_room xs p"
    and "ip_data p = pre @ concat (map encode_frame msgs)" and "ip_cursor p = length pre"
  shows "\<exists>evs q. parser_run xs p = Some (evs, q) \<and> ip_cursor q = length (ip_data q) \<and> ip_data q = ip_data p
    \<and> list_all2 carries (filter is_event_msg msgs) evs"
  using assms
proof (induction msgs arbitrary: xs p pre)
  case (Cons m msgs)
  then obtain x xs' where xs: "xs = x # xs'" "length xs' = length msgs" by (cases xs) auto
  from Cons.prems(3) xs obtain r i where claim: "claim_spin (fst x) (ip_ring p) = Claimed r i"
    by (auto split: claim_result.splits)
  note slot = claim_spin_slot [OF claim]
  let ?ring = "case msg_event m (r_slots r i) of None \<Rightarrow> r
    | Some ev \<Rightarrow> publish (slot_put i (ev\<lparr>ev_tsc_in := snd x\<rparr>) r)"
  let ?p = "p\<lparr>ip_cursor := length (pre @ encode_frame m), ip_ring := ?ring\<rparr>"
  have step: "parser_next (fst x) (snd x) p = Next ?p"
    using next_frame [OF _ _ Cons.prems(5) claim, of m "concat (map encode_frame msgs)" "snd x"] Cons.prems(1,4)
    by simp
  then have room: "makes_room xs' ?p" using Cons.prems(3) xs by simp
  have "\<exists>evs q. parser_run xs' ?p = Some (evs, q) \<and> ip_cursor q = length (ip_data q) \<and> ip_data q = ip_data ?p
    \<and> list_all2 carries (filter is_event_msg msgs) evs"
    by (rule Cons.IH [where pre = "pre @ encode_frame m"]) (use Cons.prems(1,4) xs(2) room in simp_all)
  then obtain evs q where run: "parser_run xs' ?p = Some (evs, q)" "ip_cursor q = length (ip_data q)"
    "ip_data q = ip_data p" "list_all2 carries (filter is_event_msg msgs) evs" by auto
  show ?case
  proof (cases "msg_event m (r_slots r i)")
    case None
    then have "published_by p ?p = None" "\<not> is_event_msg m"
      using slot msg_event_some [of m "r_slots r i"] by (simp_all add: published_by_def)
    then show ?thesis using run xs step None by simp
  next
    case (Some e)
    have "(1 :: u32) \<noteq> 0" by simp
    then have "published_by p ?p = Some (e\<lparr>ev_tsc_in := snd x\<rparr>)" and "is_event_msg m"
      using slot Some msg_event_some [of m "r_slots r i"]
      by (simp_all add: published_by_def publish_def slot_put_def)
    moreover have "carries m (e\<lparr>ev_tsc_in := snd x\<rparr>)" using Some unfolding carries_def by blast
    ultimately show ?thesis using run xs step Some by simp
  qed
qed simp

end
