(* ===== verification/Wire_To_Book.thy ===== *)
theory Wire_To_Book
  imports Core_Properties Itch_Wire
begin

text \<open>
  The exchange process and core together.  A slot of the ring keeps the fields of an older
  event where the new message has none; core never reads those, so the books built from the
  published events are those of the messages.
\<close>

definition blank_event :: event where
  "blank_event = \<lparr>message_type = 0, stock_locate = 0, tracking_number = 0, timestamp = 0,
     order_ref_number = 0, ev_side = Sell, ev_shares = 0, stock = [], ev_price = 0, match_number = 0,
     new_order_ref_number = 0, ev_tsc_in = 0\<rparr>"

definition clean_event :: "itch_msg \<Rightarrow> event" where
  "clean_event m = (case msg_event m blank_event of Some e \<Rightarrow> e | None \<Rightarrow> blank_event)"

lemma feed_apply_cong:
  assumes "message_type ev = message_type ev'" "stock_locate ev = stock_locate ev'"
    and "is_add ev' \<Longrightarrow> stock ev = stock ev' \<and> ev_price ev = ev_price ev'"
    and "\<And>x. book_switch ev t x = book_switch ev' t x"
  shows "feed_apply ev t f = feed_apply ev' t f"
proof -
  have add: "is_add ev = is_add ev'" using assms(1) by (simp add: is_add_def)
  have sw: "book_switch ev t = book_switch ev' t" by (rule ext) (rule assms(4))
  show ?thesis
  proof (cases "is_add ev'")
    case True
    note eq = assms(3) [OF True]
    show ?thesis
      unfolding feed_apply_def add sw assms(2) eq [THEN conjunct1] eq [THEN conjunct2] ..
  next
    case False
    then show ?thesis unfolding feed_apply_def add sw assms(2) by simp
  qed
qed

lemma feed_apply_carries:
  assumes "carries m ev"
  shows "feed_apply ev t f = feed_apply (clean_event m) t f"
proof -
  obtain old tsc e where e: "msg_event m old = Some e" "ev = e\<lparr>ev_tsc_in := tsc\<rparr>"
    using assms unfolding carries_def by blast
  show ?thesis
  proof (rule feed_apply_cong)
    show "message_type ev = message_type (clean_event m)" "stock_locate ev = stock_locate (clean_event m)"
      using e by (cases m; force simp: clean_event_def with_header_def)+
    show "stock ev = stock (clean_event m) \<and> ev_price ev = ev_price (clean_event m)" if "is_add (clean_event m)"
      using e that by (cases m) (auto simp: clean_event_def with_header_def is_add_def)
    show "book_switch ev t x = book_switch (clean_event m) t x" for x
      using e by (cases m; cases x) (auto simp: clean_event_def with_header_def book_switch_def Let_def)
  qed
qed

lemma feed_run_carries:
  "list_all2 carries ms evs \<Longrightarrow> feed_run evs f = feed_run (map clean_event ms) f"
  by (induction ms evs arbitrary: f rule: list_all2_induct)
    (simp_all add: feed_apply_carries split: option.splits)

section \<open>Properties\<close>

text \<open>
  C13.  Parsing the mapped file of any well-formed ITCH messages publishes exactly one event per
  order, trade or cross message, in order and with the message's field values in host order,
  skips every other message, and ends with the cursor at the end of the file.
\<close>

theorem itch_round_trip:
  assumes "list_all msg_ok msgs" and "length xs = length msgs"
    and "makes_room xs \<lparr>ip_data = concat (map encode_frame msgs), ip_cursor = 0, ip_ring = r\<rparr>"
  shows "\<exists>evs q. parser_run xs \<lparr>ip_data = concat (map encode_frame msgs), ip_cursor = 0, ip_ring = r\<rparr> = Some (evs, q)
    \<and> itch_done q \<and> list_all2 carries (filter is_event_msg msgs) evs"
  using parser_run_from [OF assms, of "[]"] by (auto simp: itch_done_def)

text \<open>An add, a system event to skip and a delete, into an empty ring.\<close>

definition sample_msgs :: "itch_msg list" where
  "sample_msgs = [Msg_Add 7 0 1 1 Buy 100 TQQQ 500000, Msg_Other 83 [0, 0], Msg_Delete 7 0 2 1]"

definition sample_ring :: "event ring" where
  "sample_ring = ring_new (\<lambda>_. blank_event)"

lemma sample_msgs_ok: "list_all msg_ok sample_msgs"
  by (simp add: sample_msgs_def itch_size_def TQQQ_def)

lemma sample_room:
  "makes_room (replicate 3 ([(0, False)], 0))
    \<lparr>ip_data = concat (map encode_frame sample_msgs), ip_cursor = 0, ip_ring = sample_ring\<rparr>"
  by code_simp

lemma itch_round_trip_witness:
  "\<exists>e1 e2 q. parser_run (replicate 3 ([(0, False)], 0))
      \<lparr>ip_data = concat (map encode_frame sample_msgs), ip_cursor = 0, ip_ring = sample_ring\<rparr> = Some ([e1, e2], q)
    \<and> itch_done q \<and> message_type e1 = 65 \<and> ev_price e1 = 500000 \<and> message_type e2 = 68 \<and> order_ref_number e2 = 1"
proof -
  have flt: "filter is_event_msg sample_msgs = [Msg_Add 7 0 1 1 Buy 100 TQQQ 500000, Msg_Delete 7 0 2 1]"
    by (simp add: sample_msgs_def is_event_msg_def)
  have "length (replicate 3 ([(0 :: u32, False)], 0 :: u64)) = length sample_msgs" by (simp add: sample_msgs_def)
  from itch_round_trip [OF sample_msgs_ok this sample_room] obtain evs q where
    run: "parser_run (replicate 3 ([(0, False)], 0))
      \<lparr>ip_data = concat (map encode_frame sample_msgs), ip_cursor = 0, ip_ring = sample_ring\<rparr> = Some (evs, q)"
    "itch_done q" and all: "list_all2 carries [Msg_Add 7 0 1 1 Buy 100 TQQQ 500000, Msg_Delete 7 0 2 1] evs"
    unfolding flt by blast
  from all obtain e1 e2 where evs: "evs = [e1, e2]" and "carries (Msg_Add 7 0 1 1 Buy 100 TQQQ 500000) e1"
    "carries (Msg_Delete 7 0 2 1) e2" by (auto simp: list_all2_Cons1)
  then have "message_type e1 = 65 \<and> ev_price e1 = 500000" "message_type e2 = 68 \<and> order_ref_number e2 = 1"
    by (auto simp: carries_def with_header_def)
  with run evs show ?thesis by blast
qed

text \<open>
  From the wire to the book: parsing a file of well-formed messages whose events are a
  legal stream, and applying the published events, leaves exactly the abstract books of the
  messages, whatever the ring's slots held before.
\<close>

theorem wire_to_books:
  assumes "list_all msg_ok msgs" and "length xs = length msgs"
    and "makes_room xs \<lparr>ip_data = concat (map encode_frame msgs), ip_cursor = 0, ip_ring = r\<rparr>"
    and "legal_feed symbol (map clean_event (filter is_event_msg msgs)) Map.empty"
  shows "\<exists>evs q f. parser_run xs \<lparr>ip_data = concat (map encode_frame msgs), ip_cursor = 0, ip_ring = r\<rparr> = Some (evs, q)
    \<and> feed_run evs (feed_new symbol) = Some f \<and> feed_inv f
    \<and> abs_books f = fold (spec_feed symbol) (map clean_event (filter is_event_msg msgs)) Map.empty"
proof -
  obtain evs q where p: "parser_run xs \<lparr>ip_data = concat (map encode_frame msgs), ip_cursor = 0, ip_ring = r\<rparr> = Some (evs, q)"
    "list_all2 carries (filter is_event_msg msgs) evs"
    using parser_run_from [OF assms(1-3), of "[]"] by auto
  show ?thesis
    using feed_run_sound [OF feed_new_inv(1), of symbol "map clean_event (filter is_event_msg msgs)"] assms(4)
      feed_run_carries [OF p(2), of "feed_new symbol"] p(1)
    by (auto simp: feed_new_inv)
qed

lemma wire_to_books_witness:
  "\<exists>evs q f. parser_run (replicate 3 ([(0, False)], 0))
      \<lparr>ip_data = concat (map encode_frame sample_msgs), ip_cursor = 0, ip_ring = sample_ring\<rparr> = Some (evs, q)
    \<and> feed_run evs (feed_new TQQQ) = Some f \<and> abs_books f = [7 \<mapsto> (0, Map.empty)]"
proof -
  have clean: "map clean_event (filter is_event_msg sample_msgs) =
    [clean_event (Msg_Add 7 0 1 1 Buy 100 TQQQ 500000), clean_event (Msg_Delete 7 0 2 1)]"
    by (simp add: sample_msgs_def is_event_msg_def)
  have legal: "legal_feed TQQQ (map clean_event (filter is_event_msg sample_msgs)) Map.empty"
    unfolding clean
    by (simp add: clean_event_def with_header_def blank_event_def legal_event_def legal_book_def spec_feed_def
        spec_book_def is_add_def in_window_def first_base_def spec_add_def spec_delete_def Let_def)
  have fold: "fold (spec_feed TQQQ) (map clean_event (filter is_event_msg sample_msgs)) Map.empty = [7 \<mapsto> (0, Map.empty)]"
    unfolding clean
    by (simp add: clean_event_def with_header_def blank_event_def spec_feed_def
        spec_book_def is_add_def in_window_def first_base_def spec_add_def spec_delete_def Let_def)
  show ?thesis
    using wire_to_books [OF sample_msgs_ok _ sample_room legal] unfolding fold
    by (auto simp: sample_msgs_def [THEN arg_cong, of length])
qed

end
