(* ===== verification/Order_Msgs.thy ===== *)
theory Order_Msgs
  imports Events
begin

text \<open>
  \<open>src/common/ipc/order_msgs.hpp\<close>: the requests exec sends to a venue gateway and the
  reports it gets back.  Prices, quantities and money are \<open>int64_t\<close> in the program and
  integers here; conversions that narrow a wider value to 64 bits are written out where the
  code makes them (\<open>to_i64\<close>), while overflow of signed arithmetic is undefined behaviour
  and not a behaviour of the model.  The padding fields are left out.
\<close>

definition to_i64 :: "int \<Rightarrow> int" where
  "to_i64 v = signed_take_bit 63 v"

lemma to_i64_id: "- (2 ^ 63) \<le> v \<Longrightarrow> v < 2 ^ 63 \<Longrightarrow> to_i64 v = v"
  by (simp add: to_i64_def signed_take_bit_int_eq_self)

text \<open>Signed division of C++ truncates toward zero.\<close>

definition cdiv :: "int \<Rightarrow> int \<Rightarrow> int" where
  "cdiv a b = sgn a * sgn b * (\<bar>a\<bar> div \<bar>b\<bar>)"

datatype req_type = Req_New | Req_Cancel | Req_Replace | Req_Cancel_All
datatype ord_type = Limit | Market
datatype tif = GTC | IOC | FOK | Post_Only

record order_request =
  rq_cl_ord_id :: u64
  rq_orig_cl_ord_id :: u64
  rq_tsc_decision :: u64
  rq_strategy_tag :: u64
  rq_price :: int
  rq_qty :: int
  rq_instrument :: u16
  rq_type :: req_type
  rq_side :: side
  rq_ord_type :: ord_type
  rq_tif :: tif
  rq_flags :: u8

datatype exec_type =
    Ex_Ack | Ex_Reject | Ex_Partial_Fill | Ex_Fill | Ex_Canceled | Ex_Cancel_Reject
  | Ex_Replaced | Ex_Expired | Ex_Restated

datatype ord_status =
    St_Pending_New | St_New | St_Partially_Filled | St_Filled | St_Canceled | St_Rejected | St_Expired

record exec_report =
  rp_cl_ord_id :: u64
  rp_orig_cl_ord_id :: u64
  rp_strategy_tag :: u64
  rp_tsc_sent :: u64
  rp_tsc_recv :: u64
  rp_venue_ts_ns :: u64
  rp_last_px :: int
  rp_last_qty :: int
  rp_cum_qty :: int
  rp_leaves_qty :: int
  rp_fee :: int
  rp_instrument :: u16
  rp_exec_type :: exec_type
  rp_ord_status :: ord_status
  rp_liquidity :: u8
  rp_reject_reason :: u8
  rp_fee_ccy :: u8
  rp_venue_order_id :: string

lemma cdiv_mult_self: "b \<noteq> 0 \<Longrightarrow> cdiv (a * b) b = a"
proof -
  assume b: "b \<noteq> 0"
  then have "sgn b * sgn b = 1" by (simp add: sgn_if)
  then have "cdiv (a * b) b = sgn a * \<bar>a\<bar>"
    using b by (simp add: cdiv_def abs_mult sgn_mult mult.assoc)
  then show ?thesis by (simp add: sgn_mult_abs)
qed

lemma cdiv_zero [simp]: "cdiv 0 b = 0"
  by (simp add: cdiv_def)

lemma cdiv_minus: "cdiv (- a) b = - cdiv a b"
  by (simp add: cdiv_def sgn_minus)

lemma cdiv_nonneg: "0 \<le> a \<Longrightarrow> 0 \<le> b \<Longrightarrow> cdiv a b = a div b"
  by (cases "a = 0"; cases "b = 0") (simp_all add: cdiv_def)

lemma cdiv_bounds: "0 \<le> a \<Longrightarrow> 0 < b \<Longrightarrow> 0 \<le> cdiv a b \<and> cdiv a b * b \<le> a"
  by (simp add: cdiv_nonneg pos_imp_zdiv_nonneg_iff mult.commute)
    (metis minus_mod_eq_mult_div mult.commute diff_ge_0_iff_ge add.commute diff_add_cancel
      le_add_same_cancel1 pos_mod_sign)

end
