(* ===== verification/Instrument.thy ===== *)
theory Instrument
  imports Prelude
begin

text \<open>
  \<open>src/common/ipc/instrument.hpp\<close>: the reference data of an instrument and the append-only
  table of instruments.  \<open>char\<close> arrays hold C strings, here the characters before the
  terminator or all of the array.  One writer appends at start-up, so the atomic count is a
  plain field.
\<close>

datatype instrument_status = ONLINE | POST_ONLY | LIMIT_ONLY | CANCEL_ONLY | HALTED

record instrument =
  in_tick_mant :: int
  in_lot_mant :: int
  in_min_qty_lots :: int
  in_min_notional :: int
  in_symbol :: string
  in_venue :: string
  in_tick_exp :: int
  in_lot_exp :: int
  in_price_precision :: u8
  in_qty_precision :: u8
  in_status :: instrument_status

definition MAX_INSTRUMENTS :: u32 where "MAX_INSTRUMENTS = 256"
definition INVALID_INSTRUMENT :: u16 where "INVALID_INSTRUMENT = 65535"

record instrument_table =
  it_count :: u32
  it_rows :: "u32 \<Rightarrow> instrument"

definition it_add :: "instrument_table \<Rightarrow> instrument \<Rightarrow> u16 \<times> instrument_table" where
  "it_add t row =
     (let n = it_count t
      in if MAX_INSTRUMENTS \<le> n then (INVALID_INSTRUMENT, t)
         else (ucast n, t\<lparr>it_rows := (it_rows t)(n := row), it_count := n + 1\<rparr>))"

text \<open>\<open>strncmp(a, b, n) == 0\<close> on C strings.\<close>

definition same_prefix :: "nat \<Rightarrow> string \<Rightarrow> string \<Rightarrow> bool" where
  "same_prefix n a b \<longleftrightarrow> take n a = take n b"

function it_find_from :: "instrument_table \<Rightarrow> string \<Rightarrow> string \<Rightarrow> u32 \<Rightarrow> u16" where
  "it_find_from t symbol venue i =
     (if it_count t \<le> i then INVALID_INSTRUMENT
      else if same_prefix 16 (in_symbol (it_rows t i)) symbol \<and> same_prefix 8 (in_venue (it_rows t i)) venue
      then ucast i
      else it_find_from t symbol venue (i + 1))"
  by pat_completeness auto
termination
proof (relation "measure (\<lambda>(t, _, _, i). unat (it_count t) - unat i)", goal_cases)
  case (2 t symbol venue i)
  then have lt: "unat i < unat (it_count t)" by (simp add: word_le_nat_alt)
  then have "unat i + 1 < 2 ^ 32" using unat_u32_less [of "it_count t"] by simp
  from unat_Suc_no_wrap [OF this] lt show ?case by simp
qed simp

declare it_find_from.simps [simp del]

definition it_find :: "instrument_table \<Rightarrow> string \<Rightarrow> string \<Rightarrow> u16" where
  "it_find t symbol venue = it_find_from t symbol venue 0"

definition it_inv :: "instrument_table \<Rightarrow> bool" where
  "it_inv t \<longleftrightarrow> it_count t \<le> MAX_INSTRUMENTS"

text \<open>The rows as a list, in the order they were added.\<close>

definition it_list :: "instrument_table \<Rightarrow> instrument list" where
  "it_list t = map (\<lambda>i. it_rows t (word_of_nat i)) [0..<unat (it_count t)]"

definition names_match :: "string \<Rightarrow> string \<Rightarrow> instrument \<Rightarrow> bool" where
  "names_match symbol venue row \<longleftrightarrow> same_prefix 16 (in_symbol row) symbol \<and> same_prefix 8 (in_venue row) venue"

lemma it_add_sound:
  assumes "it_inv t" and "it_add t row = (i, t')"
  shows "it_inv t'"
    and "if length (it_list t) < 256 then unat i = length (it_list t) \<and> it_list t' = it_list t @ [row]
         else i = INVALID_INSTRUMENT \<and> t' = t"
proof -
  have n: "unat (it_count t) \<le> 256" using assms(1) by (simp add: it_inv_def MAX_INSTRUMENTS_def word_le_nat_alt)
  have len: "length (it_list t) = unat (it_count t)" by (simp add: it_list_def)
  have "it_inv t' \<and> (if length (it_list t) < 256 then unat i = length (it_list t) \<and> it_list t' = it_list t @ [row]
         else i = INVALID_INSTRUMENT \<and> t' = t)"
  proof (cases "unat (it_count t) < 256")
    case True
    then have "\<not> MAX_INSTRUMENTS \<le> it_count t" by (simp add: MAX_INSTRUMENTS_def word_le_nat_alt)
    with assms(2) have i: "i = ucast (it_count t)"
      and t': "t' = t\<lparr>it_rows := (it_rows t)(it_count t := row), it_count := it_count t + 1\<rparr>"
      by (auto simp: it_add_def Let_def)
    have suc: "unat (it_count t + 1) = unat (it_count t) + 1" using True by (intro unat_Suc_no_wrap) simp
    have ui: "unat i = unat (it_count t)" using True by (simp add: i unsigned_ucast_eq take_bit_nat_eq_self)
    have neq: "word_of_nat j \<noteq> it_count t" if "j < unat (it_count t)" for j
      using that True by (metis less_irrefl unat_of_nat_u32 unat_u32_less less_trans)
    have "it_list t' = it_list t @ [row]"
      using neq unfolding it_list_def t' by (auto simp: suc)
    moreover have "it_inv t'"
      unfolding it_inv_def t' using True by (simp add: MAX_INSTRUMENTS_def word_le_nat_alt suc)
    ultimately show ?thesis using True ui len by simp
  next
    case False
    then have "MAX_INSTRUMENTS \<le> it_count t" by (simp add: MAX_INSTRUMENTS_def word_le_nat_alt)
    with assms False len show ?thesis by (auto simp: it_add_def)
  qed
  then show "it_inv t'" and "if length (it_list t) < 256 then unat i = length (it_list t) \<and> it_list t' = it_list t @ [row]
         else i = INVALID_INSTRUMENT \<and> t' = t" by simp_all
qed

lemma it_find_from_sound:
  assumes "unat (it_count t) \<le> 256" and "n \<le> unat (it_count t)"
  shows "it_find_from t symbol venue (word_of_nat n) =
    (case List.find (\<lambda>i. names_match symbol venue (it_rows t (word_of_nat i))) [n..<unat (it_count t)] of
       None \<Rightarrow> INVALID_INSTRUMENT | Some i \<Rightarrow> word_of_nat i)"
  using assms(2)
proof (induction "unat (it_count t) - n" arbitrary: n)
  case 0
  with assms have "n = unat (it_count t)" by simp
  then have "word_of_nat n = it_count t" by simp
  with 0 show ?case by (subst it_find_from.simps) simp
next
  case (Suc m)
  then have n: "n < unat (it_count t)" by simp
  then have "unat (word_of_nat n :: u32) = n" using assms by (intro unat_of_nat_u32) simp
  then have le: "\<not> it_count t \<le> word_of_nat n" and uc: "ucast (word_of_nat n :: u32) = (word_of_nat n :: u16)"
    using n by (simp_all add: word_le_nat_alt word_unat_eq_iff unsigned_ucast_eq unat_of_nat take_bit_nat_def)
  have IH: "it_find_from t symbol venue (word_of_nat (Suc n)) =
    (case List.find (\<lambda>i. names_match symbol venue (it_rows t (word_of_nat i))) [Suc n..<unat (it_count t)] of
       None \<Rightarrow> INVALID_INSTRUMENT | Some i \<Rightarrow> word_of_nat i)"
    using Suc.hyps(2) n by (intro Suc.hyps(1)) simp_all
  have "it_find_from t symbol venue (word_of_nat n) =
    (if names_match symbol venue (it_rows t (word_of_nat n)) then word_of_nat n
     else it_find_from t symbol venue (word_of_nat (Suc n)))"
    by (subst it_find_from.simps) (simp add: le uc names_match_def add.commute)
  with IH n show ?case by (simp add: upt_conv_Cons)
qed

end
