(* ===== verification/Account.thy ===== *)
theory Account
  imports Order_Msgs Instrument Market_Update
begin

text \<open>
  \<open>Account\<close> of \<open>src/exec/account.hpp\<close>: positions, profit and loss and spot balances of the
  instruments exec trades.  Money, lots, ticks and the 128-bit products are integers; the
  conversions from \<open>__int128\<close> to \<open>int64_t\<close> are \<open>to_i64\<close>, and \<open>/\<close> is the truncating \<open>cdiv\<close>.
  The used prefixes of the arrays \<open>inst_\<close> and \<open>bal_\<close> are lists; \<open>NO_SLOT\<close> is \<open>None\<close>.
\<close>

definition MAX_TRADED :: nat where "MAX_TRADED = 16"
definition MAX_ASSETS :: nat where "MAX_ASSETS = 16"

section \<open>State\<close>

record position =
  ps_qty :: int
  ps_cost :: int
  ps_realized :: int
  ps_fees :: int
  ps_bought :: int
  ps_sold :: int
  ps_mark2 :: int
  ps_fills :: u32

definition flat :: position where
  "flat = \<lparr>ps_qty = 0, ps_cost = 0, ps_realized = 0, ps_fees = 0, ps_bought = 0, ps_sold = 0,
     ps_mark2 = 0, ps_fills = 0\<rparr>"

record balance =
  bl_name :: string
  bl_total :: int
  bl_reserved :: int

definition available :: "balance \<Rightarrow> int" where
  "available b = bl_total b - bl_reserved b"

record traded =
  tr_id :: u16
  tr_base :: nat
  tr_quote :: nat
  tr_tl_exp :: int
  tr_tl_mul :: int
  tr_base_per_lot :: int
  tr_pos :: position

record account =
  ac_slot_of :: "u16 \<Rightarrow> nat option"
  ac_inst :: "traded list"
  ac_bal :: "balance list"
  ac_peak :: int
  ac_max_dd :: int

definition acct_new :: account where
  "acct_new = \<lparr>ac_slot_of = (\<lambda>_. None), ac_inst = [], ac_bal = [], ac_peak = 0, ac_max_dd = 0\<rparr>"

section \<open>Instruments and assets\<close>

fun pow10_i128 :: "int \<Rightarrow> int" where
  "pow10_i128 e = (if 0 < e then 10 * pow10_i128 (e - 1) else 1)"

declare pow10_i128.simps [simp del]

text \<open>\<open>strpbrk(symbol, "/-")\<close> and the copies into two eight-byte buffers.\<close>

definition is_sep :: "char \<Rightarrow> bool" where
  "is_sep c \<longleftrightarrow> c = CHR ''/'' \<or> c = CHR ''-''"

definition split_symbol :: "string \<Rightarrow> string \<times> string" where
  "split_symbol symbol =
     (let bl = length (takeWhile (\<lambda>c. \<not> is_sep c) symbol)
      in if bl = length symbol then (take 7 symbol, ''USD'')
         else (take (if bl < 7 then bl else 7) symbol, take 7 (drop (bl + 1) symbol)))"

definition acct_asset :: "string \<Rightarrow> account \<Rightarrow> nat option \<times> account" where
  "acct_asset name a =
     (case List.find (\<lambda>i. same_prefix 8 (bl_name (ac_bal a ! i)) name) [0..<length (ac_bal a)] of
        Some i \<Rightarrow> (Some i, a)
      | None \<Rightarrow>
          if length (ac_bal a) = MAX_ASSETS then (None, a)
          else (Some (length (ac_bal a)),
                a\<lparr>ac_bal := ac_bal a @ [\<lparr>bl_name = take 7 name, bl_total = 0, bl_reserved = 0\<rparr>]\<rparr>))"

definition set_balance :: "string \<Rightarrow> int \<Rightarrow> account \<Rightarrow> account" where
  "set_balance name amount a =
     (case acct_asset name a of
        (None, a) \<Rightarrow> a
      | (Some i, a) \<Rightarrow> a\<lparr>ac_bal := (ac_bal a)[i := (ac_bal a ! i)\<lparr>bl_total := amount\<rparr>]\<rparr>)"

definition add_instrument :: "u16 \<Rightarrow> instrument \<Rightarrow> account \<Rightarrow> bool \<times> account" where
  "add_instrument i row a =
     (if ac_slot_of a i \<noteq> None then (True, a)
      else if length (ac_inst a) = MAX_TRADED then (False, a)
      else let (base, quot) = split_symbol (in_symbol row);
               (b, a) = acct_asset base a; (q, a) = acct_asset quot a
           in case (b, q) of
                (Some b, Some q) \<Rightarrow>
                  (True, a\<lparr>ac_slot_of := (ac_slot_of a)(i := Some (length (ac_inst a))),
                     ac_inst := ac_inst a @ [\<lparr>tr_id = i, tr_base = b, tr_quote = q,
                       tr_tl_exp = in_tick_exp row + in_lot_exp row + 8,
                       tr_tl_mul = in_tick_mant row * in_lot_mant row,
                       tr_base_per_lot = to_i64 (in_lot_mant row * pow10_i128 (in_lot_exp row + 8)),
                       tr_pos = flat\<rparr>]\<rparr>)
              | _ \<Rightarrow> (False, a))"

definition trades :: "account \<Rightarrow> u16 \<Rightarrow> bool" where
  "trades a i \<longleftrightarrow> ac_slot_of a i \<noteq> None"

text \<open>\<open>in(inst)\<close>; every caller passes a traded instrument.\<close>

definition slot_no_of :: "account \<Rightarrow> u16 \<Rightarrow> nat" where
  "slot_no_of a i = the (ac_slot_of a i)"

definition acct_in :: "account \<Rightarrow> u16 \<Rightarrow> traded" where
  "acct_in a i = ac_inst a ! slot_no_of a i"

section \<open>Money\<close>

definition tl_to_money :: "traded \<Rightarrow> int \<Rightarrow> int" where
  "tl_to_money i tick_lots =
     (let v = tick_lots * tr_tl_mul i
      in if 0 \<le> tr_tl_exp i then to_i64 (v * pow10_i128 (tr_tl_exp i))
         else to_i64 (cdiv v (pow10_i128 (- tr_tl_exp i))))"

definition notional :: "account \<Rightarrow> u16 \<Rightarrow> int \<Rightarrow> int \<Rightarrow> int" where
  "notional a i px qty = tl_to_money (acct_in a i) (px * qty)"

definition base_units :: "account \<Rightarrow> u16 \<Rightarrow> int \<Rightarrow> int" where
  "base_units a i lots = lots * tr_base_per_lot (acct_in a i)"

definition base_balance :: "account \<Rightarrow> u16 \<Rightarrow> balance" where
  "base_balance a i = ac_bal a ! tr_base (acct_in a i)"

definition quote_balance :: "account \<Rightarrow> u16 \<Rightarrow> balance" where
  "quote_balance a i = ac_bal a ! tr_quote (acct_in a i)"

definition position_of :: "account \<Rightarrow> u16 \<Rightarrow> position" where
  "position_of a i = tr_pos (acct_in a i)"

definition reservation :: "account \<Rightarrow> u16 \<Rightarrow> side \<Rightarrow> int \<Rightarrow> int \<Rightarrow> int" where
  "reservation a i sd px qty = (case sd of Buy \<Rightarrow> notional a i px qty | Sell \<Rightarrow> base_units a i qty)"

definition side_asset :: "account \<Rightarrow> u16 \<Rightarrow> side \<Rightarrow> nat" where
  "side_asset a i sd = (case sd of Buy \<Rightarrow> tr_quote (acct_in a i) | Sell \<Rightarrow> tr_base (acct_in a i))"

definition upd_bal :: "nat \<Rightarrow> (balance \<Rightarrow> balance) \<Rightarrow> account \<Rightarrow> account" where
  "upd_bal k f a = a\<lparr>ac_bal := (ac_bal a)[k := f (ac_bal a ! k)]\<rparr>"

definition add_total :: "int \<Rightarrow> balance \<Rightarrow> balance" where
  "add_total d b = b\<lparr>bl_total := bl_total b + d\<rparr>"

definition add_reserved :: "int \<Rightarrow> balance \<Rightarrow> balance" where
  "add_reserved d b = b\<lparr>bl_reserved := bl_reserved b + d\<rparr>"

definition reserve :: "u16 \<Rightarrow> side \<Rightarrow> int \<Rightarrow> int \<Rightarrow> account \<Rightarrow> account" where
  "reserve i sd px qty a = upd_bal (side_asset a i sd) (add_reserved (reservation a i sd px qty)) a"

definition release :: "u16 \<Rightarrow> side \<Rightarrow> int \<Rightarrow> int \<Rightarrow> account \<Rightarrow> account" where
  "release i sd px qty a = upd_bal (side_asset a i sd) (add_reserved (- reservation a i sd px qty)) a"

section \<open>Profit and loss\<close>

definition realized :: "account \<Rightarrow> u16 \<Rightarrow> int" where
  "realized a i = tl_to_money (acct_in a i) (ps_realized (position_of a i))"

definition unrealized :: "account \<Rightarrow> u16 \<Rightarrow> int" where
  "unrealized a i = (let p = position_of a i in
     if ps_mark2 p = 0 \<or> ps_qty p = 0 then 0
     else tl_to_money (acct_in a i) (cdiv (ps_qty p * ps_mark2 p - 2 * ps_cost p) 2))"

definition equity :: "account \<Rightarrow> int" where
  "equity a = (\<Sum>t\<leftarrow>ac_inst a. realized a (tr_id t) + unrealized a (tr_id t) - ps_fees (tr_pos t))"

definition track_equity :: "account \<Rightarrow> account" where
  "track_equity a =
     (let e = equity a; a = (if e > ac_peak a then a\<lparr>ac_peak := e\<rparr> else a)
      in if ac_peak a - e > ac_max_dd a then a\<lparr>ac_max_dd := ac_peak a - e\<rparr> else a)"

definition avg_px :: "account \<Rightarrow> u16 \<Rightarrow> int" where
  "avg_px a i = (let p = position_of a i in if ps_qty p \<noteq> 0 then to_i64 (cdiv (ps_cost p) (ps_qty p)) else 0)"

section \<open>Fills and marks\<close>

text \<open>The average-cost position: reduce first, then open any remainder.\<close>

definition reduce_position :: "int \<Rightarrow> int \<Rightarrow> position \<Rightarrow> int \<times> position" where
  "reduce_position px rest p =
     (if ps_qty p \<noteq> 0 \<and> (0 < ps_qty p) \<noteq> (0 < rest) then
        let open_abs = (if 0 < ps_qty p then ps_qty p else - ps_qty p);
            rest_abs = (if 0 < rest then rest else - rest);
            r = (if rest_abs < open_abs then rest_abs else open_abs);
            removed = cdiv (ps_cost p * r) open_abs;
            sign = (if 0 < ps_qty p then 1 else - 1);
            p = p\<lparr>ps_realized := ps_realized p + (sign * px * r - removed), ps_cost := ps_cost p - removed,
                  ps_qty := ps_qty p + (if 0 < ps_qty p then - r else r)\<rparr>;
            rest = rest + (if 0 < rest then - r else r)
        in (rest, if ps_qty p = 0 then p\<lparr>ps_cost := 0\<rparr> else p)
      else (rest, p))"

definition open_position :: "int \<Rightarrow> int \<Rightarrow> position \<Rightarrow> position" where
  "open_position px rest p =
     (if rest \<noteq> 0 then p\<lparr>ps_cost := ps_cost p + px * rest, ps_qty := ps_qty p + rest\<rparr> else p)"

definition fill_position :: "int \<Rightarrow> int \<Rightarrow> position \<Rightarrow> position" where
  "fill_position px signed_qty p = (case reduce_position px signed_qty p of (rest, p) \<Rightarrow> open_position px rest p)"

definition upd_pos :: "u16 \<Rightarrow> (position \<Rightarrow> position) \<Rightarrow> account \<Rightarrow> account" where
  "upd_pos i f a = a\<lparr>ac_inst := (ac_inst a)[slot_no_of a i := (acct_in a i)\<lparr>tr_pos := f (position_of a i)\<rparr>]\<rparr>"

definition on_fill :: "u16 \<Rightarrow> side \<Rightarrow> int \<Rightarrow> int \<Rightarrow> int \<Rightarrow> int \<Rightarrow> bool \<Rightarrow> account \<Rightarrow> account" where
  "on_fill i sd px qty order_px fee fee_in_base a =
     (let t = acct_in a i; a = release i sd order_px qty a;
          signed_qty = (case sd of Buy \<Rightarrow> qty | Sell \<Rightarrow> - qty); value = notional a i px qty;
          a = (case sd of
                 Buy \<Rightarrow> upd_pos i (\<lambda>p. p\<lparr>ps_bought := ps_bought p + qty\<rparr>)
                   (upd_bal (tr_quote t) (add_total (- value)) (upd_bal (tr_base t) (add_total (base_units a i qty)) a))
               | Sell \<Rightarrow> upd_pos i (\<lambda>p. p\<lparr>ps_sold := ps_sold p + qty\<rparr>)
                   (upd_bal (tr_quote t) (add_total value) (upd_bal (tr_base t) (add_total (- base_units a i qty)) a)));
          a = (if fee_in_base then
                 upd_pos i (\<lambda>p. p\<lparr>ps_fees := ps_fees p + (if tr_base_per_lot t \<noteq> 0
                     then to_i64 (cdiv (fee * value) (qty * tr_base_per_lot t)) else 0)\<rparr>)
                   (upd_bal (tr_base t) (add_total (- fee)) a)
               else upd_pos i (\<lambda>p. p\<lparr>ps_fees := ps_fees p + fee\<rparr>) (upd_bal (tr_quote t) (add_total (- fee)) a));
          a = upd_pos i (\<lambda>p. p\<lparr>ps_fills := ps_fills p + 1\<rparr>) a;
          a = upd_pos i (fill_position px signed_qty) a
      in track_equity a)"

definition mark :: "u16 \<Rightarrow> int \<Rightarrow> int \<Rightarrow> account \<Rightarrow> account" where
  "mark i bid ask a =
     (if ac_slot_of a i = None \<or> bid = EMPTY_BID \<or> ask = EMPTY_ASK then a
      else track_equity (upd_pos i (\<lambda>p. p\<lparr>ps_mark2 := bid + ask\<rparr>) a))"

section \<open>The average-cost position\<close>

text \<open>
  No rounding is lost between cost and realized profit: their difference moves by exactly the
  value of the fill, in tick-lots.
\<close>

lemma reduce_position_exact:
  assumes "reduce_position px rest p = (rest', p')" and "rest \<noteq> 0" and "ps_qty p = 0 \<Longrightarrow> ps_cost p = 0"
  shows "ps_qty p' + rest' = ps_qty p + rest"
    and "ps_realized p' - ps_cost p' = ps_realized p - ps_cost p - px * (rest - rest')"
    and "ps_qty p' = 0 \<Longrightarrow> ps_cost p' = 0"
    and "rest' = 0 \<or> ps_qty p' = 0 \<or> (0 < ps_qty p') = (0 < rest')"
proof -
  have "ps_qty p' + rest' = ps_qty p + rest
    \<and> ps_realized p' - ps_cost p' = ps_realized p - ps_cost p - px * (rest - rest')
    \<and> (ps_qty p' = 0 \<longrightarrow> ps_cost p' = 0) \<and> (rest' = 0 \<or> ps_qty p' = 0 \<or> (0 < ps_qty p') = (0 < rest'))"
  proof (cases "ps_qty p \<noteq> 0 \<and> (0 < ps_qty p) \<noteq> (0 < rest)")
    case False
    then have "rest' = rest" "p' = p" using assms(1) unfolding reduce_position_def by (auto split: if_splits)
    then show ?thesis using False assms(3) by auto
  next
    case True
    have self: "cdiv (ps_cost p * ps_qty p) (ps_qty p) = ps_cost p"
      "cdiv (- (ps_cost p * ps_qty p)) (- ps_qty p) = ps_cost p"
      using True cdiv_mult_self [of "ps_qty p" "ps_cost p"] cdiv_mult_self [of "- ps_qty p" "ps_cost p"] by simp_all
    show ?thesis
      using True assms(1,2) self
      by (auto simp: reduce_position_def Let_def algebra_simps split: if_splits)
  qed
  then show "ps_qty p' + rest' = ps_qty p + rest"
    and "ps_realized p' - ps_cost p' = ps_realized p - ps_cost p - px * (rest - rest')"
    and "ps_qty p' = 0 \<Longrightarrow> ps_cost p' = 0"
    and "rest' = 0 \<or> ps_qty p' = 0 \<or> (0 < ps_qty p') = (0 < rest')" by simp_all
qed

lemma fill_position_exact:
  assumes "q \<noteq> 0" and "ps_qty p = 0 \<Longrightarrow> ps_cost p = 0"
  shows "ps_qty (fill_position px q p) = ps_qty p + q"
    and "ps_realized (fill_position px q p) - ps_cost (fill_position px q p) = ps_realized p - ps_cost p - px * q"
    and "ps_qty (fill_position px q p) = 0 \<Longrightarrow> ps_cost (fill_position px q p) = 0"
proof -
  obtain rest r where r: "reduce_position px q p = (rest, r)" by (cases "reduce_position px q p")
  note e = reduce_position_exact [OF r assms]
  have f: "fill_position px q p = open_position px rest r" by (simp add: fill_position_def r)
  show "ps_qty (fill_position px q p) = ps_qty p + q"
    "ps_realized (fill_position px q p) - ps_cost (fill_position px q p) = ps_realized p - ps_cost p - px * q"
    "ps_qty (fill_position px q p) = 0 \<Longrightarrow> ps_cost (fill_position px q p) = 0"
    using e by (auto simp: f open_position_def algebra_simps)
qed

section \<open>Splitting a value\<close>

lemma pow10_pos: "0 < pow10_i128 e"
  by (induction e rule: pow10_i128.induct) (subst pow10_i128.simps, simp)

lemma div_sum_loss:
  fixes d :: int
  assumes d: "0 < d"
  shows "(u + v) div d - (u div d + v div d) \<in> {0, 1}"
proof -
  let ?r = "u mod d + v mod d"
  have r: "0 \<le> ?r" "?r - d < d" using pos_mod_bound [OF d, of u] pos_mod_bound [OF d, of v] pos_mod_sign [OF d, of u] pos_mod_sign [OF d, of v]
    by linarith+
  have "?r div d \<in> {0, 1}"
  proof (cases "?r < d")
    case False
    then have "?r div d = 1" using r d by (intro int_div_pos_eq [of ?r d 1 "?r - d"]) simp_all
    then show ?thesis by simp
  qed (use r in \<open>simp add: div_pos_pos_trivial\<close>)
  then show ?thesis by (simp add: div_add1_eq [of u v])
qed

text \<open>The value of a sum loses at most one unit, and none unless the conversion divides.\<close>

lemma tl_to_money_split:
  assumes "0 \<le> x" "0 \<le> y" "0 \<le> tr_tl_mul t" "(x + y) * tr_tl_mul t * pow10_i128 (tr_tl_exp t) < 2 ^ 63"
  shows "tl_to_money t (x + y) - (tl_to_money t x + tl_to_money t y) \<in> {0, 1}
    \<and> (tl_to_money t (x + y) - (tl_to_money t x + tl_to_money t y) = 1 \<longrightarrow> tr_tl_exp t < 0)"
proof -
  let ?p = "pow10_i128 (tr_tl_exp t)" and ?m = "tr_tl_mul t"
  have nn: "0 \<le> x * ?m" "0 \<le> y * ?m" using assms by simp_all
  have p: "0 < ?p" by (rule pow10_pos)
  have sum: "x * ?m * ?p + y * ?m * ?p < 2 ^ 63" using assms(4) by (simp add: algebra_simps)
  have nn': "0 \<le> x * ?m * ?p" "0 \<le> y * ?m * ?p" using nn p by simp_all
  show ?thesis
  proof (cases "0 \<le> tr_tl_exp t")
    case True
    have "to_i64 (x * ?m * ?p) = x * ?m * ?p" "to_i64 (y * ?m * ?p) = y * ?m * ?p"
      "to_i64 ((x + y) * ?m * ?p) = (x + y) * ?m * ?p"
      using nn' sum by (intro to_i64_id; simp add: algebra_simps)+
    with True show ?thesis by (simp add: tl_to_money_def Let_def algebra_simps)
  next
    case False
    let ?d = "pow10_i128 (- tr_tl_exp t)"
    have d: "0 < ?d" by (rule pow10_pos)
    have "?p = 1" using False by (subst pow10_i128.simps) simp
    then have s: "x * ?m + y * ?m < 2 ^ 63" using sum by simp
    have le: "v div ?d \<le> v" if "0 \<le> v" for v using that d by (metis div_by_1 int_one_le_iff_zero_less zdiv_mono2 zero_less_one)
    have id: "to_i64 (cdiv v ?d) = v div ?d" if "0 \<le> v" "v < 2 ^ 63" for v
    proof -
      have "cdiv v ?d = v div ?d" using that d by (intro cdiv_nonneg) simp_all
      moreover have "0 \<le> v div ?d" using that d by (simp add: pos_imp_zdiv_nonneg_iff)
      ultimately show ?thesis using le [OF that(1)] that by (intro to_i64_id [THEN trans]) simp_all
    qed
    have "tl_to_money t (x + y) = (x * ?m + y * ?m) div ?d" "tl_to_money t x = x * ?m div ?d" "tl_to_money t y = y * ?m div ?d"
      using False nn s id [of "x * ?m + y * ?m"] id [of "x * ?m"] id [of "y * ?m"]
      by (simp_all add: tl_to_money_def Let_def algebra_simps)
    then show ?thesis using False div_sum_loss [OF d, of "x * ?m" "y * ?m"] by simp
  qed
qed

end
