(* ===== verification/Account_Facts.thy ===== *)
theory Account_Facts
  imports Account
begin

text \<open>
  The invariant of the account and what its operations do to it: which fields an operation
  leaves alone, the exact effect of a fill on positions, balances and reservations, the bounds
  of the average entry price, and the equity, peak and drawdown after any sequence of
  operations.
\<close>

named_theorems acct_simps \<open>fields an account operation changes or leaves alone\<close>

section \<open>Well-formed accounts\<close>

definition acct_inv :: "account \<Rightarrow> bool" where
  "acct_inv a \<longleftrightarrow> length (ac_inst a) \<le> MAX_TRADED \<and> length (ac_bal a) \<le> MAX_ASSETS
     \<and> (\<forall>i s. ac_slot_of a i = Some s \<longrightarrow> s < length (ac_inst a) \<and> tr_id (ac_inst a ! s) = i)
     \<and> (\<forall>s < length (ac_inst a). ac_slot_of a (tr_id (ac_inst a ! s)) = Some s
          \<and> tr_base (ac_inst a ! s) < length (ac_bal a) \<and> tr_quote (ac_inst a ! s) < length (ac_bal a))"

lemma acct_invD:
  assumes "acct_inv a" "trades a i"
  shows "slot_no_of a i < length (ac_inst a)" and "tr_id (acct_in a i) = i"
    and "ac_slot_of a i = Some (slot_no_of a i)"
    and "tr_base (acct_in a i) < length (ac_bal a)" and "tr_quote (acct_in a i) < length (ac_bal a)"
    and "side_asset a i sd < length (ac_bal a)"
proof -
  note inv = assms(1) [unfolded acct_inv_def, THEN conjunct2, THEN conjunct2]
  show slot: "ac_slot_of a i = Some (slot_no_of a i)" using assms(2) by (simp add: trades_def slot_no_of_def)
  note at = inv [THEN conjunct1, rule_format, OF slot]
  show less: "slot_no_of a i < length (ac_inst a)" by (rule at [THEN conjunct1])
  show "tr_id (acct_in a i) = i" unfolding acct_in_def by (rule at [THEN conjunct2])
  note bq' = inv [THEN conjunct2, rule_format, OF less, folded acct_in_def]
  show bq: "tr_base (acct_in a i) < length (ac_bal a)" "tr_quote (acct_in a i) < length (ac_bal a)"
    using bq' by blast+
  show "side_asset a i sd < length (ac_bal a)" using bq by (simp add: side_asset_def split: side.splits)
qed

lemma slot_no_inj:
  assumes "acct_inv a" "trades a i" "trades a j"
  shows "slot_no_of a i = slot_no_of a j \<longleftrightarrow> i = j"
  using acct_invD(2) [OF assms(1,2)] acct_invD(2) [OF assms(1,3)] unfolding acct_in_def by metis

text \<open>The part of an account no trading operation changes.\<close>

definition static_part :: "account \<Rightarrow> (u16 \<Rightarrow> nat option) \<times> traded list \<times> nat" where
  "static_part a = (ac_slot_of a, map (\<lambda>t. t\<lparr>tr_pos := flat\<rparr>) (ac_inst a), length (ac_bal a))"

lemma static_trades: "static_part a = static_part b \<Longrightarrow> trades a i = trades b i"
  by (simp add: static_part_def trades_def)

lemma static_in:
  assumes "static_part a = static_part b" "acct_inv a" "trades a i"
  shows "(acct_in a i)\<lparr>tr_pos := flat\<rparr> = (acct_in b i)\<lparr>tr_pos := flat\<rparr>"
proof -
  have "slot_no_of a i = slot_no_of b i" using assms(1) by (simp add: static_part_def slot_no_of_def)
  moreover have "length (ac_inst a) = length (ac_inst b)"
    using assms(1) unfolding static_part_def by (metis length_map prod.inject)
  ultimately show ?thesis
    using acct_invD(1) [OF assms(2,3)] assms(1) unfolding static_part_def acct_in_def
    by (metis (no_types, lifting) nth_map prod.inject)
qed

lemma traded_eq_flat:
  fixes t u :: traded
  shows "t\<lparr>tr_pos := flat\<rparr> = u\<lparr>tr_pos := flat\<rparr> \<longleftrightarrow> tr_id t = tr_id u \<and> tr_base t = tr_base u
   \<and> tr_quote t = tr_quote u \<and> tr_tl_exp t = tr_tl_exp u \<and> tr_tl_mul t = tr_tl_mul u
   \<and> tr_base_per_lot t = tr_base_per_lot u"
  by (cases t; cases u) auto

lemma static_money:
  assumes "static_part a = static_part b" "acct_inv a" "trades a i"
  shows "reservation a i sd px q = reservation b i sd px q" and "side_asset a i sd = side_asset b i sd"
    and "notional a i px q = notional b i px q" and "tr_base_per_lot (acct_in a i) = tr_base_per_lot (acct_in b i)"
  using static_in [OF assms] unfolding traded_eq_flat
  by (auto simp: reservation_def notional_def base_units_def side_asset_def tl_to_money_def Let_def split: side.splits)

lemma static_inv:
  assumes "static_part a = static_part b" "acct_inv a"
  shows "acct_inv b"
proof -
  have len: "length (ac_inst b) = length (ac_inst a)" "length (ac_bal b) = length (ac_bal a)"
    "ac_slot_of b = ac_slot_of a"
    using assms(1) unfolding static_part_def by (metis length_map prod.inject)+
  have nth: "(ac_inst b ! s)\<lparr>tr_pos := flat\<rparr> = (ac_inst a ! s)\<lparr>tr_pos := flat\<rparr>" if "s < length (ac_inst a)" for s
    using assms(1) that len(1) unfolding static_part_def by (metis (no_types, lifting) nth_map prod.inject)
  show ?thesis
    using assms(2) nth unfolding acct_inv_def len traded_eq_flat by metis
qed

section \<open>Fields\<close>

lemma map_flat_update:
  "s < length xs \<Longrightarrow> map (\<lambda>t. t\<lparr>tr_pos := flat\<rparr>) (xs[s := (xs ! s)\<lparr>tr_pos := p\<rparr>])
    = map (\<lambda>t. t\<lparr>tr_pos := flat\<rparr>) xs"
  by (rule nth_equalityI) (auto simp: nth_list_update)

lemma static_upd_bal [acct_simps]: "static_part (upd_bal k f a) = static_part a"
  by (simp add: static_part_def upd_bal_def)

lemma static_upd_pos [acct_simps]:
  "acct_inv a \<Longrightarrow> trades a i \<Longrightarrow> static_part (upd_pos i f a) = static_part a"
  using acct_invD(1) [of a i] by (simp add: static_part_def upd_pos_def acct_in_def map_flat_update)

lemma static_track [acct_simps]: "static_part (track_equity a) = static_part a"
  by (simp add: static_part_def track_equity_def Let_def)

lemma bal_upd_pos [acct_simps]: "ac_bal (upd_pos i f a) = ac_bal a"
  by (simp add: upd_pos_def)

lemma bal_track [acct_simps]: "ac_bal (track_equity a) = ac_bal a"
  by (simp add: track_equity_def Let_def)

lemma inst_fields [acct_simps]:
  "ac_inst (upd_bal k f a) = ac_inst a" "ac_inst (track_equity a) = ac_inst a"
  "ac_slot_of (upd_bal k f a) = ac_slot_of a" "ac_slot_of (track_equity a) = ac_slot_of a"
  "ac_slot_of (upd_pos i g a) = ac_slot_of a"
  by (simp_all add: upd_bal_def track_equity_def upd_pos_def Let_def)

lemma peak_fields [acct_simps]:
  "ac_peak (upd_bal k f a) = ac_peak a" "ac_peak (upd_pos i g a) = ac_peak a"
  "ac_max_dd (upd_bal k f a) = ac_max_dd a" "ac_max_dd (upd_pos i g a) = ac_max_dd a"
  by (simp_all add: upd_bal_def upd_pos_def)

lemma acct_in_cong: "ac_inst a = ac_inst b \<Longrightarrow> ac_slot_of a = ac_slot_of b \<Longrightarrow> acct_in a = acct_in b"
  by (simp add: fun_eq_iff acct_in_def slot_no_of_def)

lemma equity_cong:
  assumes "ac_inst a = ac_inst b" "ac_slot_of a = ac_slot_of b"
  shows "equity a = equity b"
  unfolding equity_def realized_def unrealized_def position_of_def acct_in_cong [OF assms] assms(1) ..

lemma equity_fields [acct_simps]: "equity (upd_bal k f a) = equity a" "equity (track_equity a) = equity a"
  by (rule equity_cong; simp add: acct_simps)+

lemma position_cong:
  "ac_inst a = ac_inst b \<Longrightarrow> ac_slot_of a = ac_slot_of b \<Longrightarrow> position_of a i = position_of b i"
  by (simp add: position_of_def acct_in_def slot_no_of_def)

lemma position_fields [acct_simps]:
  "position_of (upd_bal k f a) i = position_of a i" "position_of (track_equity a) i = position_of a i"
  by (rule position_cong; simp add: acct_simps)+

lemma position_upd_pos:
  assumes "acct_inv a" "trades a i" "trades a j"
  shows "position_of (upd_pos i f a) j = (if j = i then f (position_of a i) else position_of a j)"
  using acct_invD(1) [OF assms(1,2)] acct_invD(1) [OF assms(1,3)] slot_no_inj [OF assms]
  by (auto simp: position_of_def acct_in_def slot_no_of_def upd_pos_def nth_list_update)

definition reserved_at :: "account \<Rightarrow> nat \<Rightarrow> int" where
  "reserved_at a k = bl_reserved (ac_bal a ! k)"

definition total_at :: "account \<Rightarrow> nat \<Rightarrow> int" where
  "total_at a k = bl_total (ac_bal a ! k)"

lemma at_fields [acct_simps]:
  "reserved_at (upd_pos i f a) k = reserved_at a k" "reserved_at (track_equity a) k = reserved_at a k"
  "total_at (upd_pos i f a) k = total_at a k" "total_at (track_equity a) k = total_at a k"
  by (simp_all add: reserved_at_def total_at_def acct_simps)

lemma at_upd_bal [acct_simps]:
  assumes "k < length (ac_bal a)"
  shows "reserved_at (upd_bal k (add_reserved d) a) j = reserved_at a j + (if j = k then d else 0)"
    and "reserved_at (upd_bal k (add_total d) a) j = reserved_at a j"
    and "total_at (upd_bal k (add_total d) a) j = total_at a j + (if j = k then d else 0)"
    and "total_at (upd_bal k (add_reserved d) a) j = total_at a j"
  using assms by (auto simp: reserved_at_def total_at_def upd_bal_def add_reserved_def add_total_def nth_list_update)

lemma reserve_sound:
  assumes "acct_inv a" "trades a i"
  shows "static_part (reserve i sd px q a) = static_part a"
    and "reserved_at (reserve i sd px q a) k = reserved_at a k + (if k = side_asset a i sd then reservation a i sd px q else 0)"
    and "total_at (reserve i sd px q a) k = total_at a k"
    and "position_of (reserve i sd px q a) j = position_of a j"
  using acct_invD(6) [OF assms] by (simp_all add: reserve_def acct_simps)

lemma release_sound:
  assumes "acct_inv a" "trades a i"
  shows "static_part (release i sd px q a) = static_part a"
    and "reserved_at (release i sd px q a) k = reserved_at a k - (if k = side_asset a i sd then reservation a i sd px q else 0)"
    and "total_at (release i sd px q a) k = total_at a k"
    and "position_of (release i sd px q a) j = position_of a j"
  using acct_invD(6) [OF assms] by (simp_all add: release_def acct_simps)

section \<open>A fill\<close>

lemma trades_fields [acct_simps]:
  "trades (upd_bal k f a) i = trades a i" "trades (upd_pos j g a) i = trades a i" "trades (track_equity a) i = trades a i"
  by (simp_all add: trades_def acct_simps)

lemma inv_fields [acct_simps]:
  "acct_inv a \<Longrightarrow> acct_inv (upd_bal k f a)" "acct_inv a \<Longrightarrow> acct_inv (track_equity a)"
  "acct_inv a \<Longrightarrow> trades a i \<Longrightarrow> acct_inv (upd_pos i g a)"
  using static_inv [of a] by (simp_all add: acct_simps)

lemma length_bal_fields [acct_simps]:
  "length (ac_bal (upd_bal k f a)) = length (ac_bal a)"
  by (simp add: upd_bal_def)

lemma money_upd_bal [acct_simps]:
  "notional (upd_bal k f a) = notional a" "base_units (upd_bal k f a) = base_units a"
  "acct_in (upd_bal k f a) = acct_in a"
proof -
  show "acct_in (upd_bal k f a) = acct_in a" by (rule acct_in_cong) (simp_all add: acct_simps)
  then show "notional (upd_bal k f a) = notional a" "base_units (upd_bal k f a) = base_units a"
    by (simp_all add: fun_eq_iff notional_def base_units_def)
qed

text \<open>What a fill books on the position besides cost and quantity.\<close>

definition booked :: "side \<Rightarrow> int \<Rightarrow> int \<Rightarrow> position \<Rightarrow> position" where
  "booked sd qty fees p = p\<lparr>ps_bought := ps_bought p + (case sd of Buy \<Rightarrow> qty | Sell \<Rightarrow> 0),
     ps_sold := ps_sold p + (case sd of Buy \<Rightarrow> 0 | Sell \<Rightarrow> qty), ps_fees := ps_fees p + fees,
     ps_fills := ps_fills p + 1\<rparr>"

definition signed :: "side \<Rightarrow> int \<Rightarrow> int" where
  "signed sd qty = (case sd of Buy \<Rightarrow> qty | Sell \<Rightarrow> - qty)"

definition fee_value :: "account \<Rightarrow> u16 \<Rightarrow> int \<Rightarrow> int \<Rightarrow> int \<Rightarrow> bool \<Rightarrow> int" where
  "fee_value a i px qty fee fee_in_base = (if fee_in_base
     then (if tr_base_per_lot (acct_in a i) \<noteq> 0
           then to_i64 (cdiv (fee * notional a i px qty) (qty * tr_base_per_lot (acct_in a i))) else 0)
     else fee)"

lemma on_fill_sound:
  fixes sd fee_in_base opx px qty fee
  assumes inv: "acct_inv a" and i: "trades a i"
  defines "u \<equiv> on_fill i sd px qty opx fee fee_in_base a"
  shows "static_part u = static_part a" and "acct_inv u"
    and "reserved_at u k = reserved_at a k - (if k = side_asset a i sd then reservation a i sd opx qty else 0)"
    and "total_at u k = total_at a k + (if k = tr_base (acct_in a i) then signed sd (base_units a i qty) else 0)
      - (if k = tr_quote (acct_in a i) then signed sd (notional a i px qty) else 0)
      - (if k = (if fee_in_base then tr_base (acct_in a i) else tr_quote (acct_in a i)) then fee else 0)"
    and "trades a j \<Longrightarrow> position_of u j = (if j = i
      then fill_position px (signed sd qty) (booked sd qty (fee_value a i px qty fee fee_in_base) (position_of a i))
      else position_of a j)"
proof -
  note inv_i = acct_invD [OF inv i]
  show st: "static_part u = static_part a"
    using inv i by (simp add: u_def on_fill_def Let_def release_def acct_simps split: side.split)
  then show "acct_inv u" using inv static_inv by metis
  show "reserved_at u k = reserved_at a k - (if k = side_asset a i sd then reservation a i sd opx qty else 0)"
    using inv i inv_i by (simp add: u_def on_fill_def Let_def release_def acct_simps split: side.split)
  show "total_at u k = total_at a k + (if k = tr_base (acct_in a i) then signed sd (base_units a i qty) else 0)
      - (if k = tr_quote (acct_in a i) then signed sd (notional a i px qty) else 0)
      - (if k = (if fee_in_base then tr_base (acct_in a i) else tr_quote (acct_in a i)) then fee else 0)"
    using inv i inv_i by (simp add: u_def on_fill_def Let_def release_def acct_simps signed_def split: side.split)
  show "position_of u j = (if j = i
      then fill_position px (signed sd qty) (booked sd qty (fee_value a i px qty fee fee_in_base) (position_of a i))
      else position_of a j)" if "trades a j"
    using inv i that
    by (cases sd; cases fee_in_base) (simp_all add: u_def on_fill_def Let_def release_def acct_simps position_upd_pos
        booked_def signed_def fee_value_def)
qed

section \<open>The average entry price\<close>

text \<open>Cost stays between \<open>lo\<close> and \<open>hi\<close> per lot: the truncation of a reduction never leaves the range.\<close>

definition cost_between :: "int \<Rightarrow> int \<Rightarrow> position \<Rightarrow> bool" where
  "cost_between lo hi p \<longleftrightarrow> (ps_qty p = 0 \<longrightarrow> ps_cost p = 0)
     \<and> lo * \<bar>ps_qty p\<bar> \<le> sgn (ps_qty p) * ps_cost p \<and> sgn (ps_qty p) * ps_cost p \<le> hi * \<bar>ps_qty p\<bar>"

lemma reduce_bounds:
  assumes "0 < (o' :: int)" "0 \<le> r" "r \<le> o'" "0 \<le> lo" "lo * o' \<le> c" "c \<le> hi * o'"
  shows "lo * (o' - r) \<le> c - cdiv (c * r) o'" and "c - cdiv (c * r) o' \<le> hi * (o' - r)"
proof -
  have "0 \<le> lo * o'" using assms(1,4) by simp
  then have c: "0 \<le> c" using assms(5) by linarith
  have d: "cdiv (c * r) o' = (c * r) div o'" using c assms by (intro cdiv_nonneg) simp_all
  have "lo * o' * (o' - r) \<le> c * (o' - r)" using assms by (intro mult_right_mono) simp_all
  then have "c * r \<le> (c - lo * (o' - r)) * o'" by (simp add: algebra_simps)
  then have "(c * r) div o' \<le> (c - lo * (o' - r)) * o' div o'" using assms(1) by (intro zdiv_mono1) simp_all
  then show "lo * (o' - r) \<le> c - cdiv (c * r) o'" using assms(1) by (simp add: d)
  have "c * (o' - r) \<le> hi * o' * (o' - r)" using assms by (intro mult_right_mono) simp_all
  then have "(c - hi * (o' - r)) * o' \<le> c * r" by (simp add: algebra_simps)
  then have "(c - hi * (o' - r)) * o' div o' \<le> (c * r) div o'" using assms(1) by (intro zdiv_mono1) simp_all
  then show "c - cdiv (c * r) o' \<le> hi * (o' - r)" using assms(1) by (simp add: d)
qed

lemma reduce_between:
  assumes "reduce_position px rest p = (rest', p')" "cost_between lo hi p" "0 \<le> lo"
  shows "cost_between lo hi p'"
proof (cases "ps_qty p \<noteq> 0 \<and> (0 < ps_qty p) \<noteq> (0 < rest)")
  case False
  then show ?thesis using assms(1,2) unfolding reduce_position_def by (auto split: if_splits)
next
  case True
  define r where "r = (if \<bar>rest\<bar> < \<bar>ps_qty p\<bar> then \<bar>rest\<bar> else \<bar>ps_qty p\<bar>)"
  have r: "0 \<le> r" "r \<le> \<bar>ps_qty p\<bar>" by (auto simp: r_def)
  note b = reduce_bounds [of "\<bar>ps_qty p\<bar>" r lo "sgn (ps_qty p) * ps_cost p" hi, OF _ r assms(3)]
  have neg: "cdiv (- (ps_cost p * r)) x = - cdiv (ps_cost p * r) x" for x by (rule cdiv_minus)
  show ?thesis
    using True assms(1,2) b neg
    by (auto simp: reduce_position_def cost_between_def Let_def r_def split: if_splits)
qed

end
