(* ===== verification/Order_Table.thy ===== *)
theory Order_Table
  imports Linear_Probe Store Order_Msgs Instrument
begin

text \<open>
  \<open>OrderTable\<close> of \<open>src/exec/order_table.hpp\<close>: exec's live orders, as a dense array of rows
  with a swap-remove, an open-addressed index from order ids to rows, and per-instrument
  counts and open lots.  The arrays are functions of their index, the loops of the index
  without a bound are \<open>partial_function (option)\<close>s, and a row pointer is the row's position.

  This theory holds the operations and proves the index: with a free slot every search
  returns, and insertion and erasure implement a finite map from ids to positions.
\<close>

section \<open>Rows\<close>

type_synonym order_id = u64

definition INVALID_ORDER :: order_id where "INVALID_ORDER = 0"
definition PENDING_CANCEL :: u8 where "PENDING_CANCEL = 1"
definition PENDING_REPLACE :: u8 where "PENDING_REPLACE = 2"

record order_row =
  row_id :: order_id
  row_strategy_tag :: u64
  row_tsc_decision :: u64
  row_t_submit_ns :: int
  row_t_ack_ns :: int
  row_px :: int
  row_qty :: int
  row_leaves :: int
  row_cum :: int
  row_new_px :: int
  row_new_qty :: int
  row_instrument :: u16
  row_side :: side
  row_tif :: tif
  row_ord_type :: ord_type
  row_status :: ord_status
  row_pending :: u8

record idx_slot =
  ix_key :: u64
  ix_pos :: u32

type_synonym idx = "u32 \<Rightarrow> idx_slot"

record order_table =
  ot_index :: idx
  ot_rows :: "u32 \<Rightarrow> order_row"
  ot_n :: u32
  ot_gen :: u64
  ot_counter :: u64
  ot_live :: "u16 \<Rightarrow> u32"
  ot_open_buy :: "u16 \<Rightarrow> int"
  ot_open_sell :: "u16 \<Rightarrow> int"

definition MAX_ROWS :: u32 where "MAX_ROWS = 2048"
definition INDEX_MASK :: u32 where "INDEX_MASK = 4095"

text \<open>The rows past the count are never read; \<open>row\<close> is what they hold at the start.\<close>

definition ot_new :: "order_row \<Rightarrow> order_table" where
  "ot_new row = \<lparr>ot_index = (\<lambda>_. \<lparr>ix_key = 0, ix_pos = 0\<rparr>), ot_rows = (\<lambda>_. row), ot_n = 0, ot_gen = 0,
     ot_counter = 0, ot_live = (\<lambda>_. 0), ot_open_buy = (\<lambda>_. 0), ot_open_sell = (\<lambda>_. 0)\<rparr>"

section \<open>Operations\<close>

definition set_generation :: "u64 \<Rightarrow> order_table \<Rightarrow> order_table" where
  "set_generation gen t = t\<lparr>ot_gen := gen AND 0xFFFFFF\<rparr>"

definition next_id :: "order_table \<Rightarrow> order_id \<times> order_table" where
  "next_id t = (let c = ot_counter t + 1
     in (push_bit 40 (ot_gen t) OR (c AND (push_bit 40 1 - 1)), t\<lparr>ot_counter := c\<rparr>))"

definition ot_full :: "order_table \<Rightarrow> bool" where
  "ot_full t \<longleftrightarrow> ot_n t = MAX_ROWS"

definition ot_hash :: "u64 \<Rightarrow> u32" where
  "ot_hash oid = ucast (drop_bit 52 (oid * 0x9e3779b97f4a7c15))"

partial_function (option) slot_from :: "idx \<Rightarrow> u64 \<Rightarrow> u32 \<Rightarrow> u32 option option" where
  "slot_from index oid pos =
     (let s = index (pos AND INDEX_MASK) in
      if ix_key s = 0 then Some None
      else if ix_key s = oid then Some (Some (pos AND INDEX_MASK))
      else slot_from index oid (pos + 1))"

text \<open>The slot of an oid: \<open>Some None\<close> is \<open>NONE\<close>.\<close>

definition slot_of :: "idx \<Rightarrow> u64 \<Rightarrow> u32 option option" where
  "slot_of index oid = slot_from index oid (ot_hash oid)"

definition ot_find :: "order_table \<Rightarrow> order_id \<Rightarrow> u32 option option" where
  "ot_find t oid = (case slot_of (ot_index t) oid of
       None \<Rightarrow> None
     | Some None \<Rightarrow> Some None
     | Some (Some s) \<Rightarrow> Some (Some (ix_pos (ot_index t s))))"

definition add_open :: "order_row \<Rightarrow> int \<Rightarrow> order_table \<Rightarrow> order_table" where
  "add_open r delta t = (case row_side r of
       Buy \<Rightarrow> t\<lparr>ot_open_buy := (ot_open_buy t)(row_instrument r := ot_open_buy t (row_instrument r) + delta)\<rparr>
     | Sell \<Rightarrow> t\<lparr>ot_open_sell := (ot_open_sell t)(row_instrument r := ot_open_sell t (row_instrument r) + delta)\<rparr>)"

partial_function (option) free_from :: "idx \<Rightarrow> u32 \<Rightarrow> u32 option" where
  "free_from index pos =
     (if ix_key (index (pos AND INDEX_MASK)) \<noteq> 0 then free_from index (pos + 1) else Some pos)"

text \<open>\<open>insert\<close> returns the position of the new row, or \<open>None\<close> for the null pointer.\<close>

definition ot_insert :: "order_table \<Rightarrow> order_row \<Rightarrow> (u32 option \<times> order_table) option" where
  "ot_insert t r =
     (if ot_n t = MAX_ROWS \<or> row_id r = INVALID_ORDER then Some (None, t)
      else case slot_of (ot_index t) (row_id r) of
        None \<Rightarrow> None
      | Some (Some _) \<Rightarrow> Some (None, t)
      | Some None \<Rightarrow>
          (case free_from (ot_index t) (ot_hash (row_id r)) of
             None \<Rightarrow> None
           | Some pos \<Rightarrow>
               let n = ot_n t;
                   t = t\<lparr>ot_index := (ot_index t)(pos AND INDEX_MASK := \<lparr>ix_key = row_id r, ix_pos = n\<rparr>),
                         ot_rows := (ot_rows t)(n := r)\<rparr>;
                   t = add_open r (row_leaves r) t;
                   t = t\<lparr>ot_live := (ot_live t)(row_instrument r := ot_live t (row_instrument r) + 1)\<rparr>
               in Some (Some n, t\<lparr>ot_n := n + 1\<rparr>)))"

text \<open>The backward shift; the slot at \<open>hole\<close> is cleared when it ends.\<close>

partial_function (option) shift_from :: "idx \<Rightarrow> u32 \<Rightarrow> u32 \<Rightarrow> idx option" where
  "shift_from index hole i =
     (if ix_key (index i) \<noteq> 0 then
        let home = ot_hash (ix_key (index i)) AND INDEX_MASK in
        if (i - hole) AND INDEX_MASK \<le> (i - home) AND INDEX_MASK
        then shift_from (index(hole := index i)) i ((i + 1) AND INDEX_MASK)
        else shift_from index hole ((i + 1) AND INDEX_MASK)
      else Some (index(hole := \<lparr>ix_key = 0, ix_pos = 0\<rparr>)))"

text \<open>The dense rows: the last row moves into the gap and its index entry is repointed.\<close>

definition move_row :: "u32 \<Rightarrow> u32 \<Rightarrow> order_table \<Rightarrow> order_table option" where
  "move_row pos lst t =
     (if pos \<noteq> lst then
        (let t = t\<lparr>ot_rows := (ot_rows t)(pos := ot_rows t lst)\<rparr>
         in case slot_of (ot_index t) (row_id (ot_rows t pos)) of
              Some (Some m) \<Rightarrow> Some (t\<lparr>ot_index := (ot_index t)(m := (ot_index t m)\<lparr>ix_pos := pos\<rparr>)\<rparr>)
            | _ \<Rightarrow> None)
      else Some t)"

definition ot_erase :: "order_table \<Rightarrow> order_id \<Rightarrow> order_table option" where
  "ot_erase t oid =
     (case slot_of (ot_index t) oid of
        None \<Rightarrow> None
      | Some None \<Rightarrow> Some t
      | Some (Some s) \<Rightarrow>
          let pos = ix_pos (ot_index t s); row = ot_rows t pos;
              t = add_open row (- row_leaves row) t;
              t = t\<lparr>ot_live := (ot_live t)(row_instrument row := ot_live t (row_instrument row) - 1)\<rparr>;
              lst = ot_n t - 1;
              t = t\<lparr>ot_n := lst\<rparr>
          in case move_row pos lst t of
               None \<Rightarrow> None
             | Some t \<Rightarrow> map_option (\<lambda>index. t\<lparr>ot_index := index\<rparr>)
                 (shift_from (ot_index t) s ((s + 1) AND INDEX_MASK)))"

definition ot_set_leaves :: "u32 \<Rightarrow> int \<Rightarrow> order_table \<Rightarrow> order_table" where
  "ot_set_leaves p leaves t =
     (let r = ot_rows t p; t = add_open r (leaves - row_leaves r) t
      in t\<lparr>ot_rows := (ot_rows t)(p := (ot_rows t p)\<lparr>row_leaves := leaves\<rparr>)\<rparr>)"

text \<open>Writing other fields of a row through its pointer.\<close>

definition ot_write :: "u32 \<Rightarrow> (order_row \<Rightarrow> order_row) \<Rightarrow> order_table \<Rightarrow> order_table" where
  "ot_write p f t = t\<lparr>ot_rows := (ot_rows t)(p := f (ot_rows t p))\<rparr>"

section \<open>The index as a table\<close>

definition idx_bits :: nat where "idx_bits = 12"

lemma idx_bits_le [simp]: "idx_bits \<le> 32" "0 < idx_bits"
  by (simp_all add: idx_bits_def)

lemma INDEX_MASK_bits: "INDEX_MASK = mask idx_bits"
  by (simp add: INDEX_MASK_def idx_bits_def mask_eq_exp_minus_1)

definition ix_tab :: "idx \<Rightarrow> (u64, u32) table" where
  "ix_tab index i = (let s = index (word_of_nat i) in
     if i < 2 ^ idx_bits \<and> ix_key s \<noteq> 0 then Some (ix_key s, ix_pos s) else None)"

definition ix_home :: "u64 \<Rightarrow> nat" where
  "ix_home oid = slot_no idx_bits (ot_hash oid)"

definition ix_map :: "idx \<Rightarrow> u64 \<rightharpoonup> u32" where
  "ix_map index = probe_map (2 ^ idx_bits) (ix_tab index)"

definition ix_inv :: "idx \<Rightarrow> bool" where
  "ix_inv index \<longleftrightarrow> probe_inv (2 ^ idx_bits) ix_home (ix_tab index)"

interpretation ix: linear_probe "2 ^ idx_bits" ix_home
  by unfold_locales (simp add: ix_home_def)

lemma ix_home_less [simp]: "ix_home oid < 2 ^ idx_bits"
  by (simp add: ix_home_def)

lemma ix_tab_slot:
  "ix_tab index (slot_no idx_bits pos) = (let s = index (pos AND INDEX_MASK) in
     if ix_key s \<noteq> 0 then Some (ix_key s, ix_pos s) else None)"
  by (simp add: ix_tab_def INDEX_MASK_bits masked_slot_no Let_def)

lemma ix_tab_upd:
  "ix_tab (index(pos AND INDEX_MASK := s))
    = (ix_tab index)(slot_no idx_bits pos := (if ix_key s \<noteq> 0 then Some (ix_key s, ix_pos s) else None))"
proof
  fix i
  show "ix_tab (index(pos AND INDEX_MASK := s)) i = ((ix_tab index)(slot_no idx_bits pos :=
    (if ix_key s \<noteq> 0 then Some (ix_key s, ix_pos s) else None))) i"
    using word_of_slot_inj [of idx_bits i "slot_no idx_bits pos"]
    by (cases "i < 2 ^ idx_bits") (auto simp: ix_tab_def INDEX_MASK_bits masked_slot_no)
qed

lemma ix_key_nonzero: "ix_tab index i = Some (k, v) \<Longrightarrow> k \<noteq> 0"
  by (auto simp: ix_tab_def Let_def split: if_splits)

lemma ix_inv_unique: "ix_inv index \<Longrightarrow> unique_keys (2 ^ idx_bits) (ix_tab index)"
  by (simp add: ix_inv_def probe_inv_def)

lemma ix_map_zero: "ix_inv index \<Longrightarrow> ix_map index 0 = None"
  unfolding ix_map_def by (subst probe_map_None [OF ix_inv_unique]) (auto dest: ix_key_nonzero)

lemma ix_free_slot:
  assumes "ix_inv index" and "card (dom (ix_map index)) < 2 ^ idx_bits"
  obtains e where "e < 2 ^ idx_bits" "ix_tab index e = None"
  using assms free_slot [of "2 ^ idx_bits" "ix_tab index"] by (auto simp: ix_map_def ix_inv_def probe_inv_def)

section \<open>Searching\<close>

text \<open>\<open>slot_ok index oid s\<close>: slot \<open>s\<close> is the slot of \<open>oid\<close>.\<close>

definition slot_ok :: "idx \<Rightarrow> u64 \<Rightarrow> u32 \<Rightarrow> bool" where
  "slot_ok index oid s \<longleftrightarrow> s AND INDEX_MASK = s \<and> ix_key (index s) = oid \<and> oid \<noteq> 0
     \<and> ix_map index oid = Some (ix_pos (index s))"

lemma slot_from_sound:
  assumes inv: "ix_inv index" and e: "e < 2 ^ idx_bits" "ix_tab index e = None"
    and path: "\<And>j. j < 2 ^ idx_bits \<Longrightarrow>
      cdist (2 ^ idx_bits) (ix_home oid) j < cdist (2 ^ idx_bits) (ix_home oid) (slot_no idx_bits pos)
      \<Longrightarrow> \<exists>x v. ix_tab index j = Some (x, v) \<and> x \<noteq> oid"
  shows "\<exists>r. slot_from index oid pos = Some r
    \<and> (case r of None \<Rightarrow> ix_map index oid = None | Some s \<Rightarrow> slot_ok index oid s)"
  using path
proof (induction "cdist (2 ^ idx_bits) (slot_no idx_bits pos) e" arbitrary: pos rule: less_induct)
  case less
  let ?s = "index (pos AND INDEX_MASK)" and ?C = "2 ^ idx_bits :: nat"
  note tab = ix_tab_slot [of index pos, unfolded Let_def]
  consider (empty) "ix_key ?s = 0" | (found) "ix_key ?s \<noteq> 0" "ix_key ?s = oid"
    | (other) "ix_key ?s \<noteq> 0" "ix_key ?s \<noteq> oid" by blast
  then show ?case
  proof cases
    case empty
    have "ix_map index oid = None"
      unfolding ix_map_def using inv [unfolded ix_inv_def]
    proof (rule ix.find_miss)
      show "ix_tab index (slot_no idx_bits pos) = None" using empty tab by simp
    qed (use less.prems in force)+
    with empty show ?thesis by (subst slot_from.simps) simp
  next
    case found
    then have "ix_map index oid = Some (ix_pos ?s)"
      unfolding ix_map_def using inv [unfolded ix_inv_def] tab
      by (intro ix.find_hit [where i = "slot_no idx_bits pos"]) simp_all
    with found show ?thesis
      by (subst slot_from.simps) (simp add: slot_ok_def and.assoc Let_def)
  next
    case other
    let ?Q = "\<lambda>j. \<exists>x v. ix_tab index j = Some (x, v) \<and> x \<noteq> oid"
    have Q: "?Q (slot_no idx_bits pos)" "\<not> ?Q e" using other tab e by simp_all
    note adv = path_advance [of "ix_home oid" ?C "slot_no idx_bits pos" e ?Q, OF _ _ e(1) Q(2) less.prems Q(1)]
    have "\<exists>r. slot_from index oid (pos + 1) = Some r
      \<and> (case r of None \<Rightarrow> ix_map index oid = None | Some s \<Rightarrow> slot_ok index oid s)"
      using adv by (intro less.hyps) (simp_all add: slot_no_succ)
    with other show ?thesis by (subst slot_from.simps) (simp add: Let_def)
  qed
qed

lemma slot_of_sound:
  assumes "ix_inv index" and "card (dom (ix_map index)) < 2 ^ idx_bits"
  shows "\<exists>r. slot_of index oid = Some r
    \<and> (case r of None \<Rightarrow> ix_map index oid = None | Some s \<Rightarrow> slot_ok index oid s)"
proof -
  obtain e where "e < 2 ^ idx_bits" "ix_tab index e = None" using assms by (rule ix_free_slot)
  then show ?thesis
    unfolding slot_of_def using assms(1)
    by (intro slot_from_sound [of index e]) (simp_all add: ix_home_def)
qed

lemma free_from_sound:
  assumes inv: "ix_inv index" and e: "e < 2 ^ idx_bits" "ix_tab index e = None"
    and path: "occupied_path (2 ^ idx_bits) h (ix_tab index) (slot_no idx_bits pos)" and h: "h < 2 ^ idx_bits"
  shows "\<exists>p. free_from index pos = Some p \<and> ix_tab index (slot_no idx_bits p) = None
    \<and> occupied_path (2 ^ idx_bits) h (ix_tab index) (slot_no idx_bits p)"
  using path
proof (induction "cdist (2 ^ idx_bits) (slot_no idx_bits pos) e" arbitrary: pos rule: less_induct)
  case less
  let ?s = "index (pos AND INDEX_MASK)" and ?C = "2 ^ idx_bits :: nat"
  note tab = ix_tab_slot [of index pos, unfolded Let_def]
  show ?case
  proof (cases "ix_key ?s = 0")
    case True
    with tab less.prems show ?thesis by (subst free_from.simps) simp
  next
    case False
    let ?Q = "\<lambda>j. ix_tab index j \<noteq> None"
    have Q: "?Q (slot_no idx_bits pos)" "\<not> ?Q e" using False tab e by simp_all
    note adv = path_advance [of h ?C "slot_no idx_bits pos" e ?Q, OF h _ e(1) Q(2) _ Q(1)]
    have "\<exists>p. free_from index (pos + 1) = Some p \<and> ix_tab index (slot_no idx_bits p) = None
      \<and> occupied_path ?C h (ix_tab index) (slot_no idx_bits p)"
      using adv less.prems by (intro less.hyps) (simp_all add: slot_no_succ occupied_path_def)
    with False show ?thesis by (subst free_from.simps) simp
  qed
qed

section \<open>Inserting and moving an entry\<close>

lemma ix_insert_sound:
  assumes inv: "ix_inv index" and room: "card (dom (ix_map index)) < 2 ^ idx_bits"
    and new: "ix_map index oid = None" and oid: "oid \<noteq> 0"
  shows "\<exists>p. free_from index (ot_hash oid) = Some p
    \<and> ix_inv (index(p AND INDEX_MASK := \<lparr>ix_key = oid, ix_pos = n\<rparr>))
    \<and> ix_map (index(p AND INDEX_MASK := \<lparr>ix_key = oid, ix_pos = n\<rparr>)) = (ix_map index)(oid \<mapsto> n)"
proof -
  obtain e where e: "e < 2 ^ idx_bits" "ix_tab index e = None" using inv room by (rule ix_free_slot)
  have "occupied_path (2 ^ idx_bits) (ix_home oid) (ix_tab index) (slot_no idx_bits (ot_hash oid))"
    by (simp add: occupied_path_def ix_home_def)
  from free_from_sound [OF inv e this ix_home_less] obtain p where p: "free_from index (ot_hash oid) = Some p"
    "ix_tab index (slot_no idx_bits p) = None"
    "occupied_path (2 ^ idx_bits) (ix_home oid) (ix_tab index) (slot_no idx_bits p)" by blast
  note ins = ix.insert_sound [OF inv [unfolded ix_inv_def] slot_no_less p(2) new [unfolded ix_map_def] p(3), of n]
  with p(1) oid show ?thesis by (simp add: ix_tab_upd ix_inv_def ix_map_def)
qed

lemma slot_ok_tab: "slot_ok index oid s \<Longrightarrow> ix_tab index (slot_no idx_bits s) = Some (oid, ix_pos (index s))"
  using ix_tab_slot [of index s] by (simp add: slot_ok_def Let_def)

text \<open>Repointing the entry of a present oid.\<close>

lemma ix_repoint_sound:
  assumes inv: "ix_inv index" and s: "slot_ok index oid s"
  shows "ix_inv (index(s := (index s)\<lparr>ix_pos := p\<rparr>))"
    and "ix_map (index(s := (index s)\<lparr>ix_pos := p\<rparr>)) = (ix_map index)(oid \<mapsto> p)"
proof -
  let ?t = "ix_tab index" and ?C = "2 ^ idx_bits :: nat" and ?i = "slot_no idx_bits s"
  note ti = slot_ok_tab [OF s]
  have upd: "ix_tab (index(s := (index s)\<lparr>ix_pos := p\<rparr>)) = ?t(?i \<mapsto> (oid, p))"
    using ix_tab_upd [of index s "(index s)\<lparr>ix_pos := p\<rparr>"] s by (simp add: slot_ok_def)
  have uq: "unique_keys ?C ?t" using inv by (rule ix_inv_unique)
  have uq': "unique_keys ?C (?t(?i \<mapsto> (oid, p)))"
    unfolding unique_keys_def fun_upd_apply using uq ti unfolding unique_keys_def
    by (metis (no_types, lifting) option.inject prod.inject slot_no_less)
  have some: "(?t(?i \<mapsto> (oid, p))) j = None \<longleftrightarrow> ?t j = None" for j using ti by auto
  have keys: "\<exists>w. ?t j = Some (x, w)" if "(?t(?i \<mapsto> (oid, p))) j = Some (x, v)" for j x v
    using that ti by (auto split: if_splits)
  show "ix_inv (index(s := (index s)\<lparr>ix_pos := p\<rparr>))"
    using inv uq' unfolding ix_inv_def upd probe_inv_def occupied_path_def some by (metis keys)
  have "probe_map ?C (?t(?i \<mapsto> (oid, p))) x = Some w \<longleftrightarrow> ((probe_map ?C ?t)(oid \<mapsto> p)) x = Some w" for x w
  proof (cases "x = oid")
    case True
    then show ?thesis
      using uq' unfolding probe_map_Some [OF uq'] unique_keys_def by (auto intro: exI [of _ ?i])
  next
    case False
    then have "(?t(?i \<mapsto> (oid, p))) j = Some (x, w) \<longleftrightarrow> ?t j = Some (x, w)" for j using ti by auto
    with False show ?thesis by (simp add: probe_map_Some [OF uq] probe_map_Some [OF uq'])
  qed
  then show "ix_map (index(s := (index s)\<lparr>ix_pos := p\<rparr>)) = (ix_map index)(oid \<mapsto> p)"
    unfolding ix_map_def upd by (intro ext) (metis not_None_eq)
qed

section \<open>Erasing an entry\<close>

text \<open>While the loop runs the slot at \<open>hole\<close> holds a stale copy: the table is read without it.\<close>

lemma shift_test:
  assumes "a < C" "h < C" "p < C" "h \<noteq> p"
  shows "cdist C h p \<le> cdist C a p \<longleftrightarrow> cdist C a h < cdist C a p"
  using assms by (auto simp: cdist_def split: if_splits)

lemma masked_id: "slot_no idx_bits (p AND INDEX_MASK) = slot_no idx_bits p"
  by (simp add: INDEX_MASK_bits slot_no_masked)

lemma shift_from_sound:
  assumes e: "e < 2 ^ idx_bits"
  shows "shift_inv (2 ^ idx_bits) ix_home ((ix_tab index)(slot_no idx_bits hole := None))
      (slot_no idx_bits hole) (slot_no idx_bits i)
    \<Longrightarrow> ix_tab index e = None \<Longrightarrow> e \<noteq> slot_no idx_bits hole
    \<Longrightarrow> hole AND INDEX_MASK = hole \<Longrightarrow> i AND INDEX_MASK = i
    \<Longrightarrow> \<exists>index'. shift_from index hole i = Some index' \<and> ix_inv index'
      \<and> ix_map index' = probe_map (2 ^ idx_bits) ((ix_tab index)(slot_no idx_bits hole := None))"
proof (induction "cdist (2 ^ idx_bits) (slot_no idx_bits i) e" arbitrary: index hole i rule: less_induct)
  case less
  let ?C = "2 ^ idx_bits :: nat" and ?s = "index i"
  let ?h = "slot_no idx_bits hole" and ?p = "slot_no idx_bits i"
  let ?t = "(ix_tab index)(?h := None)" and ?home = "ot_hash (ix_key ?s) AND INDEX_MASK"
  note tab = ix_tab_slot [of index i, unfolded Let_def less.prems(5)]
  have hp: "?h \<noteq> ?p" using less.prems(1) by (simp add: shift_inv_def)
  show ?case
  proof (cases "ix_key ?s = 0")
    case True
    then have "probe_inv ?C ix_home ?t"
      using less.prems(1) tab hp by (intro ix.shift_done [of ?t ?h ?p]) simp_all
    moreover have "ix_tab (index(hole := \<lparr>ix_key = 0, ix_pos = 0\<rparr>)) = ?t"
      using ix_tab_upd [of index hole "\<lparr>ix_key = 0, ix_pos = 0\<rparr>"] less.prems(4) by simp
    ultimately show ?thesis using True by (subst shift_from.simps) (simp add: ix_inv_def ix_map_def)
  next
    case False
    then have tp: "?t ?p = Some (ix_key ?s, ix_pos ?s)" using tab hp by simp
    have pe: "?p \<noteq> e" using less.prems(2) tab False by auto
    have next_no: "slot_no idx_bits ((i + 1) AND INDEX_MASK) = csucc ?C ?p"
      by (simp add: masked_id slot_no_succ)
    have next_mask: "((i + 1) AND INDEX_MASK) AND INDEX_MASK = (i + 1) AND INDEX_MASK" by (simp add: and.assoc)
    have closer: "cdist ?C (slot_no idx_bits ((i + 1) AND INDEX_MASK)) e < cdist ?C ?p e"
      using cdist_csucc_left [OF slot_no_less e pe] by (simp add: next_no)
    have test: "(i - hole) AND INDEX_MASK \<le> (i - ?home) AND INDEX_MASK
        \<longleftrightarrow> cdist ?C (ix_home (ix_key ?s)) ?h < cdist ?C (ix_home (ix_key ?s)) ?p"
      unfolding word_le_nat_alt INDEX_MASK_bits masked_diff [OF idx_bits_le(1)] slot_no_masked
      using shift_test [OF ix_home_less slot_no_less slot_no_less hp] by (simp add: ix_home_def)
    show ?thesis
    proof (cases "(i - hole) AND INDEX_MASK \<le> (i - ?home) AND INDEX_MASK")
      case True
      let ?n = "index(hole := ?s)"
      have upd: "(ix_tab ?n)(?p := None) = ?t(?h \<mapsto> (ix_key ?s, ix_pos ?s), ?p := None)"
        using ix_tab_upd [of index hole ?s] less.prems(4) False hp by auto
      note mv = ix.shift_move [OF less.prems(1) tp True [unfolded test]]
      have "\<exists>index'. shift_from ?n i ((i + 1) AND INDEX_MASK) = Some index' \<and> ix_inv index'
          \<and> ix_map index' = probe_map ?C ((ix_tab ?n)(?p := None))"
      proof (rule less.hyps)
        show "ix_tab ?n e = None"
          using ix_tab_upd [of index hole ?s] less.prems(2-4) by simp
      qed (use closer mv(1) pe next_mask less.prems(5) in \<open>simp_all only: upd next_no not_False_eq_True not_sym\<close>)
      then have "\<exists>index'. shift_from ?n i ((i + 1) AND INDEX_MASK) = Some index' \<and> ix_inv index'
          \<and> ix_map index' = probe_map ?C ?t"
        unfolding upd mv(2) .
      then show ?thesis
        using True False by (subst shift_from.simps) (simp add: Let_def)
    next
      case notmove: False
      have te: "?t e = None" using less.prems(2) by simp
      have skip: "shift_inv ?C ix_home ?t ?h (csucc ?C ?p)"
        using ix.shift_skip [OF less.prems(1) tp _ e te less.prems(3)] notmove [unfolded test not_less] by blast
      have "\<exists>index'. shift_from index hole ((i + 1) AND INDEX_MASK) = Some index' \<and> ix_inv index'
          \<and> ix_map index' = probe_map ?C ?t"
        by (rule less.hyps) (use closer skip less.prems(2-4) next_mask in \<open>simp_all only: next_no not_False_eq_True\<close>)
      then show ?thesis
        using False notmove by (subst shift_from.simps) (simp add: Let_def)
    qed
  qed
qed

lemma ix_erase_sound:
  assumes inv: "ix_inv index" and room: "card (dom (ix_map index)) < 2 ^ idx_bits" and s: "slot_ok index oid s"
  shows "\<exists>index'. shift_from index s ((s + 1) AND INDEX_MASK) = Some index' \<and> ix_inv index'
    \<and> ix_map index' = (ix_map index)(oid := None)"
proof -
  let ?C = "2 ^ idx_bits :: nat" and ?i = "slot_no idx_bits s"
  obtain e where e: "e < ?C" "ix_tab index e = None" using inv room by (rule ix_free_slot)
  have C: "1 < ?C" by (intro one_less_power) simp_all
  note ti = slot_ok_tab [OF s]
  note st = ix.shift_start [OF inv [unfolded ix_inv_def] slot_no_less ti C]
  have "\<exists>index'. shift_from index s ((s + 1) AND INDEX_MASK) = Some index' \<and> ix_inv index'
      \<and> ix_map index' = probe_map ?C ((ix_tab index)(?i := None))"
    using st(1) e ti s
    by (intro shift_from_sound [OF e(1)]) (auto simp: masked_id slot_no_succ and.assoc slot_ok_def)
  then show ?thesis using st(2) by (simp add: ix_map_def)
qed

end
