(* ===== verification/Map_Sum.thy ===== *)
theory Map_Sum
  imports Main
begin

text \<open>
  Sums over the entries of a finite map: what the per-instrument counters of the order table
  and the reserved balances of the account are kept equal to.
\<close>

definition total_of :: "('v \<Rightarrow> 'a::comm_monoid_add) \<Rightarrow> ('k \<rightharpoonup> 'v) \<Rightarrow> 'a" where
  "total_of f m = (\<Sum>k\<in>dom m. f (the (m k)))"

lemma total_of_empty [simp]: "total_of f Map.empty = 0"
  by (simp add: total_of_def)

lemma total_of_insert:
  assumes "finite (dom m)" "m k = None"
  shows "total_of f (m(k \<mapsto> v)) = total_of f m + f v"
proof -
  have "(\<Sum>x\<in>dom m. f (the ((m(k \<mapsto> v)) x))) = (\<Sum>x\<in>dom m. f (the (m x)))"
    using assms by (intro sum.cong) auto
  moreover have "k \<notin> dom m" using assms by (simp add: domIff)
  ultimately show ?thesis
    using assms by (simp only: total_of_def dom_fun_upd sum.insert option.distinct if_False fun_upd_same option.sel)
      (simp add: add.commute)
qed

lemma total_of_delete:
  assumes "finite (dom m)" "m k = Some v"
  shows "total_of f m = total_of f (m(k := None)) + f v"
proof -
  have "m = (m(k := None))(k \<mapsto> v)" using assms(2) by (simp add: map_upd_triv)
  then have "total_of f m = total_of f ((m(k := None))(k \<mapsto> v))" by (rule arg_cong)
  also have "\<dots> = total_of f (m(k := None)) + f v" using assms(1) by (intro total_of_insert) simp_all
  finally show ?thesis .
qed

lemma total_of_update:
  assumes "finite (dom m)" "m k = Some v"
  shows "total_of f (m(k \<mapsto> w)) = total_of f (m(k := None)) + f w"
  using total_of_insert [of "m(k := None)" k f w] assms(1) by simp

lemma total_of_update_same:
  assumes "finite (dom m)" "m k = Some v" "f w = f v"
  shows "total_of f (m(k \<mapsto> w)) = total_of f m"
  by (simp only: total_of_update [OF assms(1,2)] total_of_delete [OF assms(1,2)] assms(3))

lemma total_of_nonneg:
  fixes f :: "'v \<Rightarrow> int"
  assumes "\<And>k v. m k = Some v \<Longrightarrow> 0 \<le> f v"
  shows "0 \<le> total_of f m"
  unfolding total_of_def using assms by (intro sum_nonneg) auto

lemma total_of_ge_one:
  fixes f :: "'v \<Rightarrow> int"
  assumes "finite (dom m)" "m k = Some v" and "\<And>k v. m k = Some v \<Longrightarrow> 0 \<le> f v"
  shows "f v \<le> total_of f m"
proof -
  have "0 \<le> total_of f (m(k := None))" using assms(3) by (intro total_of_nonneg) (auto split: if_splits)
  then show ?thesis using total_of_delete [OF assms(1,2), of f] by linarith
qed

end
