(* ===== verification/Open_Orders.thy ===== *)
theory Open_Orders
  imports Order_Table Map_Sum
begin

text \<open>
  The contract of \<open>OrderTable\<close>: it is a finite map from order ids to rows, its count is the
  size of the map, and the per-instrument live counts and open lots are the counts and sums
  over the map.  Every operation returns, keeps the invariant and computes the map operation;
  the table is the second instance of the \<open>order_store\<close> contract.
\<close>

section \<open>Abstraction and invariant\<close>

definition ot_abs :: "order_table \<Rightarrow> order_id \<rightharpoonup> order_row" where
  "ot_abs t k = map_option (ot_rows t) (ix_map (ot_index t) k)"

definition lots_of :: "side \<Rightarrow> u16 \<Rightarrow> order_row \<Rightarrow> int" where
  "lots_of sd i r = (if row_side r = sd \<and> row_instrument r = i then row_leaves r else 0)"

definition is_on :: "u16 \<Rightarrow> order_row \<Rightarrow> u32" where
  "is_on i r = (if row_instrument r = i then 1 else 0)"

definition dense :: "order_table \<Rightarrow> bool" where
  "dense t \<longleftrightarrow> (\<forall>k p. ix_map (ot_index t) k = Some p \<longrightarrow> p < ot_n t \<and> row_id (ot_rows t p) = k)
     \<and> (\<forall>p<ot_n t. ix_map (ot_index t) (row_id (ot_rows t p)) = Some p)"

definition counts_ok :: "order_table \<Rightarrow> (order_id \<rightharpoonup> order_row) \<Rightarrow> bool" where
  "counts_ok t m \<longleftrightarrow> (\<forall>i. ot_live t i = total_of (is_on i) m
     \<and> ot_open_buy t i = total_of (lots_of Buy i) m \<and> ot_open_sell t i = total_of (lots_of Sell i) m)"

definition ot_inv :: "order_table \<Rightarrow> bool" where
  "ot_inv t \<longleftrightarrow> ot_n t \<le> MAX_ROWS \<and> ix_inv (ot_index t) \<and> dense t \<and> counts_ok t (ot_abs t)"

lemma denseD:
  assumes "dense t"
  shows "ix_map (ot_index t) k = Some p \<Longrightarrow> p < ot_n t"
    and "ix_map (ot_index t) k = Some p \<Longrightarrow> row_id (ot_rows t p) = k"
    and "p < ot_n t \<Longrightarrow> ix_map (ot_index t) (row_id (ot_rows t p)) = Some p"
  using assms by (auto simp: dense_def)

lemma ot_abs_dom: "dom (ot_abs t) = dom (ix_map (ot_index t))"
  by (auto simp: ot_abs_def)

lemma ot_abs_finite [simp]: "finite (dom (ot_abs t))"
  by (simp add: ot_abs_dom ix_map_def finite_dom_probe_map)

lemma card_word_less: "card {p. p < (n :: u32)} = unat n"
proof -
  have "{p. p < n} = (word_of_nat :: nat \<Rightarrow> u32) ` {..<unat n}"
  proof (intro set_eqI iffI)
    fix p assume "p \<in> {p. p < n}"
    then have "unat p \<in> {..<unat n}" by (simp add: word_less_nat_alt)
    then show "p \<in> word_of_nat ` {..<unat n}" by (intro image_eqI [of _ _ "unat p"]) simp_all
  next
    fix p :: u32 assume "p \<in> word_of_nat ` {..<unat n}"
    then obtain i where i: "i < unat n" "p = (word_of_nat i :: u32)" by auto
    then have "unat p = i" using unat_u32_less [of n] by (simp add: unat_of_nat)
    with i show "p \<in> {p. p < n}" by (simp add: word_less_nat_alt)
  qed
  moreover have "inj_on (word_of_nat :: nat \<Rightarrow> u32) {..<unat n}"
    by (rule inj_onI) (metis lessThan_iff less_trans unat_of_nat_u32 unat_u32_less)
  ultimately show ?thesis by (simp add: card_image)
qed

lemma ot_abs_card:
  assumes "dense t"
  shows "card (dom (ot_abs t)) = unat (ot_n t)"
proof -
  have "dom (ot_abs t) = (\<lambda>p. row_id (ot_rows t p)) ` {p. p < ot_n t}"
    using denseD [OF assms] unfolding ot_abs_dom by (auto simp: image_iff) metis
  moreover have "inj_on (\<lambda>p. row_id (ot_rows t p)) {p. p < ot_n t}"
    using denseD(3) [OF assms] by (intro inj_onI) (metis mem_Collect_eq option.inject)
  ultimately show ?thesis by (simp add: card_image card_word_less)
qed

lemma ot_room:
  assumes "ot_inv t"
  shows "card (dom (ix_map (ot_index t))) < 2 ^ idx_bits"
  using assms ot_abs_card [of t]
  by (simp add: ot_inv_def MAX_ROWS_def word_le_nat_alt ot_abs_dom idx_bits_def)

lemma ot_abs_id: "dense t \<Longrightarrow> ot_abs t k = Some r \<Longrightarrow> row_id r = k"
  using denseD(2) by (auto simp: ot_abs_def)

section \<open>find\<close>

text \<open>\<open>row_at t k p\<close>: position \<open>p\<close> holds the live row of \<open>k\<close>.\<close>

definition row_at :: "order_table \<Rightarrow> order_id \<Rightarrow> u32 \<Rightarrow> bool" where
  "row_at t k p \<longleftrightarrow> p < ot_n t \<and> ix_map (ot_index t) k = Some p"

lemma row_atD:
  assumes "ot_inv t" "row_at t k p"
  shows "ot_abs t k = Some (ot_rows t p)" and "row_id (ot_rows t p) = k" and "p < ot_n t"
  using assms denseD(2) by (auto simp: row_at_def ot_abs_def ot_inv_def)

lemma row_at_self: "ot_inv t \<Longrightarrow> p < ot_n t \<Longrightarrow> row_at t (row_id (ot_rows t p)) p"
  using denseD(3) by (auto simp: row_at_def ot_inv_def)

lemma ot_find_sound:
  assumes "ot_inv t"
  shows "\<exists>r. ot_find t k = Some r \<and> (case r of None \<Rightarrow> ot_abs t k = None | Some p \<Rightarrow> row_at t k p)"
proof -
  have "ix_inv (ot_index t)" and d: "dense t" using assms by (simp_all add: ot_inv_def)
  from slot_of_sound [OF this(1) ot_room [OF assms], of k] obtain r where
    r: "slot_of (ot_index t) k = Some r"
    "case r of None \<Rightarrow> ix_map (ot_index t) k = None | Some s \<Rightarrow> slot_ok (ot_index t) k s" by blast
  then show ?thesis
    using denseD(1) [OF d] by (cases r) (auto simp: ot_find_def ot_abs_def slot_ok_def row_at_def)
qed

lemma ot_find_cases:
  assumes "ot_inv t"
  obtains (none) "ot_find t k = Some None" "ot_abs t k = None"
  | (some) p where "ot_find t k = Some (Some p)" "row_at t k p" "ot_abs t k = Some (ot_rows t p)"
proof -
  obtain r where r: "ot_find t k = Some r" "case r of None \<Rightarrow> ot_abs t k = None | Some p \<Rightarrow> row_at t k p"
    using ot_find_sound [OF assms, of k] by blast
  then show thesis using row_atD(1) [OF assms, of k] none some by (cases r) simp_all
qed

section \<open>Writing a row\<close>

text \<open>A write that keeps id, instrument, side and leaves.\<close>

definition keeps_key :: "(order_row \<Rightarrow> order_row) \<Rightarrow> bool" where
  "keeps_key f \<longleftrightarrow> (\<forall>r. row_id (f r) = row_id r \<and> row_instrument (f r) = row_instrument r
     \<and> row_side (f r) = row_side r \<and> row_leaves (f r) = row_leaves r)"

lemma ix_map_inj:
  "dense t \<Longrightarrow> ix_map (ot_index t) k = Some p \<Longrightarrow> ix_map (ot_index t) k' = Some p \<Longrightarrow> k = k'"
  by (metis denseD(2))

lemma ot_abs_write:
  assumes "ot_inv t" "row_at t k p" "ot_index u = ot_index t" "ot_rows u = (ot_rows t)(p := r)"
  shows "ot_abs u = (ot_abs t)(k \<mapsto> r)"
proof
  fix x
  have "dense t" using assms(1) by (simp add: ot_inv_def)
  note inj = ix_map_inj [OF this, of k p x]
  have k: "ix_map (ot_index t) k = Some p" using assms(2) by (simp add: row_at_def)
  show "ot_abs u x = ((ot_abs t)(k \<mapsto> r)) x"
    unfolding ot_abs_def assms(3,4) using k inj
    by (cases "x = k"; cases "ix_map (ot_index t) x") auto
qed

lemma dense_write:
  assumes "ot_inv t" "row_at t k p" "ot_index u = ot_index t" "ot_rows u = (ot_rows t)(p := r)"
    "ot_n u = ot_n t" "row_id r = k"
  shows "dense u"
proof -
  have d: "dense t" and p: "p < ot_n t" "ix_map (ot_index t) k = Some p"
    using assms by (simp_all add: ot_inv_def row_at_def)
  have "row_id (ot_rows u x) = row_id (ot_rows t x)" for x
    using denseD(2) [OF d p(2)] assms(4,6) by simp
  then show ?thesis using d assms(3,5) by (simp add: dense_def)
qed

lemma ot_write_sound:
  assumes inv: "ot_inv t" and p: "row_at t k p" and f: "keeps_key f"
  shows "ot_inv (ot_write p f t)" and "ot_abs (ot_write p f t) = (ot_abs t)(k \<mapsto> f (ot_rows t p))"
    and "ot_n (ot_write p f t) = ot_n t" and "row_at (ot_write p f t) k' q = row_at t k' q"
proof -
  note at = row_atD [OF inv p]
  let ?u = "ot_write p f t" and ?r = "f (ot_rows t p)"
  have r: "row_id ?r = k" using f at(2) by (simp add: keeps_key_def)
  show abs: "ot_abs ?u = (ot_abs t)(k \<mapsto> ?r)"
    using inv p by (intro ot_abs_write) (simp_all add: ot_write_def)
  have "dense ?u" using inv p r by (intro dense_write [of t k p _ ?r]) (simp_all add: ot_write_def)
  moreover have "total_of (is_on i) ((ot_abs t)(k \<mapsto> ?r)) = total_of (is_on i) (ot_abs t)"
    "total_of (lots_of sd i) ((ot_abs t)(k \<mapsto> ?r)) = total_of (lots_of sd i) (ot_abs t)" for i sd
    using at(1) f by (auto intro!: total_of_update_same simp: keeps_key_def is_on_def lots_of_def)
  ultimately show "ot_inv ?u"
    using inv unfolding ot_inv_def counts_ok_def abs by (simp add: ot_write_def)
  show "ot_n ?u = ot_n t" and "row_at ?u k' q = row_at t k' q" by (simp_all add: ot_write_def row_at_def)
qed

lemma add_open_simps [simp]:
  "ot_index (add_open r d t) = ot_index t" "ot_rows (add_open r d t) = ot_rows t"
  "ot_n (add_open r d t) = ot_n t" "ot_live (add_open r d t) = ot_live t"
  "ot_gen (add_open r d t) = ot_gen t" "ot_counter (add_open r d t) = ot_counter t"
  by (simp_all add: add_open_def split: side.splits)

lemma add_open_lots:
  "ot_open_buy (add_open r d t) i = ot_open_buy t i + (if row_side r = Buy \<and> row_instrument r = i then d else 0)"
  "ot_open_sell (add_open r d t) i = ot_open_sell t i + (if row_side r = Sell \<and> row_instrument r = i then d else 0)"
  by (auto simp: add_open_def split: side.splits)

lemma ot_set_leaves_sound:
  assumes inv: "ot_inv t" and p: "row_at t k p"
  shows "ot_inv (ot_set_leaves p l t)"
    and "ot_abs (ot_set_leaves p l t) = (ot_abs t)(k \<mapsto> (ot_rows t p)\<lparr>row_leaves := l\<rparr>)"
    and "ot_n (ot_set_leaves p l t) = ot_n t" and "row_at (ot_set_leaves p l t) k' q = row_at t k' q"
proof -
  note at = row_atD [OF inv p]
  let ?u = "ot_set_leaves p l t" and ?r = "(ot_rows t p)\<lparr>row_leaves := l\<rparr>"
  have cnt: "counts_ok t (ot_abs t)" using inv by (simp add: ot_inv_def)
  show abs: "ot_abs ?u = (ot_abs t)(k \<mapsto> ?r)"
    using inv p by (intro ot_abs_write) (simp_all add: ot_set_leaves_def Let_def)
  have "dense ?u" using inv p at(2) by (intro dense_write [of t k p _ ?r]) (simp_all add: ot_set_leaves_def Let_def)
  moreover have "counts_ok ?u (ot_abs ?u)"
    unfolding abs counts_ok_def total_of_update [OF ot_abs_finite at(1)]
    using cnt unfolding counts_ok_def total_of_delete [OF ot_abs_finite at(1)]
    by (auto simp: ot_set_leaves_def Let_def add_open_lots is_on_def lots_of_def)
  ultimately show "ot_inv ?u"
    using inv by (simp add: ot_inv_def ot_set_leaves_def Let_def)
  show "ot_n ?u = ot_n t" and "row_at ?u k' q = row_at t k' q"
    by (simp_all add: ot_set_leaves_def row_at_def Let_def)
qed

section \<open>insert\<close>

lemma ot_insert_sound:
  assumes inv: "ot_inv t" and room: "ot_n t < MAX_ROWS" and new: "ot_abs t (row_id r) = None" "row_id r \<noteq> 0"
  shows "\<exists>u. ot_insert t r = Some (Some (ot_n t), u) \<and> ot_inv u \<and> ot_abs u = (ot_abs t)(row_id r \<mapsto> r)
    \<and> ot_n u = ot_n t + 1 \<and> ot_counter u = ot_counter t \<and> ot_gen u = ot_gen t"
proof -
  have ix: "ix_inv (ot_index t)" and d: "dense t" and cnt: "counts_ok t (ot_abs t)"
    using inv by (simp_all add: ot_inv_def)
  have new': "ix_map (ot_index t) (row_id r) = None" using new(1) by (simp add: ot_abs_def)
  from slot_of_sound [OF ix ot_room [OF inv], of "row_id r"] new'
  have slot: "slot_of (ot_index t) (row_id r) = Some None" by (auto simp: slot_ok_def split: option.splits)
  define index where "index q = (ot_index t)(q AND INDEX_MASK := \<lparr>ix_key = row_id r, ix_pos = ot_n t\<rparr>)" for q
  from ix_insert_sound [OF ix ot_room [OF inv] new' new(2), of "ot_n t"] obtain q where
    q: "free_from (ot_index t) (ot_hash (row_id r)) = Some q" and ix': "ix_inv (index q)"
    and map: "ix_map (index q) = (ix_map (ot_index t))(row_id r \<mapsto> ot_n t)" unfolding index_def by blast
  define u where "u = (add_open r (row_leaves r) (t\<lparr>ot_index := index q, ot_rows := (ot_rows t)(ot_n t := r)\<rparr>))
    \<lparr>ot_live := (ot_live t)(row_instrument r := ot_live t (row_instrument r) + 1), ot_n := ot_n t + 1\<rparr>"
  have run: "ot_insert t r = Some (Some (ot_n t), u)"
    using room new(2) slot q by (simp add: ot_insert_def INVALID_ORDER_def Let_def u_def index_def)
  have suc: "p < ot_n t + 1 \<longleftrightarrow> p < ot_n t \<or> p = ot_n t" for p
  proof -
    have "unat (ot_n t + 1) = unat (ot_n t) + 1"
      using room by (intro unat_Suc_no_wrap) (simp add: MAX_ROWS_def word_less_nat_alt)
    then show ?thesis by (auto simp: word_less_nat_alt word_unat_eq_iff)
  qed
  have abs: "ot_abs u = (ot_abs t)(row_id r \<mapsto> r)"
  proof
    fix x
    show "ot_abs u x = ((ot_abs t)(row_id r \<mapsto> r)) x"
      using denseD(1) [OF d, of x] by (auto simp: ot_abs_def u_def map map_option_case split: option.splits)
  qed
  have "dense u"
    using denseD [OF d] new' unfolding dense_def u_def by (auto simp: map suc split: if_splits) force
  moreover have "counts_ok u (ot_abs u)"
    using cnt unfolding abs counts_ok_def total_of_insert [where m = "ot_abs t" and k = "row_id r" and v = r, OF ot_abs_finite new(1)]
    by (auto simp: u_def add_open_lots is_on_def lots_of_def)
  moreover have "ot_n u \<le> MAX_ROWS" using room by (simp add: u_def inc_le)
  ultimately have "ot_inv u" using ix' by (simp add: ot_inv_def u_def)
  with run abs show ?thesis by (simp add: u_def)
qed

lemma ot_insert_refused:
  assumes "ot_inv t" and "ot_n t = MAX_ROWS \<or> row_id r = 0 \<or> ot_abs t (row_id r) \<noteq> None"
  shows "ot_insert t r = Some (None, t)"
proof -
  have ix: "ix_inv (ot_index t)" using assms(1) by (simp add: ot_inv_def)
  from slot_of_sound [OF this ot_room [OF assms(1)], of "row_id r"] obtain s where
    s: "slot_of (ot_index t) (row_id r) = Some s"
    "case s of None \<Rightarrow> ix_map (ot_index t) (row_id r) = None | Some s \<Rightarrow> slot_ok (ot_index t) (row_id r) s" by blast
  with assms(2) show ?thesis
    by (cases s) (auto simp: ot_insert_def INVALID_ORDER_def ot_abs_def)
qed

section \<open>erase\<close>

text \<open>
  \<open>swap_remove t k p index u\<close>: \<open>u\<close> is \<open>t\<close> with the last row moved to \<open>p\<close>, the position of \<open>k\<close>, and
  the index forgetting \<open>k\<close> and repointed to the moved row.
\<close>

definition swap_remove :: "order_table \<Rightarrow> order_id \<Rightarrow> u32 \<Rightarrow> order_table \<Rightarrow> bool" where
  "swap_remove t k p u \<longleftrightarrow> (let lst = ot_n t - 1 in
     ot_n u = lst \<and> ot_rows u = (ot_rows t)(p := ot_rows t lst)
     \<and> ix_map (ot_index u) = (ix_map (ot_index t))(row_id (ot_rows t lst) \<mapsto> p, k := None))"

lemma pred_less:
  assumes "(p :: u32) < n"
  shows "q < n - 1 \<longleftrightarrow> q < n \<and> q \<noteq> n - 1" and "n - 1 < n"
proof -
  have "0 < unat n" using assms by (simp add: word_less_nat_alt)
  moreover from this have "unat (n - 1) = unat n - 1" using unat_sub_no_borrow [of 1 n] by simp
  ultimately show "q < n - 1 \<longleftrightarrow> q < n \<and> q \<noteq> n - 1" and "n - 1 < n"
    by (auto simp: word_less_nat_alt word_unat_eq_iff)
qed

lemma swap_remove_sound:
  assumes inv: "ot_inv t" and p: "row_at t k p" and sr: "swap_remove t k p u"
  shows "dense u" and "ot_abs u = (ot_abs t)(k := None)"
proof -
  let ?lst = "ot_n t - 1"
  let ?kl = "row_id (ot_rows t ?lst)"
  have d: "dense t" using inv by (simp add: ot_inv_def)
  note at = row_atD [OF inv p]
  note less = pred_less(1) [OF at(3)]
  have "?lst < ot_n t" by (rule pred_less(2) [OF at(3)])
  note kl = denseD(3) [OF d this]
  have ix: "ix_map (ot_index t) k = Some p" using p by (simp add: row_at_def)
  have u: "ot_n u = ?lst" "ot_rows u = (ot_rows t)(p := ot_rows t ?lst)"
    "ix_map (ot_index u) = (ix_map (ot_index t))(?kl \<mapsto> p, k := None)"
    using sr by (simp_all add: swap_remove_def Let_def)
  show "ot_abs u = (ot_abs t)(k := None)"
  proof
    fix x
    consider "x = k" | "x = ?kl" "x \<noteq> k" | "x \<noteq> ?kl" "x \<noteq> k" by blast
    then show "ot_abs u x = ((ot_abs t)(k := None)) x"
    proof cases
      case 2
      then show ?thesis using kl by (simp add: ot_abs_def u)
    next
      case 3
      then show ?thesis
        using ix ix_map_inj [OF d, of x p k] by (cases "ix_map (ot_index t) x") (auto simp: ot_abs_def u)
    qed (simp add: ot_abs_def u)
  qed
  show "dense u"
    unfolding dense_def
  proof (intro conjI allI impI)
    fix x q assume q: "ix_map (ot_index u) x = Some q"
    show "q < ot_n u"
      using q ix kl ix_map_inj [OF d, of x q ?kl] ix_map_inj [OF d, of k p ?kl] denseD(1) [OF d, of x q] at(3)
      by (auto simp: u less split: if_splits)
    show "row_id (ot_rows u q) = x"
      using q ix at(2) denseD(2) [OF d, of x q] by (auto simp: u split: if_splits)
  next
    fix q assume "q < ot_n u"
    then have q: "q < ot_n t" "q \<noteq> ?lst" by (simp_all add: u less)
    note ixq = denseD(3) [OF d q(1)]
    show "ix_map (ot_index u) (row_id (ot_rows u q)) = Some q"
      using ixq q(2) kl ix at(2) by (auto simp: u)
  qed
qed

lemma ot_erase_sound:
  assumes inv: "ot_inv t"
  shows "\<exists>u. ot_erase t k = Some u \<and> ot_inv u \<and> ot_abs u = (ot_abs t)(k := None)
    \<and> ot_counter u = ot_counter t \<and> ot_gen u = ot_gen t"
proof -
  have ix: "ix_inv (ot_index t)" and d: "dense t" and cnt: "counts_ok t (ot_abs t)" and n: "ot_n t \<le> MAX_ROWS"
    using inv by (simp_all add: ot_inv_def)
  note room = ot_room [OF inv]
  obtain s where s: "slot_of (ot_index t) k = Some s"
    "case s of None \<Rightarrow> ix_map (ot_index t) k = None | Some s \<Rightarrow> slot_ok (ot_index t) k s"
    using slot_of_sound [OF ix room] by blast
  show ?thesis
  proof (cases s)
    case None
    then have "(ot_abs t)(k := None) = ot_abs t" using s(2) by (auto simp: ot_abs_def)
    with None s(1) inv show ?thesis by (simp add: ot_erase_def)
  next
    case (Some sl)
    with s(2) have sl: "slot_ok (ot_index t) k sl" by simp
    define p where "p = ix_pos (ot_index t sl)"
    define row where "row = ot_rows t p"
    define lst where "lst = ot_n t - 1"
    have ixk: "ix_map (ot_index t) k = Some p" using sl by (simp add: slot_ok_def p_def)
    then have p: "row_at t k p" using denseD(1) [OF d] by (simp add: row_at_def)
    note at = row_atD [OF inv p, folded row_def]
    define t1 where "t1 = (add_open row (- row_leaves row) t)
      \<lparr>ot_live := (ot_live t)(row_instrument row := ot_live t (row_instrument row) - 1), ot_n := lst\<rparr>"
    have t1: "ot_index t1 = ot_index t" "ot_rows t1 = ot_rows t" "ot_n t1 = lst"
      "ot_counter t1 = ot_counter t" "ot_gen t1 = ot_gen t" by (simp_all add: t1_def)
    have "lst < ot_n t" using pred_less(2) [OF at(3)] by (simp add: lst_def)
    note ixl = denseD(3) [OF d this]
    let ?kl = "row_id (ot_rows t lst)"
    \<comment> \<open>the repointed index\<close>
    obtain t2 where t2: "move_row p lst t1 = Some t2"
      and t2i: "ix_inv (ot_index t2)" "ix_map (ot_index t2) = (ix_map (ot_index t))(?kl \<mapsto> p)"
        "ot_index t2 sl = ot_index t sl \<or> p = lst" "slot_ok (ot_index t2) k sl"
      and t2r: "t2 = t1\<lparr>ot_rows := (ot_rows t)(p := ot_rows t lst), ot_index := ot_index t2\<rparr>"
    proof (cases "p = lst")
      case True
      have "(ix_map (ot_index t))(?kl \<mapsto> p) = ix_map (ot_index t)" using True ixl by (simp add: map_upd_triv)
      then show thesis using that [of t1] True ix sl by (simp add: t1 move_row_def)
    next
      case False
      then have kl: "?kl \<noteq> k" using ixl ixk by auto
      obtain m where m: "slot_of (ot_index t) ?kl = Some (Some m)" "slot_ok (ot_index t) ?kl m"
        using slot_of_sound [OF ix room, of ?kl] ixl by (auto split: option.splits)
      then have msl: "m \<noteq> sl" using sl kl by (auto simp: slot_ok_def)
      define t2 where "t2 = t1\<lparr>ot_rows := (ot_rows t)(p := ot_rows t lst),
        ot_index := (ot_index t)(m := (ot_index t m)\<lparr>ix_pos := p\<rparr>)\<rparr>"
      note rp = ix_repoint_sound [OF ix m(2), of p]
      have "slot_ok (ot_index t2) k sl"
        using sl kl msl unfolding slot_ok_def t2_def by (simp add: rp(2))
      with False rp m(1) msl show thesis
        by (intro that [of t2]) (simp_all add: t2_def t1 Let_def move_row_def)
    qed
    have "dom (ix_map (ot_index t2)) = dom (ix_map (ot_index t))" using ixl by (auto simp: t2i(2))
    then have room2: "card (dom (ix_map (ot_index t2))) < 2 ^ idx_bits" using room by simp
    from ix_erase_sound [OF t2i(1) room2 t2i(4)] obtain index where
      index: "shift_from (ot_index t2) sl ((sl + 1) AND INDEX_MASK) = Some index" "ix_inv index"
      "ix_map index = (ix_map (ot_index t))(?kl \<mapsto> p, k := None)" by (auto simp: t2i(2))
    define u where "u = t2\<lparr>ot_index := index\<rparr>"
    have run: "ot_erase t k = Some u"
      using s(1) Some t2 [unfolded t1_def lst_def] index(1)
      by (simp add: ot_erase_def Let_def p_def [symmetric] row_def [symmetric] u_def)
    have uf: "ot_index u = index" "ot_n u = lst" "ot_rows u = (ot_rows t)(p := ot_rows t lst)"
      "ot_live u = ot_live t1" "ot_open_buy u = ot_open_buy t1" "ot_open_sell u = ot_open_sell t1"
      "ot_counter u = ot_counter t" "ot_gen u = ot_gen t"
      unfolding u_def by (subst t2r, simp add: t1)+
    have sr: "swap_remove t k p u"
      by (simp add: swap_remove_def Let_def uf index(3) lst_def)
    note srs = swap_remove_sound [OF inv p sr]
    have "counts_ok u (ot_abs u)"
      using cnt unfolding srs(2) counts_ok_def total_of_delete [OF ot_abs_finite at(1)]
      by (auto simp: uf t1_def add_open_lots is_on_def lots_of_def)
    moreover have "ot_n u \<le> MAX_ROWS"
      using sr n \<open>lst < ot_n t\<close> by (simp add: swap_remove_def Let_def lst_def)
    ultimately have "ot_inv u" using srs(1) index(2) by (simp add: ot_inv_def uf)
    then show ?thesis using run srs(2) by (simp add: uf)
  qed
qed

section \<open>The store contract\<close>

definition ot_get :: "order_table \<Rightarrow> order_id \<Rightarrow> order_row option option" where
  "ot_get t k = map_option (map_option (ot_rows t)) (ot_find t k)"

definition ot_put :: "order_table \<Rightarrow> order_id \<Rightarrow> order_row \<Rightarrow> order_table option" where
  "ot_put t k r = (case ot_insert t r of Some (Some _, u) \<Rightarrow> Some u | _ \<Rightarrow> None)"

definition valid_row :: "order_id \<Rightarrow> order_row \<Rightarrow> bool" where
  "valid_row k r \<longleftrightarrow> k \<noteq> INVALID_ORDER \<and> row_id r = k"

lemma ot_new_sound: "ot_inv (ot_new r)" "ot_abs (ot_new r) = Map.empty"
proof -
  have tab: "ix_tab (ot_index (ot_new r)) = (\<lambda>_. None)" by (simp add: ix_tab_def ot_new_def fun_eq_iff Let_def)
  have map: "ix_map (ot_index (ot_new r)) = Map.empty"
    by (intro ext) (simp add: ix_map_def tab probe_map_def find_None_iff split: option.splits)
  then show abs: "ot_abs (ot_new r) = Map.empty" by (simp add: ot_abs_def fun_eq_iff)
  have "ix_inv (ot_index (ot_new r))" by (simp add: ix_inv_def tab probe_inv_def unique_keys_def)
  then show "ot_inv (ot_new r)"
    unfolding ot_inv_def dense_def counts_ok_def abs map by (simp add: ot_new_def)
qed

text \<open>The bound: \<open>2048\<close> rows fit, so a map below \<open>2049\<close> entries is always in range.\<close>

interpretation ot_store: order_store ot_inv ot_abs 2049 ot_get ot_put ot_erase valid_row
proof unfold_locales
  fix t k r
  show "finite (dom (ot_abs t))" by simp
  assume inv: "ot_inv t"
  then have card: "card (dom (ot_abs t)) = unat (ot_n t)" by (simp add: ot_inv_def ot_abs_card)
  show "ot_get t k = Some (ot_abs t k)"
    using inv by (rule ot_find_cases [of t k]) (simp_all add: ot_get_def)
  show "\<exists>u. ot_put t k r = Some u \<and> ot_inv u \<and> ot_abs u = (ot_abs t)(k \<mapsto> r)"
    if "card (dom (ot_abs t)) + 1 < 2049" "ot_abs t k = None" "valid_row k r"
  proof -
    have "ot_n t < MAX_ROWS" using that(1) card by (simp add: MAX_ROWS_def word_less_nat_alt)
    then show ?thesis
      using ot_insert_sound [OF inv, of r] that(2,3) by (auto simp: ot_put_def valid_row_def INVALID_ORDER_def)
  qed
  show "\<exists>u. ot_erase t k = Some u \<and> ot_inv u \<and> ot_abs u = (ot_abs t)(k := None)"
    using ot_erase_sound [OF inv, of k] by blast
qed

end
