(* ===== verification/Doubles.thy ===== *)
theory Doubles
  imports Complex_Main Prelude
begin

text \<open>
  Arithmetic on \<open>double\<close>.  An IEEE operation returns the rounding of the exact result, so a
  \<open>double\<close> is a real number and every operation of the source is the real operation under
  \<open>rnd\<close>, a parameter of the definitions.  \<open>rounding\<close> collects what the program relies on and
  every IEEE rounding mode has: it is monotone, leaves results of operations alone, and is exact
  on zero.  Infinities and NaN are outside the model.
\<close>

definition rounding :: "(real \<Rightarrow> real) \<Rightarrow> bool" where
  "rounding rnd \<longleftrightarrow> mono rnd \<and> (\<forall>x. rnd (rnd x) = rnd x) \<and> rnd 0 = 0"

definition dbl :: "(real \<Rightarrow> real) \<Rightarrow> int \<Rightarrow> real" where
  "dbl rnd i = rnd (of_int i)"

text \<open>The conversion of a \<open>double\<close> to an integer type truncates toward zero.\<close>

definition trunc :: "real \<Rightarrow> int" where
  "trunc x = (if 0 \<le> x then \<lfloor>x\<rfloor> else \<lceil>x\<rceil>)"

lemma rounding_id: "rounding (\<lambda>x. x)"
  by (simp add: rounding_def mono_def)

lemma roundingD:
  assumes "rounding rnd"
  shows "x \<le> y \<Longrightarrow> rnd x \<le> rnd y" and "rnd (rnd x) = rnd x" and "rnd 0 = 0"
    and "0 \<le> x \<Longrightarrow> 0 \<le> rnd x"
proof -
  show mono: "rnd x \<le> rnd y" if "x \<le> y" for x y using assms that by (simp add: rounding_def mono_def)
  show "rnd (rnd x) = rnd x" and z: "rnd 0 = 0" using assms by (simp_all add: rounding_def)
  show "0 \<le> rnd x" if "0 \<le> x" using mono [OF that] z by simp
qed

end
