(* ===== verification/Rate_Model.thy ===== *)
theory Rate_Model
  imports Doubles
begin

text \<open>
  \<open>RateModel\<close> of \<open>src/exec/rate_model.hpp\<close>: Kraken's per-pair rate counter.  \<open>count\<close> is a
  \<open>double\<close>, here a real under the rounding \<open>rnd\<close>; times are in nanoseconds.  Shown: a counter
  never goes below zero and decays with time, and as long as every request is checked before it
  is charged it stays under the venue's limit less the margin.
\<close>

datatype rate_op = Op_Add | Op_Amend | Op_Cancel

record kraken_rate_params =
  rp_max :: real
  rp_decay_per_s :: real
  rp_max_open :: u32
  rp_margin :: real

definition kraken_defaults :: kraken_rate_params where
  "kraken_defaults = \<lparr>rp_max = 60, rp_decay_per_s = 1, rp_max_open = 60, rp_margin = 5\<rparr>"

definition SEC_NS :: int where "SEC_NS = 1000000000"

definition kraken_rate_cost :: "rate_op \<Rightarrow> int \<Rightarrow> int" where
  "kraken_rate_cost op age_ns = (case op of
     Op_Add \<Rightarrow> 1
   | Op_Amend \<Rightarrow> 1 + (if age_ns < 5 * SEC_NS then 3 else if age_ns < 10 * SEC_NS then 2
       else if age_ns < 15 * SEC_NS then 1 else 0)
   | Op_Cancel \<Rightarrow> (if age_ns < 5 * SEC_NS then 8 else if age_ns < 10 * SEC_NS then 6
       else if age_ns < 15 * SEC_NS then 5 else if age_ns < 45 * SEC_NS then 4
       else if age_ns < 90 * SEC_NS then 2 else if age_ns < 300 * SEC_NS then 1 else 0))"

record counter =
  ct_count :: real
  ct_last_ns :: int

record rate_model =
  rm_enabled :: bool
  rm_p :: kraken_rate_params
  rm_c :: "u16 \<Rightarrow> counter"

definition rate_new :: rate_model where
  "rate_new = \<lparr>rm_enabled = False, rm_p = kraken_defaults, rm_c = (\<lambda>_. \<lparr>ct_count = 0, ct_last_ns = 0\<rparr>)\<rparr>"

definition rate_configure :: "bool \<Rightarrow> kraken_rate_params \<Rightarrow> rate_model \<Rightarrow> rate_model" where
  "rate_configure enabled p r = r\<lparr>rm_enabled := enabled, rm_p := p\<rparr>"

definition rate_count :: "(real \<Rightarrow> real) \<Rightarrow> rate_model \<Rightarrow> u16 \<Rightarrow> int \<Rightarrow> real" where
  "rate_count rnd r inst now_ns =
     (let c = rm_c r inst
      in if now_ns \<le> ct_last_ns c then ct_count c
         else let v = rnd (ct_count c
                - rnd (rnd (rp_decay_per_s (rm_p r) * dbl rnd (now_ns - ct_last_ns c)) / 1000000000))
              in if v > 0 then v else 0)"

definition rate_limit :: "(real \<Rightarrow> real) \<Rightarrow> rate_model \<Rightarrow> real" where
  "rate_limit rnd r = rnd (rp_max (rm_p r) - rp_margin (rm_p r))"

definition rate_budget :: "(real \<Rightarrow> real) \<Rightarrow> rate_model \<Rightarrow> u16 \<Rightarrow> int \<Rightarrow> real" where
  "rate_budget rnd r inst now_ns =
     (if rm_enabled r then rnd (rate_limit rnd r - rate_count rnd r inst now_ns) else 10 ^ 18)"

definition would_allow :: "(real \<Rightarrow> real) \<Rightarrow> rate_model \<Rightarrow> u16 \<Rightarrow> rate_op \<Rightarrow> int \<Rightarrow> int \<Rightarrow> bool" where
  "would_allow rnd r inst op age_ns now_ns \<longleftrightarrow> \<not> rm_enabled r
     \<or> rnd (rate_count rnd r inst now_ns + of_int (kraken_rate_cost op age_ns)) \<le> rate_limit rnd r"

definition rate_charge :: "(real \<Rightarrow> real) \<Rightarrow> u16 \<Rightarrow> rate_op \<Rightarrow> int \<Rightarrow> int \<Rightarrow> rate_model \<Rightarrow> rate_model" where
  "rate_charge rnd inst op age_ns now_ns r =
     (if \<not> rm_enabled r then r
      else let c = rm_c r inst;
               c = c\<lparr>ct_count := rnd (rate_count rnd r inst now_ns + of_int (kraken_rate_cost op age_ns))\<rparr>;
               c = (if now_ns > ct_last_ns c then c\<lparr>ct_last_ns := now_ns\<rparr> else c)
           in r\<lparr>rm_c := (rm_c r)(inst := c)\<rparr>)"

section \<open>Facts\<close>

lemma kraken_rate_cost_bounds: "0 \<le> kraken_rate_cost op age" "kraken_rate_cost op age \<le> 8"
  by (simp_all add: kraken_rate_cost_def split: rate_op.split)

definition rate_inv :: "(real \<Rightarrow> real) \<Rightarrow> rate_model \<Rightarrow> bool" where
  "rate_inv rnd r \<longleftrightarrow> 0 \<le> rp_decay_per_s (rm_p r)
     \<and> (\<forall>i. 0 \<le> ct_count (rm_c r i) \<and> rnd (ct_count (rm_c r i)) = ct_count (rm_c r i))"

lemma rate_new_inv: "rounding rnd \<Longrightarrow> 0 \<le> rp_decay_per_s p \<Longrightarrow> rate_inv rnd (rate_configure b p rate_new)"
  by (simp add: rate_inv_def rate_configure_def rate_new_def roundingD)

lemma rate_count_bounds:
  assumes "rounding rnd" "rate_inv rnd r"
  shows "0 \<le> rate_count rnd r i now" and "rate_count rnd r i now \<le> ct_count (rm_c r i)"
proof -
  let ?c = "ct_count (rm_c r i)" and ?dt = "now - ct_last_ns (rm_c r i)"
  let ?d = "rnd (rnd (rp_decay_per_s (rm_p r) * dbl rnd ?dt) / 1000000000)"
  note rd = roundingD [OF assms(1)]
  have c: "0 \<le> ?c" "rnd ?c = ?c" and p: "0 \<le> rp_decay_per_s (rm_p r)" using assms(2) by (simp_all add: rate_inv_def)
  have "0 \<le> ?d" if "0 < ?dt"
  proof -
    have "0 \<le> dbl rnd ?dt" unfolding dbl_def using that by (intro rd(4)) simp
    then have "0 \<le> rnd (rp_decay_per_s (rm_p r) * dbl rnd ?dt)" using p by (intro rd(4)) simp
    then show ?thesis by (intro rd(4)) simp
  qed
  then have "rnd (?c - ?d) \<le> ?c" if "0 < ?dt" using rd(1) [of "?c - ?d" ?c] c that by simp
  then show "0 \<le> rate_count rnd r i now" and "rate_count rnd r i now \<le> ?c"
    using c by (auto simp: rate_count_def Let_def not_le)
qed

lemma rate_count_decays:
  assumes "rounding rnd" "rate_inv rnd r" "now \<le> later"
  shows "rate_count rnd r i later \<le> rate_count rnd r i now"
proof (cases "now \<le> ct_last_ns (rm_c r i)")
  case True
  then have "rate_count rnd r i now = ct_count (rm_c r i)" by (simp add: rate_count_def Let_def)
  then show ?thesis using rate_count_bounds(2) [OF assms(1,2)] by simp
next
  case False
  let ?c = "rm_c r i" and ?p = "rp_decay_per_s (rm_p r)"
  let ?d = "\<lambda>t. rnd (rnd (?p * dbl rnd (t - ct_last_ns ?c)) / 1000000000)"
  note rd = roundingD [OF assms(1)]
  have "dbl rnd (now - ct_last_ns ?c) \<le> dbl rnd (later - ct_last_ns ?c)"
    unfolding dbl_def using assms(3) by (intro rd(1)) simp
  then have "?p * dbl rnd (now - ct_last_ns ?c) \<le> ?p * dbl rnd (later - ct_last_ns ?c)"
    using assms(2) by (intro mult_left_mono) (simp_all add: rate_inv_def)
  then have "?d now \<le> ?d later" by (intro rd(1) divide_right_mono) simp_all
  then have "rnd (ct_count ?c - ?d later) \<le> rnd (ct_count ?c - ?d now)" by (intro rd(1)) simp
  then show ?thesis using False assms(3) by (auto simp: rate_count_def Let_def)
qed

lemma rate_charge_sound:
  assumes "rounding rnd" "rate_inv rnd r"
  shows "rate_inv rnd (rate_charge rnd i op age now r)" and "rm_p (rate_charge rnd i op age now r) = rm_p r"
    and "rm_enabled (rate_charge rnd i op age now r) = rm_enabled r"
    and "j \<noteq> i \<Longrightarrow> rm_c (rate_charge rnd i op age now r) j = rm_c r j"
    and "rm_enabled r \<Longrightarrow> ct_count (rm_c (rate_charge rnd i op age now r) i)
      = rnd (rate_count rnd r i now + of_int (kraken_rate_cost op age))"
  using assms rate_count_bounds(1) [OF assms, of i now] kraken_rate_cost_bounds(1) [of op age]
  by (auto simp: rate_charge_def rate_inv_def Let_def roundingD)

lemma rate_charge_allowed:
  assumes "rounding rnd" "rate_inv rnd r" "rm_enabled r" "would_allow rnd r i op age now"
  shows "ct_count (rm_c (rate_charge rnd i op age now r) i) \<le> rate_limit rnd r"
  using assms rate_charge_sound(5) [OF assms(1-3)] by (simp add: would_allow_def)

text \<open>Any sequence of charges: instrument, operation, age of the order and time.\<close>

definition charge_all :: "(real \<Rightarrow> real) \<Rightarrow> (u16 \<times> rate_op \<times> int \<times> int) list \<Rightarrow> rate_model \<Rightarrow> rate_model" where
  "charge_all rnd cs r = fold (\<lambda>(i, op, age, now). rate_charge rnd i op age now) cs r"

lemma charge_all_sound:
  assumes "rounding rnd" "rate_inv rnd r"
  shows "rate_inv rnd (charge_all rnd cs r)" and "rm_p (charge_all rnd cs r) = rm_p r"
    and "rm_enabled (charge_all rnd cs r) = rm_enabled r"
proof -
  have "rate_inv rnd (charge_all rnd cs r) \<and> rm_p (charge_all rnd cs r) = rm_p r
    \<and> rm_enabled (charge_all rnd cs r) = rm_enabled r"
    using assms(2)
  proof (induction cs arbitrary: r)
    case (Cons c cs)
    obtain i op age now where c: "c = (i, op, age, now)" by (cases c)
    note s = rate_charge_sound [OF assms(1) Cons.prems, where i = i and op = op and age = age and now = now]
    show ?case using Cons.IH [OF s(1)] s(2,3) by (simp add: charge_all_def c)
  qed (simp add: charge_all_def)
  then show "rate_inv rnd (charge_all rnd cs r)" and "rm_p (charge_all rnd cs r) = rm_p r"
    and "rm_enabled (charge_all rnd cs r) = rm_enabled r" by simp_all
qed

end
