(* ===== verification/Risk.thy ===== *)
theory Risk
  imports Account_Facts Open_Orders Rate_Model
begin

text \<open>
  \<open>RiskGate\<close> of \<open>src/exec/risk.hpp\<close> and the control bits of \<open>src/common/ipc/control.hpp\<close>: the
  checks an order passes before it is recorded or routed, in the order the code makes them.
  The gate reads the account, the order table and the rate model and changes nothing.
  \<open>configure\<close> takes its values through the getters of the configuration file.
\<close>

section \<open>Controls, reasons and limits\<close>

definition SHUTDOWN :: u32 where "SHUTDOWN = 1"
definition KILL :: u32 where "KILL = 2"
definition PAUSE :: u32 where "PAUSE = 4"
definition SWAP :: u32 where "SWAP = 8"

datatype reject_reason =
    Rej_None | Rej_Kill | Rej_Pause | Rej_Not_Traded | Rej_Not_Allowed | Rej_Instrument_Status
  | Rej_Bad_Order | Rej_Min_Qty | Rej_Min_Notional | Rej_Max_Order_Qty | Rej_Max_Order_Notional
  | Rej_Max_Position | Rej_Max_Position_Notional | Rej_Max_Open_Orders | Rej_Price_Band
  | Rej_Insufficient_Base | Rej_Insufficient_Quote | Rej_Rate_Limit | Rej_Open_Order_Limit
  | Rej_Unknown_Order | Rej_Table_Full | Rej_Ring_Full

definition reject_name :: "reject_reason \<Rightarrow> string" where
  "reject_name r = (case r of
     Rej_None \<Rightarrow> ''none'' | Rej_Kill \<Rightarrow> ''kill'' | Rej_Pause \<Rightarrow> ''pause'' | Rej_Not_Traded \<Rightarrow> ''not_traded''
   | Rej_Not_Allowed \<Rightarrow> ''not_allowed'' | Rej_Instrument_Status \<Rightarrow> ''instrument_status''
   | Rej_Bad_Order \<Rightarrow> ''bad_order'' | Rej_Min_Qty \<Rightarrow> ''min_qty'' | Rej_Min_Notional \<Rightarrow> ''min_notional''
   | Rej_Max_Order_Qty \<Rightarrow> ''max_order_qty'' | Rej_Max_Order_Notional \<Rightarrow> ''max_order_notional''
   | Rej_Max_Position \<Rightarrow> ''max_position'' | Rej_Max_Position_Notional \<Rightarrow> ''max_position_notional''
   | Rej_Max_Open_Orders \<Rightarrow> ''max_open_orders'' | Rej_Price_Band \<Rightarrow> ''price_band''
   | Rej_Insufficient_Base \<Rightarrow> ''insufficient_base'' | Rej_Insufficient_Quote \<Rightarrow> ''insufficient_quote''
   | Rej_Rate_Limit \<Rightarrow> ''rate_limit'' | Rej_Open_Order_Limit \<Rightarrow> ''open_order_limit''
   | Rej_Unknown_Order \<Rightarrow> ''unknown_order'' | Rej_Table_Full \<Rightarrow> ''table_full'' | Rej_Ring_Full \<Rightarrow> ''ring_full'')"

record risk_limits =
  rl_max_order_qty :: int
  rl_max_order_notional :: int
  rl_max_position :: int
  rl_max_position_notional :: int
  rl_max_open_orders :: u32
  rl_price_band_bp :: real
  rl_spot_only :: bool

definition no_limits :: risk_limits where
  "no_limits = \<lparr>rl_max_order_qty = 0, rl_max_order_notional = 0, rl_max_position = 0,
     rl_max_position_notional = 0, rl_max_open_orders = 0, rl_price_band_bp = 0, rl_spot_only = True\<rparr>"

record order_check =
  oc_instrument :: u16
  oc_side :: side
  oc_ord_type :: ord_type
  oc_tif :: tif
  oc_px :: int
  oc_qty :: int
  oc_mid2 :: int
  oc_now_ns :: int

record risk_gate =
  rg_lim :: risk_limits
  rg_allowed :: string
  rg_allowed_inst :: "u16 \<Rightarrow> bool"

definition risk_new :: risk_gate where
  "risk_new = \<lparr>rg_lim = no_limits, rg_allowed = ''BTC,ETH'', rg_allowed_inst = (\<lambda>_. False)\<rparr>"

section \<open>The allowlist\<close>

definition set_allowed_assets :: "string \<Rightarrow> risk_gate \<Rightarrow> risk_gate" where
  "set_allowed_assets s g = g\<lparr>rg_allowed := take 255 s\<rparr>"

function asset_allowed_from :: "string \<Rightarrow> string \<Rightarrow> bool" where
  "asset_allowed_from p asset =
     (if p = [] then False
      else let n = length asset; len = length (takeWhile (\<lambda>c. c \<noteq> CHR '','') p)
           in if len = n \<and> take n p = asset then True
              else if len = length p then False
              else asset_allowed_from (drop (len + 1) p) asset)"
  by pat_completeness auto
termination by (relation "measure (\<lambda>(p, asset). length p)") (auto simp: Let_def)

declare asset_allowed_from.simps [simp del]

definition asset_allowed :: "risk_gate \<Rightarrow> string \<Rightarrow> bool" where
  "asset_allowed g asset = asset_allowed_from (rg_allowed g) asset"

definition register_instrument :: "u16 \<Rightarrow> instrument \<Rightarrow> risk_gate \<Rightarrow> risk_gate" where
  "register_instrument i row g = (case split_symbol (in_symbol row) of
     (base, _) \<Rightarrow> g\<lparr>rg_allowed_inst := (rg_allowed_inst g)(i := asset_allowed g base)\<rparr>)"

section \<open>The checks\<close>

definition status_check :: "order_check \<Rightarrow> instrument \<Rightarrow> reject_reason" where
  "status_check c inst = (case in_status inst of
     ONLINE \<Rightarrow> Rej_None
   | POST_ONLY \<Rightarrow> if oc_tif c = Post_Only then Rej_None else Rej_Instrument_Status
   | LIMIT_ONLY \<Rightarrow> if oc_ord_type c = Limit then Rej_None else Rej_Instrument_Status
   | _ \<Rightarrow> Rej_Instrument_Status)"

definition position_check :: "risk_gate \<Rightarrow> u16 \<Rightarrow> side \<Rightarrow> int \<Rightarrow> int \<Rightarrow> account \<Rightarrow> order_table \<Rightarrow> reject_reason" where
  "position_check g i sd add_qty px acct orders =
     (if rl_max_position (rg_lim g) = 0 \<and> rl_max_position_notional (rg_lim g) = 0 then Rej_None
      else let pos = ps_qty (position_of acct i);
               worst = (case sd of Buy \<Rightarrow> pos + ot_open_buy orders i + add_qty
                        | Sell \<Rightarrow> pos - ot_open_sell orders i - add_qty);
               abs_worst = (if worst < 0 then - worst else worst)
           in if rl_max_position (rg_lim g) \<noteq> 0 \<and> abs_worst > rl_max_position (rg_lim g) then Rej_Max_Position
              else if rl_max_position_notional (rg_lim g) \<noteq> 0
                \<and> notional acct i px abs_worst > rl_max_position_notional (rg_lim g) then Rej_Max_Position_Notional
              else Rej_None)"

definition band_check :: "(real \<Rightarrow> real) \<Rightarrow> risk_gate \<Rightarrow> int \<Rightarrow> int \<Rightarrow> reject_reason" where
  "band_check rnd g px mid2 =
     (if rl_price_band_bp (rg_lim g) \<le> 0 \<or> px \<le> 0 \<or> mid2 \<le> 0 then Rej_None
      else let mid = rnd (dbl rnd mid2 / 2);
               dev_bp = rnd (rnd (rnd (dbl rnd px - mid) / mid) * 10000)
           in if dev_bp > rl_price_band_bp (rg_lim g) \<or> dev_bp < - rl_price_band_bp (rg_lim g)
              then Rej_Price_Band else Rej_None)"

definition side_available :: "account \<Rightarrow> u16 \<Rightarrow> side \<Rightarrow> int" where
  "side_available acct i sd = (case sd of Buy \<Rightarrow> available (quote_balance acct i)
     | Sell \<Rightarrow> available (base_balance acct i))"

definition insufficient :: "side \<Rightarrow> reject_reason" where
  "insufficient sd = (case sd of Buy \<Rightarrow> Rej_Insufficient_Quote | Sell \<Rightarrow> Rej_Insufficient_Base)"

text \<open>The checks from the position on, which come last.\<close>

definition check_new_tail :: "(real \<Rightarrow> real) \<Rightarrow> risk_gate \<Rightarrow> order_check \<Rightarrow> int \<Rightarrow> account \<Rightarrow> order_table
    \<Rightarrow> rate_model \<Rightarrow> reject_reason" where
  "check_new_tail rnd g c ref_px acct orders rate =
     (let lim = rg_lim g; i = oc_instrument c; r = position_check g i (oc_side c) (oc_qty c) ref_px acct orders
      in if r \<noteq> Rej_None then r
         else if rl_max_open_orders lim \<noteq> 0 \<and> ot_n orders \<ge> rl_max_open_orders lim then Rej_Max_Open_Orders
         else if rm_enabled rate \<and> ot_live orders i \<ge> rp_max_open (rm_p rate) then Rej_Open_Order_Limit
         else let r = band_check rnd g (oc_px c) (oc_mid2 c)
           in if r \<noteq> Rej_None then r
              else if rl_spot_only lim
                \<and> reservation acct i (oc_side c) ref_px (oc_qty c) > side_available acct i (oc_side c)
              then insufficient (oc_side c)
              else if \<not> would_allow rnd rate i Op_Add 0 (oc_now_ns c) then Rej_Rate_Limit
              else Rej_None)"

definition ref_price :: "order_check \<Rightarrow> int" where
  "ref_price c = (if oc_px c > 0 then oc_px c else cdiv (oc_mid2 c) 2)"

definition check_new :: "(real \<Rightarrow> real) \<Rightarrow> risk_gate \<Rightarrow> order_check \<Rightarrow> instrument \<Rightarrow> account \<Rightarrow> order_table
    \<Rightarrow> rate_model \<Rightarrow> u32 \<Rightarrow> reject_reason" where
  "check_new rnd g c inst acct orders rate control =
     (let lim = rg_lim g; i = oc_instrument c
      in if control AND KILL \<noteq> 0 then Rej_Kill
         else if control AND PAUSE \<noteq> 0 then Rej_Pause
         else if \<not> trades acct i then Rej_Not_Traded
         else if \<not> rg_allowed_inst g i then Rej_Not_Allowed
         else if status_check c inst \<noteq> Rej_None then status_check c inst
         else if oc_qty c \<le> 0 \<or> oc_ord_type c = Limit \<and> oc_px c \<le> 0 then Rej_Bad_Order
         else let ref_px = ref_price c
           in if in_min_qty_lots inst > 0 \<and> oc_qty c < in_min_qty_lots inst then Rej_Min_Qty
              else let n = notional acct i ref_px (oc_qty c)
                in if in_min_notional inst > 0 \<and> n < in_min_notional inst then Rej_Min_Notional
                   else if rl_max_order_qty lim \<noteq> 0 \<and> oc_qty c > rl_max_order_qty lim then Rej_Max_Order_Qty
                   else if rl_max_order_notional lim \<noteq> 0 \<and> n > rl_max_order_notional lim then Rej_Max_Order_Notional
                   else check_new_tail rnd g c ref_px acct orders rate)"

definition order_age :: "order_row \<Rightarrow> int \<Rightarrow> int" where
  "order_age row now = (if row_t_ack_ns row \<noteq> 0 then now - row_t_ack_ns row else 0)"

definition check_replace :: "(real \<Rightarrow> real) \<Rightarrow> risk_gate \<Rightarrow> order_row \<Rightarrow> int \<Rightarrow> int \<Rightarrow> int \<Rightarrow> int \<Rightarrow> instrument
    \<Rightarrow> account \<Rightarrow> order_table \<Rightarrow> rate_model \<Rightarrow> u32 \<Rightarrow> reject_reason" where
  "check_replace rnd g row px qty mid2 now inst acct orders rate control =
     (let lim = rg_lim g; i = row_instrument row; sd = row_side row
      in if control AND KILL \<noteq> 0 then Rej_Kill
         else if control AND PAUSE \<noteq> 0 then Rej_Pause
         else if in_status inst = HALTED \<or> in_status inst = CANCEL_ONLY then Rej_Instrument_Status
         else if qty \<le> row_cum row \<or> px \<le> 0 then Rej_Bad_Order
         else if in_min_qty_lots inst > 0 \<and> qty < in_min_qty_lots inst then Rej_Min_Qty
         else let n = notional acct i px qty
           in if rl_max_order_qty lim \<noteq> 0 \<and> qty > rl_max_order_qty lim then Rej_Max_Order_Qty
              else if rl_max_order_notional lim \<noteq> 0 \<and> n > rl_max_order_notional lim then Rej_Max_Order_Notional
              else let new_leaves = qty - row_cum row;
                       r = (if new_leaves > row_leaves row
                            then position_check g i sd (new_leaves - row_leaves row) px acct orders else Rej_None)
                in if r \<noteq> Rej_None then r
                   else let r = band_check rnd g px mid2
                     in if r \<noteq> Rej_None then r
                        else if rl_spot_only lim \<and> reservation acct i sd px new_leaves
                            - reservation acct i sd (row_px row) (row_leaves row) > side_available acct i sd
                        then insufficient sd
                        else if \<not> would_allow rnd rate i Op_Amend (order_age row now) now then Rej_Rate_Limit
                        else Rej_None)"

section \<open>What a check that passes guarantees\<close>

lemma position_check_pass:
  assumes "position_check g i sd q px acct orders = Rej_None" "rl_max_position (rg_lim g) \<noteq> 0"
  shows "case sd of
      Buy \<Rightarrow> \<bar>ps_qty (position_of acct i) + ot_open_buy orders i + q\<bar> \<le> rl_max_position (rg_lim g)
    | Sell \<Rightarrow> \<bar>ps_qty (position_of acct i) - ot_open_sell orders i - q\<bar> \<le> rl_max_position (rg_lim g)"
  using assms by (auto simp: position_check_def Let_def split: side.splits if_splits)

definition passes_new :: "(real \<Rightarrow> real) \<Rightarrow> risk_gate \<Rightarrow> order_check \<Rightarrow> instrument \<Rightarrow> account \<Rightarrow> order_table
    \<Rightarrow> rate_model \<Rightarrow> u32 \<Rightarrow> bool" where
  "passes_new rnd g c inst acct orders rate control \<longleftrightarrow>
     (let lim = rg_lim g; i = oc_instrument c; n = notional acct i (ref_price c) (oc_qty c)
      in control AND KILL = 0 \<and> control AND PAUSE = 0 \<and> trades acct i \<and> rg_allowed_inst g i
        \<and> status_check c inst = Rej_None \<and> 0 < oc_qty c \<and> (oc_ord_type c = Limit \<longrightarrow> 0 < oc_px c)
        \<and> (0 < in_min_qty_lots inst \<longrightarrow> in_min_qty_lots inst \<le> oc_qty c)
        \<and> (0 < in_min_notional inst \<longrightarrow> in_min_notional inst \<le> n)
        \<and> (rl_max_order_qty lim \<noteq> 0 \<longrightarrow> oc_qty c \<le> rl_max_order_qty lim)
        \<and> (rl_max_order_notional lim \<noteq> 0 \<longrightarrow> n \<le> rl_max_order_notional lim)
        \<and> position_check g i (oc_side c) (oc_qty c) (ref_price c) acct orders = Rej_None
        \<and> (rl_max_open_orders lim \<noteq> 0 \<longrightarrow> ot_n orders < rl_max_open_orders lim)
        \<and> (rm_enabled rate \<longrightarrow> ot_live orders i < rp_max_open (rm_p rate))
        \<and> band_check rnd g (oc_px c) (oc_mid2 c) = Rej_None
        \<and> (rl_spot_only lim \<longrightarrow>
             reservation acct i (oc_side c) (ref_price c) (oc_qty c) \<le> side_available acct i (oc_side c))
        \<and> would_allow rnd rate i Op_Add 0 (oc_now_ns c))"

lemma insufficient_not_None [simp]: "insufficient sd \<noteq> Rej_None"
  by (simp add: insufficient_def split: side.split)

text \<open>A chain of checks passes when none of them fires.\<close>

lemma check_chain:
  "r \<noteq> Rej_None \<Longrightarrow> (if b then r else e) = Rej_None \<longleftrightarrow> \<not> b \<and> e = Rej_None"
  "(if r \<noteq> Rej_None then r else e) = Rej_None \<longleftrightarrow> r = Rej_None \<and> e = Rej_None"
  "(if b then Rej_None else e) = Rej_None \<longleftrightarrow> (b \<or> e = Rej_None)"
  by auto

lemma check_new_pass:
  "check_new rnd g c inst acct orders rate control = Rej_None \<longleftrightarrow> passes_new rnd g c inst acct orders rate control"
  unfolding check_new_def passes_new_def check_new_tail_def Let_def
  by (simp add: check_chain not_less not_le conj_ac split del: if_split) (simp only: imp_conv_disj not_not not_less disj_comms conj_ac)

lemma check_replace_pass:
  assumes "check_replace rnd g row px qty mid2 now inst acct orders rate control = Rej_None"
  shows "control AND KILL = 0" "control AND PAUSE = 0" "row_cum row < qty" "0 < px"
    and "rl_spot_only (rg_lim g) \<Longrightarrow> reservation acct (row_instrument row) (row_side row) px (qty - row_cum row)
      - reservation acct (row_instrument row) (row_side row) (row_px row) (row_leaves row)
      \<le> side_available acct (row_instrument row) (row_side row)"
    and "would_allow rnd rate (row_instrument row) Op_Amend (order_age row now) now"
    and "qty - row_cum row > row_leaves row \<Longrightarrow> position_check g (row_instrument row) (row_side row)
      (qty - row_cum row - row_leaves row) px acct orders = Rej_None"
  using assms unfolding check_replace_def Let_def by (auto split: if_splits)

section \<open>The allowlist as a set\<close>

text \<open>The comma-separated fields of a list.\<close>

function fields :: "string \<Rightarrow> string list" where
  "fields p = (if p = [] then [] else
     let w = takeWhile (\<lambda>c. c \<noteq> CHR '','') p
     in if length w = length p then [w] else w # fields (drop (length w + 1) p))"
  by pat_completeness auto
termination by (relation "measure length") (auto simp: Let_def)

declare fields.simps [simp del]

lemma asset_allowed_fields: "asset_allowed_from p asset \<longleftrightarrow> asset \<in> set (fields p)"
proof (induction p rule: fields.induct)
  case (1 p)
  let ?w = "takeWhile (\<lambda>c. c \<noteq> CHR '','') p"
  have eq: "length ?w = length asset \<and> take (length asset) p = asset \<longleftrightarrow> asset = ?w"
    by (metis takeWhile_eq_take)
  show ?case
  proof (cases "p = [] \<or> length ?w = length p")
    case True
    then show ?thesis
      by (subst asset_allowed_from.simps, subst fields.simps) (auto simp: Let_def eq)
  next
    case False
    then have "asset_allowed_from (drop (length ?w + 1) p) asset \<longleftrightarrow> asset \<in> set (fields (drop (length ?w + 1) p))"
      by (intro 1) simp_all
    with False show ?thesis
      by (subst asset_allowed_from.simps, subst fields.simps) (auto simp: Let_def eq)
  qed
qed

text \<open>The inverse of \<open>fields\<close>.\<close>

fun commas :: "string list \<Rightarrow> string" where
  "commas [] = []"
| "commas [w] = w"
| "commas (w # ws) = w @ CHR '','' # commas ws"

lemma commas_not_Nil: "\<forall>w\<in>set ws. w \<noteq> [] \<Longrightarrow> ws \<noteq> [] \<Longrightarrow> commas ws \<noteq> []"
  by (cases ws rule: commas.cases) auto

lemma fields_commas:
  assumes "\<forall>w\<in>set ws. w \<noteq> [] \<and> CHR '','' \<notin> set w"
  shows "fields (commas ws) = ws"
  using assms
proof (induction ws rule: commas.induct)
  case 1
  then show ?case by (simp add: fields.simps)
next
  case (2 w)
  then have t: "takeWhile (\<lambda>c. c \<noteq> CHR '','') w = w" by (auto simp: takeWhile_eq_all_conv)
  show ?case using 2 by (subst fields.simps) (simp add: Let_def t)
next
  case (3 w v vs)
  have t: "takeWhile (\<lambda>c. c \<noteq> CHR '','') (w @ CHR '','' # u) = w" for u
    using 3(2) by (subst takeWhile_append2) auto
  show ?case using 3 by (subst fields.simps) (simp add: Let_def t)
qed

end
