(* ===== verification/Histogram.thy ===== *)
theory Histogram
  imports Doubles
begin

text \<open>
  \<open>Histogram\<close> of \<open>src/common/histogram.hpp\<close>: sixty-four power-of-two buckets of cycle counts,
  and the percentile estimate.  The dump functions are in \<open>Latency_Log\<close>.
\<close>

record histogram =
  hg_buckets :: "nat \<Rightarrow> u64"
  hg_count :: u64
  hg_max_cycles :: u64

definition hist_new :: histogram where
  "hist_new = \<lparr>hg_buckets = (\<lambda>_. 0), hg_count = 0, hg_max_cycles = 0\<rparr>"

definition hist_bucket :: "u64 \<Rightarrow> nat" where
  "hist_bucket cycles = (if cycles = 0 then 0 else 63 - clzll cycles)"

definition hist_record :: "u64 \<Rightarrow> histogram \<Rightarrow> histogram" where
  "hist_record cycles h =
     (let h = h\<lparr>hg_count := hg_count h + 1\<rparr>;
          h = (if cycles > hg_max_cycles h then h\<lparr>hg_max_cycles := cycles\<rparr> else h);
          b = hist_bucket cycles
      in h\<lparr>hg_buckets := (hg_buckets h)(b := hg_buckets h b + 1)\<rparr>)"

text \<open>The loop over the buckets from \<open>b\<close> on.\<close>

function percentile_from :: "histogram \<Rightarrow> u64 \<Rightarrow> nat \<Rightarrow> u64 \<Rightarrow> u64" where
  "percentile_from h threshold b cum =
     (if b < 64 then
        let cum = cum + hg_buckets h b
        in if cum > threshold then (if b < 63 then push_bit (b + 1) 1 else - 1)
           else percentile_from h threshold (b + 1) cum
      else hg_max_cycles h)"
  by pat_completeness auto
termination by (relation "measure (\<lambda>(h, threshold, b, cum). 64 - b)") auto

declare percentile_from.simps [simp del]

definition percentile_cycles :: "(real \<Rightarrow> real) \<Rightarrow> real \<Rightarrow> histogram \<Rightarrow> u64" where
  "percentile_cycles rnd p h =
     (if hg_count h = 0 then 0
      else percentile_from h (word_of_int (trunc (rnd (p * dbl rnd (uint (hg_count h)))))) 0 0)"

section \<open>Facts\<close>

text \<open>\<open>hist_of xs\<close>: the histogram of the recorded samples.\<close>

definition hist_of :: "u64 list \<Rightarrow> histogram" where
  "hist_of xs = fold hist_record xs hist_new"

lemma hist_bucket_less: "hist_bucket c < 64"
  by (simp only: hist_bucket_def split: if_split) linarith

lemma hist_bucket_range:
  "unat c < 2 ^ (hist_bucket c + 1)" "c \<noteq> 0 \<Longrightarrow> 2 ^ hist_bucket c \<le> unat c"
proof -
  have "unat c < 2 ^ (hist_bucket c + 1) \<and> (c \<noteq> 0 \<longrightarrow> 2 ^ hist_bucket c \<le> unat c)"
  proof (cases "c = 0")
    case False
    let ?b = "63 - clzll c"
    note z = clzll_props [OF False]
    have "take_bit (?b + 1) c = c"
    proof (rule bit_eqI)
      fix n assume "possible_bit TYPE(u64) n"
      show "bit (take_bit (?b + 1) c) n = bit c n" using z(3) [of n] by (cases "?b < n") (simp_all add: bit_take_bit_iff)
    qed
    then have "unat c = take_bit (?b + 1) (unat c)" by (metis unsigned_take_bit_eq)
    then have "unat c < 2 ^ (?b + 1)" by (metis take_bit_nat_less_exp)
    moreover have "bit (unat c) ?b" using z(2) by (simp add: bit_unsigned_iff)
    then have "2 ^ ?b \<le> unat c" by (metis bit_nat_def div_less even_zero not_le)
    ultimately show ?thesis using False by (simp add: hist_bucket_def)
  qed (simp add: hist_bucket_def)
  then show "unat c < 2 ^ (hist_bucket c + 1)" and "c \<noteq> 0 \<Longrightarrow> 2 ^ hist_bucket c \<le> unat c" by auto
qed

lemma hist_of_snoc: "hist_of (xs @ [x]) = hist_record x (hist_of xs)"
  by (simp add: hist_of_def)

lemma hist_of_fields:
  "hg_count (hist_of xs) = word_of_nat (length xs)"
  "hg_buckets (hist_of xs) b = word_of_nat (length (filter (\<lambda>x. hist_bucket x = b) xs))"
  "hg_max_cycles (hist_of xs) = fold max xs 0"
proof (induction xs arbitrary: b rule: rev_induct)
  case Nil
  { case 1 show ?case by (simp add: hist_of_def hist_new_def) }
  { case 2 show ?case by (simp add: hist_of_def hist_new_def) }
  { case 3 show ?case by (simp add: hist_of_def hist_new_def) }
next
  case (snoc x xs)
  { case 1 show ?case using snoc by (simp add: hist_of_snoc hist_record_def Let_def add.commute) }
  { case 2 show ?case using snoc by (simp add: hist_of_snoc hist_record_def Let_def add.commute) }
  { case 3
    have "(if x > m then x else m) = max x m" for m :: u64 by (auto simp: max_def)
    then show ?case using snoc by (simp add: hist_of_snoc hist_record_def Let_def) }
qed

definition samples_below :: "nat \<Rightarrow> u64 list \<Rightarrow> nat" where
  "samples_below b xs = length (filter (\<lambda>x. hist_bucket x < b) xs)"

lemma samples_below_Suc:
  "samples_below (Suc b) xs = samples_below b xs + length (filter (\<lambda>x. hist_bucket x = b) xs)"
  by (induction xs) (auto simp: samples_below_def less_Suc_eq)

lemma samples_below_le: "samples_below b xs \<le> length xs"
  by (simp add: samples_below_def)

lemma samples_below_64: "samples_below 64 xs = length xs"
  by (simp add: samples_below_def hist_bucket_less)

text \<open>The loop stops at the first bucket up to which more than \<open>threshold\<close> samples lie.\<close>

lemma percentile_from_sound:
  assumes len: "length xs < 2 ^ 64" and th: "unat th < length xs"
    and b: "b \<le> 64" "samples_below b xs \<le> unat th"
  shows "\<exists>c. b \<le> c \<and> c < 64 \<and> samples_below c xs \<le> unat th \<and> unat th < samples_below (Suc c) xs
    \<and> percentile_from (hist_of xs) th b (word_of_nat (samples_below b xs))
      = (if c < 63 then push_bit (c + 1) 1 else - 1)"
  using b
proof (induction "64 - b" arbitrary: b)
  case 0
  then have "b = 64" by simp
  with 0 th show ?case by (simp add: samples_below_64)
next
  case (Suc m)
  then have b64: "b < 64" by simp
  have cum: "word_of_nat (samples_below b xs) + hg_buckets (hist_of xs) b = (word_of_nat (samples_below (Suc b) xs) :: u64)"
    by (simp add: hist_of_fields samples_below_Suc)
  have un: "unat (word_of_nat (samples_below (Suc b) xs) :: u64) = samples_below (Suc b) xs"
    using samples_below_le [of "Suc b" xs] len by (intro unat_of_nat_u64) simp
  show ?case
  proof (cases "unat th < samples_below (Suc b) xs")
    case True
    then have "word_of_nat (samples_below (Suc b) xs) > th" by (simp add: word_less_nat_alt un)
    with True b64 Suc.prems show ?thesis
      by (subst percentile_from.simps) (intro exI [of _ b], simp add: cum)
  next
    case False
    then have nth: "\<not> word_of_nat (samples_below (Suc b) xs) > th" by (simp add: word_less_nat_alt un)
    have "\<exists>c. Suc b \<le> c \<and> c < 64 \<and> samples_below c xs \<le> unat th \<and> unat th < samples_below (Suc c) xs
      \<and> percentile_from (hist_of xs) th (Suc b) (word_of_nat (samples_below (Suc b) xs))
        = (if c < 63 then push_bit (c + 1) 1 else - 1)"
      using False b64 Suc.hyps(2) by (intro Suc.hyps(1)) simp_all
    moreover have "percentile_from (hist_of xs) th b (word_of_nat (samples_below b xs))
        = percentile_from (hist_of xs) th (Suc b) (word_of_nat (samples_below (Suc b) xs))"
      using nth b64 by (subst percentile_from.simps) (simp add: cum)
    ultimately show ?thesis by (metis Suc_leD)
  qed
qed

text \<open>A bound on the samples is a bound on their buckets.\<close>

lemma unat_push_bit_1: "n < 64 \<Longrightarrow> unat (push_bit n 1 :: u64) = 2 ^ n"
proof -
  assume "n < 64"
  then have "(2 :: nat) ^ n < 2 ^ 64" by (intro power_strict_increasing) simp_all
  then show ?thesis using unat_of_nat_u64 [of "2 ^ n"] by (simp add: push_bit_eq_mult)
qed

lemma hist_bucket_below:
  assumes "c < 63" "hist_bucket x \<le> c"
  shows "x < push_bit (c + 1) 1"
proof -
  have "unat x < 2 ^ (hist_bucket x + 1)" by (rule hist_bucket_range(1))
  also have "\<dots> \<le> (2 :: nat) ^ (c + 1)" using assms(2) by (intro power_increasing) simp_all
  also have "\<dots> = unat (push_bit (c + 1) 1 :: u64)" using assms(1) by (intro unat_push_bit_1 [symmetric]) simp
  finally show ?thesis by (simp add: word_less_nat_alt)
qed

lemma hist_bucket_least:
  assumes "0 < c" "unat x < 2 ^ c"
  shows "hist_bucket x < c"
proof (cases "x = 0")
  case False
  then have "2 ^ hist_bucket x \<le> unat x" by (rule hist_bucket_range(2))
  also note assms(2)
  finally show ?thesis by simp
qed (use assms in \<open>simp add: hist_bucket_def\<close>)

end
