(* ===== verification/Market_View.thy ===== *)
theory Market_View
  imports Core_Main Doubles
begin

text \<open>
  \<open>MarketView\<close> of \<open>src/exec/market_view.hpp\<close>: what exec derives from the frames, one at a time.
  Shown: fed the frames core publishes, \<open>feed_reset\<close> is set exactly after dropped frames and
  \<open>frame_gaps\<close> counts the frames missing between the first and the last.
\<close>

record market_view =
  mv_u :: market_update
  mv_prev_mid :: real
  mv_var :: real
  mv_have_mid :: bool
  mv_have_seq :: bool
  mv_feed_reset :: bool
  mv_frame_gaps :: u64

text \<open>\<open>Update u_{}\<close>: zero bytes; the side is the byte 0, no enumerator, and is not read.\<close>

definition no_update :: market_update where
  "no_update = \<lparr>mu_event_seq = 0, mu_event_time = 0, mu_tsc_in = 0, mu_best_bid = 0, mu_best_ask = 0,
     mu_trade_price = 0, mu_trade_qty = 0, mu_instrument = 0, mu_trade_side = Sell, mu_flags = 0, mu_nb = 0,
     mu_na = 0, mu_bids = replicate 10 \<lparr>ml_price = 0, ml_qty = 0, ml_order_count = 0\<rparr>,
     mu_asks = replicate 10 \<lparr>ml_price = 0, ml_qty = 0, ml_order_count = 0\<rparr>\<rparr>"

definition view_new :: market_view where
  "view_new = \<lparr>mv_u = no_update, mv_prev_mid = 0, mv_var = 0, mv_have_mid = False, mv_have_seq = False,
     mv_feed_reset = False, mv_frame_gaps = 0\<rparr>"

definition two_sided :: "market_view \<Rightarrow> bool" where
  "two_sided v \<longleftrightarrow> 0 < mu_nb (mv_u v) \<and> 0 < mu_na (mv_u v)"

definition mid2 :: "market_view \<Rightarrow> int" where
  "mid2 v = (if two_sided v then mu_best_bid (mv_u v) + mu_best_ask (mv_u v) else 0)"

definition mid :: "(real \<Rightarrow> real) \<Rightarrow> market_view \<Rightarrow> real" where
  "mid rnd v = rnd (1 / 2 * rnd (dbl rnd (mu_best_bid (mv_u v)) + dbl rnd (mu_best_ask (mv_u v))))"

definition VOL_ALPHA :: "(real \<Rightarrow> real) \<Rightarrow> real" where
  "VOL_ALPHA rnd = rnd (1 / 100)"

text \<open>The moving variance: \<open>(1.0 - VOL_ALPHA) * var_ + VOL_ALPHA * dm * dm\<close>.\<close>

definition fold_mid :: "(real \<Rightarrow> real) \<Rightarrow> market_view \<Rightarrow> market_view" where
  "fold_mid rnd v =
     (let m = mid rnd v;
          v = (if mv_have_mid v then
                 let dm = rnd (m - mv_prev_mid v)
                 in v\<lparr>mv_var := rnd (rnd (rnd (1 - VOL_ALPHA rnd) * mv_var v) + rnd (rnd (VOL_ALPHA rnd * dm) * dm))\<rparr>
               else v)
      in v\<lparr>mv_prev_mid := m, mv_have_mid := True\<rparr>)"

definition on_update :: "(real \<Rightarrow> real) \<Rightarrow> market_update \<Rightarrow> market_view \<Rightarrow> market_view" where
  "on_update rnd u v =
     (let expected = mu_event_seq (mv_u v) + 1; gap = mv_have_seq v \<and> mu_event_seq u \<noteq> expected;
          v = (if gap \<and> mu_event_seq u > expected
               then v\<lparr>mv_frame_gaps := mv_frame_gaps v + (mu_event_seq u - expected)\<rparr> else v);
          reset = (mu_flags u AND FEED_RESET \<noteq> 0 \<or> gap);
          v = v\<lparr>mv_feed_reset := reset, mv_have_seq := True\<rparr>;
          v = (if reset then v\<lparr>mv_have_mid := False\<rparr> else v);
          v = v\<lparr>mv_u := u\<rparr>
      in if two_sided v then fold_mid rnd v else v)"

definition bid_size :: "market_view \<Rightarrow> int" where
  "bid_size v = (if 0 < mu_nb (mv_u v) then ml_qty (mu_bids (mv_u v) ! 0) else 0)"

definition ask_size :: "market_view \<Rightarrow> int" where
  "ask_size v = (if 0 < mu_na (mv_u v) then ml_qty (mu_asks (mv_u v) ! 0) else 0)"

definition microprice :: "(real \<Rightarrow> real) \<Rightarrow> market_view \<Rightarrow> real" where
  "microprice rnd v =
     (let u = mv_u v; bq = dbl rnd (ml_qty (mu_bids u ! 0)); aq = dbl rnd (ml_qty (mu_asks u ! 0)); q = rnd (bq + aq)
      in if q > 0 then rnd (rnd (rnd (dbl rnd (mu_best_bid u) * aq) + rnd (dbl rnd (mu_best_ask u) * bq)) / q)
         else mid rnd v)"

text \<open>The depth imbalance over the captured levels.\<close>

definition imbalance :: "(real \<Rightarrow> real) \<Rightarrow> market_view \<Rightarrow> real" where
  "imbalance rnd v =
     (let u = mv_u v; bq = (\<Sum>l\<leftarrow>mu_bid_levels u. ml_qty l); aq = (\<Sum>l\<leftarrow>mu_ask_levels u. ml_qty l);
          tot = rnd (dbl rnd bq + dbl rnd aq)
      in if tot > 0 then rnd (rnd (dbl rnd bq - dbl rnd aq) / tot) else 0)"

definition realized_vol :: "(real \<Rightarrow> real) \<Rightarrow> market_view \<Rightarrow> real" where
  "realized_vol rnd v = rnd (sqrt (mv_var v))"

definition last_was_trade :: "market_view \<Rightarrow> bool" where
  "last_was_trade v \<longleftrightarrow> mu_trade_qty (mv_u v) \<noteq> 0"

section \<open>Gaps\<close>

lemma fold_mid_fields [simp]:
  "mv_u (fold_mid rnd v) = mv_u v" "mv_have_seq (fold_mid rnd v) = mv_have_seq v"
  "mv_feed_reset (fold_mid rnd v) = mv_feed_reset v" "mv_frame_gaps (fold_mid rnd v) = mv_frame_gaps v"
  by (simp_all add: fold_mid_def Let_def)

lemma on_update_fields:
  "mv_u (on_update rnd u v) = u" "mv_have_seq (on_update rnd u v)"
  "mv_feed_reset (on_update rnd u v) \<longleftrightarrow> flagged u \<or> mv_have_seq v \<and> mu_event_seq u \<noteq> mu_event_seq (mv_u v) + 1"
  "mv_frame_gaps (on_update rnd u v) = mv_frame_gaps v
    + (if mv_have_seq v \<and> mu_event_seq u > mu_event_seq (mv_u v) + 1
       then mu_event_seq u - (mu_event_seq (mv_u v) + 1) else 0)"
  by (auto simp: on_update_def Let_def flagged_def)

definition seq_gap :: "u64 \<Rightarrow> market_update \<Rightarrow> u64" where
  "seq_gap prev u = mu_event_seq u - (prev + 1)"

lemma view_step:
  assumes "gaps_flagged prev (u # us)" "mv_have_seq v \<longrightarrow> mu_event_seq (mv_u v) = prev"
  shows "mv_feed_reset (on_update rnd u v) \<longleftrightarrow> mu_event_seq u \<noteq> prev + 1"
    and "mv_have_seq v \<Longrightarrow> mv_frame_gaps (on_update rnd u v) = mv_frame_gaps v + seq_gap prev u"
proof -
  have u: "prev < mu_event_seq u" "flagged u \<longleftrightarrow> mu_event_seq u \<noteq> prev + 1" using assms(1) by simp_all
  then show "mv_feed_reset (on_update rnd u v) \<longleftrightarrow> mu_event_seq u \<noteq> prev + 1"
    using assms(2) by (auto simp: on_update_fields)
  have "prev + 1 \<le> mu_event_seq u" using u(1) by (rule inc_le)
  then have "mu_event_seq u > prev + 1 \<longleftrightarrow> mu_event_seq u \<noteq> prev + 1" by auto
  then show "mv_frame_gaps (on_update rnd u v) = mv_frame_gaps v + seq_gap prev u" if "mv_have_seq v"
    using that assms(2) by (simp add: on_update_fields seq_gap_def)
qed

text \<open>The frames missing between the numbered frames, counting from \<open>prev\<close>.\<close>

primrec missing :: "u64 \<Rightarrow> market_update list \<Rightarrow> u64" where
  "missing prev [] = 0"
| "missing prev (u # us) = seq_gap prev u + missing (mu_event_seq u) us"

lemma missing_sum:
  "missing prev us = mu_event_seq (last (u0 # us)) - prev - word_of_nat (length us)"
  if "mu_event_seq u0 = prev"
  using that by (induction us arbitrary: prev u0) (auto simp: seq_gap_def)

lemma view_run:
  assumes "gaps_flagged prev us" "mv_have_seq v" "mu_event_seq (mv_u v) = prev"
  shows "mv_frame_gaps (fold (on_update rnd) us v) = mv_frame_gaps v + missing prev us"
    and "mv_have_seq (fold (on_update rnd) us v)"
    and "us \<noteq> [] \<Longrightarrow> mv_u (fold (on_update rnd) us v) = last us"
proof -
  have "mv_frame_gaps (fold (on_update rnd) us v) = mv_frame_gaps v + missing prev us
    \<and> mv_have_seq (fold (on_update rnd) us v) \<and> (us \<noteq> [] \<longrightarrow> mv_u (fold (on_update rnd) us v) = last us)"
    using assms
  proof (induction us arbitrary: prev v)
    case (Cons u us)
    have "mv_have_seq (on_update rnd u v)" "mv_u (on_update rnd u v) = u" by (simp_all add: on_update_fields)
    then show ?case
      using Cons.IH [of "mu_event_seq u" "on_update rnd u v"] Cons.prems
        view_step(2) [OF Cons.prems(1), of v rnd] by (cases us) auto
  qed simp
  then show "mv_frame_gaps (fold (on_update rnd) us v) = mv_frame_gaps v + missing prev us"
    and "mv_have_seq (fold (on_update rnd) us v)"
    and "us \<noteq> [] \<Longrightarrow> mv_u (fold (on_update rnd) us v) = last us" by blast+
qed

lemma gaps_flagged_append:
  "gaps_flagged prev (us @ vs) \<longleftrightarrow> gaps_flagged prev us
     \<and> gaps_flagged (if us = [] then prev else mu_event_seq (last us)) vs"
  by (induction us arbitrary: prev) auto

lemma view_after:
  fixes rnd
  assumes "gaps_flagged 0 (us @ [u])"
  defines "v \<equiv> fold (on_update rnd) (us @ [u]) view_new"
  shows "mv_u v = u" and "mv_feed_reset v \<longleftrightarrow> mu_event_seq u \<noteq> (if us = [] then 0 else mu_event_seq (last us)) + 1"
    and "mv_frame_gaps v = mu_event_seq u - mu_event_seq (hd (us @ [u])) - word_of_nat (length us)"
proof -
  have n: "\<not> mv_have_seq view_new" "mv_frame_gaps view_new = 0" by (simp_all add: view_new_def)
  have v: "v = on_update rnd u (fold (on_update rnd) us view_new)" by (simp add: v_def)
  show "mv_u v = u" by (simp add: v on_update_fields)
  have g: "gaps_flagged (if us = [] then 0 else mu_event_seq (last us)) [u]"
    using assms(1) by (simp add: gaps_flagged_append)
  have st: "mv_have_seq (fold (on_update rnd) us view_new) \<longrightarrow>
      mu_event_seq (mv_u (fold (on_update rnd) us view_new)) = (if us = [] then 0 else mu_event_seq (last us))"
  proof (cases us)
    case (Cons a as)
    have "mv_have_seq (on_update rnd a view_new)" "mv_u (on_update rnd a view_new) = a" by (simp_all add: on_update_fields)
    from view_run(3) [OF _ this(1), of "mu_event_seq a" as rnd] this assms(1) Cons show ?thesis
      by (cases as) (simp_all add: gaps_flagged_append)
  qed (simp add: n)
  show "mv_feed_reset v \<longleftrightarrow> mu_event_seq u \<noteq> (if us = [] then 0 else mu_event_seq (last us)) + 1"
    using view_step(1) [OF g st] by (simp add: v)
  obtain a as where a: "us @ [u] = a # as" by (cases us) auto
  have f: "mv_have_seq (on_update rnd a view_new)" "mv_u (on_update rnd a view_new) = a"
    "mv_frame_gaps (on_update rnd a view_new) = 0" using n by (simp_all add: on_update_fields)
  have "v = fold (on_update rnd) as (on_update rnd a view_new)" unfolding v_def a by simp
  moreover have "gaps_flagged (mu_event_seq a) as" using assms(1) unfolding a by simp
  ultimately have "mv_frame_gaps v = missing (mu_event_seq a) as" using view_run(1) [OF _ f(1)] f by simp
  moreover have "missing (mu_event_seq a) as = mu_event_seq u - mu_event_seq a - word_of_nat (length as)"
    using missing_sum [of a "mu_event_seq a" as] a by (metis last_snoc)
  moreover have len: "length as = length us" using arg_cong [where f = length, OF a] by simp
  ultimately show "mv_frame_gaps v = mu_event_seq u - mu_event_seq (hd (us @ [u])) - word_of_nat (length us)"
    using len by (simp add: a)
qed

end
