(* ===== verification/Exec_Context.thy ===== *)
theory Exec_Context
  imports Risk Histogram Market_View
begin

text \<open>
  \<open>ExecContext\<close> of \<open>src/exec/exec_context.hpp\<close> with \<open>ExecStats\<close> of
  \<open>src/common/ipc/stats.hpp\<close>: the state of exec's hot loop and what a report of the venue does
  to it.  An operation that searches the order table is \<open>None\<close> when the search does not return.
  \<open>read_tsc\<close> is an argument of the operations that read it.

  The invariant \<open>exec_inv\<close> ties the components together: the table and the account are well
  formed, every live order is of a traded instrument, and the reserved part of every balance is
  the sum of the reservations of the live orders.  \<open>exec_slack d\<close> is the same with \<open>d k\<close> more reserved
  of asset \<open>k\<close> than the orders hold.
\<close>

section \<open>State\<close>

record exec_stats =
  es_feed_transit :: histogram
  es_tick :: histogram
  es_tick_to_order :: histogram
  es_exec_transit :: histogram
  es_frames :: u64
  es_frame_gaps :: u64
  es_orders_new :: u64
  es_orders_cancel :: u64
  es_risk_rejects :: u64
  es_ring_full_rejects :: u64
  es_iterations :: u64
  es_heartbeat_tsc :: u64
  es_exec_generation :: u64
  es_orders_replace :: u64
  es_acks :: u64
  es_venue_rejects :: u64
  es_canceled :: u64
  es_replaced :: u64
  es_expired :: u64
  es_fills :: u64
  es_unsolicited :: u64
  es_rejects :: "reject_reason \<Rightarrow> u64"
  es_rate_budget :: "real list"
  es_limit_max_position :: int
  es_limit_max_position_notional :: int
  es_open_orders :: u32

definition stats_new :: exec_stats where
  "stats_new = \<lparr>es_feed_transit = hist_new, es_tick = hist_new, es_tick_to_order = hist_new,
     es_exec_transit = hist_new, es_frames = 0, es_frame_gaps = 0, es_orders_new = 0, es_orders_cancel = 0,
     es_risk_rejects = 0, es_ring_full_rejects = 0, es_iterations = 0, es_heartbeat_tsc = 0,
     es_exec_generation = 0, es_orders_replace = 0, es_acks = 0, es_venue_rejects = 0, es_canceled = 0,
     es_replaced = 0, es_expired = 0, es_fills = 0, es_unsolicited = 0, es_rejects = (\<lambda>_. 0),
     es_rate_budget = replicate 4 0, es_limit_max_position = 0, es_limit_max_position_notional = 0,
     es_open_orders = 0\<rparr>"

record exec_context =
  x_instruments :: instrument_table
  x_view :: market_view
  x_account :: account
  x_orders :: order_table
  x_risk :: risk_gate
  x_rate :: rate_model
  x_event_clock :: bool
  x_tsc_per_ns :: real
  x_event_ns :: int
  x_frame_tsc_in :: u64
  x_in_tick :: bool
  x_control_flags :: u32
  x_last_reject :: reject_reason
  x_timer_cycles :: u64
  x_st :: exec_stats
  x_traded :: "u16 list"

text \<open>\<open>OrderRow row{}\<close>; enumerators that are the byte 0 or no enumerator at all are overwritten before use.\<close>

definition row_new :: order_row where
  "row_new = \<lparr>row_id = 0, row_strategy_tag = 0, row_tsc_decision = 0, row_t_submit_ns = 0, row_t_ack_ns = 0,
     row_px = 0, row_qty = 0, row_leaves = 0, row_cum = 0, row_new_px = 0, row_new_qty = 0, row_instrument = 0,
     row_side = Sell, row_tif = GTC, row_ord_type = Limit, row_status = St_Pending_New, row_pending = 0\<rparr>"

definition exec_new :: "instrument_table \<Rightarrow> exec_context" where
  "exec_new instruments = \<lparr>x_instruments = instruments, x_view = view_new, x_account = acct_new,
     x_orders = ot_new row_new, x_risk = risk_new, x_rate = rate_new, x_event_clock = True, x_tsc_per_ns = 1,
     x_event_ns = 0, x_frame_tsc_in = 0, x_in_tick = False, x_control_flags = 0, x_last_reject = Rej_None,
     x_timer_cycles = 0, x_st = stats_new, x_traded = replicate 4 0\<rparr>"

section \<open>Operations\<close>

definition now_ns :: "(real \<Rightarrow> real) \<Rightarrow> u64 \<Rightarrow> exec_context \<Rightarrow> int" where
  "now_ns rnd tsc x = (if x_event_clock x then x_event_ns x
     else trunc (rnd (dbl rnd (uint tsc) / x_tsc_per_ns x)))"

definition upd_st :: "(exec_stats \<Rightarrow> exec_stats) \<Rightarrow> exec_context \<Rightarrow> exec_context" where
  "upd_st f x = x\<lparr>x_st := f (x_st x)\<rparr>"

definition count_reject :: "reject_reason \<Rightarrow> exec_context \<Rightarrow> exec_context" where
  "count_reject r x =
     (let x = x\<lparr>x_last_reject := r\<rparr>;
          x = upd_st (\<lambda>s. s\<lparr>es_rejects := (es_rejects s)(r := es_rejects s r + 1)\<rparr>) x
      in if r = Rej_Ring_Full then upd_st (\<lambda>s. s\<lparr>es_ring_full_rejects := es_ring_full_rejects s + 1\<rparr>) x
         else upd_st (\<lambda>s. s\<lparr>es_risk_rejects := es_risk_rejects s + 1\<rparr>) x)"

text \<open>Terminal state: give back the reservation and drop the row.\<close>

definition finish :: "u32 \<Rightarrow> exec_context \<Rightarrow> exec_context option" where
  "finish p x =
     (let row = ot_rows (x_orders x) p;
          x = x\<lparr>x_account := release (row_instrument row) (row_side row) (row_px row) (row_leaves row) (x_account x)\<rparr>
      in map_option (\<lambda>t. x\<lparr>x_orders := t\<rparr>) (ot_erase (x_orders x) (row_id row)))"

definition on_ack :: "int \<Rightarrow> u32 \<Rightarrow> exec_context \<Rightarrow> exec_context" where
  "on_ack now p x = upd_st (\<lambda>s. s\<lparr>es_acks := es_acks s + 1\<rparr>)
     (x\<lparr>x_orders := ot_write p (\<lambda>r. r\<lparr>row_status := St_New, row_t_ack_ns := now\<rparr>) (x_orders x)\<rparr>)"

text \<open>Both fill reports, up to the test of the remaining leaves.\<close>

definition book_fill :: "exec_report \<Rightarrow> u32 \<Rightarrow> exec_context \<Rightarrow> exec_context" where
  "book_fill rep p x =
     (let row = ot_rows (x_orders x) p; q = rp_last_qty rep;
          x = x\<lparr>x_account := on_fill (row_instrument row) (row_side row) (rp_last_px rep) q (row_px row) (rp_fee rep)
                  (rp_fee_ccy rep = 1) (x_account x)\<rparr>;
          t = ot_write p (\<lambda>r. r\<lparr>row_cum := row_cum r + q\<rparr>) (x_orders x);
          t = ot_set_leaves p (if row_leaves row > q then row_leaves row - q else 0) t;
          t = ot_write p (\<lambda>r. r\<lparr>row_status := (if rp_exec_type rep = Ex_Fill then St_Filled else St_Partially_Filled)\<rparr>) t
      in upd_st (\<lambda>s. s\<lparr>es_fills := es_fills s + 1\<rparr>) (x\<lparr>x_orders := t\<rparr>))"

definition on_replaced :: "u32 \<Rightarrow> exec_context \<Rightarrow> exec_context" where
  "on_replaced p x =
     (let row = ot_rows (x_orders x) p;
          x = x\<lparr>x_account := release (row_instrument row) (row_side row) (row_px row) (row_leaves row) (x_account x)\<rparr>;
          t = ot_write p (\<lambda>r. r\<lparr>row_px := row_new_px r, row_qty := row_new_qty r\<rparr>) (x_orders x);
          t = ot_set_leaves p (row_qty (ot_rows t p) - row_cum (ot_rows t p)) t;
          row = ot_rows t p;
          x = x\<lparr>x_account := reserve (row_instrument row) (row_side row) (row_px row) (row_leaves row) (x_account x)\<rparr>;
          t = ot_write p (\<lambda>r. r\<lparr>row_pending := row_pending r AND NOT PENDING_REPLACE\<rparr>) t
      in upd_st (\<lambda>s. s\<lparr>es_replaced := es_replaced s + 1\<rparr>) (x\<lparr>x_orders := t\<rparr>))"

definition apply_report :: "(real \<Rightarrow> real) \<Rightarrow> u64 \<Rightarrow> exec_report \<Rightarrow> exec_context \<Rightarrow> exec_context option" where
  "apply_report rnd tsc rep x =
     (case ot_find (x_orders x) (rp_cl_ord_id rep) of
        None \<Rightarrow> None
      | Some None \<Rightarrow> Some (upd_st (\<lambda>s. s\<lparr>es_unsolicited := es_unsolicited s + 1\<rparr>) x)
      | Some (Some p) \<Rightarrow> (case rp_exec_type rep of
          Ex_Ack \<Rightarrow> Some (on_ack (now_ns rnd tsc x) p x)
        | Ex_Partial_Fill \<Rightarrow> let x = book_fill rep p x
            in if row_leaves (ot_rows (x_orders x) p) = 0 then finish p x else Some x
        | Ex_Fill \<Rightarrow> let x = book_fill rep p x
            in if row_leaves (ot_rows (x_orders x) p) = 0 then finish p x else Some x
        | Ex_Replaced \<Rightarrow> Some (on_replaced p x)
        | Ex_Canceled \<Rightarrow> finish p (upd_st (\<lambda>s. s\<lparr>es_canceled := es_canceled s + 1\<rparr>) x)
        | Ex_Expired \<Rightarrow> finish p (upd_st (\<lambda>s. s\<lparr>es_expired := es_expired s + 1\<rparr>) x)
        | Ex_Reject \<Rightarrow> finish p (upd_st (\<lambda>s. s\<lparr>es_venue_rejects := es_venue_rejects s + 1\<rparr>) x)
        | Ex_Cancel_Reject \<Rightarrow> Some (x\<lparr>x_orders := ot_write p
            (\<lambda>r. r\<lparr>row_pending := row_pending r AND NOT (PENDING_CANCEL OR PENDING_REPLACE)\<rparr>) (x_orders x)\<rparr>)
        | Ex_Restated \<Rightarrow> Some x))"

text \<open>The statistics \<open>publish\<close> refreshes before it stores them and the snapshots in shared memory.\<close>

definition publish_stats :: "(real \<Rightarrow> real) \<Rightarrow> u64 \<Rightarrow> u64 \<Rightarrow> exec_context \<Rightarrow> exec_context" where
  "publish_stats rnd tsc now_tsc x =
     (let now = now_ns rnd now_tsc x
      in upd_st (\<lambda>s. s\<lparr>es_heartbeat_tsc := tsc, es_frame_gaps := mv_frame_gaps (x_view x),
           es_open_orders := ot_n (x_orders x),
           es_rate_budget := map (\<lambda>k. if k < length (ac_inst (x_account x))
             then rate_budget rnd (x_rate x) (x_traded x ! k) now else 0) [0..<4]\<rparr>) x)"

section \<open>The invariant\<close>

text \<open>What a live order holds of asset \<open>k\<close>.\<close>

definition holds :: "account \<Rightarrow> nat \<Rightarrow> order_row \<Rightarrow> int" where
  "holds a k r = (if side_asset a (row_instrument r) (row_side r) = k
     then reservation a (row_instrument r) (row_side r) (row_px r) (row_leaves r) else 0)"

definition reserved_ok :: "account \<Rightarrow> (order_id \<rightharpoonup> order_row) \<Rightarrow> bool" where
  "reserved_ok a m \<longleftrightarrow> (\<forall>k. k < length (ac_bal a) \<longrightarrow> reserved_at a k = total_of (holds a k) m)"

definition orders_traded :: "account \<Rightarrow> (order_id \<rightharpoonup> order_row) \<Rightarrow> bool" where
  "orders_traded a m \<longleftrightarrow> (\<forall>k r. m k = Some r \<longrightarrow> trades a (row_instrument r))"

definition exec_slack :: "(nat \<Rightarrow> int) \<Rightarrow> exec_context \<Rightarrow> bool" where
  "exec_slack d x \<longleftrightarrow> ot_inv (x_orders x) \<and> acct_inv (x_account x)
     \<and> orders_traded (x_account x) (ot_abs (x_orders x))
     \<and> (\<forall>k. k < length (ac_bal (x_account x))
          \<longrightarrow> reserved_at (x_account x) k = total_of (holds (x_account x) k) (ot_abs (x_orders x)) + d k)"

abbreviation exec_inv :: "exec_context \<Rightarrow> bool" where
  "exec_inv \<equiv> exec_slack (\<lambda>_. 0)"

lemma exec_inv_def:
  "exec_inv x \<longleftrightarrow> ot_inv (x_orders x) \<and> acct_inv (x_account x)
     \<and> orders_traded (x_account x) (ot_abs (x_orders x))
     \<and> reserved_ok (x_account x) (ot_abs (x_orders x))"
  by (simp add: exec_slack_def reserved_ok_def)

definition live :: "exec_context \<Rightarrow> order_id \<rightharpoonup> order_row" where
  "live x = ot_abs (x_orders x)"

lemma upd_st_simps [simp]:
  "x_orders (upd_st f x) = x_orders x" "x_account (upd_st f x) = x_account x" "x_view (upd_st f x) = x_view x"
  "x_rate (upd_st f x) = x_rate x" "x_risk (upd_st f x) = x_risk x" "x_control_flags (upd_st f x) = x_control_flags x"
  "x_instruments (upd_st f x) = x_instruments x" "x_event_ns (upd_st f x) = x_event_ns x"
  "x_event_clock (upd_st f x) = x_event_clock x"
  by (simp_all add: upd_st_def)

lemma exec_inv_st [simp]: "exec_slack d (upd_st f x) = exec_slack d x" "live (upd_st f x) = live x"
  by (simp_all add: exec_slack_def live_def)

lemma count_reject_simps [simp]:
  "x_orders (count_reject r x) = x_orders x" "x_account (count_reject r x) = x_account x"
  "x_rate (count_reject r x) = x_rate x" "x_view (count_reject r x) = x_view x"
  "x_risk (count_reject r x) = x_risk x" "exec_slack d (count_reject r x) = exec_slack d x"
  "live (count_reject r x) = live x" "x_last_reject (count_reject r x) = r"
  by (simp_all add: count_reject_def Let_def exec_slack_def live_def upd_st_def)

lemma finite_live [simp]: "finite (dom (live x))"
  by (simp add: live_def)

lemma exec_invD:
  assumes "exec_slack d x"
  shows "ot_inv (x_orders x)" and "acct_inv (x_account x)"
    and "live x k = Some r \<Longrightarrow> trades (x_account x) (row_instrument r)"
    and "j < length (ac_bal (x_account x)) \<Longrightarrow> reserved_at (x_account x) j = total_of (holds (x_account x) j) (live x) + d j"
  using assms by (auto simp: exec_slack_def orders_traded_def live_def)

lemma holds_static:
  assumes "static_part a = static_part b" "acct_inv a" "trades a (row_instrument r)"
  shows "holds a k r = holds b k r"
  unfolding holds_def static_money [OF assms] ..

lemma total_of_cong: "(\<And>k r. m k = Some r \<Longrightarrow> f r = g r) \<Longrightarrow> total_of f m = total_of g m"
  unfolding total_of_def by (rule sum.cong) auto

lemma total_holds_static:
  assumes "static_part a = static_part b" "acct_inv a" "orders_traded a m"
  shows "total_of (holds a k) m = total_of (holds b k) m"
  using assms by (intro total_of_cong holds_static) (auto simp: orders_traded_def)

text \<open>
  The rule the operations use: the new table is the old one with the row of \<open>k\<close> replaced or
  removed, and the reserved balances move by the difference of what the row holds.
\<close>

definition held_by :: "account \<Rightarrow> nat \<Rightarrow> order_row option \<Rightarrow> int" where
  "held_by a j r = (case r of None \<Rightarrow> 0 | Some r \<Rightarrow> holds a j r)"

lemma total_of_fun_upd:
  fixes f :: "'v \<Rightarrow> int"
  assumes "finite (dom m)"
  shows "total_of f (m(k := v)) = total_of f m - (case m k of None \<Rightarrow> 0 | Some r \<Rightarrow> f r)
    + (case v of None \<Rightarrow> 0 | Some r \<Rightarrow> f r)"
proof -
  have del: "total_of f (m(k := None)) = total_of f m - (case m k of None \<Rightarrow> 0 | Some r \<Rightarrow> f r)"
  proof (cases "m k")
    case None
    then have "m(k := None) = m" by auto
    with None show ?thesis by simp
  next
    case (Some r)
    from total_of_delete [where f = f, OF assms this] Some show ?thesis by simp
  qed
  show ?thesis
  proof (cases v)
    case (Some r)
    have "total_of f ((m(k := None))(k \<mapsto> r)) = total_of f (m(k := None)) + f r"
      using assms by (intro total_of_insert) simp_all
    with Some del show ?thesis by simp
  qed (use del in simp)
qed

lemma exec_slack_step:
  assumes inv: "exec_slack d x" and tab: "ot_inv (x_orders y)" "live y = (live x)(k := v)"
    and st: "static_part (x_account y) = static_part (x_account x)"
    and v: "\<And>r. v = Some r \<Longrightarrow> trades (x_account x) (row_instrument r)"
    and res: "\<And>j. j < length (ac_bal (x_account x)) \<Longrightarrow> reserved_at (x_account y) j
      = reserved_at (x_account x) j - held_by (x_account x) j (live x k) + held_by (x_account x) j v + (d' j - d j)"
  shows "exec_slack d' y"
proof -
  let ?a = "x_account x" and ?b = "x_account y"
  note i = exec_invD [OF inv]
  have b: "acct_inv ?b" using st i(2) static_inv by metis
  have len: "length (ac_bal ?b) = length (ac_bal ?a)" using st by (simp add: static_part_def)
  have tr: "trades ?b = trades ?a" by (rule ext) (rule static_trades [OF st])
  have ot: "orders_traded ?b (live y)"
    unfolding orders_traded_def tab(2) tr using i(3) v by (auto split: if_splits)
  have "reserved_at ?b j = total_of (holds ?b j) (live y) + d' j" if j: "j < length (ac_bal ?b)" for j
  proof -
    have "total_of (holds ?b j) (live y) = total_of (holds ?a j) (live y)"
      by (rule total_holds_static [OF st b ot])
    also have "\<dots> = total_of (holds ?a j) (live x) - held_by ?a j (live x k) + held_by ?a j v"
      unfolding tab(2) held_by_def by (rule total_of_fun_upd) simp
    finally show ?thesis using res [of j] i(4) [of j] j len by simp
  qed
  then show ?thesis using tab(1) b ot by (simp add: exec_slack_def live_def)
qed

lemma exec_inv_step:
  assumes "exec_slack d x" and "ot_inv (x_orders y)" "live y = (live x)(k := v)"
    and "static_part (x_account y) = static_part (x_account x)"
    and "\<And>r. v = Some r \<Longrightarrow> trades (x_account x) (row_instrument r)"
    and "\<And>j. j < length (ac_bal (x_account x)) \<Longrightarrow> reserved_at (x_account y) j
      = reserved_at (x_account x) j - held_by (x_account x) j (live x k) + held_by (x_account x) j v"
  shows "exec_slack d y"
  by (rule exec_slack_step [OF assms(1-5), of d]) (simp_all add: assms(6))

end
