(* ===== verification/Null_Router.thy ===== *)
theory Null_Router
  imports Order_Msgs Spsc
begin

text \<open>
  The router of \<open>src/exec/router.hpp\<close>: the contract of the concept \<open>Router\<close> as exec relies on it
  (locale \<open>order_router\<close>: a request is refused and nothing changes, or it is queued and answered
  later), and \<open>NullRouter\<close>, which answers every request itself and never fills.  Its queue of
  reports is the array \<open>q_\<close> with the free-running counters \<open>head_\<close> and \<open>tail_\<close>, as in the rings.
\<close>

section \<open>The contract\<close>

locale order_router =
  fixes rinv :: "'r \<Rightarrow> bool" and pending :: "'r \<Rightarrow> exec_report list"
    and rsubmit :: "order_request \<Rightarrow> 'r \<Rightarrow> bool \<times> 'r" and answers :: "order_request \<Rightarrow> exec_report list"
  assumes accepted: "rinv r \<Longrightarrow> rsubmit req r = (True, r') \<Longrightarrow> rinv r' \<and> pending r' = pending r @ answers req"
    and refused: "rsubmit req r = (False, r') \<Longrightarrow> r' = r"
begin

lemma rsubmit_cases:
  assumes "rinv r"
  obtains (accept) r' where "rsubmit req r = (True, r')" "rinv r'" "pending r' = pending r @ answers req"
    | (refuse) "rsubmit req r = (False, r)"
  using accepted [OF assms] refused by (cases "rsubmit req r") (metis (full_types))

end

section \<open>NullRouter\<close>

type_synonym null_router = "exec_report ring"

definition QUEUE :: u32 where "QUEUE = 1024"
definition QUEUE_MASK :: u32 where "QUEUE_MASK = QUEUE - 1"

definition push_report :: "exec_report \<Rightarrow> null_router \<Rightarrow> null_router" where
  "push_report rep r = r\<lparr>r_slots := (r_slots r)(r_tail r AND QUEUE_MASK := rep), r_tail := r_tail r + 1\<rparr>"

text \<open>\<open>ExecReport r{}\<close> and the fields every answer shares; each branch sets the type before it pushes.\<close>

definition answer_base :: "order_request \<Rightarrow> exec_report" where
  "answer_base req = \<lparr>rp_cl_ord_id = rq_cl_ord_id req, rp_orig_cl_ord_id = rq_orig_cl_ord_id req,
     rp_strategy_tag = rq_strategy_tag req, rp_tsc_sent = rq_tsc_decision req, rp_tsc_recv = 0, rp_venue_ts_ns = 0,
     rp_last_px = 0, rp_last_qty = 0, rp_cum_qty = 0, rp_leaves_qty = 0, rp_fee = 0,
     rp_instrument = rq_instrument req, rp_exec_type = Ex_Restated, rp_ord_status = St_Pending_New,
     rp_liquidity = 0, rp_reject_reason = 0, rp_fee_ccy = 0, rp_venue_order_id = []\<rparr>"

definition answers_needed :: "order_request \<Rightarrow> u32" where
  "answers_needed req = (if rq_type req = Req_New \<and> (rq_tif req = IOC \<or> rq_tif req = FOK) then 2 else 1)"

definition null_submit :: "order_request \<Rightarrow> null_router \<Rightarrow> bool \<times> null_router" where
  "null_submit req q =
     (let needed = answers_needed req
      in if QUEUE - (r_tail q - r_head q) < needed then (False, q)
         else let r = answer_base req
           in (True, case rq_type req of
                Req_New \<Rightarrow>
                  let r = r\<lparr>rp_exec_type := Ex_Ack, rp_ord_status := St_New, rp_leaves_qty := rq_qty req\<rparr>;
                      q = push_report r q
                  in if needed = 2
                     then push_report (r\<lparr>rp_exec_type := Ex_Expired, rp_ord_status := St_Expired, rp_leaves_qty := 0\<rparr>) q
                     else q
              | Req_Cancel \<Rightarrow> push_report (r\<lparr>rp_exec_type := Ex_Canceled, rp_ord_status := St_Canceled\<rparr>) q
              | Req_Replace \<Rightarrow> push_report (r\<lparr>rp_exec_type := Ex_Replaced, rp_ord_status := St_New,
                  rp_leaves_qty := rq_qty req\<rparr>) q
              | Req_Cancel_All \<Rightarrow> q))"

text \<open>One report off the queue, stamped with the reading \<open>tsc\<close>; \<open>None\<close> when the queue is empty.\<close>

definition null_pop :: "u64 \<Rightarrow> null_router \<Rightarrow> exec_report option \<times> null_router" where
  "null_pop tsc q =
     (if r_head q \<noteq> r_tail q then
        let i = r_head q AND QUEUE_MASK; rep = (r_slots q i)\<lparr>rp_tsc_recv := tsc\<rparr>
        in (Some rep, q\<lparr>r_head := r_head q + 1, r_slots := (r_slots q)(i := rep)\<rparr>)
      else (None, q))"

section \<open>The answers, as lists\<close>

definition is_fill :: "exec_report \<Rightarrow> bool" where
  "is_fill rep \<longleftrightarrow> rp_exec_type rep = Ex_Partial_Fill \<or> rp_exec_type rep = Ex_Fill"

definition null_answers :: "order_request \<Rightarrow> exec_report list" where
  "null_answers req = (let r = answer_base req in case rq_type req of
     Req_New \<Rightarrow> r\<lparr>rp_exec_type := Ex_Ack, rp_ord_status := St_New, rp_leaves_qty := rq_qty req\<rparr>
       # (if rq_tif req = IOC \<or> rq_tif req = FOK
          then [r\<lparr>rp_exec_type := Ex_Expired, rp_ord_status := St_Expired, rp_leaves_qty := 0\<rparr>] else [])
   | Req_Cancel \<Rightarrow> [r\<lparr>rp_exec_type := Ex_Canceled, rp_ord_status := St_Canceled\<rparr>]
   | Req_Replace \<Rightarrow> [r\<lparr>rp_exec_type := Ex_Replaced, rp_ord_status := St_New, rp_leaves_qty := rq_qty req\<rparr>]
   | Req_Cancel_All \<Rightarrow> [])"

abbreviation null_inv :: "null_router \<Rightarrow> bool" where "null_inv \<equiv> ring_inv 10"
abbreviation null_pending :: "null_router \<Rightarrow> exec_report list" where "null_pending \<equiv> ring_content 10"

lemma QUEUE_bits: "QUEUE = 2 ^ 10" "QUEUE_MASK = mask 10"
  by (simp_all add: QUEUE_def QUEUE_MASK_def mask_eq_exp_minus_1)

lemma push_report_sound:
  assumes "null_inv q" "length (null_pending q) < 1024"
  shows "null_inv (push_report rep q)" and "null_pending (push_report rep q) = null_pending q @ [rep]"
proof -
  have "r_tail q - r_head q \<noteq> 2 ^ 10" using assms(2) by auto
  then have "try_push (2 ^ 10) rep q = (True, push_report rep q)"
    by (simp add: try_push_def try_claim_def push_report_def publish_def slot_put_def QUEUE_bits
        mask_eq_exp_minus_1 Let_def)
  with ring_push_room [of 10 q rep] assms
  show "null_inv (push_report rep q)" and "null_pending (push_report rep q) = null_pending q @ [rep]" by auto
qed

lemma null_room:
  assumes "null_inv q"
  shows "QUEUE - (r_tail q - r_head q) < n \<longleftrightarrow> 1024 < length (null_pending q) + unat n"
proof -
  have le: "unat (r_tail q - r_head q) \<le> 1024" using assms by (simp add: ring_inv_def)
  then have "unat (QUEUE - (r_tail q - r_head q)) = 1024 - unat (r_tail q - r_head q)"
    by (subst unat_sub_no_borrow) (simp_all add: QUEUE_def)
  then show ?thesis using le by (auto simp: word_less_nat_alt)
qed

lemma null_submit_sound:
  assumes "null_inv q"
  shows "if length (null_pending q) + unat (answers_needed req) \<le> 1024
    then \<exists>q'. null_submit req q = (True, q') \<and> null_inv q' \<and> null_pending q' = null_pending q @ null_answers req
    else null_submit req q = (False, q)"
proof (cases "length (null_pending q) + unat (answers_needed req) \<le> 1024")
  case False
  then show ?thesis using null_room [OF assms, of "answers_needed req"] by (simp add: null_submit_def)
next
  case True
  then have ok: "\<not> QUEUE - (r_tail q - r_head q) < answers_needed req"
    using null_room [OF assms, of "answers_needed req"] by simp
  have "1 \<le> unat (answers_needed req)" by (simp add: answers_needed_def)
  then have one: "length (null_pending q) < 1024" using True by linarith
  note p = push_report_sound [OF assms one]
  have two: "length (null_pending (push_report rep q)) < 1024" if "answers_needed req = 2" for rep
    using True that p(2) [of rep] by simp
  note pp = push_report_sound [OF p(1) two]
  show ?thesis
    using True ok p pp assms
    by (cases "rq_type req")
      (auto simp: null_submit_def null_answers_def Let_def answers_needed_def split: if_splits)
qed

interpretation null: order_router null_inv null_pending null_submit null_answers
proof unfold_locales
  fix q q' :: null_router and req
  show "null_inv q' \<and> null_pending q' = null_pending q @ null_answers req"
    if "null_inv q" "null_submit req q = (True, q')"
    using null_submit_sound [OF that(1), of req] that(2) by (auto split: if_splits)
  show "q' = q" if "null_submit req q = (False, q')"
    using that by (auto simp: null_submit_def Let_def split: if_splits)
qed

lemma null_pop_sound:
  assumes "null_inv q"
  shows "case null_pending q of [] \<Rightarrow> null_pop tsc q = (None, q)
    | rep # reps \<Rightarrow> \<exists>q'. null_pop tsc q = (Some (rep\<lparr>rp_tsc_recv := tsc\<rparr>), q') \<and> null_inv q' \<and> null_pending q' = reps"
proof (cases "null_pending q")
  case Nil
  then have "r_head q = r_tail q" by (simp add: ring_content_def unat_eq_0)
  then show ?thesis using Nil by (simp add: null_pop_def)
next
  case (Cons rep reps)
  have ne: "r_head q \<noteq> r_tail q" using Cons by (auto simp: ring_content_def)
  let ?i = "r_head q AND mask 10"
  from ring_pop_some [OF _ assms Cons] obtain r' where
    pop: "try_pop (2 ^ 10) q = (Some rep, r')" "null_inv r'" "null_pending r' = reps" by auto
  have r': "r' = q\<lparr>r_head := r_head q + 1\<rparr>" "rep = r_slots q ?i"
    using pop(1) ne unfolding try_pop_def Let_def capacity_mask by (simp_all split: if_splits)
  let ?q = "r'\<lparr>r_slots := (r_slots r')(?i := rep\<lparr>rp_tsc_recv := tsc\<rparr>)\<rparr>"
  have run: "null_pop tsc q = (Some (rep\<lparr>rp_tsc_recv := tsc\<rparr>), ?q)"
    using ne r' by (simp add: null_pop_def Let_def QUEUE_bits)
  have n: "unat (r_tail q - r_head q) = Suc (length reps)" using Cons length_ring_content [of 10 q] by simp
  then have le: "length reps < 1024" using assms by (simp add: ring_inv_def)
  have n': "unat (r_tail r' - r_head r') = length reps" using pop(3) length_ring_content [of 10 r'] by simp
  have "(r_head r' + word_of_nat j) AND mask 10 \<noteq> ?i" if "j < length reps" for j
    using masked_distinct [of 10 "Suc j" 0 "r_head q"] that le by (simp add: r' algebra_simps)
  then have "null_pending ?q = null_pending r'"
    using n' by (simp add: ring_content_def)
  moreover have "null_inv ?q" using pop(2) by (simp add: ring_inv_def)
  ultimately show ?thesis using Cons run pop(3) by simp
qed

text \<open>The only reports it makes.\<close>

definition null_kind :: "exec_report \<Rightarrow> bool" where
  "null_kind rep \<longleftrightarrow> rp_exec_type rep \<in> {Ex_Ack, Ex_Expired, Ex_Canceled, Ex_Replaced}"

lemma null_answers_kind: "rep \<in> set (null_answers req) \<Longrightarrow> null_kind rep"
  by (auto simp: null_answers_def Let_def null_kind_def split: req_type.splits if_splits)

lemma null_kind_no_fill: "null_kind rep \<Longrightarrow> \<not> is_fill rep"
  by (auto simp: null_kind_def is_fill_def)

end
