(* ===== verification/Exec_Reports.thy ===== *)
theory Exec_Reports
  imports Exec_Context Null_Router
begin

text \<open>
  Every report returns and does to the live orders what \<open>spec_report\<close> says: a fill takes its lots off
  the order, a terminal report removes it, a replace installs the amended price and size.  What is
  reserved beyond the orders' reservations changes only with a fill, by what the truncation of
  notionals to units of \<open>1e-8\<close> loses when the reservation is split (\<open>report_loss\<close>).
\<close>

section \<open>The order life cycle\<close>

definition after_fill :: "exec_report \<Rightarrow> order_row \<Rightarrow> order_row" where
  "after_fill rep r = r\<lparr>row_cum := row_cum r + rp_last_qty rep,
     row_leaves := (if row_leaves r > rp_last_qty rep then row_leaves r - rp_last_qty rep else 0),
     row_status := (if rp_exec_type rep = Ex_Fill then St_Filled else St_Partially_Filled)\<rparr>"

definition after_replace :: "order_row \<Rightarrow> order_row" where
  "after_replace r = r\<lparr>row_px := row_new_px r, row_qty := row_new_qty r,
     row_leaves := row_new_qty r - row_cum r, row_pending := row_pending r AND NOT PENDING_REPLACE\<rparr>"

definition spec_row :: "int \<Rightarrow> exec_report \<Rightarrow> order_row \<Rightarrow> order_row option" where
  "spec_row now rep r = (case rp_exec_type rep of
     Ex_Ack \<Rightarrow> Some (r\<lparr>row_status := St_New, row_t_ack_ns := now\<rparr>)
   | Ex_Partial_Fill \<Rightarrow> if row_leaves (after_fill rep r) = 0 then None else Some (after_fill rep r)
   | Ex_Fill \<Rightarrow> if row_leaves (after_fill rep r) = 0 then None else Some (after_fill rep r)
   | Ex_Replaced \<Rightarrow> Some (after_replace r)
   | Ex_Cancel_Reject \<Rightarrow> Some (r\<lparr>row_pending := row_pending r AND NOT (PENDING_CANCEL OR PENDING_REPLACE)\<rparr>)
   | Ex_Restated \<Rightarrow> Some r
   | _ \<Rightarrow> None)"

definition spec_report :: "int \<Rightarrow> exec_report \<Rightarrow> (order_id \<rightharpoonup> order_row) \<Rightarrow> (order_id \<rightharpoonup> order_row)" where
  "spec_report now rep m = (case m (rp_cl_ord_id rep) of None \<Rightarrow> m
     | Some r \<Rightarrow> m(rp_cl_ord_id rep := spec_row now rep r))"

definition exact_fill :: "account \<Rightarrow> order_row \<Rightarrow> int \<Rightarrow> bool" where
  "exact_fill a r q \<longleftrightarrow> 0 < q \<and> q \<le> row_leaves r
     \<and> reservation a (row_instrument r) (row_side r) (row_px r) (row_leaves r)
       = reservation a (row_instrument r) (row_side r) (row_px r) q
         + reservation a (row_instrument r) (row_side r) (row_px r) (row_leaves r - q)"

text \<open>What a fill of \<open>q\<close> lots loses: the reservation of the order less those of the filled part and of the rest.\<close>

definition fill_loss :: "account \<Rightarrow> order_row \<Rightarrow> int \<Rightarrow> nat \<Rightarrow> int" where
  "fill_loss a r q k = (if k = side_asset a (row_instrument r) (row_side r)
     then reservation a (row_instrument r) (row_side r) (row_px r) (row_leaves r)
       - reservation a (row_instrument r) (row_side r) (row_px r) q
       - reservation a (row_instrument r) (row_side r) (row_px r) (max 0 (row_leaves r - q))
     else 0)"

definition report_loss :: "exec_context \<Rightarrow> exec_report \<Rightarrow> nat \<Rightarrow> int" where
  "report_loss x rep k = (case live x (rp_cl_ord_id rep) of None \<Rightarrow> 0
     | Some r \<Rightarrow> if is_fill rep then fill_loss (x_account x) r (rp_last_qty rep) k else 0)"

definition report_ok :: "exec_context \<Rightarrow> exec_report \<Rightarrow> bool" where
  "report_ok x rep \<longleftrightarrow> (\<forall>r. live x (rp_cl_ord_id rep) = Some r \<longrightarrow> is_fill rep
     \<longrightarrow> exact_fill (x_account x) r (rp_last_qty rep))"

lemma exact_fill_loss: "exact_fill a r q \<Longrightarrow> fill_loss a r q k = 0"
  by (simp add: exact_fill_def fill_loss_def)

text \<open>What a report leaves alone.\<close>

definition same_market :: "exec_context \<Rightarrow> exec_context \<Rightarrow> bool" where
  "same_market x y \<longleftrightarrow> x_instruments y = x_instruments x \<and> x_view y = x_view x \<and> x_risk y = x_risk x
     \<and> x_event_clock y = x_event_clock x \<and> x_event_ns y = x_event_ns x \<and> x_control_flags y = x_control_flags x
     \<and> x_tsc_per_ns y = x_tsc_per_ns x \<and> x_rate y = x_rate x \<and> x_in_tick y = x_in_tick x
     \<and> ot_counter (x_orders y) = ot_counter (x_orders x) \<and> static_part (x_account y) = static_part (x_account x)"

text \<open>No trading: balances and position sizes are what they were.\<close>

definition calm :: "account \<Rightarrow> account \<Rightarrow> bool" where
  "calm a b \<longleftrightarrow> static_part b = static_part a \<and> (\<forall>j. total_at b j = total_at a j)
     \<and> (\<forall>i. trades a i \<longrightarrow> ps_qty (position_of b i) = ps_qty (position_of a i))"

lemma calm_refl [simp]: "calm a a"
  by (simp add: calm_def)

lemma calm_trans: "calm a b \<Longrightarrow> calm b c \<Longrightarrow> calm a c"
  unfolding calm_def using static_trades by metis

lemma same_market_refl [simp]: "same_market x x"
  by (simp add: same_market_def)

lemma same_market_trans: "same_market x y \<Longrightarrow> same_market y z \<Longrightarrow> same_market x z"
  by (simp add: same_market_def)

lemma upd_st_others [simp]:
  "x_tsc_per_ns (upd_st f x) = x_tsc_per_ns x" "x_in_tick (upd_st f x) = x_in_tick x"
  "x_last_reject (upd_st f x) = x_last_reject x"
  by (simp_all add: upd_st_def)

lemma same_market_st [simp]: "same_market x (upd_st f y) = same_market x y" "same_market (upd_st f x) y = same_market x y"
  by (simp_all add: same_market_def)

section \<open>Writes to one row\<close>

lemma keeps_keyI [intro]:
  "(\<And>r. row_id (f r) = row_id r) \<Longrightarrow> (\<And>r. row_instrument (f r) = row_instrument r)
   \<Longrightarrow> (\<And>r. row_side (f r) = row_side r) \<Longrightarrow> (\<And>r. row_leaves (f r) = row_leaves r) \<Longrightarrow> keeps_key f"
  by (simp add: keeps_key_def)

lemma row_at_live: "exec_slack d x \<Longrightarrow> row_at (x_orders x) k p \<Longrightarrow> live x k = Some (ot_rows (x_orders x) p)"
  using row_atD(1) exec_invD(1) by (auto simp: live_def)

lemma ot_counter_write [simp]:
  "ot_counter (ot_write p f t) = ot_counter t" "ot_counter (ot_set_leaves p l t) = ot_counter t"
  "ot_n (ot_write p f t) = ot_n t" "ot_n (ot_set_leaves p l t) = ot_n t"
  by (simp_all add: ot_write_def ot_set_leaves_def Let_def)

lemma ot_rows_write [simp]:
  "ot_rows (ot_write p f t) p = f (ot_rows t p)"
  "ot_rows (ot_set_leaves p l t) p = (ot_rows t p)\<lparr>row_leaves := l\<rparr>"
  by (simp_all add: ot_write_def ot_set_leaves_def Let_def)

text \<open>A write that changes neither price nor reservation: acknowledgements and pending bits.\<close>

lemma write_row_sound:
  assumes inv: "exec_slack d x" and p: "row_at (x_orders x) k p" and f: "keeps_key f" "\<And>r. row_px (f r) = row_px r"
  shows "exec_slack d (x\<lparr>x_orders := ot_write p f (x_orders x)\<rparr>)"
    and "live (x\<lparr>x_orders := ot_write p f (x_orders x)\<rparr>) = (live x)(k \<mapsto> f (ot_rows (x_orders x) p))"
proof -
  let ?y = "x\<lparr>x_orders := ot_write p f (x_orders x)\<rparr>" and ?r = "ot_rows (x_orders x) p"
  note i = exec_invD [OF inv] and w = ot_write_sound [OF exec_invD(1) [OF inv] p f(1)]
  note l = row_at_live [OF inv p]
  show lv: "live ?y = (live x)(k \<mapsto> f ?r)" using w(2) by (simp add: live_def)
  have "holds (x_account x) j (f ?r) = holds (x_account x) j ?r" for j
    using f by (simp add: holds_def keeps_key_def)
  then show "exec_slack d ?y"
    using w(1) lv i(3) [OF l] l f(1) by (intro exec_inv_step [OF inv, of ?y k "Some (f ?r)"])
      (auto simp: held_by_def keeps_key_def)
qed

lemma finish_sound:
  assumes inv: "exec_slack d x" and p: "row_at (x_orders x) k p"
  shows "\<exists>y. finish p x = Some y \<and> exec_slack d y \<and> live y = (live x)(k := None) \<and> same_market x y
    \<and> x_rate y = x_rate x \<and> x_st y = x_st x \<and> ot_counter (x_orders y) = ot_counter (x_orders x)
    \<and> ot_gen (x_orders y) = ot_gen (x_orders x)
    \<and> (\<forall>j. total_at (x_account y) j = total_at (x_account x) j)
    \<and> (\<forall>i. position_of (x_account y) i = position_of (x_account x) i)"
proof -
  let ?r = "ot_rows (x_orders x) p" and ?a = "x_account x"
  note i = exec_invD [OF inv] and at = row_atD [OF exec_invD(1) [OF inv] p]
  note l = row_at_live [OF inv p]
  obtain t where t: "ot_erase (x_orders x) k = Some t" "ot_inv t" "ot_abs t = (ot_abs (x_orders x))(k := None)"
    "ot_counter t = ot_counter (x_orders x)" "ot_gen t = ot_gen (x_orders x)"
    using ot_erase_sound [OF i(1)] by blast
  define y where "y = x\<lparr>x_account := release (row_instrument ?r) (row_side ?r) (row_px ?r) (row_leaves ?r) ?a, x_orders := t\<rparr>"
  note rel = release_sound [OF i(2) i(3) [OF l], of "row_side ?r" "row_px ?r" "row_leaves ?r"]
  have run: "finish p x = Some y" using t(1) at(2) by (simp add: finish_def Let_def y_def)
  have lv: "live y = (live x)(k := None)" by (simp add: live_def y_def t(3))
  have "exec_slack d y"
    by (rule exec_inv_step [OF inv, of y k None]) (use t(2) lv rel l in \<open>auto simp: y_def held_by_def holds_def\<close>)
  with run lv rel t(4,5) show ?thesis by (auto simp: y_def same_market_def)
qed

section \<open>Fills and replaces\<close>

lemma reservation_zero [simp]: "reservation a i sd px 0 = 0"
  by (simp add: reservation_def notional_def base_units_def tl_to_money_def to_i64_def Let_def split: side.split)

lemma book_fill_sound:
  fixes rep :: exec_report
  assumes inv: "exec_slack d x" and p: "row_at (x_orders x) k p"
  defines "y \<equiv> book_fill rep p x" and "r \<equiv> ot_rows (x_orders x) p"
  shows "exec_slack (\<lambda>j. d j + fill_loss (x_account x) r (rp_last_qty rep) j) y" and "live y = (live x)(k \<mapsto> after_fill rep r)" and "same_market x y"
    and "row_at (x_orders y) k p" and "ot_rows (x_orders y) p = after_fill rep r"
    and "x_account y = on_fill (row_instrument r) (row_side r) (rp_last_px rep) (rp_last_qty rep) (row_px r) (rp_fee rep)
      (rp_fee_ccy rep = 1) (x_account x)"
proof -
  let ?q = "rp_last_qty rep" and ?a = "x_account x"
  let ?l = "if row_leaves r > ?q then row_leaves r - ?q else 0"
  let ?t1 = "ot_write p (\<lambda>r. r\<lparr>row_cum := row_cum r + ?q\<rparr>) (x_orders x)"
  let ?t2 = "ot_set_leaves p ?l ?t1"
  let ?st = "\<lambda>r. r\<lparr>row_status := (if rp_exec_type rep = Ex_Fill then St_Filled else St_Partially_Filled)\<rparr>"
  note i = exec_invD [OF inv] and l = row_at_live [OF inv p, folded r_def]
  have k1: "keeps_key (\<lambda>r. r\<lparr>row_cum := row_cum r + ?q\<rparr>)" and k2: "keeps_key ?st" by auto
  note w1 = ot_write_sound [OF i(1) p k1]
  have p1: "row_at ?t1 k p" using w1(4) p by simp
  note w2 = ot_set_leaves_sound [OF w1(1) p1, of ?l]
  have p2: "row_at ?t2 k p" using w2(4) p1 by simp
  note w3 = ot_write_sound [OF w2(1) p2 k2]
  have orders: "x_orders y = ot_write p ?st ?t2"
    by (simp add: y_def book_fill_def Let_def r_def)
  show acct: "x_account y = on_fill (row_instrument r) (row_side r) (rp_last_px rep) ?q (row_px r) (rp_fee rep)
      (rp_fee_ccy rep = 1) ?a"
    by (simp add: y_def book_fill_def Let_def r_def)
  note f = on_fill_sound [OF i(2) i(3) [OF l], where sd = "row_side r" and px = "rp_last_px rep" and qty = ?q
    and opx = "row_px r" and fee = "rp_fee rep" and fee_in_base = "rp_fee_ccy rep = 1", folded acct]
  show "row_at (x_orders y) k p" using w3(4) p2 orders by simp
  show rows: "ot_rows (x_orders y) p = after_fill rep r"
    by (simp add: orders after_fill_def r_def)
  show lv: "live y = (live x)(k \<mapsto> after_fill rep r)"
    unfolding live_def orders w3(2) w2(2) w1(2) by (simp add: after_fill_def r_def)
  show sm: "same_market x y"
    using f(1) by (simp add: same_market_def) (simp add: y_def book_fill_def Let_def)
  have "holds ?a j (after_fill rep r) = holds ?a j r - fill_loss ?a r ?q j
      - (if j = side_asset ?a (row_instrument r) (row_side r) then reservation ?a (row_instrument r) (row_side r) (row_px r) ?q else 0)" for j
    by (simp add: holds_def after_fill_def fill_loss_def max_def)
  then show "exec_slack (\<lambda>j. d j + fill_loss ?a r ?q j) y"
    using w3(1) lv f(1,3) i(3) [OF l] l orders
    by (intro exec_slack_step [OF inv, of y k "Some (after_fill rep r)"])
      (auto simp: held_by_def after_fill_def)
qed

lemma on_replaced_sound:
  assumes inv: "exec_slack d x" and p: "row_at (x_orders x) k p"
  defines "y \<equiv> on_replaced p x" and "r \<equiv> ot_rows (x_orders x) p"
  shows "exec_slack d y" and "live y = (live x)(k \<mapsto> after_replace r)" and "same_market x y"
    and "total_at (x_account y) j = total_at (x_account x) j"
    and "position_of (x_account y) i = position_of (x_account x) i"
proof -
  let ?a = "x_account x" and ?l = "row_new_qty r - row_cum r"
  let ?f = "\<lambda>r. r\<lparr>row_px := row_new_px r, row_qty := row_new_qty r\<rparr>"
  let ?g = "\<lambda>r. r\<lparr>row_pending := row_pending r AND NOT PENDING_REPLACE\<rparr>"
  let ?t1 = "ot_write p ?f (x_orders x)" and ?rel = "release (row_instrument r) (row_side r) (row_px r) (row_leaves r) ?a"
  let ?t2 = "ot_set_leaves p ?l ?t1"
  note iv = exec_invD [OF inv] and l = row_at_live [OF inv p, folded r_def]
  have k1: "keeps_key ?f" and k2: "keeps_key ?g" by auto
  note w1 = ot_write_sound [OF iv(1) p k1]
  have p1: "row_at ?t1 k p" using w1(4) p by simp
  note w2 = ot_set_leaves_sound [OF w1(1) p1, of ?l]
  have p2: "row_at ?t2 k p" using w2(4) p1 by simp
  note w3 = ot_write_sound [OF w2(1) p2 k2]
  have orders: "x_orders y = ot_write p ?g ?t2"
    by (simp add: y_def on_replaced_def Let_def r_def)
  have acct: "x_account y = reserve (row_instrument r) (row_side r) (row_new_px r) ?l ?rel"
    by (simp add: y_def on_replaced_def Let_def r_def)
  note tr = iv(3) [OF l]
  note rel = release_sound [OF iv(2) tr, of "row_side r" "row_px r" "row_leaves r"]
  have rinv: "acct_inv ?rel" "trades ?rel (row_instrument r)"
    using static_inv [OF rel(1) [symmetric] iv(2)] static_trades [OF rel(1)] tr by simp_all
  note res = reserve_sound [OF rinv, of "row_side r" "row_new_px r" ?l]
  note eq = static_money [OF rel(1) rinv]
  show lv: "live y = (live x)(k \<mapsto> after_replace r)"
    unfolding live_def orders w3(2) w2(2) w1(2) by (simp add: after_replace_def r_def)
  have sp: "static_part (x_account y) = static_part ?a" using res(1) rel(1) acct by simp
  then show "same_market x y" by (simp add: same_market_def) (simp add: y_def on_replaced_def Let_def)
  show "total_at (x_account y) j = total_at (x_account x) j" "position_of (x_account y) i = position_of (x_account x) i"
    using res(3,4) rel(3,4) acct by simp_all
  show "exec_slack d y"
    using w3(1) lv sp tr l orders res(2) rel(2) eq acct
    by (intro exec_inv_step [OF inv, of y k "Some (after_replace r)"])
      (auto simp: held_by_def holds_def after_replace_def)
qed

section \<open>Every report\<close>

lemma apply_report_slack:
  assumes inv: "exec_slack d x"
  shows "\<exists>y. apply_report rnd tsc rep x = Some y \<and> exec_slack (\<lambda>k. d k + report_loss x rep k) y \<and> same_market x y
    \<and> live y = spec_report (now_ns rnd tsc x) rep (live x)
    \<and> (is_fill rep \<or> calm (x_account x) (x_account y))"
  using exec_invD(1) [OF inv]
proof (cases rule: ot_find_cases [where k = "rp_cl_ord_id rep"])
  case none
  then show ?thesis using inv by (simp add: apply_report_def spec_report_def report_loss_def live_def [symmetric])
next
  case (some p)
  let ?k = "rp_cl_ord_id rep" and ?r = "ot_rows (x_orders x) p"
  have l: "live x ?k = Some ?r" using some(3) by (simp add: live_def)
  have stat: "\<exists>y. finish p (upd_st f x) = Some y \<and> exec_slack d y \<and> same_market x y \<and> live y = (live x)(?k := None)
      \<and> calm (x_account x) (x_account y)" for f
    using finish_sound [of d "upd_st f x" ?k p] inv some(2) by (auto simp: calm_def same_market_def)
  have fill: "\<exists>y. (let x = book_fill rep p x in if row_leaves (ot_rows (x_orders x) p) = 0 then finish p x else Some x) = Some y
      \<and> exec_slack (\<lambda>j. d j + fill_loss (x_account x) ?r (rp_last_qty rep) j) y \<and> same_market x y
      \<and> live y = (live x)(?k := if row_leaves (after_fill rep ?r) = 0 then None else Some (after_fill rep ?r))"
  proof -
    note b = book_fill_sound [OF inv some(2), of rep]
    show ?thesis
    proof (cases "row_leaves (after_fill rep ?r) = 0")
      case True
      with finish_sound [OF b(1,4)] obtain y where "finish p (book_fill rep p x) = Some y"
        "exec_slack (\<lambda>j. d j + fill_loss (x_account x) ?r (rp_last_qty rep) j) y"
        "live y = (live (book_fill rep p x))(?k := None)" "same_market (book_fill rep p x) y" by blast
      then show ?thesis using True b same_market_trans [OF b(3)] by (auto simp: Let_def)
    next
      case False
      then show ?thesis using b by (simp add: Let_def)
    qed
  qed
  have ack: "exec_slack d (on_ack now p x)" "live (on_ack now p x) = (live x)(?k \<mapsto> ?r\<lparr>row_status := St_New, row_t_ack_ns := now\<rparr>)"
    "same_market x (on_ack now p x)" for now
  proof -
    have "keeps_key (\<lambda>r. r\<lparr>row_status := St_New, row_t_ack_ns := now\<rparr>)" by auto
    from write_row_sound [OF inv some(2) this] show "exec_slack d (on_ack now p x)"
      "live (on_ack now p x) = (live x)(?k \<mapsto> ?r\<lparr>row_status := St_New, row_t_ack_ns := now\<rparr>)"
      by (simp_all add: on_ack_def)
    show "same_market x (on_ack now p x)" by (simp add: on_ack_def) (simp add: same_market_def)
  qed
  have rej: "exec_slack d (x\<lparr>x_orders := ot_write p f (x_orders x)\<rparr>)"
      "live (x\<lparr>x_orders := ot_write p f (x_orders x)\<rparr>) = (live x)(?k \<mapsto> f ?r)"
    if "f = (\<lambda>r. r\<lparr>row_pending := row_pending r AND NOT (PENDING_CANCEL OR PENDING_REPLACE)\<rparr>)" for f
  proof -
    have "keeps_key f" "row_px (f r) = row_px r" for r using that by auto
    from write_row_sound [OF inv some(2) this] show "exec_slack d (x\<lparr>x_orders := ot_write p f (x_orders x)\<rparr>)"
      "live (x\<lparr>x_orders := ot_write p f (x_orders x)\<rparr>) = (live x)(?k \<mapsto> f ?r)" .
  qed
  note rp = on_replaced_sound [OF inv some(2)]
  have rc: "calm (x_account x) (x_account (on_replaced p x))"
    using rp(3,4,5) by (simp add: calm_def same_market_def)
  have spec: "spec_report n rep (live x) = (live x)(?k := spec_row n rep ?r)" for n
    using l by (simp add: spec_report_def)
  have run: "apply_report rnd tsc rep x = Some y \<longleftrightarrow> (case rp_exec_type rep of
          Ex_Ack \<Rightarrow> Some (on_ack (now_ns rnd tsc x) p x)
        | Ex_Partial_Fill \<Rightarrow> let x = book_fill rep p x
            in if row_leaves (ot_rows (x_orders x) p) = 0 then finish p x else Some x
        | Ex_Fill \<Rightarrow> let x = book_fill rep p x
            in if row_leaves (ot_rows (x_orders x) p) = 0 then finish p x else Some x
        | Ex_Replaced \<Rightarrow> Some (on_replaced p x)
        | Ex_Canceled \<Rightarrow> finish p (upd_st (\<lambda>s. s\<lparr>es_canceled := es_canceled s + 1\<rparr>) x)
        | Ex_Expired \<Rightarrow> finish p (upd_st (\<lambda>s. s\<lparr>es_expired := es_expired s + 1\<rparr>) x)
        | Ex_Reject \<Rightarrow> finish p (upd_st (\<lambda>s. s\<lparr>es_venue_rejects := es_venue_rejects s + 1\<rparr>) x)
        | Ex_Cancel_Reject \<Rightarrow> Some (x\<lparr>x_orders := ot_write p
            (\<lambda>r. r\<lparr>row_pending := row_pending r AND NOT (PENDING_CANCEL OR PENDING_REPLACE)\<rparr>) (x_orders x)\<rparr>)
        | Ex_Restated \<Rightarrow> Some x) = Some y" for y
    by (simp add: apply_report_def some(1))
  have loss: "(\<lambda>k. d k + report_loss x rep k) = (if is_fill rep then (\<lambda>j. d j + fill_loss (x_account x) ?r (rp_last_qty rep) j) else d)"
    using l by (simp add: report_loss_def fun_eq_iff)
  show ?thesis
  proof (cases "rp_exec_type rep")
    case Ex_Ack
    then show ?thesis unfolding run spec loss using ack by (simp add: spec_row_def is_fill_def on_ack_def)
  next
    case Ex_Partial_Fill
    then show ?thesis unfolding run spec loss using fill by (simp add: spec_row_def is_fill_def)
  next
    case Ex_Fill
    then show ?thesis unfolding run spec loss using fill by (simp add: spec_row_def is_fill_def)
  next
    case Ex_Replaced
    then show ?thesis unfolding run spec loss using rp rc by (simp add: spec_row_def is_fill_def)
  next
    case Ex_Cancel_Reject
    then show ?thesis unfolding run spec loss using rej by (simp add: spec_row_def is_fill_def same_market_def)
  next
    case Ex_Restated
    then show ?thesis unfolding run spec loss using inv l by (simp add: spec_row_def is_fill_def map_upd_triv)
  next
    case Ex_Canceled
    then show ?thesis unfolding run spec loss using stat by (simp add: spec_row_def is_fill_def)
  next
    case Ex_Expired
    then show ?thesis unfolding run spec loss using stat by (simp add: spec_row_def is_fill_def)
  next
    case Ex_Reject
    then show ?thesis unfolding run spec loss using stat by (simp add: spec_row_def is_fill_def)
  qed
qed

text \<open>Fills that split exactly keep the slack as it is.\<close>

lemma apply_report_sound:
  assumes "exec_slack d x" and "report_ok x rep"
  shows "\<exists>y. apply_report rnd tsc rep x = Some y \<and> exec_slack d y \<and> same_market x y
    \<and> live y = spec_report (now_ns rnd tsc x) rep (live x)
    \<and> (is_fill rep \<or> calm (x_account x) (x_account y))"
proof -
  have "report_loss x rep k = 0" for k
    using assms(2) exact_fill_loss by (simp add: report_loss_def report_ok_def split: option.split)
  then show ?thesis using apply_report_slack [OF assms(1), of rnd tsc rep] by simp
qed

end
