(* ===== verification/Account_Run.thy ===== *)
theory Account_Run
  imports Account_Facts
begin

text \<open>
  Any sequence of account operations, as exec makes them: the positions it leaves, as sums over
  its fills, and the peak and the greatest drawdown of the equity along it.
\<close>

datatype acct_op =
    Fill_Op u16 side int int int int bool
  | Mark_Op u16 int int
  | Reserve_Op u16 side int int
  | Release_Op u16 side int int

primrec acct_step :: "acct_op \<Rightarrow> account \<Rightarrow> account" where
  "acct_step (Fill_Op i sd px qty opx fee fb) a = on_fill i sd px qty opx fee fb a"
| "acct_step (Mark_Op i bid ask) a = mark i bid ask a"
| "acct_step (Reserve_Op i sd px qty) a = reserve i sd px qty a"
| "acct_step (Release_Op i sd px qty) a = release i sd px qty a"

text \<open>The callers' guarantees: a traded instrument, and fills of at least one lot.\<close>

primrec op_ok :: "account \<Rightarrow> acct_op \<Rightarrow> bool" where
  "op_ok a (Fill_Op i sd px qty opx fee fb) \<longleftrightarrow> trades a i \<and> 0 < qty"
| "op_ok a (Mark_Op i bid ask) \<longleftrightarrow> True"
| "op_ok a (Reserve_Op i sd px qty) \<longleftrightarrow> trades a i"
| "op_ok a (Release_Op i sd px qty) \<longleftrightarrow> trades a i"

text \<open>The fills of an instrument, as signed quantities with their prices.\<close>

fun fills_of :: "u16 \<Rightarrow> acct_op list \<Rightarrow> (int \<times> int) list" where
  "fills_of i [] = []"
| "fills_of i (Fill_Op j sd px qty opx fee fb # ops) =
     (if j = i then (px, signed sd qty) # fills_of i ops else fills_of i ops)"
| "fills_of i (_ # ops) = fills_of i ops"

lemma op_ok_static: "static_part a = static_part b \<Longrightarrow> op_ok a op = op_ok b op"
  by (cases op) (simp_all add: static_trades [of a b])

lemma acct_step_static:
  assumes "acct_inv a" "op_ok a op"
  shows "static_part (acct_step op a) = static_part a" and "acct_inv (acct_step op a)"
proof -
  show "static_part (acct_step op a) = static_part a"
  proof (cases op)
    case (Fill_Op i sd px q opx fee fb)
    then show ?thesis using assms by (simp add: on_fill_sound(1))
  next
    case (Mark_Op i bid ask)
    then show ?thesis using assms by (auto simp: mark_def trades_def acct_simps)
  next
    case (Reserve_Op i sd px q)
    then show ?thesis using assms by (simp add: reserve_sound(1))
  next
    case (Release_Op i sd px q)
    then show ?thesis using assms by (simp add: release_sound(1))
  qed
  then show "acct_inv (acct_step op a)" using assms(1) static_inv by metis
qed

lemma acct_run_static:
  assumes "acct_inv a" "\<forall>op\<in>set ops. op_ok a op"
  shows "static_part (fold acct_step ops a) = static_part a \<and> acct_inv (fold acct_step ops a)"
  using assms
proof (induction ops arbitrary: a)
  case (Cons op ops)
  note st = acct_step_static [of a op]
  have "\<forall>x\<in>set ops. op_ok (acct_step op a) x"
    using Cons.prems st(1) op_ok_static [of "acct_step op a" a] by simp
  with Cons.IH [of "acct_step op a"] st Cons.prems show ?case by simp
qed simp

section \<open>Positions\<close>

lemma fill_core_cong:
  assumes "ps_qty p = ps_qty p'" "ps_cost p = ps_cost p'" "ps_realized p = ps_realized p'"
  shows "ps_qty (fill_position px q p) = ps_qty (fill_position px q p')"
    and "ps_cost (fill_position px q p) = ps_cost (fill_position px q p')"
    and "ps_realized (fill_position px q p) = ps_realized (fill_position px q p')"
  using assms by (simp_all add: fill_position_def reduce_position_def open_position_def Let_def)

lemma fill_other_fields:
  "ps_bought (fill_position px q p) = ps_bought p" "ps_sold (fill_position px q p) = ps_sold p"
  "ps_fees (fill_position px q p) = ps_fees p" "ps_fills (fill_position px q p) = ps_fills p"
  by (simp_all add: fill_position_def reduce_position_def open_position_def Let_def)

lemma fill_between:
  assumes "cost_between lo hi p" "0 \<le> lo" "lo \<le> px" "px \<le> hi" "q \<noteq> 0"
  shows "cost_between lo hi (fill_position px q p)"
proof -
  obtain rest r where r: "reduce_position px q p = (rest, r)" by (cases "reduce_position px q p")
  have b: "cost_between lo hi r" using r assms(1,2) by (rule reduce_between)
  have "ps_qty p = 0 \<longrightarrow> ps_cost p = 0" using assms(1) by (simp add: cost_between_def)
  then have sg: "rest = 0 \<or> ps_qty r = 0 \<or> (0 < ps_qty r) = (0 < rest)"
    using reduce_position_exact(4) [OF r assms(5)] by blast
  have m: "lo * \<bar>rest\<bar> \<le> px * \<bar>rest\<bar>" "px * \<bar>rest\<bar> \<le> hi * \<bar>rest\<bar>"
    using assms(3,4) by (simp_all add: mult_right_mono)
  show ?thesis
    using b sg m by (cases "0 < rest"; cases "0 < ps_qty r"; cases "ps_qty r = 0")
      (auto simp: fill_position_def r open_position_def cost_between_def algebra_simps sgn_if abs_if
        intro: add_mono order_trans [OF add_mono] split: if_splits)
qed

text \<open>\<open>accounts_for p fs\<close>: position \<open>p\<close> is what the fills \<open>fs\<close> add up to.\<close>

definition accounts_for :: "position \<Rightarrow> (int \<times> int) list \<Rightarrow> bool" where
  "accounts_for p fs \<longleftrightarrow> ps_qty p = (\<Sum>(px, q)\<leftarrow>fs. q) \<and> ps_qty p = ps_bought p - ps_sold p
     \<and> ps_realized p - ps_cost p = - (\<Sum>(px, q)\<leftarrow>fs. px * q) \<and> (ps_qty p = 0 \<longrightarrow> ps_cost p = 0)"

lemma accounts_for_fill:
  assumes "accounts_for p fs" "0 < q"
  shows "accounts_for (fill_position px (signed sd q) (booked sd q fees p)) (fs @ [(px, signed sd q)])"
proof -
  let ?b = "booked sd q fees p"
  have b: "ps_qty ?b = ps_qty p" "ps_cost ?b = ps_cost p" "ps_realized ?b = ps_realized p"
    "ps_bought ?b - ps_sold ?b = ps_bought p - ps_sold p + signed sd q"
    by (simp_all add: booked_def signed_def split: side.split)
  have "signed sd q \<noteq> 0" using assms(2) by (simp add: signed_def split: side.split)
  then show ?thesis
    using fill_position_exact [of "signed sd q" ?b px] assms(1) b
    by (simp add: accounts_for_def fill_other_fields)
qed

lemma acct_step_position:
  assumes "acct_inv a" "op_ok a op" "trades a i"
  shows "\<exists>fees. (\<exists>sd px q opx fee fb. op = Fill_Op i sd px q opx fee fb \<and> 0 < q
      \<and> position_of (acct_step op a) i = fill_position px (signed sd q) (booked sd q fees (position_of a i)))
    \<or> fills_of i [op] = [] \<and> (\<exists>m. position_of (acct_step op a) i = (position_of a i)\<lparr>ps_mark2 := m\<rparr>)"
proof (cases op)
  case (Fill_Op j sd px q opx fee fb)
  have j: "trades a j" "0 < q" using assms(2) Fill_Op by simp_all
  note p = on_fill_sound(5) [OF assms(1) j(1) assms(3), of sd px q opx fee fb]
  show ?thesis
  proof (cases "j = i")
    case True
    then show ?thesis using p Fill_Op j(2) by auto
  next
    case False
    then have "position_of (acct_step op a) i = (position_of a i)\<lparr>ps_mark2 := ps_mark2 (position_of a i)\<rparr>"
      using p Fill_Op by simp
    moreover have "fills_of i [op] = []" using False Fill_Op by simp
    ultimately show ?thesis by blast
  qed
next
  case (Mark_Op j bid ask)
  have "\<exists>m. position_of (mark j bid ask a) i = (position_of a i)\<lparr>ps_mark2 := m\<rparr>"
  proof (cases "ac_slot_of a j = None \<or> bid = EMPTY_BID \<or> ask = EMPTY_ASK")
    case True
    then show ?thesis by (intro exI [of _ "ps_mark2 (position_of a i)"]) (simp add: mark_def)
  next
    case False
    then have "trades a j" by (simp add: trades_def)
    note p = position_upd_pos [OF assms(1) this assms(3), of "\<lambda>p. p\<lparr>ps_mark2 := bid + ask\<rparr>"]
    have "position_of (mark j bid ask a) i = (position_of a i)\<lparr>ps_mark2 := if i = j then bid + ask else ps_mark2 (position_of a i)\<rparr>"
      using False p by (auto simp: mark_def acct_simps)
    then show ?thesis ..
  qed
  with Mark_Op show ?thesis by simp
qed (use assms in \<open>auto simp: reserve_sound release_sound intro!: exI [of _ "ps_mark2 (position_of a i)"]\<close>)

lemma fills_of_append: "fills_of i (xs @ ys) = fills_of i xs @ fills_of i ys"
  by (induction i xs rule: fills_of.induct) auto

lemma acct_run_positions:
  assumes "acct_inv a" "\<forall>op\<in>set ops. op_ok a op" "trades a i"
    and "accounts_for (position_of a i) fs" and "cost_between lo hi (position_of a i)" "0 \<le> lo"
    and "\<forall>(px, q)\<in>set (fills_of i ops). lo \<le> px \<and> px \<le> hi"
  shows "accounts_for (position_of (fold acct_step ops a) i) (fs @ fills_of i ops)
    \<and> cost_between lo hi (position_of (fold acct_step ops a) i)"
  using assms
proof (induction ops arbitrary: a fs)
  case (Cons op ops)
  let ?a = "acct_step op a" and ?p = "position_of (acct_step op a) i"
  have ok: "op_ok a op" using Cons.prems(2) by simp
  note st = acct_step_static [OF Cons.prems(1) ok]
  have split: "fills_of i (op # ops) = fills_of i [op] @ fills_of i ops"
    using fills_of_append [of i "[op]" ops] by simp
  have p: "accounts_for ?p (fs @ fills_of i [op]) \<and> cost_between lo hi ?p"
    using acct_step_position [OF Cons.prems(1) ok Cons.prems(3)]
  proof (elim exE disjE conjE)
    fix fees sd px q opx fee fb
    assume op: "op = Fill_Op i sd px q opx fee fb" "0 < q"
      and p: "?p = fill_position px (signed sd q) (booked sd q fees (position_of a i))"
    have "cost_between lo hi (booked sd q fees (position_of a i))"
      using Cons.prems(5) by (simp add: cost_between_def booked_def)
    moreover have "lo \<le> px \<and> px \<le> hi" using Cons.prems(7) op(1) by simp
    moreover have "signed sd q \<noteq> 0" using op(2) by (simp add: signed_def split: side.split)
    ultimately have "cost_between lo hi ?p" unfolding p using Cons.prems(6) by (intro fill_between) simp_all
    with accounts_for_fill [OF Cons.prems(4) op(2)] show ?thesis unfolding p by (simp add: op(1))
  next
    fix m assume "fills_of i [op] = []" "?p = (position_of a i)\<lparr>ps_mark2 := m\<rparr>"
    with Cons.prems(4,5) show ?thesis by (simp add: accounts_for_def cost_between_def)
  qed
  have "accounts_for (position_of (fold acct_step ops ?a) i) ((fs @ fills_of i [op]) @ fills_of i ops)
      \<and> cost_between lo hi (position_of (fold acct_step ops ?a) i)"
  proof (rule Cons.IH)
    show "\<forall>op\<in>set ops. op_ok ?a op" using Cons.prems(2) op_ok_static [OF st(1)] by simp
    show "trades ?a i" using Cons.prems(3) static_trades [OF st(1)] by simp
    show "\<forall>(px, q)\<in>set (fills_of i ops). lo \<le> px \<and> px \<le> hi" using Cons.prems(7) split by simp
  qed (use st p Cons.prems(6) in simp_all)
  then show ?case by (simp add: split)
qed simp

text \<open>The average entry price lies between the bounds of the prices filled.\<close>

lemma cost_between_avg:
  assumes "cost_between lo hi (position_of a i)" "ps_qty (position_of a i) \<noteq> 0" "0 \<le> lo" "hi < 2 ^ 63"
  shows "lo \<le> avg_px a i \<and> avg_px a i \<le> hi"
proof -
  let ?q = "ps_qty (position_of a i)" and ?c = "ps_cost (position_of a i)"
  have b: "lo * \<bar>?q\<bar> \<le> sgn ?q * ?c" "sgn ?q * ?c \<le> hi * \<bar>?q\<bar>" using assms(1) by (simp_all add: cost_between_def)
  have q: "0 < \<bar>?q\<bar>" using assms(2) by simp
  have "0 \<le> lo * \<bar>?q\<bar>" using assms(3) by simp
  then have pos: "0 \<le> sgn ?q * ?c" using b(1) by linarith
  have "cdiv ?c ?q = (sgn ?q * ?c) div \<bar>?q\<bar>"
    using pos assms(2) by (cases "?q > 0") (auto simp: cdiv_def sgn_if zero_le_mult_iff)
  moreover have "lo \<le> (sgn ?q * ?c) div \<bar>?q\<bar>" using b(1) q by (metis zdiv_mono1 nonzero_mult_div_cancel_right less_irrefl)
  moreover have "(sgn ?q * ?c) div \<bar>?q\<bar> \<le> hi" using b(2) q by (metis zdiv_mono1 nonzero_mult_div_cancel_right less_irrefl)
  moreover from calculation have "to_i64 (cdiv ?c ?q) = cdiv ?c ?q" using assms(3,4) by (intro to_i64_id) linarith+
  ultimately show ?thesis using assms(2) by (simp add: avg_px_def Let_def)
qed

section \<open>Peak and drawdown\<close>

primrec acct_trace :: "acct_op list \<Rightarrow> account \<Rightarrow> account list" where
  "acct_trace [] a = [a]"
| "acct_trace (op # ops) a = a # acct_trace ops (acct_step op a)"

lemma acct_trace_snoc: "acct_trace (ops @ [op]) a = acct_trace ops a @ [acct_step op (fold acct_step ops a)]"
  by (induction ops arbitrary: a) simp_all

lemma acct_trace_not_Nil [simp]: "acct_trace ops a \<noteq> []"
  by (cases ops) simp_all

text \<open>The greatest fall of a series from an earlier value.\<close>

definition max_fall :: "int list \<Rightarrow> int" where
  "max_fall es = Max {es ! i - es ! j | i j. i \<le> j \<and> j < length es}"

lemma max_fall_snoc:
  assumes "es \<noteq> []"
  shows "max_fall (es @ [e]) = max (max_fall es) (Max (set (es @ [e])) - e)"
proof -
  let ?F = "\<lambda>es :: int list. {es ! i - es ! j | i j. i \<le> j \<and> j < length es}"
  let ?n = "length es"
  have fin: "finite (?F xs)" for xs
  proof -
    have "?F xs \<subseteq> (\<lambda>(i, j). xs ! i - xs ! j) ` ({..<length xs} \<times> {..<length xs})" by auto
    then show ?thesis by (rule finite_subset) simp
  qed
  have "?F (es @ [e]) = ?F es \<union> (\<lambda>x. x - e) ` set (es @ [e])"
  proof (intro set_eqI iffI)
    fix x assume "x \<in> ?F (es @ [e])"
    then obtain i j where ij: "x = (es @ [e]) ! i - (es @ [e]) ! j" "i \<le> j" "j < ?n + 1" by auto
    show "x \<in> ?F es \<union> (\<lambda>x. x - e) ` set (es @ [e])"
    proof (cases "j = ?n")
      case True
      then have "x = (es @ [e]) ! i - e" "(es @ [e]) ! i \<in> set (es @ [e])" using ij by (auto simp: nth_append)
      then show ?thesis by blast
    next
      case False
      then have "x = es ! i - es ! j" "i \<le> j" "j < ?n" using ij by (simp_all add: nth_append)
      then show ?thesis by blast
    qed
  next
    fix x assume "x \<in> ?F es \<union> (\<lambda>x. x - e) ` set (es @ [e])"
    then show "x \<in> ?F (es @ [e])"
    proof
      assume "x \<in> ?F es"
      then obtain i j where "x = es ! i - es ! j" "i \<le> j" "j < ?n" by auto
      then have "x = (es @ [e]) ! i - (es @ [e]) ! j \<and> i \<le> j \<and> j < length (es @ [e])" by (simp add: nth_append)
      then show ?thesis by blast
    next
      assume "x \<in> (\<lambda>x. x - e) ` set (es @ [e])"
      then obtain i where "i < length (es @ [e])" "x = (es @ [e]) ! i - e" by (metis (no_types, lifting) imageE in_set_conv_nth)
      then have "x = (es @ [e]) ! i - (es @ [e]) ! ?n \<and> i \<le> ?n \<and> ?n < length (es @ [e])" by (simp add: nth_append)
      then show ?thesis by blast
    qed
  qed
  moreover have "?F es \<noteq> {}" using assms by (auto intro: exI [of _ 0])
  moreover have "Max ((\<lambda>x. x - e) ` set (es @ [e])) = Max (set (es @ [e])) - e"
    by (rule mono_Max_commute [symmetric]) (auto simp: mono_def)
  ultimately show ?thesis
    unfolding max_fall_def using fin by (simp add: Max_Un del: set_append)
qed

lemma track_equity_peak:
  "ac_peak (track_equity b) = max (ac_peak b) (equity b)"
  "ac_max_dd (track_equity b) = max (ac_max_dd b) (max (ac_peak b) (equity b) - equity b)"
  by (auto simp: track_equity_def Let_def)

lemma on_fill_tracks:
  "\<exists>b. on_fill i sd px qty opx fee fb a = track_equity b \<and> ac_peak b = ac_peak a \<and> ac_max_dd b = ac_max_dd a"
  unfolding on_fill_def Let_def
  by (rule exI, rule conjI, rule refl) (simp add: release_def acct_simps split: side.split)

lemma acct_step_peak:
  assumes "acct_inv a" "op_ok a op" "equity a \<le> ac_peak a" "ac_peak a - equity a \<le> ac_max_dd a"
  shows "ac_peak (acct_step op a) = max (ac_peak a) (equity (acct_step op a))"
    and "ac_max_dd (acct_step op a) = max (ac_max_dd a) (ac_peak (acct_step op a) - equity (acct_step op a))"
proof -
  have "ac_peak (acct_step op a) = max (ac_peak a) (equity (acct_step op a))
    \<and> ac_max_dd (acct_step op a) = max (ac_max_dd a) (ac_peak (acct_step op a) - equity (acct_step op a))"
  proof (cases op)
    case (Fill_Op i sd px q opx fee fb)
    then obtain b where "acct_step op a = track_equity b" "ac_peak b = ac_peak a" "ac_max_dd b = ac_max_dd a"
      using on_fill_tracks [of i sd px q opx fee fb a] by auto
    then show ?thesis by (simp add: track_equity_peak acct_simps)
  next
    case (Mark_Op i bid ask)
    show ?thesis
    proof (cases "ac_slot_of a i = None \<or> bid = EMPTY_BID \<or> ask = EMPTY_ASK")
      case True
      then have "acct_step op a = a" using Mark_Op by (auto simp: mark_def)
      then show ?thesis using assms(3,4) by (simp add: max_def)
    next
      case False
      then have "acct_step op a = track_equity (upd_pos i (\<lambda>p. p\<lparr>ps_mark2 := bid + ask\<rparr>) a)"
        using Mark_Op by (auto simp: mark_def)
      then show ?thesis by (simp add: track_equity_peak acct_simps)
    qed
  qed (use assms(3,4) in \<open>simp_all add: reserve_def release_def acct_simps max_def\<close>)
  then show "ac_peak (acct_step op a) = max (ac_peak a) (equity (acct_step op a))"
    and "ac_max_dd (acct_step op a) = max (ac_max_dd a) (ac_peak (acct_step op a) - equity (acct_step op a))" by simp_all
qed

lemma acct_run_peak:
  assumes "acct_inv a" "\<forall>op\<in>set ops. op_ok a op" "ac_peak a = equity a" "ac_max_dd a = 0"
  shows "ac_peak (fold acct_step ops a) = Max (set (map equity (acct_trace ops a)))
    \<and> ac_max_dd (fold acct_step ops a) = max_fall (map equity (acct_trace ops a))
    \<and> equity (fold acct_step ops a) \<le> ac_peak (fold acct_step ops a)
    \<and> ac_peak (fold acct_step ops a) - equity (fold acct_step ops a) \<le> ac_max_dd (fold acct_step ops a)"
  using assms(2)
proof (induction ops rule: rev_induct)
  case Nil
  have "max_fall [equity a] = 0"
  proof -
    have "{[equity a] ! i - [equity a] ! j |i j. i \<le> j \<and> j < length [equity a]} = {0}" by auto
    then show ?thesis by (simp add: max_fall_def)
  qed
  then show ?case using assms(3,4) by simp
next
  case (snoc op ops)
  let ?b = "fold acct_step ops a" and ?es = "map equity (acct_trace ops a)"
  have ok: "\<forall>op\<in>set ops. op_ok a op" using snoc.prems by simp
  note IH = snoc.IH [OF ok]
  note st = acct_run_static [OF assms(1) ok]
  have "op_ok ?b op" using snoc.prems op_ok_static [OF st [THEN conjunct1]] by simp
  note p = acct_step_peak [OF st [THEN conjunct2] this]
  have ne: "?es \<noteq> []" by simp
  have es: "map equity (acct_trace (ops @ [op]) a) = ?es @ [equity (acct_step op ?b)]"
    by (simp add: acct_trace_snoc)
  have mx: "Max (set (?es @ [e])) = max (Max (set ?es)) e" for e
    by (simp add: Max_insert2 max.commute)
  show ?case
    unfolding es max_fall_snoc [OF ne] mx using IH p by simp
qed

end
