(* ===== verification/Account_Setup.thy ===== *)
theory Account_Setup
  imports Account_Facts
begin

text \<open>
  Registration: the operations that build an account keep it well formed, so every account that
  exec's start-up makes satisfies \<open>acct_inv\<close>.
\<close>

lemma acct_new_inv: "acct_inv acct_new"
  by (simp add: acct_inv_def acct_new_def)

lemma acct_asset_sound:
  assumes "acct_asset name a = (k, b)"
  shows "ac_inst b = ac_inst a" and "ac_slot_of b = ac_slot_of a"
    and "length (ac_bal a) \<le> length (ac_bal b)" and "length (ac_bal a) \<le> MAX_ASSETS \<Longrightarrow> length (ac_bal b) \<le> MAX_ASSETS"
    and "k = Some j \<Longrightarrow> j < length (ac_bal b)"
    and "\<And>i. i < length (ac_bal a) \<Longrightarrow> ac_bal b ! i = ac_bal a ! i"
  using assms by (auto simp: acct_asset_def find_Some_iff nth_append split: option.splits if_splits)

lemma acct_inv_grow:
  assumes "acct_inv a" "ac_inst b = ac_inst a" "ac_slot_of b = ac_slot_of a"
    and "length (ac_bal a) \<le> length (ac_bal b)" "length (ac_bal b) \<le> MAX_ASSETS"
  shows "acct_inv b"
  using assms(1,5) unfolding acct_inv_def assms(2,3) by (auto intro: order.strict_trans2 [OF _ assms(4)])

lemma set_balance_inv:
  assumes "acct_inv a"
  shows "acct_inv (set_balance name amount a)"
proof -
  obtain k b where k: "acct_asset name a = (k, b)" by (cases "acct_asset name a")
  note s = acct_asset_sound [OF k]
  have "acct_inv b" using assms s(3,4) by (intro acct_inv_grow [OF assms s(1,2)]) (simp_all add: acct_inv_def)
  then show ?thesis
    by (cases k) (auto simp: set_balance_def k intro: acct_inv_grow [of b] simp: acct_inv_def)
qed

lemma acct_inv_append:
  assumes inv: "acct_inv a" and new: "ac_slot_of a i = None" "length (ac_inst a) \<noteq> MAX_TRADED"
    and t: "tr_id t = i" "tr_base t < length (ac_bal a)" "tr_quote t < length (ac_bal a)"
  defines "b \<equiv> a\<lparr>ac_slot_of := (ac_slot_of a)(i := Some (length (ac_inst a))), ac_inst := ac_inst a @ [t]\<rparr>"
  shows "acct_inv b"
proof -
  note i = inv [unfolded acct_inv_def]
  have "s < length (ac_inst b) \<and> tr_id (ac_inst b ! s) = j" if "ac_slot_of b j = Some s" for j s
  proof (cases "j = i")
    case True
    then show ?thesis using that t(1) by (auto simp: b_def)
  next
    case False
    then have "ac_slot_of a j = Some s" using that by (simp add: b_def)
    then have "s < length (ac_inst a)" "tr_id (ac_inst a ! s) = j" using i by blast+
    then show ?thesis by (simp add: b_def nth_append)
  qed
  moreover have "ac_slot_of b (tr_id (ac_inst b ! s)) = Some s \<and> tr_base (ac_inst b ! s) < length (ac_bal b)
      \<and> tr_quote (ac_inst b ! s) < length (ac_bal b)" if "s < length (ac_inst b)" for s
  proof (cases "s = length (ac_inst a)")
    case True
    then show ?thesis using t by (simp add: b_def)
  next
    case False
    then have s: "s < length (ac_inst a)" using that by (simp add: b_def)
    then have "tr_id (ac_inst a ! s) \<noteq> i" using i new(1) by (metis option.distinct(1))
    then show ?thesis using s i by (simp add: b_def nth_append)
  qed
  moreover have "length (ac_inst b) \<le> MAX_TRADED" "length (ac_bal b) \<le> MAX_ASSETS"
    using i new(2) by (simp_all add: b_def)
  ultimately show ?thesis unfolding acct_inv_def by blast
qed

lemma add_instrument_inv:
  assumes "acct_inv a"
  shows "acct_inv (snd (add_instrument i row a))"
proof -
  obtain base quot where sp: "split_symbol (in_symbol row) = (base, quot)" by (cases "split_symbol (in_symbol row)")
  obtain b a1 where b: "acct_asset base a = (b, a1)" by (cases "acct_asset base a")
  obtain q a2 where q: "acct_asset quot a1 = (q, a2)" by (cases "acct_asset quot a1")
  note s1 = acct_asset_sound [OF b] and s2 = acct_asset_sound [OF q]
  have l: "length (ac_bal a) \<le> length (ac_bal a2)" "length (ac_bal a2) \<le> MAX_ASSETS"
    using assms s1(3,4) s2(3,4) by (simp_all add: acct_inv_def)
  have inv: "acct_inv a2" using s1(1,2) s2(1,2) l by (intro acct_inv_grow [OF assms]) simp_all
  consider "ac_slot_of a i \<noteq> None \<or> length (ac_inst a) = MAX_TRADED" | "b = None \<or> q = None"
    | j k where "ac_slot_of a i = None" "length (ac_inst a) \<noteq> MAX_TRADED" "b = Some j" "q = Some k" by (metis not_None_eq)
  then show ?thesis
  proof cases
    case 1
    then show ?thesis using assms by (auto simp: add_instrument_def)
  next
    case 2
    then show ?thesis using assms inv by (auto simp: add_instrument_def sp b q split: option.splits)
  next
    case 3
    have jk: "j < length (ac_bal a2)" "k < length (ac_bal a2)"
      using s1(5) [OF 3(3)] s2(3) s2(5) [OF 3(4)] by simp_all
    have new: "ac_slot_of a2 i = None" "length (ac_inst a2) \<noteq> MAX_TRADED" using 3 s1(1,2) s2(1,2) by simp_all
    show ?thesis
      using acct_inv_append [OF inv new _ _ _] jk 3 s1(1,2) s2(1,2) by (simp add: add_instrument_def sp b q Let_def)
  qed
qed

end
