(* ===== verification/Exec_Properties.thy ===== *)
theory Exec_Properties
  imports Exec_Reports Account_Run Account_Setup Core_Properties
begin

text \<open>
  The properties of exec's components: the order table, the account, the reports, the risk gate,
  the rate model, the histograms and the market view.
\<close>

section \<open>A sample account\<close>

text \<open>An instrument of one-cent-hundredth ticks and unit lots, as core registers it, and an account with USD.\<close>

definition sample_account :: account where
  "sample_account = \<lparr>ac_slot_of = [0 \<mapsto> 0],
     ac_inst = [\<lparr>tr_id = 0, tr_base = 0, tr_quote = 1, tr_tl_exp = 4, tr_tl_mul = 1, tr_base_per_lot = 100000000,
       tr_pos = flat\<rparr>],
     ac_bal = [\<lparr>bl_name = ''TQQQ'', bl_total = 0, bl_reserved = 0\<rparr>,
       \<lparr>bl_name = ''USD'', bl_total = 1000000000000, bl_reserved = 0\<rparr>], ac_peak = 0, ac_max_dd = 0\<rparr>"

lemma sample_account_inv: "acct_inv sample_account"
  by (auto simp: acct_inv_def sample_account_def MAX_TRADED_def MAX_ASSETS_def)

lemma sample_account_facts [simp]:
  "trades sample_account i \<longleftrightarrow> i = 0" "position_of sample_account 0 = flat" "equity sample_account = 0"
  "ac_peak sample_account = 0" "ac_max_dd sample_account = 0"
  by (simp_all add: sample_account_def trades_def position_of_def acct_in_def slot_no_of_def equity_def realized_def
      unrealized_def tl_to_money_def flat_def to_i64_def Let_def)

section \<open>The order table\<close>

text \<open>
  C14.  Exec's order table (a dense array with swap-remove behind an open-addressed index)
  implements a finite map from order ids to rows: any sequence of insertions of fresh non-zero ids
  and removals of present ones, with at most \<open>2048\<close> orders at a time, returns, and afterwards every
  \<open>find\<close> returns and finds the row the map holds.  The number of rows is the size of the map, and
  the live-order count and the open lots of every instrument and side are the sums over it.
\<close>

theorem order_table_refines:
  assumes "legal_run valid_row 2049 Map.empty cs"
  shows "\<exists>t. store_run ot_put ot_erase (ot_new row) cs = Some t
    \<and> (\<forall>k. ot_get t k = Some (foldl spec_step Map.empty cs k))
    \<and> unat (ot_n t) = card (dom (foldl spec_step Map.empty cs))
    \<and> (\<forall>i. ot_live t i = total_of (is_on i) (foldl spec_step Map.empty cs)
        \<and> ot_open_buy t i = total_of (lots_of Buy i) (foldl spec_step Map.empty cs)
        \<and> ot_open_sell t i = total_of (lots_of Sell i) (foldl spec_step Map.empty cs))"
proof -
  let ?m = "foldl spec_step Map.empty cs"
  obtain t where t: "store_run ot_put ot_erase (ot_new row) cs = Some t" "ot_inv t" "ot_abs t = ?m"
    "\<forall>k. ot_get t k = Some (?m k)"
    using ot_store.run_refines [of "ot_new row" cs] assms by (auto simp: ot_new_sound)
  have d: "dense t" and c: "counts_ok t ?m" using t(2,3) by (simp_all add: ot_inv_def)
  show ?thesis
    using t(1,4) c ot_abs_card [OF d] by (intro exI [of _ t]) (simp add: t(3) counts_ok_def)
qed

definition sample_row :: "order_id \<Rightarrow> side \<Rightarrow> int \<Rightarrow> int \<Rightarrow> order_row" where
  "sample_row k sd px qty = row_new\<lparr>row_id := k, row_side := sd, row_px := px, row_qty := qty, row_leaves := qty,
     row_status := St_New\<rparr>"

lemma order_table_refines_witness:
  "\<exists>t. store_run ot_put ot_erase (ot_new row_new)
      [Put 7 (sample_row 7 Buy 500000 100), Put 9 (sample_row 9 Buy 500100 50), Del 7] = Some t
    \<and> ot_get t 7 = Some None \<and> ot_get t 9 = Some (Some (sample_row 9 Buy 500100 50))
    \<and> unat (ot_n t) = 1 \<and> ot_open_buy t 0 = 50"
proof -
  let ?cs = "[Put (7 :: order_id) (sample_row 7 Buy 500000 100), Put 9 (sample_row 9 Buy 500100 50), Del 7]"
  have m: "foldl spec_step Map.empty ?cs = [9 \<mapsto> sample_row 9 Buy 500100 50]" by (auto simp: fun_eq_iff)
  have "total_of (lots_of Buy 0) [9 :: order_id \<mapsto> sample_row 9 Buy 500100 50] = 50"
    by (simp add: total_of_def lots_of_def sample_row_def row_new_def)
  moreover have "legal_run valid_row 2049 Map.empty ?cs"
    by (simp add: valid_row_def INVALID_ORDER_def sample_row_def)
  from order_table_refines [OF this, of row_new] obtain t where
    "store_run ot_put ot_erase (ot_new row_new) ?cs = Some t" "\<forall>k. ot_get t k = Some ([9 \<mapsto> sample_row 9 Buy 500100 50] k)"
    "unat (ot_n t) = card (dom [9 :: order_id \<mapsto> sample_row 9 Buy 500100 50])"
    "ot_open_buy t 0 = total_of (lots_of Buy 0) [9 :: order_id \<mapsto> sample_row 9 Buy 500100 50]" unfolding m by blast
  ultimately show ?thesis by (intro exI [of _ t]) simp
qed

section \<open>The account\<close>

text \<open>
  C15.  After any sequence of fills, marks, reservations and releases, the position in an instrument
  is the signed sum of its fills, bought less sold, and realized profit less open cost is the cash the
  fills brought in, in tick-lots and without a rounding error, through every reduction and reversal
  of the position.  The average entry price lies between the lowest and the highest price filled.
\<close>

theorem positions_are_exact:
  assumes "acct_inv a" and "\<forall>op\<in>set ops. op_ok a op" and "trades a i" and "position_of a i = flat"
    and "\<forall>(px, q)\<in>set (fills_of i ops). lo \<le> px \<and> px \<le> hi" and "0 \<le> lo" "hi < 2 ^ 63"
  defines "b \<equiv> fold acct_step ops a"
  shows "ps_qty (position_of b i) = (\<Sum>(px, q)\<leftarrow>fills_of i ops. q)
    \<and> ps_qty (position_of b i) = ps_bought (position_of b i) - ps_sold (position_of b i)
    \<and> ps_realized (position_of b i) - ps_cost (position_of b i) = - (\<Sum>(px, q)\<leftarrow>fills_of i ops. px * q)
    \<and> (ps_qty (position_of b i) \<noteq> 0 \<longrightarrow> lo \<le> avg_px b i \<and> avg_px b i \<le> hi)"
proof -
  have "accounts_for (position_of a i) []" "cost_between lo hi (position_of a i)"
    by (simp_all add: assms(4) accounts_for_def cost_between_def flat_def)
  from acct_run_positions [OF assms(1-3) this assms(6,5)]
  have r: "accounts_for (position_of b i) (fills_of i ops)" "cost_between lo hi (position_of b i)"
    by (simp_all add: b_def)
  from cost_between_avg [OF r(2) _ assms(6,7)] r(1) show ?thesis
    by (simp add: accounts_for_def)
qed

lemma positions_are_exact_witness:
  "ps_qty (position_of (fold acct_step [Fill_Op 0 Buy 500000 100 500000 0 False, Fill_Op 0 Sell 500200 30 500200 0 False]
     sample_account) 0) = 70"
  using positions_are_exact [of sample_account "[Fill_Op 0 Buy 500000 100 500000 0 False,
    Fill_Op 0 Sell 500200 30 500200 0 False]" 0 500000 500200]
  by (simp add: sample_account_inv signed_def)

text \<open>
  Along any sequence of account operations the peak is the greatest equity seen, and the
  recorded drawdown is the greatest fall of the equity from an earlier value, although the code
  looks at the equity only when a fill or a mark may have changed it.
\<close>

theorem drawdown_is_exact:
  assumes "acct_inv a" and "\<forall>op\<in>set ops. op_ok a op" and "ac_peak a = equity a" and "ac_max_dd a = 0"
  shows "ac_peak (fold acct_step ops a) = Max (set (map equity (acct_trace ops a)))
    \<and> ac_max_dd (fold acct_step ops a) = max_fall (map equity (acct_trace ops a))"
  using acct_run_peak [OF assms] by blast

lemma drawdown_is_exact_witness:
  "ac_max_dd (fold acct_step [Fill_Op 0 Buy 500000 100 500000 0 False, Mark_Op 0 499900 500000] sample_account)
    = max_fall (map equity (acct_trace [Fill_Op 0 Buy 500000 100 500000 0 False, Mark_Op 0 499900 500000] sample_account))"
  using drawdown_is_exact [of sample_account "[Fill_Op 0 Buy 500000 100 500000 0 False, Mark_Op 0 499900 500000]"]
  by (simp add: sample_account_inv)

section \<open>Reservations and reports\<close>

text \<open>A context with one live order, which holds its reservation.\<close>

lemma sample_exec:
  obtains x where "exec_inv x" "live x = [7 \<mapsto> sample_row 7 Buy 500000 100]"
    "x_account x = reserve 0 Buy 500000 100 sample_account"
proof -
  let ?r = "sample_row 7 Buy 500000 100" and ?a = "reserve 0 Buy 500000 100 sample_account"
  have r: "row_id ?r = 7" "row_instrument ?r = 0" "row_side ?r = Buy" "row_px ?r = 500000" "row_leaves ?r = 100"
    by (simp_all add: sample_row_def row_new_def)
  obtain t where t: "ot_put (ot_new row_new) 7 ?r = Some t" "ot_inv t" "ot_abs t = [7 \<mapsto> ?r]"
    using ot_store.put_ok [of "ot_new row_new" 7 ?r] by (auto simp: ot_new_sound valid_row_def INVALID_ORDER_def r(1))
  define x where "x = (exec_new \<lparr>it_count = 0, it_rows = undefined\<rparr>)\<lparr>x_account := ?a, x_orders := t\<rparr>"
  have a: "acct_inv ?a" "static_part ?a = static_part sample_account"
    using reserve_sound(1) [of sample_account 0] sample_account_inv static_inv by (metis sample_account_facts(1))+
  have tr: "trades ?a 0" using static_trades [OF a(2)] by simp
  have len: "length (ac_bal ?a) = 2" by (simp add: reserve_def upd_bal_def) (simp add: sample_account_def)
  have z: "reserved_at sample_account k = 0" if "k < 2" for k
    using that by (auto simp: reserved_at_def sample_account_def less_2_cases_iff)
  have "reserved_at ?a k = holds ?a k ?r" if "k < length (ac_bal ?a)" for k
    using that reserve_sound(2) [OF sample_account_inv, of 0 Buy 500000 100 k] z [of k]
    by (simp add: len holds_def r static_money(1,2) [OF a(2,1) tr])
  then have "exec_inv x"
    using a(1) t(2) tr by (simp add: exec_inv_def x_def t(3) orders_traded_def reserved_ok_def r total_of_def)
  then show thesis by (rule that) (simp_all add: x_def live_def t(3))
qed

text \<open>
  A fill of one to all remaining lots, of an order whose value fits into 64 bits.  Giving back the filled
  part of its reservation and keeping the rest then loses nothing, or, for a purchase in an instrument
  whose tick-lot is worth less than \<open>1e-8\<close>, at most one unit of \<open>1e-8\<close>.
\<close>

definition plain_fill :: "account \<Rightarrow> order_row \<Rightarrow> int \<Rightarrow> bool" where
  "plain_fill a r q \<longleftrightarrow> 0 < q \<and> q \<le> row_leaves r \<and> 0 \<le> row_px r \<and> 0 \<le> tr_tl_mul (acct_in a (row_instrument r))
     \<and> row_px r * row_leaves r * tr_tl_mul (acct_in a (row_instrument r))
       * pow10_i128 (tr_tl_exp (acct_in a (row_instrument r))) < 2 ^ 63"

lemma fill_loss_bounded:
  assumes "plain_fill a r q"
  shows "fill_loss a r q k \<in> {0, 1}
    \<and> (fill_loss a r q k = 1 \<longrightarrow> row_side r = Buy \<and> tr_tl_exp (acct_in a (row_instrument r)) < 0)"
proof (cases "row_side r")
  case Sell
  then show ?thesis using assms
    by (simp add: fill_loss_def plain_fill_def reservation_def base_units_def max_def algebra_simps)
next
  case Buy
  let ?t = "acct_in a (row_instrument r)" and ?x = "row_px r * q" and ?y = "row_px r * (row_leaves r - q)"
  have p: "0 < q" "q \<le> row_leaves r" "0 \<le> row_px r" "0 \<le> tr_tl_mul ?t"
    "row_px r * row_leaves r * tr_tl_mul ?t * pow10_i128 (tr_tl_exp ?t) < 2 ^ 63"
    using assms by (simp_all add: plain_fill_def)
  have eq: "row_px r * row_leaves r = ?x + ?y" by (simp add: algebra_simps)
  have "fill_loss a r q k = (if k = side_asset a (row_instrument r) Buy
      then tl_to_money ?t (?x + ?y) - (tl_to_money ?t ?x + tl_to_money ?t ?y) else 0)"
    using p(2) by (simp add: fill_loss_def Buy reservation_def notional_def max_def eq)
  then show ?thesis
    using tl_to_money_split [of ?x ?y ?t] p unfolding eq by (simp add: Buy)
qed


definition sample_fill :: "order_id \<Rightarrow> int \<Rightarrow> int \<Rightarrow> exec_report" where
  "sample_fill k px qty = \<lparr>rp_cl_ord_id = k, rp_orig_cl_ord_id = 0, rp_strategy_tag = 0, rp_tsc_sent = 0, rp_tsc_recv = 0,
     rp_venue_ts_ns = 0, rp_last_px = px, rp_last_qty = qty, rp_cum_qty = qty, rp_leaves_qty = 0, rp_fee = 0,
     rp_instrument = 0, rp_exec_type = Ex_Partial_Fill, rp_ord_status = St_Partially_Filled, rp_liquidity = 0,
     rp_reject_reason = 0, rp_fee_ccy = 0, rp_venue_order_id = []\<rparr>"

lemma sample_row_fields:
  "row_leaves (sample_row 7 sd px q) = q" "row_px (sample_row 7 sd px q) = px"
  "row_instrument (sample_row 7 sd px q) = 0" "row_side (sample_row 7 sd px q) = sd"
  by (simp_all add: sample_row_def row_new_def)


text \<open>A loss: an order of 150000 lots at a tick-lot of \<open>1e-13\<close> filled in two halves.\<close>

lemma split_leaks:
  defines "a \<equiv> sample_account\<lparr>ac_inst := [(acct_in sample_account 0)\<lparr>tr_tl_exp := - 5\<rparr>]\<rparr>"
  shows "plain_fill a (sample_row 7 Buy 1 150000) 75000 \<and> fill_loss a (sample_row 7 Buy 1 150000) 75000 (side_asset a 0 Buy) = 1"
proof -
  have t: "tr_tl_exp (acct_in a 0) = - 5" "tr_tl_mul (acct_in a 0) = 1"
    by (simp_all add: a_def acct_in_def slot_no_of_def sample_account_def)
  have "reservation a 0 Buy 1 q = to_i64 (cdiv q 100000)" for q
    by (simp add: reservation_def notional_def tl_to_money_def t pow10_i128.simps)
  then show ?thesis
    by (simp add: plain_fill_def fill_loss_def sample_row_fields t pow10_i128.simps cdiv_nonneg to_i64_id)
qed

section \<open>The allowlist\<close>

text \<open>
  C17.  With the allowlist set to a comma-separated list of names, registering an instrument allows it
  exactly when the base asset of its symbol is one of the names, as long as the list fits into the
  buffer: no prefix of a name and no name with a longer one in the list passes.
\<close>

theorem allowlist_is_exact:
  assumes "\<forall>w\<in>set ws. w \<noteq> [] \<and> CHR '','' \<notin> set w" and "length (commas ws) \<le> 255"
  shows "rg_allowed_inst (register_instrument i row (set_allowed_assets (commas ws) g)) i
    \<longleftrightarrow> fst (split_symbol (in_symbol row)) \<in> set ws"
  using fields_commas [OF assms(1)] assms(2)
  by (simp add: register_instrument_def set_allowed_assets_def asset_allowed_def asset_allowed_fields split: prod.split)

lemma allowlist_is_exact_witness:
  "\<forall>row :: instrument. rg_allowed_inst (register_instrument 3 (row\<lparr>in_symbol := ''ETH/USD''\<rparr>) (set_allowed_assets ''BTC,ETH'' risk_new)) 3
    \<and> \<not> rg_allowed_inst (register_instrument 3 (row\<lparr>in_symbol := ''ETH/USD''\<rparr>) (set_allowed_assets ''BTC,ETHW'' risk_new)) 3"
proof
  fix row :: instrument
  have "split_symbol ''ETH/USD'' = (''ETH'', ''USD'')" by (simp add: split_symbol_def is_sep_def Let_def)
  then show "rg_allowed_inst (register_instrument 3 (row\<lparr>in_symbol := ''ETH/USD''\<rparr>) (set_allowed_assets ''BTC,ETH'' risk_new)) 3
    \<and> \<not> rg_allowed_inst (register_instrument 3 (row\<lparr>in_symbol := ''ETH/USD''\<rparr>) (set_allowed_assets ''BTC,ETHW'' risk_new)) 3"
    using allowlist_is_exact [of "[''BTC'', ''ETH'']" 3 "row\<lparr>in_symbol := ''ETH/USD''\<rparr>" risk_new]
      allowlist_is_exact [of "[''BTC'', ''ETHW'']" 3 "row\<lparr>in_symbol := ''ETH/USD''\<rparr>" risk_new]
    by simp
qed

section \<open>Rate limits and latencies\<close>

lemma filter_length_mono: "(\<And>x. P x \<Longrightarrow> Q x) \<Longrightarrow> length (filter P xs) \<le> length (filter Q xs)"
  by (induction xs) auto

text \<open>
  C18.  Kraken's rate counter, under every monotone rounding and any sequence of charges (the
  cancellations, which are charged without a check, included): it is never negative, it only falls
  while nothing is charged, and right after a request the model allows, and from then on until the
  next charge, it is at most the venue's limit less the margin.
\<close>

theorem rate_counter_bounded:
  fixes cs i op age
  assumes "rounding rnd" and "0 \<le> rp_decay_per_s p" and "now \<le> later"
  defines "r \<equiv> charge_all rnd cs (rate_configure True p rate_new)"
  shows "0 \<le> rate_count rnd r i later \<and> rate_count rnd r i later \<le> rate_count rnd r i now
    \<and> (would_allow rnd r i op age now
        \<longrightarrow> rate_count rnd (rate_charge rnd i op age now r) i later \<le> rnd (rp_max p - rp_margin p))"
proof -
  note i = charge_all_sound [OF assms(1) rate_new_inv [OF assms(1,2), of True], of cs, folded r_def]
  have en: "rm_enabled r" "rate_limit rnd r = rnd (rp_max p - rp_margin p)"
    using i(2,3) by (simp_all add: rate_configure_def rate_limit_def)
  have "rate_count rnd (rate_charge rnd i op age now r) i later \<le> rnd (rp_max p - rp_margin p)"
    if "would_allow rnd r i op age now"
    using rate_charge_allowed [OF assms(1) i(1) en(1) that]
      rate_count_bounds(2) [OF assms(1) rate_charge_sound(1) [OF assms(1) i(1)], of i op age now i later] en(2) by simp
  then show ?thesis
    using rate_count_bounds(1) [OF assms(1) i(1)] rate_count_decays [OF assms(1) i(1) assms(3)] by blast
qed

lemma rate_counter_bounded_witness:
  "rate_count (\<lambda>x. x) (charge_all (\<lambda>x. x) [(3, Op_Add, 0, 0), (3, Op_Cancel, 0, 10)]
     (rate_configure True kraken_defaults rate_new)) 3 20 \<ge> 0"
  using rate_counter_bounded [of "\<lambda>x. x" kraken_defaults 10 20 "[(3, Op_Add, 0, 0), (3, Op_Cancel, 0, 10)]" 3]
  by (simp add: rounding_id kraken_defaults_def)

text \<open>
  C19.  The percentile estimate of a latency histogram is an upper bound within a factor of two: more
  than \<open>t\<close> of the recorded samples are at most the estimate, where \<open>t\<close> is the truncated rank, and at
  most \<open>t\<close> are below half of it (unless the estimate is the end of the first bucket).
\<close>

theorem percentile_within_factor_two:
  assumes "length xs < 2 ^ 64" and "t = trunc (rnd (p * dbl rnd (int (length xs))))" and "0 \<le> t" "t < int (length xs)"
  defines "v \<equiv> percentile_cycles rnd p (hist_of xs)"
  shows "t < int (length (filter (\<lambda>x. x \<le> v) xs))
    \<and> (unat v \<le> 2 \<or> int (length (filter (\<lambda>x. unat x < unat v div 2) xs)) \<le> t)"
proof -
  have n: "hg_count (hist_of xs) = word_of_nat (length xs)" "uint (hg_count (hist_of xs)) = int (length xs)"
    using assms(1) by (simp_all add: hist_of_fields uint_nat unat_of_nat_u64)
  have ne: "hg_count (hist_of xs) \<noteq> 0" using n(2) assms(3,4) by auto
  have "nat t < 2 ^ 64" using assms(1,4) by simp
  then have th: "unat (word_of_int t :: u64) = nat t"
    using assms(3) unat_of_nat_u64 [of "nat t"] by simp
  have v: "v = percentile_from (hist_of xs) (word_of_int t) 0 (word_of_nat (samples_below 0 xs))"
    using ne by (simp add: v_def percentile_cycles_def n(2) assms(2) samples_below_def)
  have t: "unat (word_of_int t :: u64) < length xs" "samples_below 0 xs \<le> unat (word_of_int t :: u64)"
    using assms(3,4) by (simp_all add: th samples_below_def)
  from percentile_from_sound [OF assms(1) t(1) _ t(2)] obtain c where
    c: "c < 64" "samples_below c xs \<le> nat t" "nat t < samples_below (Suc c) xs"
      "v = (if c < 63 then push_bit (c + 1) 1 else - 1)" unfolding v th by auto
  have "x \<le> v" if "hist_bucket x < Suc c" for x
  proof (cases "c < 63")
    case True
    then show ?thesis using hist_bucket_below [of c x] that c(4) by simp
  qed (simp add: c(4))
  then have "samples_below (Suc c) xs \<le> length (filter (\<lambda>x. x \<le> v) xs)"
    unfolding samples_below_def by (intro filter_length_mono) auto
  moreover have "length (filter (\<lambda>x. unat x < unat v div 2) xs) \<le> samples_below c xs" if "2 < unat v"
  proof -
    have "hist_bucket x < c" if "unat x < unat v div 2" for x
    proof -
      have "0 < c" using \<open>2 < unat v\<close> c(4) by (cases c) simp_all
      moreover have "unat v div 2 \<le> 2 ^ c"
      proof (cases "c < 63")
        case True
        then show ?thesis using c(4) unat_push_bit_1 [of "c + 1"] by simp
      next
        case False
        then have "c = 63" using c(1) by simp
        then show ?thesis using c(4) by (simp add: unsigned_minus_1_eq_mask mask_eq_exp_minus_1)
      qed
      ultimately show ?thesis using that by (intro hist_bucket_least) simp_all
    qed
    then show ?thesis unfolding samples_below_def by (intro filter_length_mono) auto
  qed
  ultimately show ?thesis using c(2,3) assms(3) by (cases "2 < unat v") auto
qed

lemma percentile_within_factor_two_witness:
  "let v = percentile_cycles (\<lambda>x. x) (1 / 2) (hist_of [100, 3, 1000]) in 1 < length (filter (\<lambda>x. x \<le> v) [100, 3, 1000])"
  using percentile_within_factor_two [of "[100, 3, 1000]" 1 "\<lambda>x. x" "1 / 2"]
  by (simp add: dbl_def trunc_def Let_def)

section \<open>From core's books to the strategy's view\<close>

text \<open>
  C20.  Core and exec together: on a legal stream, whatever the timing of the two processes, after any
  of the frames exec takes off the ring its \<open>MarketView\<close> shows that frame, reports \<open>feed_reset\<close>
  exactly when frames were dropped just before it, and has counted in \<open>frame_gaps\<close> exactly the
  frames missing since the first.
\<close>

theorem view_counts_every_gap:
  assumes "legal_feed symbol (events_of cs) Map.empty" and "length (events_of cs) < 2 ^ 64"
  shows "\<exists>ins outs t. core_run inst cs (core_new symbol scratch slots) = Some (ins, outs, t)
    \<and> (\<forall>us u vs. outs = us @ u # vs \<longrightarrow> (let v = fold (on_update rnd) (us @ [u]) view_new in
          mv_u v = u
        \<and> (mv_feed_reset v \<longleftrightarrow> mu_event_seq u \<noteq> (if us = [] then 0 else mu_event_seq (last us)) + 1)
        \<and> mv_frame_gaps v = mu_event_seq u - mu_event_seq (hd (us @ [u])) - of_nat (length us)))"
proof (rule core_frames [OF assms, of inst scratch slots])
  fix ins outs t
  assume run: "core_run inst cs (core_new symbol scratch slots) = Some (ins, outs, t)" and g: "gaps_flagged 0 outs"
  have "gaps_flagged 0 (us @ [u])" if "outs = us @ u # vs" for us u vs
    using gaps_flagged_prefix [of 0 "us @ [u]" vs] g that by simp
  with run view_after show ?thesis unfolding Let_def by blast
qed

lemma view_counts_every_gap_witness:
  "\<forall>scratch slots. \<exists>ins outs t. core_run 0 (map Event sample_feed @ [Consume]) (core_new TQQQ scratch slots) = Some (ins, outs, t)
    \<and> (\<forall>u vs. outs = u # vs \<longrightarrow> mv_frame_gaps (on_update (\<lambda>x. x) u view_new) = 0)"
proof (intro allI)
  fix scratch slots
  have e: "events_of (map Event sample_feed @ [Consume]) = sample_feed" by (simp add: sample_feed_def)
  have "length sample_feed < 2 ^ 64" by (simp add: sample_feed_def)
  then obtain ins outs t where r: "core_run 0 (map Event sample_feed @ [Consume]) (core_new TQQQ scratch slots) = Some (ins, outs, t)"
    "\<forall>us u vs. outs = us @ u # vs \<longrightarrow> (let v = fold (on_update (\<lambda>x. x)) (us @ [u]) view_new in
          mv_u v = u
        \<and> (mv_feed_reset v \<longleftrightarrow> mu_event_seq u \<noteq> (if us = [] then 0 else mu_event_seq (last us)) + 1)
        \<and> mv_frame_gaps v = mu_event_seq u - mu_event_seq (hd (us @ [u])) - of_nat (length us))"
    using view_counts_every_gap [of TQQQ "map Event sample_feed @ [Consume]" 0 scratch slots "\<lambda>x. x"] sample_legal
    unfolding e by blast
  have "mv_frame_gaps (on_update (\<lambda>x. x) u view_new) = 0" if "outs = u # vs" for u vs
    using r(2) [rule_format, of "[]" u vs] that by (simp add: Let_def)
  with r(1) show "\<exists>ins outs t. core_run 0 (map Event sample_feed @ [Consume]) (core_new TQQQ scratch slots) = Some (ins, outs, t)
    \<and> (\<forall>u vs. outs = u # vs \<longrightarrow> mv_frame_gaps (on_update (\<lambda>x. x) u view_new) = 0)" by blast
qed

end
