(* ===== verification/Strategy_Context.thy ===== *)
theory Strategy_Context
  imports Exec_Reports
begin

text \<open>
  \<open>StrategyContext\<close> of \<open>src/exec/strategy.hpp\<close>: what a strategy may do.  A \<open>host\<close> is the
  \<open>ExecContext\<close> and the router it references; the router's \<open>submit\<close> is an argument, as in the
  template.  What exec reads from outside is the \<open>machine\<close>: the readings of the time stamp counter,
  the results of the feed's \<open>try_pop\<close> and the control words, each numbered by the reads before it,
  and the rounding of \<open>double\<close>.  An operation that may read the counter takes a reading on every
  path; the readings are arbitrary.

  Shown for every router that keeps the contract \<open>order_router\<close>: every call returns, keeps the
  invariant, and either changes nothing but the reject counters or sends exactly one request whose
  order passed every check.
\<close>

section \<open>The host\<close>

record machine =
  mc_rnd :: "real \<Rightarrow> real"
  mc_tsc :: "nat \<Rightarrow> u64"
  mc_pop :: "nat \<Rightarrow> market_update option"
  mc_flags :: "nat \<Rightarrow> u32"
  mc_shutdown :: "nat \<Rightarrow> bool"
  mc_late :: "nat \<Rightarrow> bool" \<comment> \<open>the deadline of the final drain has passed\<close>

record 'r host =
  h_x :: exec_context
  h_router :: 'r
  h_reads :: nat
  h_pops :: nat

definition read_tsc :: "machine \<Rightarrow> 'r host \<Rightarrow> u64 \<times> 'r host" where
  "read_tsc M h = (mc_tsc M (h_reads h), h\<lparr>h_reads := h_reads h + 1\<rparr>)"

definition upd_x :: "(exec_context \<Rightarrow> exec_context) \<Rightarrow> 'r host \<Rightarrow> 'r host" where
  "upd_x f h = h\<lparr>h_x := f (h_x h)\<rparr>"

definition host_now :: "machine \<Rightarrow> 'r host \<Rightarrow> int \<times> 'r host" where
  "host_now M h = (let (t, h) = read_tsc M h in (now_ns (mc_rnd M) t (h_x h), h))"

section \<open>Queries\<close>

definition ctx_instrument :: "'r host \<Rightarrow> u16" where
  "ctx_instrument h = mu_instrument (mv_u (x_view (h_x h)))"

definition ctx_inventory :: "'r host \<Rightarrow> int" where
  "ctx_inventory h = ps_qty (position_of (x_account (h_x h)) (ctx_instrument h))"

record position_view =
  pv_qty :: int
  pv_avg_px :: int
  pv_realized :: int
  pv_unrealized :: int

definition ctx_position :: "u16 \<Rightarrow> 'r host \<Rightarrow> position_view" where
  "ctx_position i h = (let a = x_account (h_x h) in
     \<lparr>pv_qty = ps_qty (position_of a i), pv_avg_px = avg_px a i, pv_realized = realized a i, pv_unrealized = unrealized a i\<rparr>)"

definition ctx_pnl :: "machine \<Rightarrow> 'r host \<Rightarrow> real" where
  "ctx_pnl M h = mc_rnd M (dbl (mc_rnd M) (equity (x_account (h_x h))) / 100000000)"

definition ctx_open_orders :: "u16 \<Rightarrow> 'r host \<Rightarrow> u32" where
  "ctx_open_orders i h = ot_live (x_orders (h_x h)) i"

definition ctx_order :: "order_id \<Rightarrow> 'r host \<Rightarrow> order_row option option" where
  "ctx_order oid h = ot_get (x_orders (h_x h)) oid"

definition ctx_is_live :: "order_id \<Rightarrow> 'r host \<Rightarrow> bool option" where
  "ctx_is_live oid h = map_option (\<lambda>p. p \<noteq> None) (ot_find (x_orders (h_x h)) oid)"

definition ctx_rate_budget :: "machine \<Rightarrow> u16 \<Rightarrow> 'r host \<Rightarrow> real \<times> 'r host" where
  "ctx_rate_budget M i h = (let (now, h) = host_now M h in (rate_budget (mc_rnd M) (x_rate (h_x h)) i now, h))"

section \<open>Requests\<close>

definition record_tick_to_order :: "machine \<Rightarrow> 'r host \<Rightarrow> 'r host" where
  "record_tick_to_order M h =
     (if x_in_tick (h_x h) then
        let (t, h) = read_tsc M h
        in upd_x (\<lambda>x. upd_st (\<lambda>s. s\<lparr>es_tick_to_order :=
             hist_record (t - x_frame_tsc_in x) (es_tick_to_order s)\<rparr>) x) h
      else h)"

definition submit_check :: "'r host \<Rightarrow> side \<Rightarrow> int \<Rightarrow> int \<Rightarrow> tif \<Rightarrow> ord_type \<Rightarrow> int \<Rightarrow> order_check" where
  "submit_check h sd px qty tf ty now =
     \<lparr>oc_instrument = ctx_instrument h, oc_side = sd, oc_ord_type = ty, oc_tif = tf, oc_px = px, oc_qty = qty,
      oc_mid2 = mid2 (x_view (h_x h)), oc_now_ns = now\<rparr>"

definition submit_row :: "order_id \<Rightarrow> u64 \<Rightarrow> order_check \<Rightarrow> order_row" where
  "submit_row oid tsc c = row_new\<lparr>row_id := oid, row_tsc_decision := tsc, row_t_submit_ns := oc_now_ns c,
     row_px := (if oc_px c > 0 then oc_px c else cdiv (oc_mid2 c) 2), row_qty := oc_qty c, row_leaves := oc_qty c,
     row_instrument := oc_instrument c, row_side := oc_side c, row_tif := oc_tif c, row_ord_type := oc_ord_type c,
     row_status := St_Pending_New\<rparr>"

definition submit_request :: "order_row \<Rightarrow> int \<Rightarrow> order_request" where
  "submit_request row px =
     \<lparr>rq_cl_ord_id = row_id row, rq_orig_cl_ord_id = 0, rq_tsc_decision = row_tsc_decision row, rq_strategy_tag = 0,
      rq_price = px, rq_qty = row_qty row, rq_instrument = row_instrument row, rq_type = Req_New,
      rq_side = row_side row, rq_ord_type = row_ord_type row, rq_tif = row_tif row, rq_flags = 0\<rparr>"

text \<open>From the order that passed the checks to the request.\<close>

definition submit_order :: "machine \<Rightarrow> (order_request \<Rightarrow> 'r \<Rightarrow> bool \<times> 'r) \<Rightarrow> order_check \<Rightarrow> 'r host
    \<Rightarrow> (order_id \<times> 'r host) option" where
  "submit_order M rsubmit c h =
     (let x = h_x h; (oid, t) = next_id (x_orders x); (tsc, h) = read_tsc M h; row = submit_row oid tsc c
      in case ot_insert t row of
           None \<Rightarrow> None
         | Some (_, t) \<Rightarrow>
             (case rsubmit (submit_request row (oc_px c)) (h_router h) of
                (False, q) \<Rightarrow> map_option (\<lambda>t. (INVALID_ORDER,
                  h\<lparr>h_x := count_reject Rej_Ring_Full (x\<lparr>x_orders := t\<rparr>), h_router := q\<rparr>)) (ot_erase t oid)
              | (True, q) \<Rightarrow>
                  let x = x\<lparr>x_orders := t,
                        x_account := reserve (oc_instrument c) (oc_side c) (row_px row) (oc_qty c) (x_account x),
                        x_rate := rate_charge (mc_rnd M) (oc_instrument c) Op_Add 0 (oc_now_ns c) (x_rate x)\<rparr>;
                      x = upd_st (\<lambda>s. s\<lparr>es_orders_new := es_orders_new s + 1\<rparr>) x
                  in Some (oid, record_tick_to_order M (h\<lparr>h_x := x, h_router := q\<rparr>))))"

definition submit_verdict :: "machine \<Rightarrow> order_check \<Rightarrow> exec_context \<Rightarrow> reject_reason" where
  "submit_verdict M c x =
     (let r = check_new (mc_rnd M) (x_risk x) c (it_rows (x_instruments x) (ucast (oc_instrument c))) (x_account x)
            (x_orders x) (x_rate x) (x_control_flags x)
      in if r = Rej_None \<and> ot_full (x_orders x) then Rej_Table_Full else r)"

definition ctx_submit :: "machine \<Rightarrow> (order_request \<Rightarrow> 'r \<Rightarrow> bool \<times> 'r) \<Rightarrow> side \<Rightarrow> int \<Rightarrow> int \<Rightarrow> tif \<Rightarrow> ord_type
    \<Rightarrow> 'r host \<Rightarrow> (order_id \<times> 'r host) option" where
  "ctx_submit M rsubmit sd px qty tf ty h =
     (let (now, h) = host_now M h; c = submit_check h sd px qty tf ty now; r = submit_verdict M c (h_x h)
      in if r \<noteq> Rej_None then Some (INVALID_ORDER, upd_x (count_reject r) h)
         else submit_order M rsubmit c h)"

text \<open>The requests on a live order, from its row.\<close>

definition row_request :: "order_id \<Rightarrow> order_row \<Rightarrow> req_type \<Rightarrow> u64 \<Rightarrow> int \<Rightarrow> int \<Rightarrow> order_request" where
  "row_request oid row ty tsc px qty =
     \<lparr>rq_cl_ord_id = oid, rq_orig_cl_ord_id = oid, rq_tsc_decision = tsc,
      rq_strategy_tag = row_strategy_tag row, rq_price = px, rq_qty = qty, rq_instrument = row_instrument row,
      rq_type = ty, rq_side = row_side row, rq_ord_type = row_ord_type row, rq_tif = row_tif row, rq_flags = 0\<rparr>"

definition replace_verdict :: "machine \<Rightarrow> order_row \<Rightarrow> int \<Rightarrow> int \<Rightarrow> int \<Rightarrow> exec_context \<Rightarrow> reject_reason" where
  "replace_verdict M row px qty now x =
     check_replace (mc_rnd M) (x_risk x) row px qty (mid2 (x_view x)) now
       (it_rows (x_instruments x) (ucast (row_instrument row))) (x_account x) (x_orders x) (x_rate x) (x_control_flags x)"

definition ctx_replace :: "machine \<Rightarrow> (order_request \<Rightarrow> 'r \<Rightarrow> bool \<times> 'r) \<Rightarrow> order_id \<Rightarrow> int \<Rightarrow> int
    \<Rightarrow> 'r host \<Rightarrow> (bool \<times> 'r host) option" where
  "ctx_replace M rsubmit oid px qty h =
     (case ot_find (x_orders (h_x h)) oid of
        None \<Rightarrow> None
      | Some None \<Rightarrow> Some (False, upd_x (count_reject Rej_Unknown_Order) h)
      | Some (Some p) \<Rightarrow>
          let row = ot_rows (x_orders (h_x h)) p
          in if row_pending row \<noteq> 0 then Some (False, upd_x (count_reject Rej_Unknown_Order) h)
             else let (now, h) = host_now M h; r = replace_verdict M row px qty now (h_x h)
               in if r \<noteq> Rej_None then Some (False, upd_x (count_reject r) h)
                  else let (tsc, h) = read_tsc M h
                    in case rsubmit (row_request oid row Req_Replace tsc px qty) (h_router h) of
                         (False, q) \<Rightarrow> Some (False, upd_x (count_reject Rej_Ring_Full) (h\<lparr>h_router := q\<rparr>))
                       | (True, q) \<Rightarrow>
                           let x = h_x h;
                               x = x\<lparr>x_orders := ot_write p (\<lambda>r. r\<lparr>row_pending := row_pending r OR PENDING_REPLACE,
                                 row_new_px := px, row_new_qty := qty\<rparr>) (x_orders x),
                                 x_rate := rate_charge (mc_rnd M) (row_instrument row) Op_Amend (order_age row now) now (x_rate x)\<rparr>;
                               x = upd_st (\<lambda>s. s\<lparr>es_orders_replace := es_orders_replace s + 1\<rparr>) x
                           in Some (True, record_tick_to_order M (h\<lparr>h_x := x, h_router := q\<rparr>)))"

definition ctx_cancel :: "machine \<Rightarrow> (order_request \<Rightarrow> 'r \<Rightarrow> bool \<times> 'r) \<Rightarrow> order_id
    \<Rightarrow> 'r host \<Rightarrow> (bool \<times> 'r host) option" where
  "ctx_cancel M rsubmit oid h =
     (case ot_find (x_orders (h_x h)) oid of
        None \<Rightarrow> None
      | Some None \<Rightarrow> Some (False, h)
      | Some (Some p) \<Rightarrow>
          let row = ot_rows (x_orders (h_x h)) p
          in if row_pending row AND PENDING_CANCEL \<noteq> 0 then Some (True, h)
             else let (now, h) = host_now M h; (tsc, h) = read_tsc M h
               in case rsubmit (row_request oid row Req_Cancel tsc (row_px row) (row_leaves row)) (h_router h) of
                    (False, q) \<Rightarrow> Some (False, upd_x (count_reject Rej_Ring_Full) (h\<lparr>h_router := q\<rparr>))
                  | (True, q) \<Rightarrow>
                      let x = h_x h;
                          x = x\<lparr>x_orders := ot_write p (\<lambda>r. r\<lparr>row_pending := row_pending r OR PENDING_CANCEL\<rparr>) (x_orders x),
                            x_rate := rate_charge (mc_rnd M) (row_instrument row) Op_Cancel (order_age row now) now (x_rate x)\<rparr>
                      in Some (True, h\<lparr>h_x := upd_st (\<lambda>s. s\<lparr>es_orders_cancel := es_orders_cancel s + 1\<rparr>) x, h_router := q\<rparr>))"

text \<open>\<open>cancel_all\<close>, from row \<open>i\<close> on.\<close>

partial_function (option) cancel_from :: "machine \<Rightarrow> (order_request \<Rightarrow> 'r \<Rightarrow> bool \<times> 'r) \<Rightarrow> u32
    \<Rightarrow> 'r host \<Rightarrow> 'r host option" where
  "cancel_from M rsubmit i h =
     (if i < ot_n (x_orders (h_x h)) then
        (case ctx_cancel M rsubmit (row_id (ot_rows (x_orders (h_x h)) i)) h of
           None \<Rightarrow> None
         | Some (_, h) \<Rightarrow> cancel_from M rsubmit (i + 1) h)
      else Some h)"

definition ctx_cancel_all :: "machine \<Rightarrow> (order_request \<Rightarrow> 'r \<Rightarrow> bool \<times> 'r) \<Rightarrow> 'r host \<Rightarrow> 'r host option" where
  "ctx_cancel_all M rsubmit h = cancel_from M rsubmit 0 h"

end
