(* ===== verification/Strategy_Facts.thy ===== *)
theory Strategy_Facts
  imports Strategy_Context
begin

text \<open>
  What the calls of a strategy do, for every router that keeps the contract \<open>order_router\<close>: each
  returns and keeps \<open>host_ok\<close>.  A refused call leaves orders, account, rate counters and router as
  they were; an accepted one has passed its checks and sends one request.
\<close>

section \<open>Fresh ids\<close>

text \<open>The low 40 bits of every live id are a value the counter has had.\<close>

definition ids_ok :: "order_table \<Rightarrow> bool" where
  "ids_ok t \<longleftrightarrow> (\<forall>k r. ot_abs t k = Some r \<longrightarrow> k AND mask 40 \<noteq> 0 \<and> k AND mask 40 \<le> ot_counter t)"

lemma ot_abs_counter [simp]: "ot_abs (t\<lparr>ot_counter := c\<rparr>) = ot_abs t"
  by (simp add: ot_abs_def fun_eq_iff)

lemma ot_inv_counter [simp]: "ot_inv (t\<lparr>ot_counter := c\<rparr>) = ot_inv t"
  by (simp add: ot_inv_def dense_def counts_ok_def)

definition ids_left :: "order_table \<Rightarrow> nat \<Rightarrow> bool" where
  "ids_left t n \<longleftrightarrow> unat (ot_counter t) + n < 2 ^ 40"

lemma next_id_fresh:
  assumes "ids_ok t" "ids_left t 1" "next_id t = (oid, u)"
  shows "oid \<noteq> 0" and "ot_abs t oid = None" and "u = t\<lparr>ot_counter := ot_counter t + 1\<rparr>"
    and "oid AND mask 40 = ot_counter t + 1" and "unat (ot_counter u) = unat (ot_counter t) + 1"
proof -
  let ?c = "ot_counter t + 1"
  have lt: "unat (ot_counter t) + 1 < 2 ^ 40" using assms(2) by (simp add: ids_left_def)
  then have c: "unat ?c = unat (ot_counter t) + 1" by (intro unat_succ_u64) simp
  have m: "?c AND mask 40 = ?c"
    using lt by (simp add: word_unat_eq_iff unat_and_mask c)
  have mk: "(1099511627775 :: u64) = mask 40" by (simp add: mask_eq_exp_minus_1)
  have hi: "push_bit 40 (ot_gen t) AND mask 40 = 0"
    by (rule bit_word_eqI) (auto simp: bit_simps)
  have oid: "oid = push_bit 40 (ot_gen t) OR (?c AND mask 40)" and u: "u = t\<lparr>ot_counter := ?c\<rparr>"
    using assms(3) by (auto simp: next_id_def Let_def mk)
  show "u = t\<lparr>ot_counter := ?c\<rparr>" by (rule u)
  show low: "oid AND mask 40 = ?c"
    unfolding oid bit.conj_disj_distrib2 hi by (simp add: m and.assoc)
  have "?c \<noteq> 0" using c by (metis Suc_eq_plus1 nat.distinct(1) unat_0)
  then show "oid \<noteq> 0" using low by auto
  show "ot_abs t oid = None"
  proof (rule ccontr)
    assume "ot_abs t oid \<noteq> None"
    then have "?c \<le> ot_counter t" using assms(1) low by (auto simp: ids_ok_def)
    then show False using c by (simp add: word_le_nat_alt)
  qed
  show "unat (ot_counter u) = unat (ot_counter t) + 1" by (simp add: u c)
qed

text \<open>The generation is the top 24 bits of every id, and the next generation differs.\<close>

lemma next_id_generation:
  assumes "ot_gen t = g AND 0xFFFFFF"
  shows "drop_bit 40 (fst (next_id t)) = g AND 0xFFFFFF"
proof -
  have m: "(0xFFFFFF :: u64) = mask 24" "(1099511627775 :: u64) = mask 40" by (simp_all add: mask_eq_exp_minus_1)
  show ?thesis
    unfolding next_id_def Let_def assms m fst_conv
    by (rule bit_word_eqI) (auto simp: bit_simps m)
qed

lemma generation_advances: "(g :: u64) AND 0xFFFFFF \<noteq> (g + 1) AND 0xFFFFFF"
proof
  assume "g AND 0xFFFFFF = (g + 1) AND 0xFFFFFF"
  then have "odd (g AND 0xFFFFFF) = odd ((g + 1) AND 0xFFFFFF)" by simp
  then show False by (simp add: even_and_iff)
qed

lemma ids_ok_mono:
  assumes "ids_ok t" "dom (ot_abs u) \<subseteq> dom (ot_abs t)" "ot_counter t \<le> ot_counter u"
  shows "ids_ok u"
  using assms unfolding ids_ok_def by (meson domIff dual_order.trans option.exhaust subset_iff domI domD)

section \<open>Hosts\<close>

definition host_ok :: "('r \<Rightarrow> bool) \<Rightarrow> 'r host \<Rightarrow> bool" where
  "host_ok rinv h \<longleftrightarrow> exec_inv (h_x h) \<and> ids_ok (x_orders (h_x h)) \<and> rinv (h_router h)"

text \<open>What no call of a strategy changes.\<close>

definition same_env :: "exec_context \<Rightarrow> exec_context \<Rightarrow> bool" where
  "same_env x y \<longleftrightarrow> x_instruments y = x_instruments x \<and> x_view y = x_view x \<and> x_risk y = x_risk x
     \<and> x_event_clock y = x_event_clock x \<and> x_event_ns y = x_event_ns x \<and> x_control_flags y = x_control_flags x
     \<and> x_tsc_per_ns y = x_tsc_per_ns x \<and> x_in_tick y = x_in_tick x
     \<and> static_part (x_account y) = static_part (x_account x)"

lemma same_env_refl [simp]: "same_env x x"
  by (simp add: same_env_def)

lemma same_env_trans: "same_env x y \<Longrightarrow> same_env y z \<Longrightarrow> same_env x z"
  by (simp add: same_env_def)

lemma same_market_env: "same_market x y \<Longrightarrow> same_env x y"
  by (simp add: same_market_def same_env_def)

lemma same_env_st [simp]: "same_env x (upd_st f y) = same_env x y" "same_env x (count_reject r y) = same_env x y"
  by (simp_all add: same_env_def count_reject_def Let_def upd_st_def)

text \<open>What a refused call changes: counters of the statistics, and the counter behind the ids.\<close>

definition untouched :: "'r host \<Rightarrow> 'r host \<Rightarrow> bool" where
  "untouched h h' \<longleftrightarrow> live (h_x h') = live (h_x h) \<and> x_account (h_x h') = x_account (h_x h)
     \<and> x_rate (h_x h') = x_rate (h_x h) \<and> h_router h' = h_router h \<and> same_env (h_x h) (h_x h')
     \<and> h_pops h' = h_pops h"

lemma read_tsc_fields [simp]:
  "h_x (snd (read_tsc M h)) = h_x h" "h_router (snd (read_tsc M h)) = h_router h"
  "h_pops (snd (read_tsc M h)) = h_pops h"
  by (simp_all add: read_tsc_def)

lemma upd_x_fields [simp]:
  "h_x (upd_x f h) = f (h_x h)" "h_router (upd_x f h) = h_router h" "h_pops (upd_x f h) = h_pops h"
  by (simp_all add: upd_x_def)

lemma tick_to_order_fields [simp]:
  "h_router (record_tick_to_order M h) = h_router h" "h_pops (record_tick_to_order M h) = h_pops h"
  "x_orders (h_x (record_tick_to_order M h)) = x_orders (h_x h)"
  "x_account (h_x (record_tick_to_order M h)) = x_account (h_x h)"
  "x_rate (h_x (record_tick_to_order M h)) = x_rate (h_x h)"
  "live (h_x (record_tick_to_order M h)) = live (h_x h)"
  "exec_inv (h_x (record_tick_to_order M h)) = exec_inv (h_x h)"
  "same_env x (h_x (record_tick_to_order M h)) = same_env x (h_x h)"
  by (simp_all add: record_tick_to_order_def Let_def split_beta)

text \<open>The reading of the clock in a call that starts in \<open>h\<close>.\<close>

definition call_now :: "machine \<Rightarrow> 'r host \<Rightarrow> int" where
  "call_now M h = now_ns (mc_rnd M) (mc_tsc M (h_reads h)) (h_x h)"

lemma host_now_eq: "host_now M h = (call_now M h, h\<lparr>h_reads := h_reads h + 1\<rparr>)"
  by (simp add: host_now_def read_tsc_def call_now_def)

section \<open>submit\<close>

text \<open>The check of a call, which does not depend on the readings the call has made.\<close>

abbreviation call_check :: "machine \<Rightarrow> side \<Rightarrow> int \<Rightarrow> int \<Rightarrow> tif \<Rightarrow> ord_type \<Rightarrow> 'r host \<Rightarrow> order_check" where
  "call_check M sd px qty tf ty h \<equiv> submit_check h sd px qty tf ty (call_now M h)"

lemma submit_check_reads [simp]: "submit_check (h\<lparr>h_reads := n\<rparr>) = submit_check h"
  by (simp add: fun_eq_iff submit_check_def ctx_instrument_def)

text \<open>\<open>sent\<close>: the outcome of an accepted call on the orders, for the request it sends.\<close>

definition sent_new :: "machine \<Rightarrow> order_check \<Rightarrow> order_row \<Rightarrow> exec_context \<Rightarrow> exec_context \<Rightarrow> bool" where
  "sent_new M c row x y \<longleftrightarrow> passes_new (mc_rnd M) (x_risk x) c (it_rows (x_instruments x) (ucast (oc_instrument c)))
       (x_account x) (x_orders x) (x_rate x) (x_control_flags x)
     \<and> ot_n (x_orders x) < MAX_ROWS \<and> live x (row_id row) = None \<and> live y = (live x)(row_id row \<mapsto> row)
     \<and> x_account y = reserve (oc_instrument c) (oc_side c) (row_px row) (oc_qty c) (x_account x)
     \<and> x_rate y = rate_charge (mc_rnd M) (oc_instrument c) Op_Add 0 (oc_now_ns c) (x_rate x)
     \<and> same_env x y"

section \<open>Writes of the pending bits\<close>

text \<open>A request on a live order writes its row, charges the rate counter and goes to the router.\<close>

definition sent_on :: "machine \<Rightarrow> order_id \<Rightarrow> (order_row \<Rightarrow> order_row) \<Rightarrow> rate_op \<Rightarrow> int \<Rightarrow> exec_context \<Rightarrow> exec_context \<Rightarrow> bool" where
  "sent_on M oid f op now x y \<longleftrightarrow> (\<exists>row. live x oid = Some row \<and> live y = (live x)(oid \<mapsto> f row)
     \<and> x_rate y = rate_charge (mc_rnd M) (row_instrument row) op (order_age row now) now (x_rate x))
     \<and> x_account y = x_account x \<and> same_env x y \<and> ot_counter (x_orders y) = ot_counter (x_orders x)
     \<and> ot_n (x_orders y) = ot_n (x_orders x) \<and> (\<forall>p. row_id (ot_rows (x_orders y) p) = row_id (ot_rows (x_orders x) p))"

lemma write_row_host:
  assumes ok: "exec_inv x" "ids_ok (x_orders x)" and p: "row_at (x_orders x) oid p"
    and f: "keeps_key f" "\<And>r. row_px (f r) = row_px r"
    and y: "x_orders y = ot_write p f (x_orders x)" "x_account y = x_account x" "same_env x y"
      "x_rate y = rate_charge (mc_rnd M) (row_instrument (ot_rows (x_orders x) p)) op
        (order_age (ot_rows (x_orders x) p) now) now (x_rate x)"
  shows "exec_inv y" and "ids_ok (x_orders y)" and "sent_on M oid f op now x y"
proof -
  let ?z = "x\<lparr>x_orders := ot_write p f (x_orders x)\<rparr>"
  note w = write_row_sound [OF ok(1) p f] and l = row_at_live [OF ok(1) p]
  have lv: "live y = live ?z" by (simp add: live_def y(1))
  show "exec_inv y" using w(1) y(2) lv by (simp add: exec_inv_def live_def y(1))
  have "dom (ot_abs (x_orders y)) = dom (ot_abs (x_orders x))"
    using w(2) l unfolding lv [symmetric] by (auto simp: live_def)
  then show "ids_ok (x_orders y)" by (intro ids_ok_mono [OF ok(2)]) (simp_all add: y(1))
  have "row_id (ot_rows (x_orders y) q) = row_id (ot_rows (x_orders x) q)" for q
    using f(1) by (simp add: y(1) ot_write_def keeps_key_def)
  then show "sent_on M oid f op now x y"
    using lv w(2) l y by (auto simp: sent_on_def)
qed

definition mark_replace :: "int \<Rightarrow> int \<Rightarrow> order_row \<Rightarrow> order_row" where
  "mark_replace px qty r = r\<lparr>row_pending := row_pending r OR PENDING_REPLACE, row_new_px := px, row_new_qty := qty\<rparr>"

definition mark_cancel :: "order_row \<Rightarrow> order_row" where
  "mark_cancel r = r\<lparr>row_pending := row_pending r OR PENDING_CANCEL\<rparr>"

lemma marks_keep [simp]:
  "keeps_key (mark_replace px qty)" "keeps_key mark_cancel"
  "row_px (mark_replace px qty r) = row_px r" "row_px (mark_cancel r) = row_px r"
  by (auto simp: mark_replace_def mark_cancel_def)

lemma sent_on_tick [simp]:
  "sent_on M oid f op now x (h_x (record_tick_to_order N h)) = sent_on M oid f op now x (h_x h)"
  by (simp add: sent_on_def)

lemma sent_on_st [simp]: "sent_on M oid f op now x (upd_st g y) = sent_on M oid f op now x y"
  by (simp add: sent_on_def)

text \<open>A call refused before it reached the orders leaves the table itself alone.\<close>

definition same_table :: "'r host \<Rightarrow> 'r host \<Rightarrow> bool" where
  "same_table h h' \<longleftrightarrow> untouched h h' \<and> x_orders (h_x h') = x_orders (h_x h)"

context order_router
begin

lemma submit_order_cases:
  assumes ok: "host_ok rinv h" and left: "ids_left (x_orders (h_x h)) 1"
    and pass: "submit_verdict M c (h_x h) = Rej_None"
  obtains (refused) h' where "submit_order M rsubmit c h = Some (INVALID_ORDER, h')" "host_ok rinv h'" "untouched h h'"
      "x_last_reject (h_x h') = Rej_Ring_Full" "unat (ot_counter (x_orders (h_x h'))) = unat (ot_counter (x_orders (h_x h))) + 1"
      "\<exists>row. rsubmit (submit_request row (oc_px c)) (h_router h) = (False, h_router h)"
    | (accepted) oid tsc h' where "submit_order M rsubmit c h = Some (oid, h')" "host_ok rinv h'" "oid \<noteq> INVALID_ORDER"
      "sent_new M c (submit_row oid tsc c) (h_x h) (h_x h')"
      "pending (h_router h') = pending (h_router h) @ answers (submit_request (submit_row oid tsc c) (oc_px c))"
      "unat (ot_counter (x_orders (h_x h'))) = unat (ot_counter (x_orders (h_x h))) + 1" "h_pops h' = h_pops h"
proof -
  let ?x = "h_x h" and ?tsc = "mc_tsc M (h_reads h)"
  have inv: "exec_inv ?x" and ids: "ids_ok (x_orders ?x)" and r: "rinv (h_router h)"
    using ok by (simp_all add: host_ok_def)
  note iv = exec_invD [OF inv]
  have check: "check_new (mc_rnd M) (x_risk ?x) c (it_rows (x_instruments ?x) (ucast (oc_instrument c))) (x_account ?x)
      (x_orders ?x) (x_rate ?x) (x_control_flags ?x) = Rej_None" and notfull: "\<not> ot_full (x_orders ?x)"
    using pass by (auto simp: submit_verdict_def Let_def split: if_splits)
  have room: "ot_n (x_orders ?x) < MAX_ROWS"
    using notfull iv(1) by (simp add: ot_full_def ot_inv_def order.strict_iff_order)
  have passes: "passes_new (mc_rnd M) (x_risk ?x) c (it_rows (x_instruments ?x) (ucast (oc_instrument c))) (x_account ?x)
      (x_orders ?x) (x_rate ?x) (x_control_flags ?x)" using check by (simp add: check_new_pass)
  then have tr: "trades (x_account ?x) (oc_instrument c)" by (simp add: passes_new_def Let_def)
  obtain oid t where nid: "next_id (x_orders ?x) = (oid, t)" by (cases "next_id (x_orders ?x)")
  note fresh = next_id_fresh [OF ids left nid]
  let ?row = "submit_row oid ?tsc c"
  have row: "row_id ?row = oid" "row_instrument ?row = oc_instrument c" "row_side ?row = oc_side c"
    "row_leaves ?row = oc_qty c" by (simp_all add: submit_row_def row_new_def)
  have t: "ot_inv t" "ot_abs t = live ?x" "ot_n t = ot_n (x_orders ?x)"
    using iv(1) by (simp_all add: fresh(3) live_def)
  obtain u where u: "ot_insert t ?row = Some (Some (ot_n t), u)" "ot_inv u" "ot_abs u = (live ?x)(oid \<mapsto> ?row)"
    "ot_counter u = ot_counter t"
    using ot_insert_sound [OF t(1), of ?row] room t fresh(1,2) row(1) by (auto simp: live_def)
  have new: "live ?x oid = None" using fresh(2) by (simp add: live_def)
  have cnt: "ot_counter (x_orders ?x) \<le> ot_counter t" using fresh(5) by (simp add: word_le_nat_alt)
  show thesis
  proof (cases rule: rsubmit_cases [OF r, of "submit_request ?row (oc_px c)"])
    case 2
    obtain v where v: "ot_erase u oid = Some v" "ot_inv v" "ot_abs v = (ot_abs u)(oid := None)" "ot_counter v = ot_counter u"
      using ot_erase_sound [OF u(2)] by blast
    let ?y = "?x\<lparr>x_orders := v\<rparr>" and ?h = "h\<lparr>h_reads := h_reads h + 1, h_x := count_reject Rej_Ring_Full (?x\<lparr>x_orders := v\<rparr>)\<rparr>"
    have lv: "live ?y = live ?x" using v(3) u(3) new by (auto simp: live_def)
    have run: "submit_order M rsubmit c h = Some (INVALID_ORDER, ?h)"
      using 2 by (simp add: submit_order_def nid read_tsc_def u(1) v(1))
    have "exec_inv ?y" using inv v(2) lv by (simp add: exec_inv_def live_def)
    moreover have "ids_ok v"
      by (rule ids_ok_mono [OF ids]) (use lv cnt u(4) v(4) in \<open>simp_all add: live_def\<close>)
    moreover have "same_env ?x ?y" by (simp add: same_env_def)
    ultimately show thesis
      using lv r fresh(5) u(4) v(4) 2 by (intro refused [OF run]) (auto simp: host_ok_def untouched_def)
  next
    case (1 q)
    define y where "y = ?x\<lparr>x_orders := u, x_account := reserve (oc_instrument c) (oc_side c) (row_px ?row) (oc_qty c) (x_account ?x),
      x_rate := rate_charge (mc_rnd M) (oc_instrument c) Op_Add 0 (oc_now_ns c) (x_rate ?x)\<rparr>"
    let ?h = "record_tick_to_order M (h\<lparr>h_reads := h_reads h + 1, h_x := upd_st (\<lambda>s. s\<lparr>es_orders_new := es_orders_new s + 1\<rparr>) y,
      h_router := q\<rparr>)"
    have run: "submit_order M rsubmit c h = Some (oid, ?h)"
      using 1(1) by (simp add: submit_order_def nid read_tsc_def u(1) y_def Let_def)
    note rs = reserve_sound [OF iv(2) tr]
    have lv: "live y = (live ?x)(oid \<mapsto> ?row)" by (simp add: y_def live_def u(3) [unfolded live_def])
    have ei: "exec_inv y"
      by (rule exec_inv_step [OF inv, of y oid "Some ?row"])
        (use u(2) lv rs new tr row in \<open>auto simp: y_def held_by_def holds_def\<close>)
    have "k AND mask 40 \<noteq> 0 \<and> k AND mask 40 \<le> ot_counter u" if "ot_abs u k = Some r" for k r
    proof (cases "k = oid")
      case True
      have "ot_counter u = ot_counter (x_orders ?x) + 1" using u(4) by (simp add: fresh(3))
      then show ?thesis using True fresh(4) fresh(5) u(4) by (metis Suc_eq_plus1 nat.distinct(1) order_refl unat_0)
    next
      case False
      then have "ot_abs (x_orders ?x) k = Some r" using that u(3) by (simp add: live_def)
      then show ?thesis using ids cnt u(4) by (fastforce simp: ids_ok_def)
    qed
    then have "ids_ok (x_orders y)" by (auto simp: ids_ok_def y_def)
    moreover have "sent_new M c ?row ?x y"
      using passes room new lv rs(1) row by (simp add: sent_new_def y_def same_env_def)
    moreover have sent_st: "sent_new M c ?row ?x (h_x ?h) = sent_new M c ?row ?x y"
      by (simp add: sent_new_def)
    ultimately show thesis
      using ei 1(2,3) fresh(1,5) u(4)
      by (intro accepted [OF run]) (simp_all add: host_ok_def INVALID_ORDER_def y_def)
  qed
qed

lemma submit_cases:
  assumes ok: "host_ok rinv h" and left: "ids_left (x_orders (h_x h)) 1"
  obtains (refused) h' where "ctx_submit M rsubmit sd px qty tf ty h = Some (INVALID_ORDER, h')" "host_ok rinv h'" "untouched h h'"
      "x_last_reject (h_x h') \<noteq> Rej_None"
      "unat (ot_counter (x_orders (h_x h'))) \<le> unat (ot_counter (x_orders (h_x h))) + 1"
      "submit_verdict M (call_check M sd px qty tf ty h) (h_x h) = x_last_reject (h_x h')
        \<or> submit_verdict M (call_check M sd px qty tf ty h) (h_x h) = Rej_None \<and> x_last_reject (h_x h') = Rej_Ring_Full
          \<and> (\<exists>row. rsubmit (submit_request row px) (h_router h) = (False, h_router h))"
    | (accepted) oid row h' where "ctx_submit M rsubmit sd px qty tf ty h = Some (oid, h')" "host_ok rinv h'" "oid \<noteq> INVALID_ORDER"
      "submit_verdict M (call_check M sd px qty tf ty h) (h_x h) = Rej_None"
      "row = submit_row oid (row_tsc_decision row) (call_check M sd px qty tf ty h)"
      "sent_new M (call_check M sd px qty tf ty h) row (h_x h) (h_x h')"
      "pending (h_router h') = pending (h_router h) @ answers (submit_request row px)"
      "unat (ot_counter (x_orders (h_x h'))) = unat (ot_counter (x_orders (h_x h))) + 1" "h_pops h' = h_pops h"
proof (cases "submit_verdict M (call_check M sd px qty tf ty h) (h_x h) = Rej_None")
  case False
  let ?h = "upd_x (count_reject (submit_verdict M (call_check M sd px qty tf ty h) (h_x h))) (h\<lparr>h_reads := h_reads h + 1\<rparr>)"
  have run: "ctx_submit M rsubmit sd px qty tf ty h = Some (INVALID_ORDER, ?h)"
    using False by (simp add: ctx_submit_def host_now_eq)
  show thesis using False ok by (intro refused [OF run]) (simp_all add: host_ok_def untouched_def)
next
  case True
  let ?g = "h\<lparr>h_reads := h_reads h + 1\<rparr>"
  have eq: "ctx_submit M rsubmit sd px qty tf ty h = submit_order M rsubmit (call_check M sd px qty tf ty h) ?g"
    using True by (simp add: ctx_submit_def host_now_eq)
  have g: "host_ok rinv ?g" "ids_left (x_orders (h_x ?g)) 1" "submit_verdict M (call_check M sd px qty tf ty h) (h_x ?g) = Rej_None"
    using ok left True by (simp_all add: host_ok_def)
  show thesis
  proof (cases rule: submit_order_cases [OF g])
    case (1 h')
    show thesis using 1 True by (intro refused [OF eq [unfolded 1(1)]]) (simp_all add: untouched_def submit_check_def)
  next
    case (2 oid tsc h')
    have "row_tsc_decision (submit_row oid tsc c) = tsc" for c by (simp add: submit_row_def)
    then show thesis using 2 True by (intro accepted [OF eq [unfolded 2(1)]]) (simp_all add: submit_check_def)
  qed
qed

section \<open>replace\<close>

lemma replace_cases:
  assumes ok: "host_ok rinv h"
  obtains (refused) h' where "ctx_replace M rsubmit oid px qty h = Some (False, h')" "host_ok rinv h'" "same_table h h'"
      "x_last_reject (h_x h') \<noteq> Rej_None"
    | (accepted) row tsc h' where "ctx_replace M rsubmit oid px qty h = Some (True, h')" "host_ok rinv h'"
      "live (h_x h) oid = Some row" "row_pending row = 0"
      "replace_verdict M row px qty (call_now M h) (h_x h) = Rej_None"
      "sent_on M oid (mark_replace px qty) Op_Amend (call_now M h) (h_x h) (h_x h')"
      "pending (h_router h') = pending (h_router h) @ answers (row_request oid row Req_Replace tsc px qty)"
      "h_pops h' = h_pops h"
proof -
  let ?x = "h_x h" and ?t = "x_orders (h_x h)"
  have inv: "exec_inv ?x" and ids: "ids_ok ?t" and r: "rinv (h_router h)"
    using ok by (simp_all add: host_ok_def)
  have no: thesis if "ctx_replace M rsubmit oid px qty h = Some (False, upd_x (count_reject r) g)" "r \<noteq> Rej_None"
    "h_x g = h_x h" "h_router g = h_router h" "h_pops g = h_pops h" for r g
    using that ok by (intro refused [OF that(1)]) (simp_all add: host_ok_def same_table_def untouched_def)
  from exec_invD(1) [OF inv] show thesis
  proof (cases rule: ot_find_cases [where k = oid])
    case none
    then show thesis by (intro no [of Rej_Unknown_Order h]) (simp_all add: ctx_replace_def)
  next
    case (some p)
    let ?row = "ot_rows ?t p" and ?now = "call_now M h"
    let ?v = "replace_verdict M ?row px qty ?now ?x"
    let ?req = "row_request oid ?row Req_Replace (mc_tsc M (h_reads h + 1)) px qty"
    let ?g = "h\<lparr>h_reads := h_reads h + 2\<rparr>"
    consider (busy) "row_pending ?row \<noteq> 0" | (bad) "row_pending ?row = 0" "?v \<noteq> Rej_None"
      | (full) "row_pending ?row = 0" "?v = Rej_None" "rsubmit ?req (h_router h) = (False, h_router h)"
      | (sent) q where "row_pending ?row = 0" "?v = Rej_None" "rsubmit ?req (h_router h) = (True, q)" "rinv q"
        "pending q = pending (h_router h) @ answers ?req"
      by (metis rsubmit_cases [OF r])
    then show thesis
    proof cases
      case busy
      then show thesis using some by (intro no [of Rej_Unknown_Order h]) (simp_all add: ctx_replace_def)
    next
      case bad
      then show thesis using some
        by (intro no [of ?v "h\<lparr>h_reads := h_reads h + 1\<rparr>"]) (simp_all add: ctx_replace_def host_now_eq Let_def)
    next
      case full
      then show thesis using some
        by (intro no [of Rej_Ring_Full ?g]) (simp_all add: ctx_replace_def host_now_eq read_tsc_def Let_def)
    next
      case sent
      let ?y = "?x\<lparr>x_orders := ot_write p (mark_replace px qty) ?t,
        x_rate := rate_charge (mc_rnd M) (row_instrument ?row) Op_Amend (order_age ?row ?now) ?now (x_rate ?x)\<rparr>"
      let ?h = "record_tick_to_order M (h\<lparr>h_reads := h_reads h + 2,
        h_x := upd_st (\<lambda>s. s\<lparr>es_orders_replace := es_orders_replace s + 1\<rparr>) ?y, h_router := q\<rparr>)"
      have run: "ctx_replace M rsubmit oid px qty h = Some (True, ?h)"
        using sent some by (simp add: ctx_replace_def host_now_eq read_tsc_def Let_def mark_replace_def [abs_def])
      have "same_env ?x ?y" by (simp add: same_env_def)
      from write_row_host [where y = ?y and f = "mark_replace px qty" and M = M and op = Op_Amend and now = ?now, OF inv ids some(2) _ _ _ _ this]
      have w: "exec_inv ?y" "ids_ok (x_orders ?y)" "sent_on M oid (mark_replace px qty) Op_Amend ?now ?x ?y" by simp_all
      show thesis
        using sent w some(3) by (intro accepted [OF run]) (simp_all add: host_ok_def live_def)
    qed
  qed
qed

section \<open>cancel\<close>

lemma cancel_cases:
  assumes ok: "host_ok rinv h"
  obtains (unknown) "ctx_cancel M rsubmit oid h = Some (False, h)" "live (h_x h) oid = None"
    | (already) row where "ctx_cancel M rsubmit oid h = Some (True, h)" "live (h_x h) oid = Some row"
        "row_pending row AND PENDING_CANCEL \<noteq> 0"
    | (full) h' row tsc where "ctx_cancel M rsubmit oid h = Some (False, h')" "host_ok rinv h'" "same_table h h'"
      "live (h_x h) oid = Some row"
      "rsubmit (row_request oid row Req_Cancel tsc (row_px row) (row_leaves row)) (h_router h) = (False, h_router h)"
    | (accepted) row tsc h' where "ctx_cancel M rsubmit oid h = Some (True, h')" "host_ok rinv h'"
      "live (h_x h) oid = Some row" "row_pending row AND PENDING_CANCEL = 0"
      "sent_on M oid mark_cancel Op_Cancel (call_now M h) (h_x h) (h_x h')"
      "pending (h_router h') = pending (h_router h)
        @ answers (row_request oid row Req_Cancel tsc (row_px row) (row_leaves row))"
      "h_pops h' = h_pops h"
proof -
  let ?x = "h_x h" and ?t = "x_orders (h_x h)"
  have inv: "exec_inv ?x" and ids: "ids_ok ?t" and r: "rinv (h_router h)"
    using ok by (simp_all add: host_ok_def)
  from exec_invD(1) [OF inv] show thesis
  proof (cases rule: ot_find_cases [where k = oid])
    case none
    then show thesis by (intro unknown) (simp_all add: ctx_cancel_def live_def)
  next
    case (some p)
    let ?row = "ot_rows ?t p" and ?now = "call_now M h"
    let ?req = "row_request oid ?row Req_Cancel (mc_tsc M (h_reads h + 1)) (row_px ?row) (row_leaves ?row)"
    have l: "live ?x oid = Some ?row" using some(3) by (simp add: live_def)
    consider (busy) "row_pending ?row AND PENDING_CANCEL \<noteq> 0"
      | (full') "row_pending ?row AND PENDING_CANCEL = 0" "rsubmit ?req (h_router h) = (False, h_router h)"
      | (sent) q where "row_pending ?row AND PENDING_CANCEL = 0" "rsubmit ?req (h_router h) = (True, q)" "rinv q"
        "pending q = pending (h_router h) @ answers ?req"
      by (metis rsubmit_cases [OF r])
    then show thesis
    proof cases
      case busy
      then show thesis using some l by (intro already) (simp_all add: ctx_cancel_def)
    next
      case full'
      let ?h = "upd_x (count_reject Rej_Ring_Full) (h\<lparr>h_reads := h_reads h + 2\<rparr>)"
      have run: "ctx_cancel M rsubmit oid h = Some (False, ?h)"
        using full' some by (simp add: ctx_cancel_def host_now_eq read_tsc_def Let_def)
      show thesis using ok l full'
        by (intro full [OF run]) (simp_all add: host_ok_def same_table_def untouched_def)
    next
      case sent
      let ?y = "?x\<lparr>x_orders := ot_write p mark_cancel ?t,
        x_rate := rate_charge (mc_rnd M) (row_instrument ?row) Op_Cancel (order_age ?row ?now) ?now (x_rate ?x)\<rparr>"
      let ?h = "h\<lparr>h_reads := h_reads h + 2,
        h_x := upd_st (\<lambda>s. s\<lparr>es_orders_cancel := es_orders_cancel s + 1\<rparr>) ?y, h_router := q\<rparr>"
      have run: "ctx_cancel M rsubmit oid h = Some (True, ?h)"
        using sent some by (simp add: ctx_cancel_def host_now_eq read_tsc_def Let_def mark_cancel_def [abs_def])
      have "same_env ?x ?y" by (simp add: same_env_def)
      from write_row_host [where y = ?y and f = mark_cancel and M = M and op = Op_Cancel and now = ?now, OF inv ids some(2) _ _ _ _ this]
      have w: "exec_inv ?y" "ids_ok (x_orders ?y)" "sent_on M oid mark_cancel Op_Cancel ?now ?x ?y" by simp_all
      show thesis using sent w l by (intro accepted [OF run]) (simp_all add: host_ok_def)
    qed
  qed
qed

end

end
