(* ===== verification/Null_Host.thy ===== *)
theory Null_Host
  imports Strategy_Facts
begin

text \<open>
  A strategy on the \<open>NullRouter\<close>: the invariant \<open>null_ready\<close> of the exec process in ITCH mode,
  kept by every call.  Beyond \<open>host_ok\<close> it says that the queue holds no fill and that the
  cancellation of every order marked as being cancelled is in the queue.  \<open>n\<close> bounds the orders
  still to be submitted, so that ids stay fresh.
\<close>

section \<open>The invariant\<close>

definition cancel_covered :: "exec_context \<Rightarrow> exec_report list \<Rightarrow> bool" where
  "cancel_covered x reps \<longleftrightarrow> (\<forall>k r. live x k = Some r \<longrightarrow> row_pending r AND PENDING_CANCEL \<noteq> 0
     \<longrightarrow> (\<exists>rep\<in>set reps. rp_cl_ord_id rep = k \<and> rp_exec_type rep = Ex_Canceled))"

definition null_ready :: "nat \<Rightarrow> null_router host \<Rightarrow> bool" where
  "null_ready n h \<longleftrightarrow> host_ok null_inv h \<and> (\<forall>rep\<in>set (null_pending (h_router h)). null_kind rep)
     \<and> cancel_covered (h_x h) (null_pending (h_router h)) \<and> ids_left (x_orders (h_x h)) n"

text \<open>What a call does not do: trade, or read the feed.\<close>

definition calm_step :: "'r host \<Rightarrow> 'r host \<Rightarrow> bool" where
  "calm_step h h' \<longleftrightarrow> calm (x_account (h_x h)) (x_account (h_x h')) \<and> h_pops h' = h_pops h"

lemma calm_step_refl [simp]: "calm_step h h"
  by (simp add: calm_step_def)

lemma calm_step_trans: "calm_step h h' \<Longrightarrow> calm_step h' h'' \<Longrightarrow> calm_step h h''"
  unfolding calm_step_def using calm_trans by metis

lemma null_readyD:
  assumes "null_ready n h"
  shows "host_ok null_inv h" and "rep \<in> set (null_pending (h_router h)) \<Longrightarrow> null_kind rep"
    and "cancel_covered (h_x h) (null_pending (h_router h))" and "ids_left (x_orders (h_x h)) n"
  using assms by (auto simp: null_ready_def)

lemma null_ready_mono: "null_ready n h \<Longrightarrow> m \<le> n \<Longrightarrow> null_ready m h"
  by (simp add: null_ready_def ids_left_def)

lemma ids_left_le:
  "ids_left t (n + k) \<Longrightarrow> unat (ot_counter u) \<le> unat (ot_counter t) + k \<Longrightarrow> ids_left u n"
  by (simp add: ids_left_def)

lemma untouched_ready:
  assumes "null_ready (n + k) h" "untouched h h'" "host_ok null_inv h'"
    and "unat (ot_counter (x_orders (h_x h'))) \<le> unat (ot_counter (x_orders (h_x h))) + k"
  shows "null_ready n h'" and "calm_step h h'"
  using assms ids_left_le [OF null_readyD(4) [OF assms(1)] assms(4)]
  by (auto simp: null_ready_def untouched_def cancel_covered_def calm_step_def)

lemma cancel_covered_upd:
  assumes "cancel_covered x reps" "live y = (live x)(k \<mapsto> r)"
    and "row_pending r AND PENDING_CANCEL \<noteq> 0 \<Longrightarrow>
      (\<exists>r'. live x k = Some r' \<and> row_pending r' AND PENDING_CANCEL \<noteq> 0)
        \<or> (\<exists>rep\<in>set new. rp_cl_ord_id rep = k \<and> rp_exec_type rep = Ex_Canceled)"
  shows "cancel_covered y (reps @ new)"
  using assms unfolding cancel_covered_def by (auto split: if_splits)

section \<open>The calls\<close>

lemma null_submit_ready:
  assumes "null_ready (n + 1) h"
  shows "\<exists>oid h'. ctx_submit M null_submit sd px qty tf ty h = Some (oid, h') \<and> null_ready n h' \<and> calm_step h h'"
proof -
  note r = null_readyD [OF assms]
  have "ids_left (x_orders (h_x h)) 1" using r(4) by (simp add: ids_left_def)
  from r(1) this show ?thesis
  proof (cases rule: null.submit_cases [where M = M and sd = sd and px = px and qty = qty and tf = tf and ty = ty])
    case (refused h')
    then show ?thesis using untouched_ready [OF assms refused(3,2,5)] by auto
  next
    case (accepted oid row h')
    let ?c = "call_check M sd px qty tf ty h"
    have lv: "live (h_x h') = (live (h_x h))(row_id row \<mapsto> row)"
      and acct: "x_account (h_x h') = reserve (oc_instrument ?c) sd (row_px row) qty (x_account (h_x h))"
      and tr: "trades (x_account (h_x h)) (oc_instrument ?c)"
      using accepted(6) by (simp_all add: sent_new_def passes_new_def Let_def submit_check_def)
    have "row_pending row = 0" by (subst accepted(5)) (simp add: submit_row_def row_new_def)
    then have "cancel_covered (h_x h') (null_pending (h_router h'))"
      unfolding accepted(7) by (intro cancel_covered_upd [OF r(3) lv]) simp
    moreover have "null_kind rep" if "rep \<in> set (null_pending (h_router h'))" for rep
      using that r(2) null_answers_kind by (auto simp: accepted(7))
    moreover have "ids_left (x_orders (h_x h')) n" by (rule ids_left_le [OF r(4)]) (simp add: accepted(8))
    moreover have "calm_step h h'"
      using reserve_sound [OF exec_invD(2) [where d = "\<lambda>_. 0"] tr] r(1) acct accepted(9) by (simp add: calm_step_def calm_def host_ok_def)
    ultimately show ?thesis using accepted(1,2) by (auto simp: null_ready_def)
  qed
qed

lemma disjoint_bits:
  fixes p :: "'a::len word"
  assumes "r AND c = 0"
  shows "(p OR r) AND c = p AND c" and "(p AND NOT r) AND c = p AND c" and "(p AND NOT (c OR r)) AND c = 0"
proof -
  have d: "\<not> (bit r n \<and> bit c n)" for n using assms by (metis bit_and_iff bit_0_eq bot_apply bot_bool_def)
  show "(p OR r) AND c = p AND c" "(p AND NOT r) AND c = p AND c" "(p AND NOT (c OR r)) AND c = 0"
    by (rule bit_word_eqI; use d in \<open>auto simp: bit_simps\<close>)+
qed

lemma pending_disjoint: "PENDING_REPLACE AND PENDING_CANCEL = 0"
  by (simp add: PENDING_REPLACE_def PENDING_CANCEL_def)

lemmas pending_bits = disjoint_bits [OF pending_disjoint]

lemma sent_on_ready:
  assumes r: "null_ready n h" and s: "sent_on M oid f op now (h_x h) (h_x h')" and ok: "host_ok null_inv h'"
    and p: "null_pending (h_router h') = null_pending (h_router h) @ null_answers req" "h_pops h' = h_pops h"
    and f: "\<And>row. row_pending (f row) AND PENDING_CANCEL \<noteq> 0 \<Longrightarrow> row_pending row AND PENDING_CANCEL \<noteq> 0
      \<or> (\<exists>rep\<in>set (null_answers req). rp_cl_ord_id rep = oid \<and> rp_exec_type rep = Ex_Canceled)"
  shows "null_ready n h'" and "calm_step h h'"
proof -
  note rd = null_readyD [OF r]
  obtain row where row: "live (h_x h) oid = Some row" "live (h_x h') = (live (h_x h))(oid \<mapsto> f row)"
    using s by (auto simp: sent_on_def)
  have "cancel_covered (h_x h') (null_pending (h_router h'))"
    unfolding p(1) using f row(1) by (intro cancel_covered_upd [OF rd(3) row(2)]) auto
  moreover have "null_kind rep" if "rep \<in> set (null_pending (h_router h'))" for rep
    using that rd(2) null_answers_kind by (auto simp: p(1))
  ultimately show "null_ready n h'" using ok rd(4) s by (simp add: null_ready_def sent_on_def ids_left_def)
  show "calm_step h h'" using s p(2) by (simp add: calm_step_def sent_on_def)
qed

lemma null_replace_ready:
  assumes "null_ready n h"
  shows "\<exists>b h'. ctx_replace M null_submit oid px qty h = Some (b, h') \<and> null_ready n h' \<and> calm_step h h'"
  using null_readyD(1) [OF assms]
proof (cases rule: null.replace_cases [where M = M and oid = oid and px = px and qty = qty])
  case (refused h')
  then show ?thesis using untouched_ready [of n 0 h h'] assms by (auto simp: same_table_def)
next
  case (accepted row tsc h')
  have "null_ready n h' \<and> calm_step h h'"
    using sent_on_ready [OF assms accepted(6,2,7,8)] by (simp add: mark_replace_def pending_bits)
  then show ?thesis using accepted(1) by blast
qed

lemma mark_cancel_answered:
  "\<exists>rep\<in>set (null_answers (row_request oid row Req_Cancel tsc px qty)). rp_cl_ord_id rep = oid \<and> rp_exec_type rep = Ex_Canceled"
  by (simp add: null_answers_def Let_def row_request_def answer_base_def)

lemma null_cancel_cases:
  assumes r: "null_ready n h"
  obtains (queue_full) h' where "ctx_cancel M null_submit oid h = Some (False, h')" "null_ready n h'" "same_table h h'"
      "h_router h' = h_router h" "length (null_pending (h_router h)) = 1024"
    | (handled) b h' where "ctx_cancel M null_submit oid h = Some (b, h')" "null_ready n h'" "calm_step h h'"
      "ot_n (x_orders (h_x h')) = ot_n (x_orders (h_x h))"
      "\<forall>p. row_id (ot_rows (x_orders (h_x h')) p) = row_id (ot_rows (x_orders (h_x h)) p)"
      "length (null_pending (h_router h')) \<le> length (null_pending (h_router h)) + 1"
      "dom (live (h_x h')) = dom (live (h_x h))"
      "\<forall>k row. live (h_x h) k = Some row \<longrightarrow> row_pending row AND PENDING_CANCEL \<noteq> 0 \<or> k = oid \<longrightarrow>
        (\<exists>row'. live (h_x h') k = Some row' \<and> row_pending row' AND PENDING_CANCEL \<noteq> 0)"
  using null_readyD(1) [OF r]
proof (cases rule: null.cancel_cases [where M = M and oid = oid])
  case unknown
  then show thesis using r by (intro handled [OF unknown(1)]) auto
next
  case (already row)
  then show thesis using r by (intro handled [OF already(1)]) auto
next
  case (full h' row tsc)
  have inv: "null_inv (h_router h)" using null_readyD(1) [OF r] by (simp add: host_ok_def)
  let ?req = "row_request oid row Req_Cancel tsc (row_px row) (row_leaves row)"
  have need: "answers_needed ?req = 1" by (simp add: answers_needed_def row_request_def)
  have "\<not> length (null_pending (h_router h)) + 1 \<le> 1024"
    using null_submit_sound [OF inv, of ?req] full(5) by (auto simp: need)
  moreover have "length (null_pending (h_router h)) \<le> 1024" using inv by (simp add: ring_inv_def)
  moreover have "null_ready n h'" using untouched_ready [of n 0 h h'] r full by (simp add: same_table_def)
  moreover have "h_router h' = h_router h" using full(3) by (simp add: same_table_def untouched_def)
  ultimately show thesis using full by (intro queue_full [OF full(1)]) simp_all
next
  case (accepted row tsc h')
  let ?ans = "null_answers (row_request oid row Req_Cancel tsc (row_px row) (row_leaves row))"
  have ready: "null_ready n h'" "calm_step h h'"
    using sent_on_ready [OF r accepted(5,2,6,7)] mark_cancel_answered by blast+
  have lv: "live (h_x h') = (live (h_x h))(oid \<mapsto> mark_cancel row)" using accepted(5,3) by (auto simp: sent_on_def)
  have bit: "row_pending (mark_cancel row') AND PENDING_CANCEL \<noteq> 0" for row'
  proof -
    have "(w OR PENDING_CANCEL) AND PENDING_CANCEL = PENDING_CANCEL" for w
      by (rule bit_word_eqI) (auto simp: bit_simps)
    then show ?thesis by (simp add: mark_cancel_def) (simp add: PENDING_CANCEL_def)
  qed
  have "length ?ans = 1" by (simp add: null_answers_def Let_def row_request_def)
  then have len: "length (null_pending (h_router h')) = length (null_pending (h_router h)) + 1" unfolding accepted(6) by simp
  show thesis
  proof (rule handled [OF accepted(1) ready])
    show "length (null_pending (h_router h')) \<le> length (null_pending (h_router h)) + 1" using len by linarith
  qed (use accepted(3,5) lv bit in \<open>auto simp: sent_on_def\<close>)
qed

lemma null_cancel_ready:
  assumes "null_ready n h"
  shows "\<exists>b h'. ctx_cancel M null_submit oid h = Some (b, h') \<and> null_ready n h' \<and> calm_step h h'"
  using assms
proof (cases rule: null_cancel_cases [where M = M and oid = oid])
  case (queue_full h')
  then show ?thesis by (auto simp: same_table_def untouched_def calm_step_def)
qed blast

end
