(* ===== verification/Runner_Facts.thy ===== *)
theory Runner_Facts
  imports Runner
begin

text \<open>
  The hot loop keeps \<open>null_ready\<close> and returns.  The locale \<open>strategy\<close> states what a strategy owes:
  on a ready host its hooks return and leave it ready, with at most \<open>k\<close> new orders a call.
\<close>

section \<open>A report\<close>

lemma host_ok_reads [simp]: "host_ok rinv (h\<lparr>h_reads := n\<rparr>) = host_ok rinv h"
  by (simp add: host_ok_def)

lemma null_ready_fields [simp]:
  "null_ready n (h\<lparr>h_reads := r\<rparr>) = null_ready n h" "null_ready n (h\<lparr>h_pops := r\<rparr>) = null_ready n h"
  by (simp_all add: null_ready_def host_ok_def)

text \<open>The rows of \<open>h'\<close> are rows of \<open>h\<close>, and marks of cancellation stay.\<close>

definition marks_kept :: "'r host \<Rightarrow> 'r host \<Rightarrow> bool" where
  "marks_kept h h' \<longleftrightarrow> (\<forall>k r. live (h_x h') k = Some r \<longrightarrow> (\<exists>r0. live (h_x h) k = Some r0
     \<and> (row_pending r0 AND PENDING_CANCEL \<noteq> 0 \<longrightarrow> row_pending r AND PENDING_CANCEL \<noteq> 0)))"

lemma marks_kept_refl [simp]: "marks_kept h h"
  by (simp add: marks_kept_def)

lemma marks_kept_trans: "marks_kept h h' \<Longrightarrow> marks_kept h' h'' \<Longrightarrow> marks_kept h h''"
  unfolding marks_kept_def by blast

lemma null_spec_row:
  assumes "null_kind rep" "spec_row now rep r = Some r'"
  shows "row_pending r' AND PENDING_CANCEL = row_pending r AND PENDING_CANCEL" and "rp_exec_type rep \<noteq> Ex_Canceled"
  using assms by (auto simp: null_kind_def spec_row_def after_replace_def pending_bits)

lemma report_ready:
  fixes m :: nat
  assumes r: "null_ready n h" and q: "null_pending (h_router h) = rep # reps"
    and q': "null_inv q" "null_pending q = reps"
  defines "g \<equiv> h\<lparr>h_reads := m, h_router := q\<rparr>"
  shows "\<exists>h'. report_to_context M (rep\<lparr>rp_tsc_recv := t\<rparr>) g = Some h' \<and> null_ready n h' \<and> calm_step h h'
    \<and> h_router h' = q \<and> marks_kept h h'"
proof -
  let ?rep = "rep\<lparr>rp_tsc_recv := t\<rparr>" and ?x = "h_x h"
  note rd = null_readyD [OF r]
  have inv: "exec_inv ?x" and ids: "ids_ok (x_orders ?x)" using rd(1) by (simp_all add: host_ok_def)
  have kind: "null_kind rep" "null_kind ?rep" "\<not> is_fill ?rep"
    using rd(2) [of rep] q null_kind_no_fill [of rep] by (simp_all add: null_kind_def is_fill_def)
  have "report_ok ?x ?rep" using kind(3) by (simp add: report_ok_def)
  from apply_report_sound [OF inv this, of "mc_rnd M" "mc_tsc M m"] obtain y where
    y: "apply_report (mc_rnd M) (mc_tsc M m) ?rep ?x = Some y" "exec_inv y" "same_market ?x y"
      "live y = spec_report (now_ns (mc_rnd M) (mc_tsc M m) ?x) ?rep (live ?x)"
      "calm (x_account ?x) (x_account y)" using kind(3) by blast
  let ?now = "now_ns (mc_rnd M) (mc_tsc M m) ?x" and ?h = "g\<lparr>h_reads := m + 1, h_x := y\<rparr>"
  have run: "report_to_context M ?rep g = Some ?h"
    using y(1) by (simp add: report_to_context_def read_tsc_def g_def)
  have lv: "live y k = (if k = rp_cl_ord_id rep then
      (case live ?x k of None \<Rightarrow> None | Some r \<Rightarrow> spec_row ?now ?rep r) else live ?x k)" for k
    by (simp add: y(4) spec_report_def split: option.split)
  have kept: "marks_kept h ?h"
    unfolding marks_kept_def
    using null_spec_row(1) [OF kind(2)] by (auto simp: lv split: if_splits option.splits)
  have dom: "dom (ot_abs (x_orders y)) \<subseteq> dom (ot_abs (x_orders ?x))"
    using lv by (fastforce simp: live_def dom_def split: if_splits option.splits)
  have cnt: "ot_counter (x_orders y) = ot_counter (x_orders ?x)" using y(3) by (simp add: same_market_def)
  have "ids_ok (x_orders y)" by (rule ids_ok_mono [OF ids dom]) (simp add: cnt)
  moreover have "cancel_covered y reps"
    unfolding cancel_covered_def
  proof (intro allI impI)
    fix k r assume k: "live y k = Some r" "row_pending r AND PENDING_CANCEL \<noteq> 0"
    then obtain r0 where r0: "live ?x k = Some r0" "row_pending r0 AND PENDING_CANCEL \<noteq> 0"
      "k = rp_cl_ord_id rep \<longrightarrow> rp_exec_type rep \<noteq> Ex_Canceled"
      using null_spec_row [OF kind(2)] by (auto simp: lv split: if_splits option.splits)
    then obtain c where "c \<in> set (rep # reps)" "rp_cl_ord_id c = k" "rp_exec_type c = Ex_Canceled"
      using rd(3) unfolding cancel_covered_def q by blast
    then show "\<exists>rep\<in>set reps. rp_cl_ord_id rep = k \<and> rp_exec_type rep = Ex_Canceled" using r0(3) by auto
  qed
  ultimately have "null_ready n ?h"
    using y(2) rd(2,4) q q' cnt by (simp add: null_ready_def host_ok_def g_def ids_left_def)
  moreover have "calm_step h ?h" using y(5) by (simp add: calm_step_def g_def)
  ultimately show ?thesis using run kept by (auto simp: g_def)
qed

text \<open>Polling with any callback that applies the report and then keeps the host ready.\<close>

lemma null_poll_ready:
  assumes cb: "\<And>rep s h h1. report_to_context M rep h = Some h1 \<Longrightarrow> null_ready n h1 \<Longrightarrow>
      \<exists>s' h2. cb rep s h = Some (s', h2) \<and> null_ready n h2 \<and> calm_step h1 h2 \<and> h_router h2 = h_router h1 \<and> R h1 h2"
    and R: "\<And>h. R h h" "\<And>h h' h''. R h h' \<Longrightarrow> R h' h'' \<Longrightarrow> R h h''" "\<And>h h'. marks_kept h h' \<Longrightarrow> R h h'"
    and ready: "null_ready n h"
  shows "\<exists>s' h'. null_poll M cb s h = Some (s', h') \<and> null_ready n h' \<and> calm_step h h' \<and> null_pending (h_router h') = [] \<and> R h h'"
  using ready
proof (induction "null_pending (h_router h)" arbitrary: s h)
  case Nil
  have inv: "null_inv (h_router h)" using null_readyD(1) [OF Nil.prems] by (simp add: host_ok_def)
  let ?h = "h\<lparr>h_reads := h_reads h + 1\<rparr>"
  have "null_poll M cb s h = Some (s, ?h)"
    using null_pop_sound [OF inv, of "mc_tsc M (h_reads h)"] Nil.hyps
    by (subst null_poll.simps) (simp add: read_tsc_def)
  moreover have "R h ?h" by (rule R(3)) (simp add: marks_kept_def)
  moreover have "calm_step h ?h" by (simp add: calm_step_def)
  moreover have "null_ready n ?h" "null_pending (h_router ?h) = []" using Nil by simp_all
  ultimately show ?case by blast
next
  case (Cons rep reps)
  have inv: "null_inv (h_router h)" using null_readyD(1) [OF Cons.prems] by (simp add: host_ok_def)
  note q = Cons.hyps(2) [symmetric]
  let ?t = "mc_tsc M (h_reads h)"
  obtain q' where pop: "null_pop ?t (h_router h) = (Some (rep\<lparr>rp_tsc_recv := ?t\<rparr>), q')" "null_inv q'" "null_pending q' = reps"
    using null_pop_sound [OF inv, of ?t] q by auto
  let ?g = "h\<lparr>h_reads := h_reads h + 1, h_router := q'\<rparr>"
  obtain h1 where h1: "report_to_context M (rep\<lparr>rp_tsc_recv := ?t\<rparr>) ?g = Some h1" "null_ready n h1" "calm_step h h1"
    "h_router h1 = q'" "marks_kept h h1"
    using report_ready [OF Cons.prems q pop(2,3)] by blast
  obtain s' h2 where h2: "cb (rep\<lparr>rp_tsc_recv := ?t\<rparr>) s ?g = Some (s', h2)" "null_ready n h2" "calm_step h1 h2"
    "h_router h2 = h_router h1" "R h1 h2"
    using cb [OF h1(1,2)] by blast
  have "reps = null_pending (h_router h2)" using h2(4) h1(4) pop(3) by simp
  from Cons.hyps(1) [OF this h2(2), of s'] obtain s'' h' where
    h': "null_poll M cb s' h2 = Some (s'', h')" "null_ready n h'" "calm_step h2 h'" "null_pending (h_router h') = []" "R h2 h'"
    by blast
  have "null_poll M cb s h = Some (s'', h')"
    using pop(1) h2(1) h'(1) by (subst null_poll.simps) (simp add: read_tsc_def)
  moreover have "calm_step h h'" using calm_step_trans h1(3) h2(3) h'(3) by blast
  moreover have "R h h'" using R(2) R(3) [OF h1(5)] h2(5) h'(5) by blast
  ultimately show ?case using h'(2,4) by blast
qed

section \<open>The loop\<close>

locale strategy =
  fixes S :: "'s hooks" and M :: machine and k :: nat
  assumes tick: "null_ready (n + k) h \<Longrightarrow> \<exists>s' h'. on_tick S s h = Some (s', h') \<and> null_ready n h' \<and> calm_step h h'"
    and exec: "null_ready n h \<Longrightarrow> \<exists>s' h'. on_exec S rep s h = Some (s', h') \<and> null_ready n h' \<and> calm_step h h'
      \<and> h_router h' = h_router h"
    and timer: "null_ready (n + k) h \<Longrightarrow> \<exists>s' h'. on_timer S now s h = Some (s', h') \<and> null_ready n h' \<and> calm_step h h'"
begin

lemma poll_ready:
  assumes "null_ready n h"
  shows "\<exists>s' h'. poll_reports M S s h = Some (s', h') \<and> null_ready n h' \<and> calm_step h h' \<and> null_pending (h_router h') = []"
proof -
  let ?cb = "\<lambda>rep s h. case report_to_context M rep h of None \<Rightarrow> None | Some h \<Rightarrow> on_exec S rep s h"
  have "\<exists>s' h2. ?cb rep s h = Some (s', h2) \<and> null_ready n h2 \<and> calm_step h1 h2 \<and> h_router h2 = h_router h1 \<and> True"
    if "report_to_context M rep h = Some h1" "null_ready n h1" for rep s h h1
    using exec [OF that(2)] that(1) by simp
  from null_poll_ready [of M n ?cb "\<lambda>_ _. True", OF this _ _ _ assms] show ?thesis
    by (simp add: poll_reports_def)
qed

end

lemma exec_inv_calm:
  assumes "exec_inv x" "x_orders y = x_orders x" "static_part (x_account y) = static_part (x_account x)"
    and "\<And>j. reserved_at (x_account y) j = reserved_at (x_account x) j"
  shows "exec_inv y"
proof (rule exec_inv_step [OF assms(1), of y 0 "live x 0"])
  show "live y = (live x)(0 := live x 0)" by (simp add: live_def assms(2))
  show "trades (x_account x) (row_instrument r)" if "live x 0 = Some r" for r
    using exec_invD(3) [OF assms(1) that] .
qed (use assms exec_invD(1) [OF assms(1)] in simp_all)

lemma mark_calm:
  assumes "acct_inv a"
  shows "calm a (mark i bid ask a)" and "reserved_at (mark i bid ask a) j = reserved_at a j"
proof -
  have "calm a (mark i bid ask a) \<and> reserved_at (mark i bid ask a) j = reserved_at a j"
  proof (cases "ac_slot_of a i = None \<or> bid = EMPTY_BID \<or> ask = EMPTY_ASK")
    case True
    then have "mark i bid ask a = a" by (auto simp: mark_def)
    then show ?thesis by simp
  next
    case False
    then have tr: "trades a i" by (simp add: trades_def)
    let ?f = "\<lambda>p. p\<lparr>ps_mark2 := bid + ask\<rparr>"
    have m: "mark i bid ask a = track_equity (upd_pos i ?f a)" using False by (auto simp: mark_def)
    have "ps_qty (position_of (upd_pos i ?f a) j) = ps_qty (position_of a j)" if "trades a j" for j
      using position_upd_pos [OF assms tr that, of ?f] by simp
    then show ?thesis
      using assms tr by (simp add: m calm_def acct_simps)
  qed
  then show "calm a (mark i bid ask a)" and "reserved_at (mark i bid ask a) j = reserved_at a j" by simp_all
qed

lemma frame_in_ready:
  assumes "null_ready n h"
  shows "null_ready n (frame_in M u h)" and "calm_step h (frame_in M u h)"
proof -
  note rd = null_readyD [OF assms]
  let ?x = "h_x h" and ?y = "h_x (frame_in M u h)"
  have f: "x_orders ?y = x_orders ?x" "x_account ?y = mark (mu_instrument u) (mu_best_bid u) (mu_best_ask u) (x_account ?x)"
    "h_router (frame_in M u h) = h_router h" "h_pops (frame_in M u h) = h_pops h"
    by (simp_all add: frame_in_def read_tsc_def Let_def upd_x_def)
  have inv: "exec_inv ?x" using rd(1) by (simp add: host_ok_def)
  note mc = mark_calm [OF exec_invD(2) [OF inv]]
  have "exec_inv ?y"
    using mc(2) mc(1) [of "mu_instrument u" "mu_best_bid u" "mu_best_ask u"]
    by (intro exec_inv_calm [OF inv f(1)]) (simp_all add: f(2) calm_def)
  then show "null_ready n (frame_in M u h)"
    using rd f by (simp add: null_ready_def host_ok_def cancel_covered_def live_def)
  show "calm_step h (frame_in M u h)" using mc(1) f by (simp add: calm_step_def)
qed

text \<open>Writes of statistics, flags and the clock.\<close>

lemma ready_same:
  assumes "x_orders (h_x h') = x_orders (h_x h)" "x_account (h_x h') = x_account (h_x h)"
    and "h_router h' = h_router h" "h_pops h' = h_pops h"
  shows "null_ready n h' = null_ready n h" and "calm_step g h' = calm_step g h"
  using assms by (simp_all add: null_ready_def host_ok_def cancel_covered_def live_def calm_step_def exec_inv_def)

lemma frame_out_same:
  "null_ready n (frame_out M t h) = null_ready n h" "calm_step g (frame_out M t h) = calm_step g h"
  by (rule ready_same; simp add: frame_out_def read_tsc_def upd_x_def)+

context strategy
begin

lemma frame_ready:
  assumes "null_ready (n + k) h"
  shows "\<exists>s' h'. handle_frame M S u s h = Some (s', h') \<and> null_ready n h' \<and> calm_step h h'"
proof -
  let ?h = "(frame_in M u h)\<lparr>h_reads := h_reads (frame_in M u h) + 1\<rparr>"
  have "null_ready (n + k) ?h" using frame_in_ready(1) [OF assms] by simp
  from tick [OF this, of s] obtain s' h1 where
    h1: "on_tick S s ?h = Some (s', h1)" "null_ready n h1" "calm_step ?h h1" by blast
  have "calm_step h ?h" using frame_in_ready(2) [OF assms] by (simp add: calm_step_def)
  then have c: "calm_step h h1" using h1(3) by (rule calm_step_trans)
  then show ?thesis
    using h1(1,2) by (simp add: handle_frame_def read_tsc_def Let_def frame_out_same)
qed

lemma drain_ready:
  assumes "null_ready (n + k * m) h" "mc_pop M (h_pops h + m) = None"
  shows "\<exists>s' h'. drain_feed M S s h = Some (s', h') \<and> null_ready n h' \<and> calm (x_account (h_x h)) (x_account (h_x h'))
    \<and> null_pending (h_router h') = []"
  using assms
proof (induction m arbitrary: s h)
  case 0
  then have "null_ready n (h\<lparr>h_pops := h_pops h + 1\<rparr>)" by simp
  from poll_ready [OF this, of s] 0(2) show ?case
    by (subst drain_feed.simps) (auto simp: feed_pop_def calm_step_def)
next
  case (Suc m)
  let ?g = "h\<lparr>h_pops := h_pops h + 1\<rparr>"
  show ?case
  proof (cases "mc_pop M (h_pops h)")
    case None
    have "null_ready n ?g" using Suc.prems(1) by (simp add: null_ready_mono [of "n + k * Suc m"])
    from poll_ready [OF this, of s] None show ?thesis
      by (subst drain_feed.simps) (auto simp: feed_pop_def calm_step_def)
  next
    case (Some u)
    have "null_ready (n + k * m + k) ?g" using Suc.prems(1) by (simp add: algebra_simps)
    from poll_ready [OF this, of s] obtain s1 h1 where
      h1: "poll_reports M S s ?g = Some (s1, h1)" "null_ready (n + k * m + k) h1" "calm_step ?g h1" by blast
    from frame_ready [OF h1(2), of u s1] obtain s2 h2 where
      h2: "handle_frame M S u s1 h1 = Some (s2, h2)" "null_ready (n + k * m) h2" "calm_step h1 h2" by blast
    have pops: "h_pops h2 = h_pops h + 1" using h1(3) h2(3) by (simp add: calm_step_def)
    from Suc.IH [OF h2(2), of s2] Suc.prems(2) pops obtain s' h' where
      h': "drain_feed M S s2 h2 = Some (s', h')" "null_ready n h'" "calm (x_account (h_x h2)) (x_account (h_x h'))"
        "null_pending (h_router h') = []"
      by auto
    have "calm (x_account (h_x h)) (x_account (h_x h'))"
      using h1(3) h2(3) h'(3) unfolding calm_step_def by (auto intro: calm_trans)
    then show ?thesis using Some h1(1) h2(1) h' by (subst drain_feed.simps) (simp add: feed_pop_def)
  qed
qed

lemma loop_frame_ready:
  assumes "null_ready (n + k) h"
  shows "\<exists>s' h'. loop_frame M S s h = Some (s', h') \<and> null_ready n h' \<and> calm (x_account (h_x h)) (x_account (h_x h'))
    \<and> h_pops h' = h_pops h + 1"
proof -
  from poll_ready [OF assms, of s] obtain s1 h1 where
    h1: "poll_reports M S s h = Some (s1, h1)" "null_ready (n + k) h1" "calm_step h h1" by blast
  let ?g = "h1\<lparr>h_pops := h_pops h1 + 1\<rparr>"
  have g: "null_ready (n + k) ?g" "h_pops ?g = h_pops h + 1" "calm (x_account (h_x h)) (x_account (h_x ?g))"
    using h1(2,3) by (simp_all add: calm_step_def)
  show ?thesis
  proof (cases "mc_pop M (h_pops h1)")
    case None
    then show ?thesis using h1(1) g null_ready_mono [OF g(1), of n] by (simp add: loop_frame_def feed_pop_def)
  next
    case (Some u)
    from frame_ready [OF g(1), of u s1] obtain s' h' where
      h': "handle_frame M S u s1 ?g = Some (s', h')" "null_ready n h'" "calm_step ?g h'" by blast
    have "loop_frame M S s h = Some (s', h')" using h1(1) Some h'(1) by (simp add: loop_frame_def feed_pop_def)
    moreover have "calm (x_account (h_x h)) (x_account (h_x h'))"
      using g(3) h'(3) unfolding calm_step_def by (auto intro: calm_trans)
    moreover have "h_pops h' = h_pops h + 1" using g(2) h'(3) by (simp add: calm_step_def)
    ultimately show ?thesis using h'(2) by blast
  qed
qed

lemma loop_timer_ready:
  assumes "null_ready (n + k) h"
  shows "\<exists>t s' h'. loop_timer M S iter next_timer s h = Some (t, s', h') \<and> null_ready n h' \<and> calm_step h h'"
proof -
  let ?g = "h\<lparr>h_reads := h_reads h + 1\<rparr>"
  have quiet: "null_ready n h" "null_ready n ?g" "calm_step h ?g"
    using null_ready_mono [OF assms, of n] by (simp_all add: calm_step_def)
  have g2: "null_ready (n + k) (h\<lparr>h_reads := h_reads h + 2\<rparr>)" using assms by simp
  from timer [OF this, of "call_now M ?g" s] obtain s1 h1 where
    h1: "on_timer S (call_now M ?g) s (h\<lparr>h_reads := h_reads h + 2\<rparr>) = Some (s1, h1)" "null_ready n h1"
      "calm_step (h\<lparr>h_reads := h_reads h + 2\<rparr>) h1" by blast
  have c: "calm_step h h1" using h1(3) by (simp add: calm_step_def)
  let ?e = "\<lambda>t t'. upd_x (publish_stats (mc_rnd M) t t')
    ((upd_x (upd_st (\<lambda>s. s\<lparr>es_iterations := word_of_nat iter\<rparr>)) h1)\<lparr>h_reads := h_reads h1 + 2\<rparr>)"
  have e: "null_ready n (?e t t') = null_ready n h1" "calm_step h (?e t t') = calm_step h h1" for t t'
    by (rule ready_same; simp add: publish_stats_def Let_def upd_x_def)+
  consider "\<not> iter mod 1024 = 0" | "iter mod 1024 = 0" "\<not> next_timer \<le> mc_tsc M (h_reads h)"
    | "iter mod 1024 = 0" "next_timer \<le> mc_tsc M (h_reads h)" by blast
  then show ?thesis
  proof cases
    case 1
    then show ?thesis using quiet by (simp add: loop_timer_def)
  next
    case 2
    then show ?thesis using quiet by (simp add: loop_timer_def read_tsc_def)
  next
    case 3
    let ?t = "mc_tsc M (h_reads h1)" and ?t' = "mc_tsc M (h_reads h1 + 1)"
    have "\<exists>t. loop_timer M S iter next_timer s h = Some (t, s1, ?e ?t ?t')"
      using 3 h1(1) by (simp add: loop_timer_def read_tsc_def host_now_eq Let_def upd_x_def)
    then show ?thesis using e h1(2) c by blast
  qed
qed

text \<open>
  The loop leaves at the latest when it is told to, by the shutdown flag or the operator's SWAP, \<open>d\<close>
  iterations on, and the feed is empty.
\<close>

lemma run_ready:
  assumes "null_ready (n + 2 * k * d + k * m) h" "told_to_leave M (iter + d)" "mc_pop M (h_pops h + d + m) = None"
  shows "\<exists>e s' h'. run_from M S iter t s h = Some (e, s', h') \<and> null_ready n h'
    \<and> calm (x_account (h_x h)) (x_account (h_x h')) \<and> (e = Exit_Shutdown \<longrightarrow> null_pending (h_router h') = [])"
  using assms
proof (induction d arbitrary: iter t s h)
  case (0 iter t s h)
  let ?g = "upd_x (\<lambda>x. x\<lparr>x_control_flags := mc_flags M iter\<rparr>) h"
  have "null_ready (n + k * m) ?g" using 0(1) ready_same(1) [of ?g h] by simp
  from drain_ready [OF this, of s] this 0(2,3) show ?case
    by (subst run_from.simps) (auto simp: Let_def told_to_leave_def intro: null_ready_mono)
next
  case (Suc d iter t s h)
  let ?g = "upd_x (\<lambda>x. x\<lparr>x_control_flags := mc_flags M iter\<rparr>) h"
  have g: "null_ready j ?g = null_ready j h" "h_pops ?g = h_pops h" "x_account (h_x ?g) = x_account (h_x h)" for j
    using ready_same(1) [of ?g h] by simp_all
  consider (stop) "mc_shutdown M iter" | (swap) "\<not> mc_shutdown M iter" "mc_flags M iter AND SWAP \<noteq> 0"
    | (go) "\<not> mc_shutdown M iter" "mc_flags M iter AND SWAP = 0" by blast
  then show ?case
  proof cases
    case stop
    have "null_ready (n + k * (Suc d + m)) ?g"
      using Suc.prems(1) unfolding g by (rule null_ready_mono) (simp add: algebra_simps)
    moreover have "mc_pop M (h_pops ?g + (Suc d + m)) = None" using Suc.prems(3) unfolding g by (simp add: algebra_simps)
    ultimately show ?thesis using drain_ready [of n "Suc d + m" ?g s] stop g(3)
      by (subst run_from.simps) (auto simp: Let_def)
  next
    case swap
    have "null_ready n ?g" using Suc.prems(1) unfolding g by (rule null_ready_mono) simp
    then show ?thesis using swap g(3) by (subst run_from.simps) (auto simp: Let_def)
  next
    case go
    have "null_ready (n + 2 * k * d + k * m + k + k) ?g"
      using Suc.prems(1) unfolding g by (rule null_ready_mono) (simp add: algebra_simps)
    from loop_frame_ready [OF this, of s] obtain s1 h1 where
      h1: "loop_frame M S s ?g = Some (s1, h1)" "null_ready (n + 2 * k * d + k * m + k) h1"
        "calm (x_account (h_x ?g)) (x_account (h_x h1))" "h_pops h1 = h_pops ?g + 1" by blast
    from loop_timer_ready [OF h1(2), of iter t s1] obtain t2 s2 h2 where
      h2: "loop_timer M S iter t s1 h1 = Some (t2, s2, h2)" "null_ready (n + 2 * k * d + k * m) h2" "calm_step h1 h2" by blast
    have "mc_pop M (h_pops h2 + d + m) = None" "told_to_leave M (iter + 1 + d)"
      using Suc.prems(2,3) h1(4) h2(3) g(2) by (simp_all add: calm_step_def)
    from Suc.IH [OF h2(2) this(2,1), of t2 s2] obtain e s' h' where
      h': "run_from M S (iter + 1) t2 s2 h2 = Some (e, s', h')" "null_ready n h'"
        "calm (x_account (h_x h2)) (x_account (h_x h'))" "e = Exit_Shutdown \<longrightarrow> null_pending (h_router h') = []" by blast
    have "calm (x_account (h_x h)) (x_account (h_x h'))"
      using h1(3) h2(3) h'(3) g(3) unfolding calm_step_def by (metis calm_trans)
    moreover have "run_from M S iter t s h = Some (e, s', h')"
      using go h1(1) h2(1) h'(1) by (subst run_from.simps) (simp add: Let_def)
    ultimately show ?thesis using h'(2,4) by blast
  qed
qed

end

end
