(* ===== verification/Exec_Finish.thy ===== *)
theory Exec_Finish
  imports Runner_Facts
begin

text \<open>
  The end of a run: \<open>cancel_all\<close> marks every live order as long as the router's queue has room, and
  one poll then empties the table.  With more live orders than free slots of the queue the rest is
  refused, and \<open>main\<close> asks only once.
\<close>

definition marked :: "'r host \<Rightarrow> order_id \<Rightarrow> bool" where
  "marked h k \<longleftrightarrow> (\<exists>r. live (h_x h) k = Some r \<and> row_pending r AND PENDING_CANCEL \<noteq> 0)"

definition row_key :: "'r host \<Rightarrow> u32 \<Rightarrow> order_id" where
  "row_key h p = row_id (ot_rows (x_orders (h_x h)) p)"

lemma live_rows:
  assumes "exec_inv (h_x h)"
  shows "live (h_x h) k = Some r \<Longrightarrow> \<exists>p<ot_n (x_orders (h_x h)). row_key h p = k"
    and "p < ot_n (x_orders (h_x h)) \<Longrightarrow> row_key h p \<in> dom (live (h_x h))"
    and "card (dom (live (h_x h))) = unat (ot_n (x_orders (h_x h)))"
proof -
  have inv: "ot_inv (x_orders (h_x h))" and d: "dense (x_orders (h_x h))"
    using exec_invD(1) [OF assms] by (simp_all add: ot_inv_def)
  show "card (dom (live (h_x h))) = unat (ot_n (x_orders (h_x h)))" by (simp add: live_def ot_abs_card [OF d])
  show "row_key h p \<in> dom (live (h_x h))" if "p < ot_n (x_orders (h_x h))"
    using row_atD(1) [OF inv row_at_self [OF inv that]] by (auto simp: live_def row_key_def)
  show "\<exists>p<ot_n (x_orders (h_x h)). row_key h p = k" if "live (h_x h) k = Some r"
    using that inv by (cases rule: ot_find_cases [OF inv, where k = k])
      (auto simp: live_def row_key_def row_at_def dest: row_atD)
qed

lemma rows_left:
  fixes i n :: u32
  assumes "i < n"
  shows "unat (n - (i + 1)) + 1 = unat (n - i)" and "i + 1 \<le> n"
proof -
  have "unat i < unat n" using assms by (simp add: word_less_nat_alt)
  moreover have "unat (i + 1) = unat i + 1"
    using calculation unat_u32_less [of n] by (intro unat_Suc_no_wrap) simp
  ultimately show "unat (n - (i + 1)) + 1 = unat (n - i)" and "i + 1 \<le> n"
    by (simp_all add: unat_sub_no_borrow word_le_nat_alt)
qed

lemma cancel_from_marks:
  assumes "null_ready n h" "i \<le> ot_n (x_orders (h_x h))" "\<forall>p<i. marked h (row_key h p)"
    and "length (null_pending (h_router h)) + unat (ot_n (x_orders (h_x h)) - i) \<le> 1024"
  shows "\<exists>h'. cancel_from M null_submit i h = Some h' \<and> null_ready n h' \<and> calm_step h h'
    \<and> (\<forall>k. live (h_x h') k \<noteq> None \<longrightarrow> marked h' k)"
  using assms
proof (induction "unat (ot_n (x_orders (h_x h)) - i)" arbitrary: i h rule: less_induct)
  case (less i h)
  let ?n = "ot_n (x_orders (h_x h))"
  have inv: "exec_inv (h_x h)" using null_readyD(1) [OF less.prems(1)] by (simp add: host_ok_def)
  show ?case
  proof (cases "i < ?n")
    case False
    then have "i = ?n" using less.prems(2) by simp
    then have "marked h k" if "live (h_x h) k \<noteq> None" for k
      using that live_rows(1) [OF inv] less.prems(3) by blast
    then show ?thesis using False less.prems(1) by (subst cancel_from.simps) simp
  next
    case True
    note i = rows_left [OF True]
    show ?thesis
      using less.prems(1)
    proof (cases rule: null_cancel_cases [where M = M and oid = "row_key h i"])
      case (queue_full h')
      then show ?thesis using less.prems(4) i(1) by simp
    next
      case (handled b h')
      have keys: "row_key h' p = row_key h p" for p using handled(5) by (simp add: row_key_def)
      have marks: "marked h' (row_key h p)" if p: "p < i + 1" for p
      proof (cases "p = i")
        case True
        from live_rows(2) [OF inv \<open>i < ?n\<close>] obtain r where "live (h_x h) (row_key h i) = Some r" by blast
        then show ?thesis using handled(8) True unfolding marked_def by blast
      next
        case False
        then have "p < i" using p by (metis inc_le leD le_less_linear order.not_eq_order_implies_strict word_le_less_eq)
        then show ?thesis using less.prems(3) handled(8) unfolding marked_def by blast
      qed
      have "\<exists>h''. cancel_from M null_submit (i + 1) h' = Some h'' \<and> null_ready n h'' \<and> calm_step h' h''
        \<and> (\<forall>k. live (h_x h'') k \<noteq> None \<longrightarrow> marked h'' k)"
        using i handled(2,4,6) marks less.prems(4) by (intro less.hyps) (simp_all add: keys)
      moreover have "cancel_from M null_submit i h = cancel_from M null_submit (i + 1) h'"
        using True handled(1) by (subst cancel_from.simps) (simp add: row_key_def)
      ultimately show ?thesis using calm_step_trans [OF handled(3)] by auto
    qed
  qed
qed

definition publish_host :: "machine \<Rightarrow> null_router host \<Rightarrow> null_router host" where
  "publish_host M h = upd_x (publish_stats (mc_rnd M) (mc_tsc M (h_reads h)) (mc_tsc M (h_reads h + 1)))
     (h\<lparr>h_reads := h_reads h + 2\<rparr>)"

lemma exec_finish_eq:
  "ctx_cancel_all M null_submit h = Some h1 \<Longrightarrow> wait_reports M 0 h1 = Some h2 \<Longrightarrow> exec_finish M h = Some (publish_host M h2)"
  by (simp add: exec_finish_def read_tsc_def upd_x_def publish_host_def Let_def)

lemma publish_ready:
  assumes "null_ready n h"
  shows "null_ready n (publish_host M h)" and "x_account (h_x (publish_host M h)) = x_account (h_x h)"
    and "live (h_x (publish_host M h)) = live (h_x h)"
proof -
  have "null_ready n (publish_host M h) = null_ready n h"
    by (rule ready_same; simp add: publish_host_def publish_stats_def Let_def upd_x_def)
  then show "null_ready n (publish_host M h)" using assms by simp
  show "x_account (h_x (publish_host M h)) = x_account (h_x h)" "live (h_x (publish_host M h)) = live (h_x h)"
    by (simp_all add: publish_host_def publish_stats_def Let_def live_def)
qed

lemma drain_reports:
  assumes "null_ready n h"
  shows "\<exists>h'. null_poll M (\<lambda>rep s h. map_option (Pair s) (report_to_context M rep h)) () h = Some ((), h')
    \<and> null_ready n h' \<and> calm_step h h' \<and> null_pending (h_router h') = [] \<and> marks_kept h h'"
proof -
  let ?cb = "\<lambda>rep s h. map_option (Pair s) (report_to_context M rep h)"
  have "\<exists>s' h2. null_poll M ?cb () h = Some (s', h2) \<and> null_ready n h2 \<and> calm_step h h2
      \<and> null_pending (h_router h2) = [] \<and> marks_kept h h2"
    by (rule null_poll_ready [where R = marks_kept, OF _ _ marks_kept_trans _ assms]) simp_all
  then show ?thesis by auto
qed

lemma exec_finish_empties:
  assumes ready: "null_ready n h" and room: "length (null_pending (h_router h)) + unat (ot_n (x_orders (h_x h))) \<le> 1024"
    and time: "\<not> mc_late M 0"
  shows "\<exists>h'. exec_finish M h = Some h' \<and> null_ready n h' \<and> calm (x_account (h_x h)) (x_account (h_x h'))
    \<and> live (h_x h') = Map.empty"
proof -
  obtain h1 where h1: "ctx_cancel_all M null_submit h = Some h1" "null_ready n h1" "calm_step h h1"
    "\<forall>k. live (h_x h1) k \<noteq> None \<longrightarrow> marked h1 k"
    using cancel_from_marks [of n h 0 M] ready room by (auto simp: ctx_cancel_all_def)
  have empty0: "live (h_x g) = Map.empty" if "null_ready n g" "ot_n (x_orders (h_x g)) = 0" for g :: "null_router host"
  proof -
    have "card (dom (live (h_x g))) = 0" using live_rows(3) [of g] that null_readyD(1) [OF that(1)] by (simp add: host_ok_def)
    then show ?thesis by simp
  qed
  have "\<exists>h2. wait_reports M 0 h1 = Some h2 \<and> null_ready n h2 \<and> calm (x_account (h_x h1)) (x_account (h_x h2)) \<and> live (h_x h2) = Map.empty"
  proof (cases "0 < ot_n (x_orders (h_x h1))")
    case False
    then have "ot_n (x_orders (h_x h1)) = 0" by (simp add: word_gt_0)
    then show ?thesis using empty0 [OF h1(2)] h1(2) by (subst wait_reports.simps) simp
  next
    case True
    obtain h2 where h2: "null_poll M (\<lambda>rep s h. map_option (Pair s) (report_to_context M rep h)) () h1 = Some ((), h2)"
      "null_ready n h2" "calm_step h1 h2" "null_pending (h_router h2) = []" "marks_kept h1 h2"
      using drain_reports [OF h1(2)] by blast
    have "live (h_x h2) k = None" for k
    proof (rule ccontr)
      assume "live (h_x h2) k \<noteq> None"
      then obtain r where r: "live (h_x h2) k = Some r" by blast
      then obtain r0 where "live (h_x h1) k = Some r0"
        "row_pending r0 AND PENDING_CANCEL \<noteq> 0 \<longrightarrow> row_pending r AND PENDING_CANCEL \<noteq> 0"
        using h2(5) unfolding marks_kept_def by blast
      then have "row_pending r AND PENDING_CANCEL \<noteq> 0" using h1(4) by (auto simp: marked_def)
      then show False using null_readyD(3) [OF h2(2)] r by (auto simp: cancel_covered_def h2(4))
    qed
    then have empty: "live (h_x h2) = Map.empty" by blast
    then have "unat (ot_n (x_orders (h_x h2))) = 0"
      using live_rows(3) [of h2] null_readyD(1) [OF h2(2)] by (simp add: host_ok_def)
    then have "ot_n (x_orders (h_x h2)) = 0" by (simp add: unat_eq_0)
    then have "wait_reports M 1 h2 = Some h2" by (subst wait_reports.simps) simp
    then have "wait_reports M 0 h1 = Some h2"
      using True time h2(1) by (subst wait_reports.simps) simp
    then show ?thesis using h2(2,3) empty by (auto simp: calm_step_def)
  qed
  then obtain h2 where h2: "wait_reports M 0 h1 = Some h2" "null_ready n h2"
    "calm (x_account (h_x h1)) (x_account (h_x h2))" "live (h_x h2) = Map.empty" by blast
  have "calm (x_account (h_x h)) (x_account (h_x h2))"
    using h1(3) h2(3) calm_trans unfolding calm_step_def by blast
  with exec_finish_eq [OF h1(1) h2(1)] publish_ready [OF h2(2), of M] h2(4) show ?thesis by auto
qed

section \<open>Without room\<close>

text \<open>However full the queue, the end of \<open>main\<close> is reached when the deadline passes.\<close>

lemma cancel_from_returns:
  assumes "null_ready n h"
  shows "\<exists>h'. cancel_from M null_submit i h = Some h' \<and> null_ready n h' \<and> calm_step h h'"
  using assms
proof (induction "unat (ot_n (x_orders (h_x h)) - i)" arbitrary: i h rule: less_induct)
  case (less i h)
  show ?case
  proof (cases "i < ot_n (x_orders (h_x h))")
    case False
    then show ?thesis using less.prems by (subst cancel_from.simps) simp
  next
    case True
    obtain b h' where h': "ctx_cancel M null_submit (row_id (ot_rows (x_orders (h_x h)) i)) h = Some (b, h')"
      "null_ready n h'" "calm_step h h'" "ot_n (x_orders (h_x h')) = ot_n (x_orders (h_x h))"
      using less.prems by (cases rule: null_cancel_cases [where M = M and oid = "row_id (ot_rows (x_orders (h_x h)) i)"])
        (auto simp: same_table_def untouched_def calm_step_def)
    have "\<exists>h''. cancel_from M null_submit (i + 1) h' = Some h'' \<and> null_ready n h'' \<and> calm_step h' h''"
      using rows_left(1) [OF True] h'(2,4) by (intro less.hyps) simp_all
    moreover have "cancel_from M null_submit i h = cancel_from M null_submit (i + 1) h'"
      using True h'(1) by (subst cancel_from.simps) simp
    ultimately show ?thesis using calm_step_trans [OF h'(3)] by auto
  qed
qed

lemma wait_reports_returns:
  assumes "null_ready n h" "mc_late M (k + d)"
  shows "\<exists>h'. wait_reports M k h = Some h' \<and> null_ready n h' \<and> calm_step h h'"
  using assms
proof (induction d arbitrary: k h)
  case 0
  then show ?case by (subst wait_reports.simps) simp
next
  case (Suc d)
  obtain h1 where h1: "null_poll M (\<lambda>rep s h. map_option (Pair s) (report_to_context M rep h)) () h = Some ((), h1)"
    "null_ready n h1" "calm_step h h1" using drain_reports [OF Suc.prems(1)] by blast
  have "mc_late M ((k + 1) + d)" using Suc.prems(2) by simp
  from Suc.IH [OF h1(2) this] obtain h2 where
    "wait_reports M (k + 1) h1 = Some h2" "null_ready n h2" "calm_step h1 h2" by blast
  then show ?case
    using h1 Suc.prems(1) calm_step_trans [OF h1(3)] by (subst wait_reports.simps) (auto split: if_split)
qed

lemma exec_finish_returns:
  assumes ready: "null_ready n h" and late: "mc_late M d"
  shows "\<exists>h'. exec_finish M h = Some h' \<and> null_ready n h' \<and> calm (x_account (h_x h)) (x_account (h_x h'))"
proof -
  obtain h1 where h1: "ctx_cancel_all M null_submit h = Some h1" "null_ready n h1" "calm_step h h1"
    using cancel_from_returns [OF ready, of M 0] by (auto simp: ctx_cancel_all_def)
  obtain h2 where h2: "wait_reports M 0 h1 = Some h2" "null_ready n h2" "calm_step h1 h2"
    using wait_reports_returns [OF h1(2), of M 0 d] late by auto
  show ?thesis
    using exec_finish_eq [OF h1(1) h2(1)] publish_ready [OF h2(2), of M] h1(3) h2(3) calm_trans
    unfolding calm_step_def by auto
qed

end
