(* ===== verification/Strategies.thy ===== *)
theory Strategies
  imports Runner_Facts
begin

text \<open>
  The strategies of \<open>src/exec/strategies/\<close>, as hooks of the loop, without their log lines:
  \<open>DummyQuoter\<close>, \<open>ImbalanceTaker\<close> and \<open>LoggingStrategy\<close>.  None defines another hook than
  \<open>on_tick\<close>.  Each interprets the locale \<open>strategy\<close>, with two, one and no new orders a tick.
\<close>

section \<open>The hooks no strategy here defines\<close>

definition tick_only :: "('s \<Rightarrow> null_router host \<Rightarrow> ('s \<times> null_router host) option) \<Rightarrow> 's hooks" where
  "tick_only f = \<lparr>on_tick = f, on_exec = (\<lambda>rep s h. Some (s, h)), on_timer = (\<lambda>now s h. Some (s, h))\<rparr>"

lemma tick_only_strategy:
  assumes "\<And>n h s. null_ready (n + k) h \<Longrightarrow> \<exists>s' h'. f s h = Some (s', h') \<and> null_ready n h' \<and> calm_step h h'"
  shows "strategy (tick_only f) k"
  by unfold_locales (use assms null_ready_mono in \<open>auto simp: tick_only_def\<close>)

section \<open>DummyQuoter\<close>

definition DQ_LOT :: int where "DQ_LOT = 100"
definition DQ_POS_CAP :: int where "DQ_POS_CAP = 1000"

record dummy_quoter =
  dq_bid :: order_id
  dq_ask :: order_id
  dq_ticks :: u64

definition dummy_new :: dummy_quoter where
  "dummy_new = \<lparr>dq_bid = INVALID_ORDER, dq_ask = INVALID_ORDER, dq_ticks = 0\<rparr>"

text \<open>\<open>quote\<close>, with the new value of the id it is passed by reference.\<close>

definition dummy_quote :: "machine \<Rightarrow> order_id \<Rightarrow> side \<Rightarrow> int \<Rightarrow> bool \<Rightarrow> null_router host \<Rightarrow> (order_id \<times> null_router host) option" where
  "dummy_quote M oid sd px want h =
     (case ctx_order oid h of
        None \<Rightarrow> None
      | Some ord \<Rightarrow>
          if \<not> want then
            (if ord \<noteq> None then map_option (\<lambda>(_, h). (oid, h)) (ctx_cancel M null_submit oid h) else Some (oid, h))
          else (case ord of
              None \<Rightarrow> ctx_submit M null_submit sd px DQ_LOT GTC Limit h
            | Some r \<Rightarrow> if row_px r \<noteq> px \<and> row_pending r = 0
                then map_option (\<lambda>(_, h). (oid, h)) (ctx_replace M null_submit oid px (row_qty r) h)
                else Some (oid, h)))"

definition dummy_tick :: "machine \<Rightarrow> dummy_quoter \<Rightarrow> null_router host \<Rightarrow> (dummy_quoter \<times> null_router host) option" where
  "dummy_tick M s h =
     (let s = s\<lparr>dq_ticks := dq_ticks s + 1\<rparr>; v = x_view (h_x h)
      in if \<not> two_sided v then Some (s, h)
         else let inv = ctx_inventory h
           in case dummy_quote M (dq_bid s) Buy (mu_best_bid (mv_u v)) (inv < DQ_POS_CAP) h of
                None \<Rightarrow> None
              | Some (bid, h) \<Rightarrow>
                  (case dummy_quote M (dq_ask s) Sell (mu_best_ask (mv_u (x_view (h_x h)))) (inv > - DQ_POS_CAP) h of
                     None \<Rightarrow> None
                   | Some (ask, h) \<Rightarrow> Some (s\<lparr>dq_bid := bid, dq_ask := ask\<rparr>, h)))"

lemma ctx_order_returns:
  assumes "null_ready n h"
  shows "ctx_order oid h = Some (live (h_x h) oid)"
proof -
  have "ot_inv (x_orders (h_x h))"
    using null_readyD(1) [OF assms] exec_invD(1) [where d = "\<lambda>_. 0"] by (simp add: host_ok_def)
  then show ?thesis
    by (cases rule: ot_find_cases [where k = oid]) (simp_all add: ctx_order_def live_def ot_get_def)
qed

lemma dummy_quote_ready:
  assumes "null_ready (n + 1) h"
  shows "\<exists>oid' h'. dummy_quote M oid sd px want h = Some (oid', h') \<and> null_ready n h' \<and> calm_step h h'"
proof -
  note lo = null_ready_mono [OF assms, of n]
  have ord: "ctx_order oid h = Some (live (h_x h) oid)" by (rule ctx_order_returns [OF assms])
  from lo null_cancel_ready [of n h M oid] obtain b h1 where
    c: "ctx_cancel M null_submit oid h = Some (b, h1)" "null_ready n h1" "calm_step h h1" by auto
  from null_submit_ready [OF assms, of M sd px DQ_LOT GTC Limit] obtain oid' h2 where
    s: "ctx_submit M null_submit sd px DQ_LOT GTC Limit h = Some (oid', h2)" "null_ready n h2" "calm_step h h2" by blast
  have r: "\<exists>b h'. ctx_replace M null_submit oid px q h = Some (b, h') \<and> null_ready n h' \<and> calm_step h h'" for q
    using lo null_replace_ready [of n h M oid px q] by simp
  show ?thesis
  proof (cases "live (h_x h) oid")
    case None
    then show ?thesis using ord lo s by (simp add: dummy_quote_def)
  next
    case (Some row)
    from r [of "row_qty row"] obtain b' h3 where
      "ctx_replace M null_submit oid px (row_qty row) h = Some (b', h3)" "null_ready n h3" "calm_step h h3" by blast
    then show ?thesis using ord lo c Some by (simp add: dummy_quote_def)
  qed
qed

lemma dummy_tick_ready:
  assumes "null_ready (n + 2) h"
  shows "\<exists>s' h'. dummy_tick M s h = Some (s', h') \<and> null_ready n h' \<and> calm_step h h'"
proof -
  let ?s = "s\<lparr>dq_ticks := dq_ticks s + 1\<rparr>" and ?v = "x_view (h_x h)" and ?inv = "ctx_inventory h"
  have lo: "null_ready n h" by (rule null_ready_mono [OF assms]) simp
  have "null_ready ((n + 1) + 1) h" using assms by simp
  from dummy_quote_ready [OF this, of M "dq_bid s" Buy "mu_best_bid (mv_u ?v)" "?inv < DQ_POS_CAP"] obtain bid h1 where
    h1: "dummy_quote M (dq_bid s) Buy (mu_best_bid (mv_u ?v)) (?inv < DQ_POS_CAP) h = Some (bid, h1)"
      "null_ready (n + 1) h1" "calm_step h h1" by blast
  from dummy_quote_ready [OF h1(2), of M "dq_ask s" Sell "mu_best_ask (mv_u (x_view (h_x h1)))" "?inv > - DQ_POS_CAP"]
  obtain ask h2 where
    h2: "dummy_quote M (dq_ask s) Sell (mu_best_ask (mv_u (x_view (h_x h1)))) (?inv > - DQ_POS_CAP) h1 = Some (ask, h2)"
      "null_ready n h2" "calm_step h1 h2" by blast
  show ?thesis
    using lo h1 h2 calm_step_trans [OF h1(3) h2(3)] by (cases "two_sided ?v") (simp_all add: dummy_tick_def Let_def)
qed

definition dummy_hooks :: "machine \<Rightarrow> dummy_quoter hooks" where
  "dummy_hooks M = tick_only (dummy_tick M)"

interpretation dummy: strategy "dummy_hooks M" M 2 for M
  unfolding dummy_hooks_def by (rule tick_only_strategy) (rule dummy_tick_ready)

section \<open>ImbalanceTaker\<close>

definition IM_ENTER :: "(real \<Rightarrow> real) \<Rightarrow> real" where "IM_ENTER rnd = rnd (6 / 10)"
definition IM_RESET :: "(real \<Rightarrow> real) \<Rightarrow> real" where "IM_RESET rnd = rnd (2 / 10)"
definition IM_LOT :: int where "IM_LOT = 100"
definition IM_POS_CAP :: int where "IM_POS_CAP = 500"
definition IM_COOLDOWN_NS :: int where "IM_COOLDOWN_NS = 1000000000"
definition IM_MIN_BUDGET :: real where "IM_MIN_BUDGET = 10"

record imbalance_taker =
  im_buy_armed :: bool
  im_sell_armed :: bool
  im_last_ns :: int

definition imbalance_new :: imbalance_taker where
  "imbalance_new = \<lparr>im_buy_armed = True, im_sell_armed = True, im_last_ns = - (2 ^ 62)\<rparr>"

definition imbalance_take :: "machine \<Rightarrow> side \<Rightarrow> int \<Rightarrow> int \<Rightarrow> imbalance_taker \<Rightarrow> null_router host
    \<Rightarrow> (imbalance_taker \<times> null_router host) option" where
  "imbalance_take M sd px now s h =
     map_option (\<lambda>(_, h). (case sd of Buy \<Rightarrow> s\<lparr>im_buy_armed := False, im_last_ns := now\<rparr>
       | Sell \<Rightarrow> s\<lparr>im_sell_armed := False, im_last_ns := now\<rparr>, h))
       (ctx_submit M null_submit sd px IM_LOT IOC Limit h)"

definition imbalance_tick :: "machine \<Rightarrow> imbalance_taker \<Rightarrow> null_router host \<Rightarrow> (imbalance_taker \<times> null_router host) option" where
  "imbalance_tick M s h =
     (let rnd = mc_rnd M; v = x_view (h_x h)
      in if \<not> two_sided v then Some (s, h)
         else let imb = imbalance rnd v;
                  s = (if imb < IM_RESET rnd then s\<lparr>im_buy_armed := True\<rparr> else s);
                  s = (if imb > - IM_RESET rnd then s\<lparr>im_sell_armed := True\<rparr> else s);
                  (now, h) = host_now M h; (budget, h) = ctx_rate_budget M (mu_instrument (mv_u v)) h
              in if now - im_last_ns s < IM_COOLDOWN_NS \<or> budget < IM_MIN_BUDGET then Some (s, h)
                 else let inv = ctx_inventory h
                   in if imb > IM_ENTER rnd \<and> im_buy_armed s \<and> inv + IM_LOT \<le> IM_POS_CAP
                      then imbalance_take M Buy (mu_best_ask (mv_u v)) now s h
                      else if imb < - IM_ENTER rnd \<and> im_sell_armed s \<and> inv - IM_LOT \<ge> - IM_POS_CAP
                      then imbalance_take M Sell (mu_best_bid (mv_u v)) now s h
                      else Some (s, h))"

lemma imbalance_take_ready:
  assumes "null_ready (n + 1) h"
  shows "\<exists>s' h'. imbalance_take M sd px now s h = Some (s', h') \<and> null_ready n h' \<and> calm_step h h'"
  using null_submit_ready [OF assms, of M sd px IM_LOT IOC Limit] by (auto simp: imbalance_take_def)

lemma imbalance_tick_ready:
  assumes "null_ready (n + 1) h"
  shows "\<exists>s' h'. imbalance_tick M s h = Some (s', h') \<and> null_ready n h' \<and> calm_step h h'"
proof -
  let ?g = "h\<lparr>h_reads := h_reads h + 2\<rparr>"
  have g: "null_ready (n + 1) ?g" using assms by simp
  have lo: "null_ready n h" "null_ready n ?g" "calm_step h ?g"
    using null_ready_mono [OF assms, of n] by (simp_all add: calm_step_def)
  have take: "\<exists>s' h'. imbalance_take M sd px now s ?g = Some (s', h') \<and> null_ready n h' \<and> calm_step h h'" for sd px now s
    using imbalance_take_ready [OF g, of M sd px now s] calm_step_trans [OF lo(3)] by blast
  have now: "host_now M h = (call_now M h, h\<lparr>h_reads := h_reads h + 1\<rparr>)" by (rule host_now_eq)
  have budget: "\<exists>b. ctx_rate_budget M i (h\<lparr>h_reads := h_reads h + 1\<rparr>) = (b, ?g)" for i
    by (simp add: ctx_rate_budget_def host_now_eq)
  then obtain b where b: "ctx_rate_budget M (mu_instrument (mv_u (x_view (h_x h)))) (h\<lparr>h_reads := h_reads h + 1\<rparr>) = (b, ?g)"
    by blast
  show ?thesis
    unfolding imbalance_tick_def Let_def now prod.case b using lo take by (simp split: if_split)
qed

definition imbalance_hooks :: "machine \<Rightarrow> imbalance_taker hooks" where
  "imbalance_hooks M = tick_only (imbalance_tick M)"

interpretation imbalance: strategy "imbalance_hooks M" M 1 for M
  unfolding imbalance_hooks_def by (rule tick_only_strategy) (rule imbalance_tick_ready)

section \<open>LoggingStrategy\<close>

record logging_strategy =
  lg_ticks :: u64
  lg_trades :: u64

definition logging_new :: logging_strategy where
  "logging_new = \<lparr>lg_ticks = 0, lg_trades = 0\<rparr>"

definition logging_tick :: "logging_strategy \<Rightarrow> null_router host \<Rightarrow> (logging_strategy \<times> null_router host) option" where
  "logging_tick s h =
     (let s = s\<lparr>lg_ticks := lg_ticks s + 1\<rparr>
      in Some (if last_was_trade (x_view (h_x h)) then s\<lparr>lg_trades := lg_trades s + 1\<rparr> else s, h))"

definition logging_hooks :: "logging_strategy hooks" where
  "logging_hooks = tick_only logging_tick"

interpretation logging: strategy logging_hooks M 0 for M
  unfolding logging_hooks_def by (rule tick_only_strategy) (simp add: logging_tick_def Let_def)

end
