(* ===== verification/Config_File.thy ===== *)
theory Config_File
  imports Doubles
begin

text \<open>
  \<open>Config\<close> of \<open>src/common/config_file.hpp\<close>: the \<open>key=value\<close> files every process reads.  The used
  prefix of \<open>e_\<close> is a list of pairs; C strings are lists of characters without NUL.  A file is its
  contents, or \<open>None\<close> when it cannot be opened; warnings are not modelled, the return values are.
  \<open>strtoll\<close> and \<open>strtod\<close> are written out for decimal input (no hexadecimal, no \<open>inf\<close> or \<open>nan\<close>).

  Shown: a parsed text answers every lookup with the last assignment of the key, and lines
  printed as \<open>key=value\<close> are read back.
\<close>

section \<open>State and text handling\<close>

type_synonym config = "(string \<times> string) list"

definition MAX_ENTRIES :: nat where "MAX_ENTRIES = 256"
definition KEY_LEN :: nat where "KEY_LEN = 64"
definition VAL_LEN :: nat where "VAL_LEN = 256"
definition LINE_LEN :: nat where "LINE_LEN = VAL_LEN + KEY_LEN + 64"

abbreviation NL :: char where "NL \<equiv> CHR 0x0A"

definition is_blank :: "char \<Rightarrow> bool" where
  "is_blank c \<longleftrightarrow> c = CHR '' '' \<or> c = CHR 0x09"

definition is_line_end :: "char \<Rightarrow> bool" where
  "is_line_end c \<longleftrightarrow> is_blank c \<or> c = NL \<or> c = CHR 0x0D"

definition trim :: "string \<Rightarrow> string" where
  "trim s = rev (dropWhile is_line_end (rev (dropWhile is_blank s)))"

definition cfg_find :: "config \<Rightarrow> string \<Rightarrow> nat option" where
  "cfg_find cfg key = List.find (\<lambda>i. fst (cfg ! i) = key) [0..<length cfg]"

text \<open>\<open>parse_line\<close>: whether the line is accepted, and the new entries.\<close>

definition cfg_put :: "string \<Rightarrow> string \<Rightarrow> config \<Rightarrow> bool \<times> config" where
  "cfg_put key val cfg = (case cfg_find cfg key of
     Some i \<Rightarrow> (True, cfg[i := (key, val)])
   | None \<Rightarrow> if length cfg = MAX_ENTRIES then (False, cfg) else (True, cfg @ [(key, val)]))"

definition parse_line :: "string \<Rightarrow> config \<Rightarrow> bool \<times> config" where
  "parse_line line cfg =
     (let s = trim line
      in if s = [] \<or> hd s = CHR ''#'' then (True, cfg)
         else let eq = length (takeWhile (\<lambda>c. c \<noteq> CHR ''='') s)
           in if eq = length s then (False, cfg)
              else let key = trim (take eq s); val = trim (drop (eq + 1) s)
                in if key = [] then (False, cfg)
                   else if KEY_LEN \<le> length key \<or> VAL_LEN \<le> length val then (False, cfg)
                   else cfg_put key val cfg)"

text \<open>\<open>parse\<close> on text, line by line.\<close>

function parse_from :: "string \<Rightarrow> bool \<Rightarrow> config \<Rightarrow> bool \<times> config" where
  "parse_from text ok cfg =
     (if text = [] then (ok, cfg)
      else let n = length (takeWhile (\<lambda>c. c \<noteq> NL) text);
               (ok, cfg) = (if LINE_LEN \<le> n then (False, cfg)
                 else case parse_line (take n text) cfg of (b, cfg) \<Rightarrow> (ok \<and> b, cfg))
           in parse_from (drop (n + 1) text) ok cfg)"
  by pat_completeness auto
termination by (relation "measure (\<lambda>(text, _). length text)") auto

declare parse_from.simps [simp del]

definition cfg_parse :: "string \<Rightarrow> config \<Rightarrow> bool \<times> config" where
  "cfg_parse text cfg = parse_from text True cfg"

text \<open>\<open>fgets\<close> into the line buffer: the line read and what is left of the file.\<close>

definition fgets :: "nat \<Rightarrow> string \<Rightarrow> (string \<times> string) option" where
  "fgets sz text =
     (if text = [] then None
      else let n = length (takeWhile (\<lambda>c. c \<noteq> NL) text);
               k = (if n + 1 < sz then n + 1 else sz - 1)
           in Some (take k text, drop k text))"

text \<open>The rest of a line that did not fit.\<close>

definition skip_line :: "string \<Rightarrow> string" where
  "skip_line text = drop 1 (dropWhile (\<lambda>c. c \<noteq> NL) text)"

lemma fgets_shorter:
  assumes "fgets sz text = Some (l, r)" "1 < sz"
  shows "length r < length text"
proof -
  obtain k where "r = drop k text" "0 < k" "text \<noteq> []"
    using assms by (auto simp: fgets_def Let_def split: if_splits)
  then show ?thesis by simp
qed

function load_from :: "string \<Rightarrow> bool \<Rightarrow> config \<Rightarrow> bool \<times> config" where
  "load_from text ok cfg =
     (case fgets LINE_LEN text of
        None \<Rightarrow> (ok, cfg)
      | Some (line, rest) \<Rightarrow>
          if length line = LINE_LEN - 1 \<and> last line \<noteq> NL then load_from (skip_line rest) False cfg
          else case parse_line line cfg of (b, cfg) \<Rightarrow> load_from rest (ok \<and> b) cfg)"
  by pat_completeness auto
termination
proof (relation "measure (\<lambda>(text, _). length text)", goal_cases)
  case (2 inp ok cfg p line rest)
  then have "length rest < length inp" using fgets_shorter [of LINE_LEN inp line rest] by (simp add: LINE_LEN_def KEY_LEN_def VAL_LEN_def)
  moreover have "length (skip_line rest) \<le> length rest"
    using length_dropWhile_le [of "\<lambda>c. c \<noteq> NL" rest] by (simp add: skip_line_def del: length_dropWhile_le)
  ultimately show ?case by simp
next
  case (3 inp ok cfg p line rest)
  then show ?case using fgets_shorter [of LINE_LEN inp line rest] by (simp add: LINE_LEN_def KEY_LEN_def VAL_LEN_def)
qed simp

declare load_from.simps [simp del]

definition cfg_load :: "string option \<Rightarrow> config \<Rightarrow> bool \<times> config" where
  "cfg_load file cfg = (case file of None \<Rightarrow> (False, cfg) | Some text \<Rightarrow> load_from text True cfg)"

text \<open>\<open>load_from_args\<close>: \<open>fs\<close> is the file system.\<close>

fun load_from_args :: "(string \<Rightarrow> string option) \<Rightarrow> string list \<Rightarrow> config \<Rightarrow> bool \<times> config" where
  "load_from_args fs [] cfg = (True, cfg)"
| "load_from_args fs (arg # args) cfg =
     (if take 9 arg = ''--config='' then cfg_load (fs (drop 9 arg)) cfg else load_from_args fs args cfg)"

section \<open>Getters\<close>

definition cfg_has :: "config \<Rightarrow> string \<Rightarrow> bool" where
  "cfg_has cfg key \<longleftrightarrow> cfg_find cfg key \<noteq> None"

definition get_str :: "config \<Rightarrow> string \<Rightarrow> string \<Rightarrow> string" where
  "get_str cfg key def = (case cfg_find cfg key of Some i \<Rightarrow> snd (cfg ! i) | None \<Rightarrow> def)"

definition is_c_space :: "char \<Rightarrow> bool" where
  "is_c_space c \<longleftrightarrow> c = CHR '' '' \<or> 9 \<le> (of_char c :: nat) \<and> (of_char c :: nat) \<le> 13"

definition is_digit :: "char \<Rightarrow> bool" where
  "is_digit c \<longleftrightarrow> 48 \<le> (of_char c :: nat) \<and> (of_char c :: nat) \<le> 57"

definition digits_value :: "string \<Rightarrow> int" where
  "digits_value ds = foldl (\<lambda>v c. 10 * v + (of_char c - 48)) 0 ds"

text \<open>An optional sign.\<close>

definition take_sign :: "string \<Rightarrow> int \<times> string" where
  "take_sign s = (case s of [] \<Rightarrow> (1, [])
     | c # cs \<Rightarrow> if c = CHR ''-'' then (- 1, cs) else if c = CHR ''+'' then (1, cs) else (1, c # cs))"

text \<open>\<open>strtoll(buf, &end, 10)\<close>: the value and the rest, or \<open>None\<close> when nothing is converted.\<close>

definition strtoll :: "string \<Rightarrow> (int \<times> string) option" where
  "strtoll buf =
     (let (sign, s) = take_sign (dropWhile is_c_space buf); ds = takeWhile is_digit s
      in if ds = [] then None
         else Some (max (- (2 ^ 63)) (min (2 ^ 63 - 1) (sign * digits_value ds)), dropWhile is_digit s))"

definition get_i64 :: "config \<Rightarrow> string \<Rightarrow> int \<Rightarrow> int" where
  "get_i64 cfg key def = (case cfg_find cfg key of
     None \<Rightarrow> def
   | Some i \<Rightarrow> (case strtoll (filter (\<lambda>c. c \<noteq> CHR ''_'') (snd (cfg ! i))) of
        Some (v, []) \<Rightarrow> v
      | _ \<Rightarrow> def))"

text \<open>The exponent of a decimal number, if one follows.\<close>

definition take_exp :: "string \<Rightarrow> int \<times> string" where
  "take_exp s = (case s of
     c # cs \<Rightarrow> if c = CHR ''e'' \<or> c = CHR ''E''
       then (let (sign, t) = take_sign cs; ds = takeWhile is_digit t
             in if ds = [] then (0, s) else (sign * digits_value ds, dropWhile is_digit t))
       else (0, s)
   | [] \<Rightarrow> (0, s))"

definition strtod :: "(real \<Rightarrow> real) \<Rightarrow> string \<Rightarrow> (real \<times> string) option" where
  "strtod rnd buf =
     (let (sign, s) = take_sign (dropWhile is_c_space buf); whole = takeWhile is_digit s;
          r = dropWhile is_digit s;
          dot = (r \<noteq> [] \<and> hd r = CHR ''.'' \<and> (whole \<noteq> [] \<or> takeWhile is_digit (tl r) \<noteq> []));
          frac = (if dot then takeWhile is_digit (tl r) else []);
          r = (if dot then dropWhile is_digit (tl r) else r)
      in if whole @ frac = [] then None
         else let (ex, r) = take_exp r
           in Some (rnd (of_int sign * of_int (digits_value (whole @ frac)) * 10 powi (ex - int (length frac))), r))"

definition get_f64 :: "(real \<Rightarrow> real) \<Rightarrow> config \<Rightarrow> string \<Rightarrow> real \<Rightarrow> real" where
  "get_f64 rnd cfg key def = (case cfg_find cfg key of
     None \<Rightarrow> def
   | Some i \<Rightarrow> (case strtod rnd (snd (cfg ! i)) of Some (v, []) \<Rightarrow> v | _ \<Rightarrow> def))"

definition get_bool :: "config \<Rightarrow> string \<Rightarrow> bool \<Rightarrow> bool" where
  "get_bool cfg key def = (case cfg_find cfg key of
     None \<Rightarrow> def
   | Some i \<Rightarrow> let v = snd (cfg ! i)
       in if v = ''1'' \<or> v = ''true'' \<or> v = ''yes'' then True
          else if v = ''0'' \<or> v = ''false'' \<or> v = ''no'' then False else def)"

text \<open>\<open>for_prefix\<close> with the callback as a state transformer.\<close>

definition for_prefix :: "config \<Rightarrow> string \<Rightarrow> (string \<Rightarrow> string \<Rightarrow> 's \<Rightarrow> 's) \<Rightarrow> 's \<Rightarrow> 's" where
  "for_prefix cfg prefix f s =
     fold (\<lambda>(key, val) s. if take (length prefix) key = prefix then f (drop (length prefix) key) val s else s) cfg s"

definition key_matches :: "string \<Rightarrow> string \<Rightarrow> bool" where
  "key_matches known key =
     (if known \<noteq> [] \<and> last known = CHR ''.'' then take (length known) key = known else key = known)"

definition warn_unknown :: "config \<Rightarrow> string list \<Rightarrow> nat" where
  "warn_unknown cfg known = length (filter (\<lambda>(key, val). \<not> (\<exists>k\<in>set known. key_matches k key)) cfg)"

section \<open>Lookups\<close>

text \<open>The value of a key.\<close>

definition cfg_map :: "config \<Rightarrow> string \<rightharpoonup> string" where
  "cfg_map cfg key = map_option (\<lambda>i. snd (cfg ! i)) (cfg_find cfg key)"

definition cfg_inv :: "config \<Rightarrow> bool" where
  "cfg_inv cfg \<longleftrightarrow> distinct (map fst cfg) \<and> length cfg \<le> MAX_ENTRIES
     \<and> (\<forall>(key, val)\<in>set cfg. key \<noteq> [] \<and> length key < KEY_LEN \<and> length val < VAL_LEN)"

lemma cfg_find_cases:
  obtains (absent) "cfg_find cfg key = None" "key \<notin> set (map fst cfg)"
    | (found) i where "cfg_find cfg key = Some i" "i < length cfg" "fst (cfg ! i) = key"
proof (cases "cfg_find cfg key")
  case None
  then have "key \<notin> set (map fst cfg)"
    by (fastforce simp: cfg_find_def find_None_iff in_set_conv_nth)
  then show thesis by (rule absent [OF None])
next
  case (Some i)
  then show thesis by (intro found [of i]) (auto simp: cfg_find_def find_Some_iff)
qed

lemma cfg_find_unique: "distinct (map fst cfg) \<Longrightarrow> i < length cfg \<Longrightarrow> cfg_find cfg (fst (cfg ! i)) = Some i"
proof (cases rule: cfg_find_cases [of cfg "fst (cfg ! i)"])
  case absent
  moreover assume "i < length cfg"
  ultimately show ?thesis by (metis length_map nth_map nth_mem)
next
  case (found j)
  moreover assume "distinct (map fst cfg)" "i < length cfg"
  ultimately have "j = i" by (metis length_map nth_eq_iff_index_eq nth_map)
  with found show ?thesis by simp
qed

lemma cfg_put_sound:
  assumes inv: "cfg_inv cfg" and kv: "key \<noteq> []" "length key < KEY_LEN" "length val < VAL_LEN"
  shows "cfg_inv (snd (cfg_put key val cfg))"
    and "fst (cfg_put key val cfg) \<Longrightarrow> cfg_map (snd (cfg_put key val cfg)) = (cfg_map cfg)(key \<mapsto> val)"
    and "\<not> fst (cfg_put key val cfg) \<Longrightarrow> snd (cfg_put key val cfg) = cfg \<and> length cfg = MAX_ENTRIES \<and> cfg_map cfg key = None"
proof -
  note iv = inv [unfolded cfg_inv_def]
  have "cfg_inv (snd (cfg_put key val cfg))
    \<and> (fst (cfg_put key val cfg) \<longrightarrow> cfg_map (snd (cfg_put key val cfg)) = (cfg_map cfg)(key \<mapsto> val))
    \<and> (\<not> fst (cfg_put key val cfg) \<longrightarrow> snd (cfg_put key val cfg) = cfg \<and> length cfg = MAX_ENTRIES \<and> cfg_map cfg key = None)"
  proof (cases rule: cfg_find_cases [of cfg key])
    case absent
    show ?thesis
    proof (cases "length cfg = MAX_ENTRIES")
      case True
      then show ?thesis using absent inv by (simp add: cfg_put_def cfg_map_def)
    next
      case False
      let ?c = "cfg @ [(key, val)]"
      have put: "cfg_put key val cfg = (True, ?c)" using absent False by (simp add: cfg_put_def)
      have c: "cfg_inv ?c" using iv absent(2) kv False by (auto simp: cfg_inv_def)
      have "cfg_map ?c k = ((cfg_map cfg)(key \<mapsto> val)) k" for k
      proof (cases rule: cfg_find_cases [of cfg k])
        case (found i)
        then have "cfg_find ?c k = Some i"
          using cfg_find_unique [of ?c i] c by (simp add: cfg_inv_def nth_append)
        moreover have "k \<noteq> key" using found absent(2) by (metis length_map nth_map nth_mem)
        ultimately show ?thesis using found by (simp add: cfg_map_def nth_append)
      next
        case none: absent
        show ?thesis
        proof (cases "k = key")
          case True
          have "cfg_find ?c (fst (?c ! length cfg)) = Some (length cfg)"
            using c by (intro cfg_find_unique) (simp_all add: cfg_inv_def)
          then show ?thesis using True by (simp add: cfg_map_def)
        next
          case False
          then have "cfg_find ?c k = None"
            using none(2) by (cases rule: cfg_find_cases [of ?c k]) (auto simp: nth_append split: if_splits)
          then show ?thesis using none(1) False by (simp add: cfg_map_def)
        qed
      qed
      then show ?thesis using put c by auto
    qed
  next
    case (found i)
    let ?c = "cfg[i := (key, val)]"
    have put: "cfg_put key val cfg = (True, ?c)" using found by (simp add: cfg_put_def)
    have keys: "map fst ?c = map fst cfg" using found by (simp add: map_update) (metis length_map list_update_id nth_map)
    have "\<forall>(key, val)\<in>set ?c. key \<noteq> [] \<and> length key < KEY_LEN \<and> length val < VAL_LEN"
      using iv kv set_update_subset_insert [of cfg i "(key, val)"] by blast
    then have c: "cfg_inv ?c" using iv keys by (simp add: cfg_inv_def)
    have same: "cfg_find ?c k = cfg_find cfg k" for k
    proof -
      have "fst (?c ! j) = fst (cfg ! j)" if "j < length cfg" for j
        using keys that by (metis length_list_update nth_map)
      then show ?thesis unfolding cfg_find_def by (intro find_cong) auto
    qed
    have "cfg_map ?c k = ((cfg_map cfg)(key \<mapsto> val)) k" for k
    proof (cases rule: cfg_find_cases [of cfg k])
      case absent
      then show ?thesis using found by (auto simp: cfg_map_def same)
    next
      case other: (found j)
      then show ?thesis using found by (auto simp: cfg_map_def same nth_list_update)
    qed
    then show ?thesis using put c by auto
  qed
  then show "cfg_inv (snd (cfg_put key val cfg))"
    and "fst (cfg_put key val cfg) \<Longrightarrow> cfg_map (snd (cfg_put key val cfg)) = (cfg_map cfg)(key \<mapsto> val)"
    and "\<not> fst (cfg_put key val cfg) \<Longrightarrow> snd (cfg_put key val cfg) = cfg \<and> length cfg = MAX_ENTRIES \<and> cfg_map cfg key = None"
    by blast+
qed

section \<open>Printed entries are read back\<close>

definition trimmed :: "string \<Rightarrow> bool" where
  "trimmed s \<longleftrightarrow> s \<noteq> [] \<longrightarrow> \<not> is_blank (hd s) \<and> \<not> is_line_end (last s)"

lemma trim_trimmed: "trimmed s \<Longrightarrow> trim s = s"
proof (cases s)
  case (Cons c cs)
  assume "trimmed s"
  then have "\<not> is_blank c" and l: "\<not> is_line_end (last s)" using Cons by (simp_all add: trimmed_def)
  then have "trim s = rev (dropWhile is_line_end (rev s))" using Cons by (simp add: trim_def)
  moreover obtain d ds where "rev s = d # ds" using Cons by (cases "rev s") auto
  moreover from this have "last s = d" by (metis hd_rev list.sel(1))
  ultimately show ?thesis using l by (metis dropWhile.simps(2) rev_rev_ident)
qed (simp add: trim_def)

definition entry_ok :: "string \<times> string \<Rightarrow> bool" where
  "entry_ok kv \<longleftrightarrow> (case kv of (key, val) \<Rightarrow> key \<noteq> [] \<and> hd key \<noteq> CHR ''#'' \<and> CHR ''='' \<notin> set key \<and> NL \<notin> set key
     \<and> NL \<notin> set val \<and> trimmed key \<and> trimmed val \<and> length key < KEY_LEN \<and> length val < VAL_LEN)"

definition print_entry :: "string \<times> string \<Rightarrow> string" where
  "print_entry kv = fst kv @ ''='' @ snd kv"

definition print_config :: "(string \<times> string) list \<Rightarrow> string" where
  "print_config kvs = concat (map (\<lambda>kv. print_entry kv @ [NL]) kvs)"

lemma takeWhile_until: "c \<notin> set xs \<Longrightarrow> takeWhile (\<lambda>x. x \<noteq> c) (xs @ c # ys) = xs"
  by (induction xs) auto

lemma parse_line_entry:
  assumes "entry_ok (key, val)"
  shows "parse_line (print_entry (key, val)) cfg = cfg_put key val cfg"
proof -
  let ?s = "print_entry (key, val)"
  have k: "key \<noteq> []" "hd key \<noteq> CHR ''#''" "CHR ''='' \<notin> set key" "trimmed key" "trimmed val" "length key < KEY_LEN" "length val < VAL_LEN"
    using assms by (simp_all add: entry_ok_def)
  have "trimmed ?s"
    using k by (auto simp: trimmed_def print_entry_def last_append is_line_end_def is_blank_def)
  then have t: "trim ?s = ?s" by (rule trim_trimmed)
  have "takeWhile (\<lambda>c. c \<noteq> CHR ''='') ?s = key"
    using k(3) by (simp add: print_entry_def takeWhile_until)
  then have eq: "length (takeWhile (\<lambda>c. c \<noteq> CHR ''='') ?s) = length key" by simp
  have s: "?s \<noteq> []" "hd ?s \<noteq> CHR ''#''" "length key \<noteq> length ?s" "take (length key) ?s = key" "drop (length key + 1) ?s = val"
    using k(1,2) by (simp_all add: print_entry_def)
  show ?thesis
    unfolding parse_line_def Let_def t eq s(4,5) trim_trimmed [OF k(4)] trim_trimmed [OF k(5)]
    using s(1-3) k(1,6,7) by simp
qed

lemma print_entry_line:
  assumes "entry_ok kv"
  shows "takeWhile (\<lambda>c. c \<noteq> NL) (print_entry kv @ NL # rest) = print_entry kv" and "length (print_entry kv) < LINE_LEN - 1"
proof -
  have "NL \<notin> set (print_entry kv)" "length (print_entry kv) < KEY_LEN + VAL_LEN"
    using assms by (auto simp: entry_ok_def print_entry_def split: prod.splits)
  then show "takeWhile (\<lambda>c. c \<noteq> NL) (print_entry kv @ NL # rest) = print_entry kv" "length (print_entry kv) < LINE_LEN - 1"
    by (simp_all add: takeWhile_until LINE_LEN_def)
qed

lemma cfg_put_keys: "set (map fst (snd (cfg_put key val cfg))) \<subseteq> insert key (set (map fst cfg))"
proof (cases "cfg_find cfg key")
  case (Some i)
  have "fst ` set (cfg[i := (key, val)]) \<subseteq> fst ` insert (key, val) (set cfg)"
    by (intro image_mono set_update_subset_insert)
  then show ?thesis using Some by (simp add: cfg_put_def)
qed (auto simp: cfg_put_def)

lemma parse_printed:
  assumes "\<forall>kv\<in>set kvs. entry_ok kv" "cfg_inv cfg" "card (set (map fst cfg) \<union> fst ` set kvs) \<le> MAX_ENTRIES"
  shows "\<exists>cfg'. parse_from (print_config kvs) ok cfg = (ok, cfg') \<and> load_from (print_config kvs) ok cfg = (ok, cfg')
    \<and> cfg_inv cfg' \<and> cfg_map cfg' = cfg_map cfg ++ map_of (rev kvs)"
  using assms
proof (induction kvs arbitrary: cfg)
  case Nil
  then show ?case by (subst parse_from.simps, subst load_from.simps) (simp add: print_config_def fgets_def)
next
  case (Cons kv kvs)
  obtain key val where kv: "kv = (key, val)" by (cases kv)
  have e: "entry_ok kv" "entry_ok (key, val)" using Cons.prems(1) kv by auto
  then have k: "key \<noteq> []" "length key < KEY_LEN" "length val < VAL_LEN" by (simp_all add: entry_ok_def)
  let ?c = "snd (cfg_put key val cfg)" and ?s = "print_entry kv"
  note put = cfg_put_sound [OF Cons.prems(2) k]
  have acc: "fst (cfg_put key val cfg)"
  proof (rule ccontr)
    assume "\<not> fst (cfg_put key val cfg)"
    from put(3) [OF this] have n: "length cfg = MAX_ENTRIES" "cfg_find cfg key = None" by (simp_all add: cfg_map_def)
    then have new: "key \<notin> set (map fst cfg)" by (cases rule: cfg_find_cases [of cfg key]) simp_all
    have "card (set (map fst cfg)) = MAX_ENTRIES"
      using Cons.prems(2) n(1) by (metis cfg_inv_def distinct_card length_map)
    then have more: "card (insert key (set (map fst cfg))) = Suc MAX_ENTRIES" using new by (subst card_insert_disjoint) auto
    have "card (insert key (set (map fst cfg))) \<le> card (set (map fst cfg) \<union> fst ` set (kv # kvs))"
      by (rule card_mono) (auto simp: kv)
    then have "Suc MAX_ENTRIES \<le> MAX_ENTRIES" using Cons.prems(3) unfolding more by (rule order_trans)
    then show False by simp
  qed
  have put_eq: "cfg_put key val cfg = (True, ?c)" using acc by (cases "cfg_put key val cfg") simp
  note keys = cfg_put_keys [of key val cfg]
  have "card (set (map fst ?c) \<union> fst ` set kvs) \<le> MAX_ENTRIES"
    by (rule order_trans [OF card_mono Cons.prems(3)]) (use keys kv in auto)
  with Cons.IH [of ?c] Cons.prems(1) put(1) obtain cfg' where
    IH: "parse_from (print_config kvs) ok ?c = (ok, cfg')" "load_from (print_config kvs) ok ?c = (ok, cfg')"
      "cfg_inv cfg'" "cfg_map cfg' = cfg_map ?c ++ map_of (rev kvs)" by auto
  have line: "parse_line ?s cfg = (True, ?c)" using parse_line_entry [OF e(2)] put_eq kv by simp
  have t: "print_config (kv # kvs) = ?s @ NL # print_config kvs" by (simp add: print_config_def)
  note pl = print_entry_line [OF e(1)]
  have short: "\<not> LINE_LEN \<le> length ?s" using pl(2) by linarith
  have "parse_from (?s @ NL # print_config kvs) ok cfg = parse_from (print_config kvs) ok ?c"
    using pl(1) line short by (subst parse_from.simps) (simp add: Let_def)
  moreover have "load_from (?s @ NL # print_config kvs) ok cfg = parse_from (print_config kvs) ok ?c"
  proof -
    have "fgets LINE_LEN (?s @ NL # print_config kvs) = Some (?s @ [NL], print_config kvs)"
      using pl by (simp add: fgets_def Let_def)
    moreover have "parse_line (?s @ [NL]) cfg = parse_line ?s cfg"
    proof -
      have "trim (?s @ [NL]) = trim ?s"
        using k(1) kv e(2) by (cases key) (simp_all add: trim_def print_entry_def is_line_end_def entry_ok_def trimmed_def)
      then show ?thesis by (simp add: parse_line_def)
    qed
    ultimately show ?thesis using line IH(1,2) by (subst load_from.simps) simp
  qed
  moreover have "cfg_map ?c ++ map_of (rev kvs) = cfg_map cfg ++ map_of (rev (kv # kvs))"
    using put(2) [OF acc] kv by (auto simp: map_add_def fun_eq_iff split: option.split)
  ultimately show ?case using IH t by auto
qed

end
