(* ===== verification/Exec_Setup.thy ===== *)
theory Exec_Setup
  imports Exec_Finish Strategies Account_Setup Config_File
begin

text \<open>
  Start-up of exec: \<open>RiskGate::configure\<close>, \<open>ExecContext::setup\<close> and the path of \<open>main\<close> in
  \<open>src/exec/exec_main.cpp\<close> from the set-up context to the exit code.  The instrument table is the one
  found when it first had a row (\<open>None\<close>: told to stop before that), \<open>prev\<close> the generation the
  previous exec left in shared memory, \<open>tsc_per_ns\<close> the result of the calibration.

  Shown: whatever the configuration, the context that leaves \<open>setup\<close> satisfies the invariants the
  hot loop keeps, with nothing reserved.
\<close>

section \<open>Configuration\<close>

definition llround :: "real \<Rightarrow> int" where
  "llround x = (if 0 \<le> x then \<lfloor>x + 1 / 2\<rfloor> else - \<lfloor>- x + 1 / 2\<rfloor>)"

definition cfg_money :: "(real \<Rightarrow> real) \<Rightarrow> config \<Rightarrow> string \<Rightarrow> int" where
  "cfg_money rnd cfg key = trunc (rnd (get_f64 rnd cfg key 0 * 100000000))"

definition risk_configure :: "(real \<Rightarrow> real) \<Rightarrow> config \<Rightarrow> risk_gate \<Rightarrow> risk_gate" where
  "risk_configure rnd cfg g = set_allowed_assets (get_str cfg ''risk.allowed_assets'' ''BTC,ETH'')
     (g\<lparr>rg_lim := \<lparr>rl_max_order_qty = get_i64 cfg ''risk.max_order_qty'' 0,
          rl_max_order_notional = cfg_money rnd cfg ''risk.max_order_notional'',
          rl_max_position = get_i64 cfg ''risk.max_position'' 0,
          rl_max_position_notional = cfg_money rnd cfg ''risk.max_position_notional'',
          rl_max_open_orders = word_of_int (get_i64 cfg ''risk.max_open_orders'' 0),
          rl_price_band_bp = get_f64 rnd cfg ''risk.price_band_bp'' 0,
          rl_spot_only = get_bool cfg ''risk.spot_only'' True\<rparr>\<rparr>)"

definition rate_params_from :: "(real \<Rightarrow> real) \<Rightarrow> config \<Rightarrow> kraken_rate_params" where
  "rate_params_from rnd cfg = (let d = kraken_defaults in
     \<lparr>rp_max = get_f64 rnd cfg ''kraken.rate_max'' (rp_max d),
      rp_decay_per_s = get_f64 rnd cfg ''kraken.rate_decay'' (rp_decay_per_s d),
      rp_max_open = word_of_int (get_i64 cfg ''kraken.max_open_per_pair'' (uint (rp_max_open d))),
      rp_margin = get_f64 rnd cfg ''rate.margin'' (rp_margin d)\<rparr>)"

section \<open>setup\<close>

fun register_all :: "nat list \<Rightarrow> exec_context \<Rightarrow> exec_context" where
  "register_all [] x = x"
| "register_all (i # is) x =
     (let row = it_rows (x_instruments x) (word_of_nat i); (ok, a) = add_instrument (word_of_nat i) row (x_account x);
          x = x\<lparr>x_account := a\<rparr>
      in if \<not> ok then x
         else register_all is (x\<lparr>x_risk := register_instrument (word_of_nat i) row (x_risk x),
           x_traded := (if i < 4 then (x_traded x)[i := word_of_nat i] else x_traded x)\<rparr>))"

definition set_null_balance :: "(real \<Rightarrow> real) \<Rightarrow> string \<Rightarrow> string \<Rightarrow> bool \<times> account \<Rightarrow> bool \<times> account" where
  "set_null_balance rnd asset v = (\<lambda>(ok, a). case strtod rnd v of
     Some (amount, []) \<Rightarrow> (ok, set_balance asset (llround (rnd (amount * 100000000))) a)
   | _ \<Rightarrow> (False, a))"

definition exec_setup :: "(real \<Rightarrow> real) \<Rightarrow> config \<Rightarrow> real \<Rightarrow> instrument_table option \<Rightarrow> u64 \<Rightarrow> exec_context
    \<Rightarrow> bool \<times> exec_context" where
  "exec_setup rnd cfg tsc_per_ns its prev x =
     (let x = x\<lparr>x_tsc_per_ns := tsc_per_ns,
            x_timer_cycles := word_of_int (trunc (rnd (rnd (get_f64 rnd cfg ''exec.timer_ms'' 10 * 1000000) * tsc_per_ns))),
            x_event_clock := (get_str cfg ''exec.clock'' ''event'' \<noteq> ''wall''),
            x_risk := risk_configure rnd cfg (x_risk x),
            x_rate := rate_configure (get_str cfg ''rate.model'' ''kraken'' \<noteq> ''none'') (rate_params_from rnd cfg) (x_rate x)\<rparr>
      in case its of
           None \<Rightarrow> (False, x)
         | Some its \<Rightarrow>
             let x = register_all [0..<unat (it_count its)] (x\<lparr>x_instruments := its\<rparr>);
                 (ok, a) = for_prefix cfg ''null.balance.'' (set_null_balance rnd) (True, x_account x);
                 x = x\<lparr>x_account := a\<rparr>;
                 x = upd_st (\<lambda>s. s\<lparr>es_exec_generation := prev + 1\<rparr>) x;
                 x = x\<lparr>x_orders := set_generation (es_exec_generation (x_st x)) (x_orders x)\<rparr>
             in (ok, upd_st (\<lambda>s. s\<lparr>es_limit_max_position := rl_max_position (rg_lim (x_risk x)),
                   es_limit_max_position_notional := rl_max_position_notional (rg_lim (x_risk x))\<rparr>) x))"

section \<open>main\<close>

text \<open>The context in static storage: its table pointer is null and not followed before \<open>setup\<close> sets it.\<close>

definition no_instruments :: instrument_table where
  "no_instruments = \<lparr>it_count = 0, it_rows = (\<lambda>_. \<lparr>in_tick_mant = 0, in_lot_mant = 0, in_min_qty_lots = 0,
     in_min_notional = 0, in_symbol = [], in_venue = [], in_tick_exp = 0, in_lot_exp = 0, in_price_precision = 0,
     in_qty_precision = 0, in_status = ONLINE\<rparr>)\<rparr>"

text \<open>The row core's \<open>main\<close> registers for the subscribed symbol; there is no other in ITCH mode.\<close>

definition itch_row :: "u8 list \<Rightarrow> instrument" where
  "itch_row primary = \<lparr>in_tick_mant = 1, in_lot_mant = 1, in_min_qty_lots = 1, in_min_notional = 0,
     in_symbol = map (\<lambda>b. char_of (unat b)) (takeWhile (\<lambda>b. b \<noteq> ch CHR '' '') (take 8 primary)),
     in_venue = ''ITCH'', in_tick_exp = - 4, in_lot_exp = 0, in_price_precision = 4, in_qty_precision = 0,
     in_status = ONLINE\<rparr>"

definition EXIT_SWAP :: int where "EXIT_SWAP = 75"

text \<open>From the configuration to the exit code, with the host it leaves.\<close>

definition exec_main :: "machine \<Rightarrow> config \<Rightarrow> real \<Rightarrow> instrument_table option \<Rightarrow> u64 \<Rightarrow> (u32 \<Rightarrow> exec_report)
    \<Rightarrow> 's hooks \<Rightarrow> 's \<Rightarrow> (int \<times> null_router host) option" where
  "exec_main M cfg tsc_per_ns its prev slots S s =
     (let (ok, x) = exec_setup (mc_rnd M) cfg tsc_per_ns its prev (exec_new no_instruments);
          h = \<lparr>h_x = x, h_router = ring_new slots, h_reads = 0, h_pops = 0\<rparr>
      in if \<not> ok then Some (if mc_shutdown M 0 then 0 else 2, h)
         else case run_strategy M S s h of
           None \<Rightarrow> None
         | Some (why, s, h) \<Rightarrow> map_option (Pair (if why = Exit_Swap then EXIT_SWAP else 0)) (exec_finish M h))"

section \<open>A fresh context is ready\<close>

definition unreserved :: "account \<Rightarrow> bool" where
  "unreserved a \<longleftrightarrow> acct_inv a \<and> (\<forall>b\<in>set (ac_bal a). bl_reserved b = 0)"

lemma unreserved_new: "unreserved acct_new"
  by (simp add: unreserved_def acct_new_inv) (simp add: acct_new_def)

lemma acct_asset_reserved:
  assumes "acct_asset name a = (k, b)" "\<forall>b\<in>set (ac_bal a). bl_reserved b = 0"
  shows "\<forall>b\<in>set (ac_bal b). bl_reserved b = 0"
  using assms by (auto simp: acct_asset_def split: option.splits if_splits)

lemma unreserved_add_instrument: "unreserved a \<Longrightarrow> unreserved (snd (add_instrument i row a))"
proof -
  assume a: "unreserved a"
  obtain base quot where sp: "split_symbol (in_symbol row) = (base, quot)" by (cases "split_symbol (in_symbol row)")
  obtain b a1 where b: "acct_asset base a = (b, a1)" by (cases "acct_asset base a")
  obtain q a2 where q: "acct_asset quot a1 = (q, a2)" by (cases "acct_asset quot a1")
  have "\<forall>b\<in>set (ac_bal a). bl_reserved b = 0" using a by (simp add: unreserved_def)
  then have "\<forall>b\<in>set (ac_bal a2). bl_reserved b = 0" by (rule acct_asset_reserved [OF q acct_asset_reserved [OF b]])
  then have "\<forall>b\<in>set (ac_bal (snd (add_instrument i row a))). bl_reserved b = 0"
    using a by (auto simp: add_instrument_def sp b q unreserved_def split: option.splits)
  with a show ?thesis using add_instrument_inv [of a i row] by (simp add: unreserved_def)
qed

lemma unreserved_set_balance: "unreserved a \<Longrightarrow> unreserved (set_balance name amount a)"
proof -
  assume a: "unreserved a"
  obtain k b where k: "acct_asset name a = (k, b)" by (cases "acct_asset name a")
  have r: "\<forall>b\<in>set (ac_bal b). bl_reserved b = 0" using acct_asset_reserved [OF k] a by (simp add: unreserved_def)
  have "\<forall>b\<in>set (ac_bal (set_balance name amount a)). bl_reserved b = 0"
  proof (cases k)
    case None
    then show ?thesis using r by (simp add: set_balance_def k)
  next
    case (Some i)
    then have i: "i < length (ac_bal b)" using acct_asset_sound(5) [OF k] by simp
    have "set ((ac_bal b)[i := (ac_bal b ! i)\<lparr>bl_total := amount\<rparr>])
        \<subseteq> insert ((ac_bal b ! i)\<lparr>bl_total := amount\<rparr>) (set (ac_bal b))" by (rule set_update_subset_insert)
    then show ?thesis using r Some i by (auto simp: set_balance_def k)
  qed
  with a show ?thesis using set_balance_inv [of a name amount] by (simp add: unreserved_def)
qed

lemma register_all_sound:
  "(unreserved (x_account x) \<longrightarrow> unreserved (x_account (register_all is x))) \<and> x_orders (register_all is x) = x_orders x"
proof (induction "is" x rule: register_all.induct)
  case (2 i "is" x)
  obtain ok a where a: "add_instrument (word_of_nat i) (it_rows (x_instruments x) (word_of_nat i)) (x_account x) = (ok, a)"
    by (cases "add_instrument (word_of_nat i) (it_rows (x_instruments x) (word_of_nat i)) (x_account x)")
  have "unreserved (x_account x) \<longrightarrow> unreserved a"
    using unreserved_add_instrument [of "x_account x" "word_of_nat i" "it_rows (x_instruments x) (word_of_nat i)"] a by simp
  then show ?case using 2 [OF refl a [symmetric] refl] a by (cases ok) (simp_all add: Let_def)
qed simp

lemma for_prefix_inv:
  assumes "P s" "\<And>a v s. P s \<Longrightarrow> P (f a v s)"
  shows "P (for_prefix cfg prefix f s)"
  unfolding for_prefix_def using assms(1)
  by (induction cfg arbitrary: s) (auto simp: assms(2))

lemma unreserved_reserved_at: "unreserved a \<Longrightarrow> k < length (ac_bal a) \<Longrightarrow> reserved_at a k = 0"
  by (simp add: unreserved_def reserved_at_def)

lemma set_generation_abs [simp]: "ot_abs (set_generation g t) = ot_abs t"
  by (simp add: set_generation_def ot_abs_def fun_eq_iff)

lemma set_generation_simps [simp]:
  "ot_inv (set_generation g t) = ot_inv t" "ot_counter (set_generation g t) = ot_counter t"
proof -
  have f: "ot_index (set_generation g t) = ot_index t" "ot_rows (set_generation g t) = ot_rows t"
    "ot_n (set_generation g t) = ot_n t" "ot_live (set_generation g t) = ot_live t"
    "ot_open_buy (set_generation g t) = ot_open_buy t" "ot_open_sell (set_generation g t) = ot_open_sell t"
    "ot_counter (set_generation g t) = ot_counter t"
    by (simp_all add: set_generation_def)
  then show "ot_inv (set_generation g t) = ot_inv t" "ot_counter (set_generation g t) = ot_counter t"
    by (simp_all add: ot_inv_def dense_def counts_ok_def)
qed

lemma exec_setup_ready:
  assumes n: "n < 2 ^ 40" and x: "exec_setup rnd cfg tsc_per_ns (Some its) prev (exec_new its0) = (ok, x)"
  shows "null_ready n \<lparr>h_x = x, h_router = ring_new slots, h_reads = r, h_pops = p\<rparr>" and "unreserved (x_account x)"
    and "live x = Map.empty"
proof -
  let ?P = "\<lambda>(ok, a). unreserved a"
  have step: "?P (set_null_balance rnd asset v s)" if "?P s" for asset v s
    using that unreserved_set_balance by (auto simp: set_null_balance_def split: option.splits list.splits prod.splits)
  define x1 where "x1 = register_all [0..<unat (it_count its)] ((exec_new its0)\<lparr>x_tsc_per_ns := tsc_per_ns,
    x_timer_cycles := word_of_int (trunc (rnd (rnd (get_f64 rnd cfg ''exec.timer_ms'' 10 * 1000000) * tsc_per_ns))),
    x_event_clock := (get_str cfg ''exec.clock'' ''event'' \<noteq> ''wall''),
    x_risk := risk_configure rnd cfg (x_risk (exec_new its0)),
    x_rate := rate_configure (get_str cfg ''rate.model'' ''kraken'' \<noteq> ''none'') (rate_params_from rnd cfg) (x_rate (exec_new its0)),
    x_instruments := its\<rparr>)"
  have x1: "unreserved (x_account x1)" "x_orders x1 = ot_new row_new"
    unfolding x1_def using register_all_sound by (simp_all add: exec_new_def unreserved_new)
  obtain b a where ba: "for_prefix cfg ''null.balance.'' (set_null_balance rnd) (True, x_account x1) = (b, a)"
    by (cases "for_prefix cfg ''null.balance.'' (set_null_balance rnd) (True, x_account x1)")
  have "?P (for_prefix cfg ''null.balance.'' (set_null_balance rnd) (True, x_account x1))"
    by (rule for_prefix_inv [where P = ?P, OF _ step]) (simp add: x1)
  then have a: "unreserved a" by (simp add: ba)
  have u: "unreserved (x_account x)" and o: "x_orders x = set_generation (prev + 1) (ot_new row_new)"
    using x a x1(2) by (auto simp: exec_setup_def Let_def upd_st_def x1_def [symmetric] ba)
  show "unreserved (x_account x)" by (rule u)
  show lv: "live x = Map.empty" by (simp add: live_def o ot_new_sound)
  have "exec_inv x"
    using u lv unreserved_reserved_at [OF u]
    by (simp add: exec_inv_def o ot_new_sound orders_traded_def reserved_ok_def unreserved_def)
  then show "null_ready n \<lparr>h_x = x, h_router = ring_new slots, h_reads = r, h_pops = p\<rparr>"
    using n lv by (simp add: null_ready_def host_ok_def ids_ok_def cancel_covered_def ids_left_def o ot_new_sound ring_new_inv)
      (simp add: ot_new_def)
qed

section \<open>The whole run\<close>

context strategy
begin

lemma run_strategy_ready:
  assumes "null_ready (n + 2 * k * d + k * m) h" "told_to_leave M (1 + d)" "mc_pop M (h_pops h + d + m) = None"
  shows "\<exists>e s' h'. run_strategy M S s h = Some (e, s', h') \<and> null_ready n h'
    \<and> calm (x_account (h_x h)) (x_account (h_x h')) \<and> (e = Exit_Shutdown \<longrightarrow> null_pending (h_router h') = [])"
  using run_ready [of n d m "h\<lparr>h_reads := h_reads h + 1\<rparr>" 1 _ s] assms
  by (simp add: run_strategy_def read_tsc_def)

lemma main_returns:
  fixes cfg its prev tsc_per_ns slots
  assumes "2 * k * d + k * m < 2 ^ 40" "told_to_leave M (1 + d)" "mc_pop M (d + m) = None" "mc_late M j"
  defines "setup \<equiv> exec_setup (mc_rnd M) cfg tsc_per_ns its prev (exec_new no_instruments)"
  shows "\<exists>code h. exec_main M cfg tsc_per_ns its prev slots S s = Some (code, h) \<and> code \<in> {0, 2, EXIT_SWAP}
    \<and> calm (x_account (snd setup)) (x_account (h_x h)) \<and> (fst setup \<longrightarrow> null_ready 0 h)"
proof (cases "fst setup")
  case False
  then show ?thesis by (simp add: exec_main_def setup_def [symmetric] Let_def split_beta)
next
  case True
  let ?h = "\<lparr>h_x = snd setup, h_router = ring_new slots, h_reads = 0, h_pops = 0\<rparr> :: null_router host"
  have "\<not> fst (exec_setup (mc_rnd M) cfg tsc_per_ns None prev (exec_new no_instruments))"
    by (simp add: exec_setup_def Let_def)
  then obtain t where "its = Some t" using True by (cases its) (simp_all add: setup_def)
  then have ready: "null_ready (0 + 2 * k * d + k * m) ?h"
    using assms(1) exec_setup_ready(1) [of "2 * k * d + k * m" "mc_rnd M" cfg tsc_per_ns t prev no_instruments "fst setup" "snd setup"]
    by (simp add: setup_def)
  from run_strategy_ready [OF this, of s] assms(2,3) obtain e s' h1 where
    h1: "run_strategy M S s ?h = Some (e, s', h1)" "null_ready 0 h1" "calm (x_account (snd setup)) (x_account (h_x h1))"
    by auto
  from exec_finish_returns [OF h1(2) assms(4)] obtain h2 where
    h2: "exec_finish M h1 = Some h2" "null_ready 0 h2" "calm (x_account (h_x h1)) (x_account (h_x h2))" by blast
  have "exec_main M cfg tsc_per_ns its prev slots S s = Some (if e = Exit_Swap then EXIT_SWAP else 0, h2)"
    using True h1(1) h2(1) by (simp add: exec_main_def setup_def [symmetric] Let_def split_beta)
  then show ?thesis using h2(2) calm_trans [OF h1(3) h2(3)] by (cases e) auto
qed

end

end
