(* ===== verification/Run_Properties.thy ===== *)
theory Run_Properties
  imports Exec_Setup Exec_Properties
begin

text \<open>
  The properties of exec as a whole: what a strategy's calls may do, the control word, the hot loop,
  start-up, shutdown and the configuration file.
\<close>

section \<open>A sample host\<close>

text \<open>A flat account with USD, a two-sided book, an allowlist with the instrument, no other limits.\<close>

definition sample_context :: exec_context where
  "sample_context = (exec_new no_instruments)\<lparr>x_account := sample_account,
     x_risk := risk_new\<lparr>rg_allowed_inst := (\<lambda>i. i = 0)\<rparr>,
     x_view := view_new\<lparr>mv_u := no_update\<lparr>mu_best_bid := 500000, mu_best_ask := 500100, mu_nb := 1, mu_na := 1\<rparr>\<rparr>\<rparr>"

definition sample_host :: "null_router host" where
  "sample_host = \<lparr>h_x = sample_context, h_router = ring_new (\<lambda>_. sample_fill 0 0 0), h_reads = 0, h_pops = 0\<rparr>"

definition sample_machine :: machine where
  "sample_machine = \<lparr>mc_rnd = (\<lambda>x. x), mc_tsc = (\<lambda>_. 0), mc_pop = (\<lambda>_. None), mc_flags = (\<lambda>_. 0),
     mc_shutdown = (\<lambda>i. 2 \<le> i), mc_late = (\<lambda>k. 1 \<le> k)\<rparr>"

lemma sample_host_fields [simp]:
  "x_account (h_x sample_host) = sample_account" "x_orders (h_x sample_host) = ot_new row_new"
  "live (h_x sample_host) = Map.empty" "null_pending (h_router sample_host) = []" "x_control_flags (h_x sample_host) = 0"
  "ctx_instrument sample_host = 0" "rg_lim (x_risk (h_x sample_host)) = no_limits"
  "rg_allowed_inst (x_risk (h_x sample_host)) = (\<lambda>i. i = 0)" "rm_enabled (x_rate (h_x sample_host)) = False"
  "mid2 (x_view (h_x sample_host)) = 1000100" "it_rows (x_instruments (h_x sample_host)) i = it_rows no_instruments 0"
  by (simp_all add: sample_host_def sample_context_def exec_new_def live_def ot_new_sound ring_new_inv risk_new_def
      ctx_instrument_def no_update_def rate_new_def mid2_def two_sided_def no_instruments_def)

lemma sample_ready:
  assumes "n < 2 ^ 40"
  shows "null_ready n sample_host"
proof -
  have "reserved_at sample_account k = 0" if "k < length (ac_bal sample_account)" for k
    using that by (auto simp: reserved_at_def sample_account_def less_Suc_eq)
  then have "exec_inv (h_x sample_host)"
    by (simp add: exec_inv_def sample_account_inv ot_new_sound orders_traded_def reserved_ok_def)
  then show ?thesis
    using assms by (simp add: null_ready_def host_ok_def cancel_covered_def ids_ok_def ids_left_def ot_new_sound)
      (simp add: sample_host_def ring_new_inv ot_new_def)
qed

lemma sample_verdict: "submit_verdict M (submit_check sample_host Buy 500000 100 GTC Limit now) (h_x sample_host) = Rej_None"
proof -
  have "check_new (mc_rnd M) (x_risk (h_x sample_host)) (submit_check sample_host Buy 500000 100 GTC Limit now)
      (it_rows no_instruments 0) sample_account (ot_new row_new) (x_rate (h_x sample_host)) 0 = Rej_None"
    unfolding check_new_pass
    by (simp add: passes_new_def submit_check_def status_check_def position_check_def band_check_def no_limits_def
        no_instruments_def would_allow_def Let_def)
      (simp add: ref_price_def reservation_def side_available_def notional_def tl_to_money_def acct_in_def slot_no_of_def
        quote_balance_def available_def sample_account_def pow10_i128.simps to_i64_id)
  moreover have "\<not> ot_full (ot_new row_new)" by (simp add: ot_full_def ot_new_def MAX_ROWS_def)
  ultimately show ?thesis by (simp add: submit_verdict_def submit_check_def Let_def)
qed

section \<open>Orders\<close>

lemma null_submit_decides:
  fixes M ty tf qty px sd
  assumes "null_ready (n + 1) h" and "length (null_pending (h_router h)) \<le> 1022"
  defines "c \<equiv> submit_check h sd px qty tf ty (call_now M h)" and "x \<equiv> h_x h"
  shows "\<exists>oid h' row. ctx_submit M null_submit sd px qty tf ty h = Some (oid, h') \<and> null_ready n h'
    \<and> (oid \<noteq> INVALID_ORDER \<longleftrightarrow> submit_verdict M c x = Rej_None)
    \<and> (if submit_verdict M c x = Rej_None then
         row = submit_row oid (row_tsc_decision row) c \<and> live x oid = None \<and> live (h_x h') = (live x)(oid \<mapsto> row)
         \<and> x_account (h_x h') = reserve (ctx_instrument h) sd (row_px row) qty (x_account x)
         \<and> x_rate (h_x h') = rate_charge (mc_rnd M) (ctx_instrument h) Op_Add 0 (oc_now_ns c) (x_rate x)
         \<and> null_pending (h_router h') = null_pending (h_router h) @ null_answers (submit_request row px)
       else untouched h h' \<and> x_last_reject (h_x h') = submit_verdict M c x)"
proof -
  note r = null_readyD [OF assms(1)]
  have inv: "null_inv (h_router h)" and left: "ids_left (x_orders (h_x h)) 1"
    using r(1,4) by (simp_all add: host_ok_def ids_left_def)
  have room: "null_submit req (h_router h) \<noteq> (False, h_router h)" for req
    using null_submit_sound [OF inv, of req] assms(2) by (auto simp: answers_needed_def split: if_splits)
  have ready: "null_ready n h'" if "ctx_submit M null_submit sd px qty tf ty h = Some (oid, h')" for oid h'
    using null_submit_ready [OF assms(1), of M sd px qty tf ty] that by auto
  show ?thesis
    using r(1) left
  proof (cases rule: null.submit_cases [where M = M and sd = sd and px = px and qty = qty and tf = tf and ty = ty])
    case (refused h')
    then have "submit_verdict M c x = x_last_reject (h_x h')" using room unfolding c_def x_def by metis
    then show ?thesis using refused ready by (auto simp: INVALID_ORDER_def)
  next
    case (accepted oid row h')
    have c: "oc_instrument c = ctx_instrument h" "oc_side c = sd" "oc_qty c = qty" by (simp_all add: c_def submit_check_def)
    have "row_id row = oid" by (subst accepted(5)) (simp add: submit_row_def)
    then show ?thesis
      using accepted(3-7) ready [OF accepted(1)] c
      by (intro exI [of _ oid] exI [of _ h'] exI [of _ row]) (simp add: accepted(1) sent_new_def c_def [symmetric] x_def [symmetric])
  qed
qed

text \<open>
  C21.  \<open>submit\<close> on the \<open>NullRouter\<close>, with room in its queue.  The call returns.  When the order
  passes every check of the risk gate and the order table has room, it gets a fresh id, is the one new
  live order, its reservation and its rate charge are booked, and its answers are queued; otherwise it
  returns \<open>INVALID_ORDER\<close> with the gate's reason and orders, account, rate counters and queue are
  as they were.
\<close>

theorem submit_decides:
  fixes M ty tf qty px sd
  assumes "null_ready (n + 1) h" and "length (null_pending (h_router h)) \<le> 1022"
  defines "c \<equiv> submit_check h sd px qty tf ty (call_now M h)" and "x \<equiv> h_x h"
  shows "\<exists>oid h' row. ctx_submit M null_submit sd px qty tf ty h = Some (oid, h') \<and> null_ready n h'
    \<and> (oid \<noteq> INVALID_ORDER \<longleftrightarrow> submit_verdict M c x = Rej_None)
    \<and> (if submit_verdict M c x = Rej_None then
         row = submit_row oid (row_tsc_decision row) c \<and> live x oid = None \<and> live (h_x h') = (live x)(oid \<mapsto> row)
         \<and> x_account (h_x h') = reserve (ctx_instrument h) sd (row_px row) qty (x_account x)
         \<and> x_rate (h_x h') = rate_charge (mc_rnd M) (ctx_instrument h) Op_Add 0 (oc_now_ns c) (x_rate x)
         \<and> null_pending (h_router h') = null_pending (h_router h) @ null_answers (submit_request row px)
       else untouched h h' \<and> x_last_reject (h_x h') = submit_verdict M c x)"
  unfolding assms(3,4) by (rule null_submit_decides [OF assms(1,2)])

lemma submit_decides_witness:
  "\<exists>oid h' row. ctx_submit sample_machine null_submit Buy 500000 100 GTC Limit sample_host = Some (oid, h') \<and> null_ready 5 h'
    \<and> oid \<noteq> INVALID_ORDER \<and> live (h_x h') = [oid \<mapsto> row]
    \<and> x_account (h_x h') = reserve 0 Buy (row_px row) 100 sample_account"
  using submit_decides [OF sample_ready, where n = 5 and sd = Buy and px = 500000 and qty = 100 and tf = GTC and ty = Limit
      and M = sample_machine] sample_verdict
  by (simp cong: if_cong) blast

text \<open>
  C22.  No order that is accepted breaks a limit.  It is for at least one lot of a traded and allowed
  instrument, neither \<open>KILL\<close> nor \<open>PAUSE\<close> is set, and the size and open-order limits hold.  After
  it is booked, with the position limit set, the position would stay within the limit if this and every
  other live order on its side were filled; and in spot-only mode the asset it draws on is not
  overdrawn.
\<close>

theorem accepted_orders_within_limits:
  assumes "host_ok null_inv h" and "ids_left (x_orders (h_x h)) 1"
    and "ctx_submit M null_submit sd px qty tf ty h = Some (oid, h')" and "oid \<noteq> INVALID_ORDER"
  defines "x \<equiv> h_x h" and "y \<equiv> h_x h'" and "i \<equiv> ctx_instrument h"
  defines "rl \<equiv> rg_lim (x_risk x)"
  shows "x_control_flags x AND KILL = 0 \<and> x_control_flags x AND PAUSE = 0 \<and> trades (x_account x) i
    \<and> rg_allowed_inst (x_risk x) i \<and> 0 < qty
    \<and> (rl_max_order_qty rl \<noteq> 0 \<longrightarrow> qty \<le> rl_max_order_qty rl)
    \<and> (rl_max_open_orders rl \<noteq> 0 \<longrightarrow> card (dom (live x)) < unat (rl_max_open_orders rl))
    \<and> (rl_max_position rl \<noteq> 0 \<longrightarrow> (case sd of
          Buy \<Rightarrow> \<bar>ps_qty (position_of (x_account y) i) + total_of (lots_of Buy i) (live y)\<bar> \<le> rl_max_position rl
        | Sell \<Rightarrow> \<bar>ps_qty (position_of (x_account y) i) - total_of (lots_of Sell i) (live y)\<bar> \<le> rl_max_position rl))
    \<and> (rl_spot_only rl \<longrightarrow> 0 \<le> available (ac_bal (x_account y) ! side_asset (x_account y) i sd))"
  using assms(1,2)
proof (cases rule: null.submit_cases [where M = M and sd = sd and px = px and qty = qty and tf = tf and ty = ty])
  case (refused g)
  then show ?thesis using assms(3,4) by simp
next
  case (accepted oid' row g)
  let ?c = "call_check M sd px qty tf ty h" and ?a = "x_account x"
  have c: "oc_instrument ?c = i" "oc_side ?c = sd" "oc_qty ?c = qty" "oc_px ?c = px"
    by (simp_all add: submit_check_def i_def)
  have row: "row_side row = sd" "row_instrument row = i" "row_leaves row = qty" "row_px row = ref_price ?c" "row_id row = oid'"
    by (subst accepted(5), simp add: submit_row_def c ref_price_def)+
  have y: "g = h'" using accepted(1) assms(3) by simp
  note s = accepted(6) [unfolded sent_new_def y, folded x_def y_def]
  note p = s [THEN conjunct1, unfolded passes_new_def Let_def c, folded rl_def]
  have inv: "exec_inv x" using assms(1) by (simp add: host_ok_def x_def)
  note e = exec_invD [OF inv]
  have tr: "trades ?a i" using p by blast
  have acct: "x_account y = reserve i sd (row_px row) qty ?a" using s c by simp
  note res = reserve_sound [OF e(2) tr, of sd "row_px row" qty, folded acct]
  have ti: "ot_inv (x_orders x)" "dense (x_orders x)" "counts_ok (x_orders x) (live x)"
    using e(1) by (simp_all add: ot_inv_def live_def)
  have n: "card (dom (live x)) = unat (ot_n (x_orders x))" using ot_abs_card [OF ti(2)] by (simp add: live_def)
  have lots: "total_of (lots_of sd i) (live y) = total_of (lots_of sd i) (live x) + qty"
    using s row by (simp add: total_of_fun_upd lots_of_def)
  have open_lots: "ot_open_buy (x_orders x) i = total_of (lots_of Buy i) (live x)"
    "ot_open_sell (x_orders x) i = total_of (lots_of Sell i) (live x)" using ti(3) by (simp_all add: counts_ok_def)
  have pos: "case sd of
        Buy \<Rightarrow> \<bar>ps_qty (position_of (x_account y) i) + total_of (lots_of Buy i) (live y)\<bar> \<le> rl_max_position rl
      | Sell \<Rightarrow> \<bar>ps_qty (position_of (x_account y) i) - total_of (lots_of Sell i) (live y)\<bar> \<le> rl_max_position rl"
    if "rl_max_position rl \<noteq> 0"
  proof -
    have "position_check (x_risk x) i sd qty (ref_price ?c) ?a (x_orders x) = Rej_None" using p by blast
    from position_check_pass [OF this, folded rl_def, OF that] show ?thesis
      by (cases sd) (use lots in \<open>simp_all add: res(4) open_lots algebra_simps\<close>)
  qed
  have avail: "0 \<le> available (ac_bal (x_account y) ! side_asset (x_account y) i sd)" if "rl_spot_only rl"
  proof -
    have "reservation ?a i sd (row_px row) qty \<le> side_available ?a i sd" using p that by (simp add: row(4))
    moreover have "side_available ?a i sd = total_at ?a (side_asset ?a i sd) - reserved_at ?a (side_asset ?a i sd)"
      by (simp add: side_available_def quote_balance_def base_balance_def side_asset_def available_def total_at_def
          reserved_at_def split: side.split)
    moreover have "side_asset (x_account y) i sd = side_asset ?a i sd"
      using static_money(2) [OF res(1) _, of i sd] static_inv [OF res(1) [symmetric] e(2)] static_trades [OF res(1)] tr by simp
    ultimately show ?thesis
      using res(2) [of "side_asset ?a i sd"] res(3) by (simp add: available_def total_at_def reserved_at_def)
  qed
  show ?thesis
    using p pos avail n by (simp add: word_less_nat_alt)
qed

lemma accepted_orders_within_limits_witness:
  "\<exists>oid h'. ctx_submit sample_machine null_submit Buy 500000 100 GTC Limit sample_host = Some (oid, h')
    \<and> oid \<noteq> INVALID_ORDER \<and> rg_allowed_inst (x_risk (h_x sample_host)) 0"
proof -
  have r: "null_ready 1 sample_host" by (rule sample_ready) simp
  have ok: "host_ok null_inv sample_host" "ids_left (x_orders (h_x sample_host)) 1" using null_readyD(1,4) [OF r] by simp_all
  from ok show ?thesis
  proof (cases rule: null.submit_cases [where M = sample_machine and sd = Buy and px = 500000 and qty = 100 and tf = GTC and ty = Limit])
    case (refused h')
    have "null_submit req (h_router sample_host) \<noteq> (False, h_router sample_host)" for req
      using null_submit_sound [of "h_router sample_host" req] ok(1) by (auto simp: host_ok_def answers_needed_def split: if_splits)
    then show ?thesis using refused(4,6) sample_verdict by metis
  next
    case (accepted oid row h')
    from accepted_orders_within_limits [OF ok accepted(1,3)] accepted(1,3) show ?thesis by simp
  qed
qed

text \<open>
  C23.  While \<open>KILL\<close> or \<open>PAUSE\<close> is set no new order and no replace goes out, and the calls change
  no order, balance, rate counter or queue; the reason given is the control bit, whatever else is wrong
  with the order.  Cancelling a live order still works as long as the queue has room.
\<close>

theorem kill_and_pause_stop_orders:
  fixes M :: machine
  assumes "null_ready (n + 1) h" and "x_control_flags (h_x h) AND (KILL OR PAUSE) \<noteq> 0"
  shows "(\<exists>h'. ctx_submit M null_submit sd px qty tf ty h = Some (INVALID_ORDER, h') \<and> untouched h h'
      \<and> x_last_reject (h_x h') \<in> {Rej_Kill, Rej_Pause})
    \<and> (\<exists>h'. ctx_replace M null_submit oid px qty h = Some (False, h') \<and> same_table h h')
    \<and> (\<forall>row. live (h_x h) oid = Some row \<longrightarrow> row_pending row AND PENDING_CANCEL = 0
        \<longrightarrow> length (null_pending (h_router h)) < 1024 \<longrightarrow>
        (\<exists>h' rep. ctx_cancel M null_submit oid h = Some (True, h') \<and> rp_exec_type rep = Ex_Canceled
          \<and> rp_cl_ord_id rep = oid \<and> null_pending (h_router h') = null_pending (h_router h) @ [rep]))"
proof (intro conjI allI impI)
  note r = null_readyD [OF assms(1)]
  have left: "ids_left (x_orders (h_x h)) 1" and inv: "null_inv (h_router h)"
    using r(1,4) by (simp_all add: ids_left_def host_ok_def)
  have bits: "x_control_flags (h_x h) AND KILL \<noteq> 0 \<or> x_control_flags (h_x h) AND PAUSE \<noteq> 0"
    using assms(2) by (auto simp: bit.conj_disj_distrib)
  then have v: "submit_verdict M c (h_x h) \<in> {Rej_Kill, Rej_Pause}" for c
    by (auto simp: submit_verdict_def check_new_def Let_def)
  show "\<exists>h'. ctx_submit M null_submit sd px qty tf ty h = Some (INVALID_ORDER, h') \<and> untouched h h'
      \<and> x_last_reject (h_x h') \<in> {Rej_Kill, Rej_Pause}"
    using r(1) left
  proof (cases rule: null.submit_cases [where M = M and sd = sd and px = px and qty = qty and tf = tf and ty = ty])
    case (refused h')
    then show ?thesis using v [of "call_check M sd px qty tf ty h"] by auto
  next
    case (accepted oid row h')
    then show ?thesis using v [of "call_check M sd px qty tf ty h"] by auto
  qed
  show "\<exists>h'. ctx_replace M null_submit oid px qty h = Some (False, h') \<and> same_table h h'"
    using r(1)
  proof (cases rule: null.replace_cases [where M = M and oid = oid and px = px and qty = qty])
    case (accepted row tsc h')
    from check_replace_pass(1,2) [OF accepted(5) [unfolded replace_verdict_def]] bits show ?thesis by blast
  qed blast
  fix row assume row: "live (h_x h) oid = Some row" "row_pending row AND PENDING_CANCEL = 0"
    and room: "length (null_pending (h_router h)) < 1024"
  show "\<exists>h' rep. ctx_cancel M null_submit oid h = Some (True, h') \<and> rp_exec_type rep = Ex_Canceled
      \<and> rp_cl_ord_id rep = oid \<and> null_pending (h_router h') = null_pending (h_router h) @ [rep]"
    using r(1)
  proof (cases rule: null.cancel_cases [where M = M and oid = oid])
    case (full h' row' tsc)
    have "answers_needed (row_request oid row' Req_Cancel tsc (row_px row') (row_leaves row')) = 1"
      by (simp add: answers_needed_def row_request_def)
    then show ?thesis using full(5) null_submit_sound [OF inv, of "row_request oid row' Req_Cancel tsc (row_px row') (row_leaves row')"] room
      by auto
  next
    case (accepted row' tsc h')
    then show ?thesis
      by (intro exI [of _ h'] exI [of _ "hd (null_answers (row_request oid row' Req_Cancel tsc (row_px row') (row_leaves row')))"])
        (simp add: null_answers_def Let_def row_request_def answer_base_def)
  qed (use row in auto)
qed

lemma kill_and_pause_stop_orders_witness:
  "\<exists>h'. ctx_submit sample_machine null_submit Buy 500000 100 GTC Limit
      (upd_x (\<lambda>x. x\<lparr>x_control_flags := 4\<rparr>) sample_host) = Some (INVALID_ORDER, h')
    \<and> x_last_reject (h_x h') \<in> {Rej_Kill, Rej_Pause}"
proof -
  let ?h = "upd_x (\<lambda>x. x\<lparr>x_control_flags := 4\<rparr>) sample_host"
  have "null_ready (1 + 1) sample_host" by (rule sample_ready) simp
  then have "null_ready (1 + 1) ?h" using ready_same(1) [of ?h sample_host "1 + 1"] by simp
  from kill_and_pause_stop_orders [OF this, where M = sample_machine and sd = Buy and px = 500000 and qty = 100 and tf = GTC
      and ty = Limit] show ?thesis by (simp add: KILL_def PAUSE_def) blast
qed

lemma notional_zero [simp]: "notional a i 0 q = 0"
  by (simp add: notional_def tl_to_money_def to_i64_def Let_def)

lemma reserve_at_zero [simp]: "reserve i Buy 0 q a = a"
  by (simp add: reserve_def reservation_def upd_bal_def add_reserved_def Let_def)

lemma position_check_at_zero:
  assumes "0 \<le> rl_max_position_notional (rg_lim g)"
  shows "position_check g i Buy q 0 a t = Rej_None \<longleftrightarrow> (rl_max_position (rg_lim g) \<noteq> 0
    \<longrightarrow> \<bar>ps_qty (position_of a i) + ot_open_buy t i + q\<bar> \<le> rl_max_position (rg_lim g))"
  using assms by (auto simp: position_check_def Let_def)


text \<open>The sample host without money and with an empty book.\<close>

definition poor_host :: "null_router host" where
  "poor_host = upd_x (\<lambda>x. x\<lparr>x_view := view_new,
     x_account := sample_account\<lparr>ac_bal := [\<lparr>bl_name = ''TQQQ'', bl_total = 0, bl_reserved = 0\<rparr>,
       \<lparr>bl_name = ''USD'', bl_total = 0, bl_reserved = 0\<rparr>]\<rparr>\<rparr>) sample_host"

lemma poor_ready: "null_ready 1 poor_host"
proof -
  let ?a = "x_account (h_x poor_host)"
  have a: "acct_inv ?a" "length (ac_bal ?a) = 2" "k < 2 \<Longrightarrow> reserved_at ?a k = 0" for k
    by (auto simp: poor_host_def acct_inv_def sample_account_def MAX_TRADED_def MAX_ASSETS_def reserved_at_def less_2_cases_iff)
  have o: "x_orders (h_x poor_host) = ot_new row_new" "h_router poor_host = h_router sample_host" by (simp_all add: poor_host_def)
  then have "live (h_x poor_host) = Map.empty" by (simp add: live_def ot_new_sound)
  then have "exec_inv (h_x poor_host)"
    using a by (simp add: exec_inv_def o ot_new_sound orders_traded_def reserved_ok_def)
  moreover have "null_ready 1 sample_host" by (rule sample_ready) simp
  ultimately show ?thesis
    using \<open>live (h_x poor_host) = Map.empty\<close> by (simp add: null_ready_def host_ok_def o cancel_covered_def)
qed


section \<open>Start-up and shutdown\<close>

text \<open>
  C25.  Whatever the configuration file and the instrument table say, the context exec starts with is
  well formed: at most sixteen instruments and assets, every slot and asset index in range, no live
  order and nothing reserved; and no order id it will issue can equal one the previous exec issued,
  whose generation was one less.
\<close>

theorem setup_is_well_formed:
  assumes "exec_setup rnd cfg tsc_per_ns (Some its) prev (exec_new its0) = (ok, x)"
  shows "exec_inv x \<and> acct_inv (x_account x) \<and> live x = Map.empty \<and> (\<forall>b\<in>set (ac_bal (x_account x)). bl_reserved b = 0)
    \<and> (\<forall>t c. ot_gen t = prev AND 0xFFFFFF \<longrightarrow> fst (next_id t) \<noteq> fst (next_id ((x_orders x)\<lparr>ot_counter := c\<rparr>)))"
proof -
  have n: "(0 :: nat) < 2 ^ 40" by simp
  have "host_ok null_inv \<lparr>h_x = x, h_router = ring_new (\<lambda>_. sample_fill 0 0 0), h_reads = 0, h_pops = 0\<rparr>"
    by (rule null_readyD(1) [OF exec_setup_ready(1) [OF n assms]])
  then have inv: "exec_inv x" by (simp add: host_ok_def)
  have gen: "ot_gen (x_orders x) = (prev + 1) AND 0xFFFFFF"
    using assms by (auto simp: exec_setup_def set_generation_def Let_def upd_st_def split: prod.splits)
  have "fst (next_id t) \<noteq> fst (next_id ((x_orders x)\<lparr>ot_counter := c\<rparr>))" if "ot_gen t = prev AND 0xFFFFFF" for t c
    using next_id_generation [of t prev] next_id_generation [of "(x_orders x)\<lparr>ot_counter := c\<rparr>" "prev + 1"]
      generation_advances [of prev] that gen by auto
  with inv exec_setup_ready(2,3) [OF n assms] show ?thesis by (simp add: unreserved_def)
qed

lemma setup_is_well_formed_witness:
  "\<exists>ok x. exec_setup (\<lambda>r. r) [(''null.balance.USD'', ''1000'')] 3 (Some \<lparr>it_count = 1, it_rows = (\<lambda>_. itch_row TQQQ)\<rparr>) 8
      (exec_new no_instruments) = (ok, x)
    \<and> exec_inv x \<and> live x = Map.empty"
proof -
  let ?s = "exec_setup (\<lambda>r. r) [(''null.balance.USD'', ''1000'')] 3 (Some \<lparr>it_count = 1, it_rows = (\<lambda>_. itch_row TQQQ)\<rparr>) 8
      (exec_new no_instruments)"
  obtain ok x where x: "?s = (ok, x)" by (cases ?s)
  from setup_is_well_formed [OF x] x show ?thesis by simp
qed

text \<open>
  C26.  The end of \<open>main\<close> leaves nothing resting: when the router's queue has room for the reports
  still in it and one cancellation for every live order, and the deadline has not passed at the first
  look, \<open>cancel_all\<close> and the wait return with no live order, and balances and positions are those of
  before.
\<close>

theorem shutdown_leaves_nothing_resting:
  assumes "null_ready n h" and "length (null_pending (h_router h)) + card (dom (live (h_x h))) \<le> 1024" and "\<not> mc_late M 0"
  shows "\<exists>h'. exec_finish M h = Some h' \<and> live (h_x h') = Map.empty \<and> calm (x_account (h_x h)) (x_account (h_x h'))"
proof -
  have "exec_inv (h_x h)" using null_readyD(1) [OF assms(1)] by (simp add: host_ok_def)
  from live_rows(3) [OF this] have "length (null_pending (h_router h)) + unat (ot_n (x_orders (h_x h))) \<le> 1024"
    using assms(2) by simp
  from exec_finish_empties [OF assms(1) this assms(3)] show ?thesis by blast
qed

lemma shutdown_leaves_nothing_resting_witness:
  "\<exists>oid h h'. ctx_submit sample_machine null_submit Buy 500000 100 GTC Limit sample_host = Some (oid, h)
    \<and> exec_finish sample_machine h = Some h' \<and> live (h_x h') = Map.empty"
proof -
  have r: "null_ready (1 + 1) sample_host" by (rule sample_ready) simp
  have left: "ids_left (x_orders (h_x sample_host)) 1" using null_readyD(4) [OF r] by (simp add: ids_left_def)
  obtain oid h where run: "ctx_submit sample_machine null_submit Buy 500000 100 GTC Limit sample_host = Some (oid, h)"
    and h: "null_ready 1 h" using null_submit_ready [OF r] by blast
  from null_readyD(1) [OF r] left
  have "length (null_pending (h_router h)) + card (dom (live (h_x h))) \<le> 1024"
  proof (cases rule: null.submit_cases [where M = sample_machine and sd = Buy and px = 500000 and qty = 100 and tf = GTC and ty = Limit])
    case (refused g)
    then have "g = h" using run by simp
    then show ?thesis using refused(3) by (simp add: untouched_def)
  next
    case (accepted oid' row g)
    have "g = h" using run accepted(1) by simp
    moreover have "length (null_answers (submit_request row 500000)) \<le> 2"
      by (simp add: null_answers_def Let_def split: req_type.split)
    ultimately show ?thesis using accepted(6,7) by (simp add: sent_new_def)
  qed
  from shutdown_leaves_nothing_resting [OF h this, of sample_machine] run show ?thesis by (auto simp: sample_machine_def)
qed

text \<open>
  The whole process with the \<open>DummyQuoter\<close>: with any configuration, instrument table, time-stamp
  readings and frames, \<open>main\<close> exits, as long as it is told to stop or to swap some time, the feed runs dry
  some time after, the final deadline passes some time, and the orders it could make do not exhaust the
  40-bit ids.  The exit code is one of the three, and on the \<open>NullRouter\<close> the run has traded nothing:
  every balance and position is what start-up made it.
\<close>

theorem exec_main_exits:
  fixes cfg its prev tsc_per_ns slots
  assumes "told_to_leave M (1 + d)" and "mc_pop M (d + m) = None" and "mc_late M j" and "4 * d + 2 * m < 2 ^ 40"
  defines "setup \<equiv> exec_setup (mc_rnd M) cfg tsc_per_ns its prev (exec_new no_instruments)"
  shows "\<exists>code h. exec_main M cfg tsc_per_ns its prev slots (dummy_hooks M) dummy_new = Some (code, h)
    \<and> code \<in> {0, 2, EXIT_SWAP} \<and> calm (x_account (snd setup)) (x_account (h_x h))
    \<and> (fst setup \<longrightarrow> exec_inv (h_x h))"
proof -
  have "2 * 2 * d + 2 * m < 2 ^ 40" using assms(4) by simp
  from dummy.main_returns [OF this assms(1-3), where cfg = cfg and its = its and prev = prev and tsc_per_ns = tsc_per_ns
      and slots = slots and s = dummy_new, folded setup_def]
  show ?thesis using null_readyD(1) by (auto simp: host_ok_def)
qed

lemma exec_main_exits_witness:
  "\<exists>code h. exec_main sample_machine [(''null.balance.USD'', ''1000'')] 3
      (Some \<lparr>it_count = 1, it_rows = (\<lambda>_. itch_row TQQQ)\<rparr>) 8 (\<lambda>_. sample_fill 0 0 0)
      (dummy_hooks sample_machine) dummy_new = Some (code, h) \<and> code \<in> {0, 2, EXIT_SWAP}"
proof -
  have "told_to_leave sample_machine (1 + 1)" "mc_pop sample_machine (1 + 0) = None" "mc_late sample_machine 1"
    by (simp_all add: sample_machine_def told_to_leave_def)
  from exec_main_exits [OF this, of "[(''null.balance.USD'', ''1000'')]" 3
      "Some \<lparr>it_count = 1, it_rows = (\<lambda>_. itch_row TQQQ)\<rparr>" 8 "\<lambda>_. sample_fill 0 0 0"] show ?thesis by auto
qed

section \<open>The configuration file\<close>

text \<open>
  C27.  Printing entries as lines \<open>key=value\<close> and reading them back, from a string or from a file,
  succeeds and gives for every key the last value printed, or the default.  Keys and values fit into
  their buffers, are trimmed and hold no separator, and there are at most as many keys as slots.
\<close>

theorem config_round_trip:
  assumes "\<forall>kv\<in>set kvs. entry_ok kv" and "card (fst ` set kvs) \<le> MAX_ENTRIES"
  shows "\<exists>cfg. cfg_parse (print_config kvs) [] = (True, cfg) \<and> cfg_load (Some (print_config kvs)) [] = (True, cfg)
    \<and> (\<forall>key def. get_str cfg key def = (case map_of (rev kvs) key of None \<Rightarrow> def | Some v \<Rightarrow> v))"
proof -
  have e: "cfg_inv []" "cfg_map [] = Map.empty" by (simp_all add: cfg_inv_def cfg_map_def cfg_find_def fun_eq_iff)
  obtain cfg where cfg: "parse_from (print_config kvs) True [] = (True, cfg)" "load_from (print_config kvs) True [] = (True, cfg)"
    "cfg_map cfg = map_of (rev kvs)"
    using parse_printed [OF assms(1) e(1), of True] assms(2) e(2) by auto
  have "get_str cfg key def = (case cfg_map cfg key of None \<Rightarrow> def | Some v \<Rightarrow> v)" for key def
    by (simp add: get_str_def cfg_map_def split: option.split)
  then show ?thesis using cfg by (simp add: cfg_parse_def cfg_load_def)
qed

lemma config_round_trip_witness:
  "\<exists>cfg. cfg_parse (print_config [(''risk.max_position'', ''10''), (''risk.max_position'', ''500'')]) [] = (True, cfg)
    \<and> get_str cfg ''risk.max_position'' ''0'' = ''500''"
proof -
  have "entry_ok (''risk.max_position'', ''10'')" "entry_ok (''risk.max_position'', ''500'')"
    by (simp_all add: entry_ok_def trimmed_def is_blank_def is_line_end_def KEY_LEN_def VAL_LEN_def)
  then show ?thesis
    using config_round_trip [of "[(''risk.max_position'', ''10''), (''risk.max_position'', ''500'')]"]
    by (auto simp: MAX_ENTRIES_def)
qed

end
