(* ===== verification/Manager.thy ===== *)
theory Manager
  imports Config_File Risk
begin

text \<open>
  \<open>src/manager/manager.cpp\<close>: the supervisor as a state machine.  An iteration of its loop is a function
  of what \<open>waitpid\<close> returned, of the pid \<open>fork\<close> returns if the iteration starts a process, and of the
  configuration file at that time.  What it does to other processes (\<open>fork\<close> and \<open>execv\<close>, signals,
  bits set in the control word) is the log \<open>mg_log\<close>.  The second half puts the loop into a \<open>world\<close> with
  its children, the two signals and the operator, as an inductive relation.
\<close>

section \<open>Workers\<close>

datatype role = EXCHANGE | CORE | EXEC | DASHBOARD

definition ROLES :: "role list" where "ROLES = [EXCHANGE, CORE, EXEC, DASHBOARD]"

definition MG_EXIT_SWAP :: int where "MG_EXIT_SWAP = 75"

record worker =
  wk_pid :: int
  wk_path :: string
  wk_args :: "string list"

text \<open>\<open>snprintf\<close> into a buffer of \<open>n\<close> bytes.\<close>

definition fit :: "nat \<Rightarrow> string \<Rightarrow> string" where
  "fit n s = take (n - 1) s"

definition add_arg :: "string \<Rightarrow> string \<Rightarrow> worker \<Rightarrow> worker" where
  "add_arg prefix v w = w\<lparr>wk_args := wk_args w @ [fit 300 (prefix @ v)]\<rparr>"

definition make_exec :: "string \<Rightarrow> string \<Rightarrow> string \<Rightarrow> worker \<Rightarrow> worker" where
  "make_exec spec mode cfg_path w =
     (let w = w\<lparr>wk_args := []\<rparr>;
          w = (if take 8 spec = ''builtin:'' \<and> CHR ''/'' \<notin> set (drop 8 spec)
               then w\<lparr>wk_path := fit 256 (''./exec_main_'' @ drop 8 spec)\<rparr>
               else w\<lparr>wk_path := ''./exec_main''\<rparr>)
      in add_arg ''--config='' cfg_path (add_arg ''--strategy='' spec (add_arg ''--mode='' mode w)))"

section \<open>State\<close>

datatype action = Act_Spawn role worker int | Act_Control u32 | Act_Term_Group | Act_Term_Exec int

record manager =
  mg_worker :: "role \<Rightarrow> worker"
  mg_flags :: u32
  mg_swap_path :: string
  mg_exit_code :: int
  mg_shutting_down :: bool
  mg_restart_pending :: bool
  mg_shutdown_req :: bool
  mg_restart_req :: bool
  mg_log :: "action list"

text \<open>What \<open>main\<close> read from its configuration at the start.\<close>

record mg_env =
  me_cfg :: config
  me_cfg_path :: string
  me_exec_mode :: string
  me_auto_restart :: bool

definition set_control :: "u32 \<Rightarrow> manager \<Rightarrow> manager" where
  "set_control bits mg = mg\<lparr>mg_flags := mg_flags mg OR bits, mg_log := mg_log mg @ [Act_Control bits]\<rparr>"

definition mg_spawn :: "role \<Rightarrow> int \<Rightarrow> manager \<Rightarrow> manager" where
  "mg_spawn r pid mg = mg\<lparr>mg_worker := (mg_worker mg)(r := (mg_worker mg r)\<lparr>wk_pid := pid\<rparr>),
     mg_log := mg_log mg @ [Act_Spawn r (mg_worker mg r) pid]\<rparr>"

section \<open>Start\<close>

definition default_strategy :: "config \<Rightarrow> string" where
  "default_strategy cfg = get_str cfg ''strategy'' ''builtin:logging''"

definition mg_workers :: "mg_env \<Rightarrow> role \<Rightarrow> worker" where
  "mg_workers env r = (let cfg = me_cfg env; w = \<lparr>wk_pid = - 1, wk_path = [], wk_args = []\<rparr> in case r of
     EXCHANGE \<Rightarrow> add_arg ''--config='' (me_cfg_path env)
       (add_arg [] (get_str cfg ''feed_path'' ''../itch_feed/S071321-v50.txt'') (w\<lparr>wk_path := ''./exchange_main''\<rparr>))
   | CORE \<Rightarrow> add_arg ''--config='' (me_cfg_path env) (w\<lparr>wk_path := ''./core_main''\<rparr>)
   | EXEC \<Rightarrow> make_exec (default_strategy cfg) (me_exec_mode env) (me_cfg_path env) w
   | DASHBOARD \<Rightarrow> add_arg ''--config='' (me_cfg_path env) (w\<lparr>wk_path := ''./dashboard''\<rparr>))"

text \<open>\<open>pids\<close>: what \<open>fork\<close> returns for each worker.\<close>

definition mg_start :: "mg_env \<Rightarrow> (role \<Rightarrow> int) \<Rightarrow> manager" where
  "mg_start env pids =
     fold (\<lambda>r mg. if r \<noteq> DASHBOARD \<or> get_bool (me_cfg env) ''dashboard'' True then mg_spawn r (pids r) mg else mg) ROLES
       \<lparr>mg_worker = mg_workers env, mg_flags = 0, mg_swap_path = [], mg_exit_code = 0, mg_shutting_down = False,
        mg_restart_pending = False, mg_shutdown_req = False, mg_restart_req = False, mg_log = []\<rparr>"

text \<open>\<open>main\<close> up to the loop: an exit code, or the supervisor's start.\<close>

definition manager_main :: "string \<Rightarrow> string option \<Rightarrow> bool \<Rightarrow> (role \<Rightarrow> int) \<Rightarrow> int + (mg_env \<times> manager)" where
  "manager_main cfg_path file shm_ok pids =
     (case cfg_load file [] of (ok, cfg) \<Rightarrow>
        if \<not> ok then Inl 2
        else if get_str cfg ''mode'' ''itch'' \<noteq> ''itch'' then Inl 2
        else if \<not> shm_ok then Inl 1
        else let env = \<lparr>me_cfg = cfg, me_cfg_path = cfg_path, me_exec_mode = get_str cfg ''exec.mode'' ''null'',
                   me_auto_restart = get_bool cfg ''auto_restart_exec'' False\<rparr>
          in Inr (env, mg_start env pids))"

section \<open>The loop\<close>

definition next_strategy :: "mg_env \<Rightarrow> string option \<Rightarrow> manager \<Rightarrow> string \<times> manager" where
  "next_strategy env file mg =
     (if mg_swap_path mg \<noteq> [] then (fit 256 (take 248 (mg_swap_path mg)), mg\<lparr>mg_swap_path := []\<rparr>)
      else case cfg_load file [] of (ok, fresh) \<Rightarrow>
        (fit 256 (if ok then default_strategy fresh else default_strategy (me_cfg env)), mg))"

definition respawn_exec :: "mg_env \<Rightarrow> string option \<Rightarrow> int \<Rightarrow> manager \<Rightarrow> manager" where
  "respawn_exec env file pid mg =
     (let (spec, mg) = next_strategy env file mg;
          w = make_exec spec (me_exec_mode env) (me_cfg_path env) (mg_worker mg EXEC)
      in mg_spawn EXEC pid (mg\<lparr>mg_worker := (mg_worker mg)(EXEC := w)\<rparr>))"

definition begin_shutdown :: "int \<Rightarrow> manager \<Rightarrow> manager" where
  "begin_shutdown code mg =
     (if mg_shutting_down mg then mg
      else mg\<lparr>mg_shutting_down := True, mg_exit_code := code, mg_log := mg_log mg @ [Act_Term_Group]\<rparr>)"

definition mg_signals :: "manager \<Rightarrow> manager" where
  "mg_signals mg =
     (let mg = (if mg_shutdown_req mg \<and> \<not> mg_shutting_down mg then begin_shutdown 0 mg else mg)
      in if mg_restart_req mg then
           let mg = mg\<lparr>mg_restart_req := False\<rparr>
           in if \<not> mg_shutting_down mg \<and> wk_pid (mg_worker mg EXEC) > 0 \<and> \<not> mg_restart_pending mg
              then mg\<lparr>mg_restart_pending := True, mg_log := mg_log mg @ [Act_Term_Exec (wk_pid (mg_worker mg EXEC))]\<rparr>
              else mg
         else mg)"

datatype exit_status = Exited int | Signaled int

datatype wait_result = W_None | W_Eintr | W_No_Child | W_Exit int exit_status

definition clean :: "exit_status \<Rightarrow> bool" where
  "clean st \<longleftrightarrow> st = Exited 0"

text \<open>The search for the worker of a pid: the last one that has it.\<close>

definition role_of :: "manager \<Rightarrow> int \<Rightarrow> role option" where
  "role_of mg pid = fold (\<lambda>k found. if wk_pid (mg_worker mg k) = pid then Some k else found) ROLES None"

definition on_exit :: "mg_env \<Rightarrow> string option \<Rightarrow> int \<Rightarrow> role \<Rightarrow> exit_status \<Rightarrow> manager \<Rightarrow> manager" where
  "on_exit env file pid r st mg = (case r of
     EXEC \<Rightarrow>
       if mg_restart_pending mg then respawn_exec env file pid (mg\<lparr>mg_restart_pending := False\<rparr>)
       else if st = Exited MG_EXIT_SWAP then respawn_exec env file pid mg
       else let mg = set_control KILL mg
         in if me_auto_restart env then respawn_exec env file pid mg else begin_shutdown 1 mg
   | DASHBOARD \<Rightarrow> mg
   | _ \<Rightarrow> if clean st then begin_shutdown 0 mg else begin_shutdown 1 (set_control (KILL OR PAUSE) mg))"

definition mg_reap :: "mg_env \<Rightarrow> string option \<Rightarrow> int \<Rightarrow> int \<Rightarrow> exit_status \<Rightarrow> manager \<Rightarrow> manager" where
  "mg_reap env file fork_pid pid st mg =
     (case role_of mg pid of
        None \<Rightarrow> mg
      | Some r \<Rightarrow>
          let mg = mg\<lparr>mg_worker := (mg_worker mg)(r := (mg_worker mg r)\<lparr>wk_pid := - 1\<rparr>)\<rparr>
          in if mg_shutting_down mg then mg else on_exit env file fork_pid r st mg)"

text \<open>One iteration: \<open>False\<close> when the loop is left.\<close>

definition mg_iterate :: "mg_env \<Rightarrow> wait_result \<Rightarrow> string option \<Rightarrow> int \<Rightarrow> manager \<Rightarrow> bool \<times> manager" where
  "mg_iterate env wait file fork_pid mg =
     (let mg = mg_signals mg in case wait of
        W_None \<Rightarrow> (True, mg)
      | W_Eintr \<Rightarrow> (True, mg)
      | W_No_Child \<Rightarrow> (False, mg)
      | W_Exit pid st \<Rightarrow> (True, mg_reap env file fork_pid pid st mg))"

section \<open>The world\<close>

text \<open>
  The children are the processes the manager forked and has not waited for.  \<open>fork\<close> fails or returns
  a pid no child has; \<open>waitpid\<close> returns a child that ended, nothing yet while there are children, and
  \<open>ECHILD\<close> when there are none.
\<close>

record world =
  wd_mg :: manager
  wd_children :: "int set"
  wd_over :: bool

datatype mg_event = Sig_Term | Sig_Usr1 | Set_Flags u32 | Set_Swap string | Poll wait_result "string option" int

fun forked :: "action list \<Rightarrow> int set" where
  "forked [] = {}"
| "forked (Act_Spawn r w pid # as) = (if 0 < pid then insert pid (forked as) else forked as)"
| "forked (_ # as) = forked as"

fun reaped :: "wait_result \<Rightarrow> int set" where
  "reaped (W_Exit pid st) = {pid}"
| "reaped _ = {}"

definition fork_ok :: "int set \<Rightarrow> int \<Rightarrow> bool" where
  "fork_ok children pid \<longleftrightarrow> pid = - 1 \<or> 0 < pid \<and> pid \<notin> children"

fun ev_legal :: "world \<Rightarrow> mg_event \<Rightarrow> bool" where
  "ev_legal wd (Poll wait file pid) \<longleftrightarrow> \<not> wd_over wd \<and> fork_ok (wd_children wd - reaped wait) pid \<and> (case wait of
     W_None \<Rightarrow> wd_children wd \<noteq> {} | W_Eintr \<Rightarrow> True | W_No_Child \<Rightarrow> wd_children wd = {}
   | W_Exit p st \<Rightarrow> p \<in> wd_children wd)"
| "ev_legal wd _ \<longleftrightarrow> True"

fun wd_step :: "mg_env \<Rightarrow> mg_event \<Rightarrow> world \<Rightarrow> world" where
  "wd_step env Sig_Term wd = wd\<lparr>wd_mg := (wd_mg wd)\<lparr>mg_shutdown_req := True\<rparr>\<rparr>"
| "wd_step env Sig_Usr1 wd = wd\<lparr>wd_mg := (wd_mg wd)\<lparr>mg_restart_req := True\<rparr>\<rparr>"
| "wd_step env (Set_Flags f) wd = wd\<lparr>wd_mg := (wd_mg wd)\<lparr>mg_flags := f\<rparr>\<rparr>"
| "wd_step env (Set_Swap s) wd = wd\<lparr>wd_mg := (wd_mg wd)\<lparr>mg_swap_path := s\<rparr>\<rparr>"
| "wd_step env (Poll wait file pid) wd =
     (case mg_iterate env wait file pid (wd_mg wd) of (go, mg) \<Rightarrow>
        \<lparr>wd_mg = mg, wd_children = (wd_children wd - reaped wait) \<union> forked (drop (length (mg_log (wd_mg wd))) (mg_log mg)),
         wd_over = \<not> go\<rparr>)"

definition wd_start :: "mg_env \<Rightarrow> (role \<Rightarrow> int) \<Rightarrow> world" where
  "wd_start env pids = \<lparr>wd_mg = mg_start env pids, wd_children = forked (mg_log (mg_start env pids)), wd_over = False\<rparr>"

inductive mg_reach :: "mg_env \<Rightarrow> (role \<Rightarrow> int) \<Rightarrow> world \<Rightarrow> bool" for env pids where
  start: "mg_reach env pids (wd_start env pids)"
| step: "mg_reach env pids wd \<Longrightarrow> ev_legal wd ev \<Longrightarrow> mg_reach env pids (wd_step env ev wd)"

end
