(* ===== verification/Manager_Facts.thy ===== *)
theory Manager_Facts
  imports Manager
begin

text \<open>
  What the supervisor keeps in every reachable world: its table names exactly its children, one per
  role; the signal to the process group is the last thing it does to others, once; an exit code of one
  means that it set \<open>KILL\<close>; and it leaves its loop only when no child is left.
\<close>

section \<open>Shutting down\<close>

definition shut_ok :: "manager \<Rightarrow> bool" where
  "shut_ok mg \<longleftrightarrow> (if mg_shutting_down mg
       then \<exists>pre. mg_log mg = pre @ [Act_Term_Group] \<and> Act_Term_Group \<notin> set pre
       else Act_Term_Group \<notin> set (mg_log mg) \<and> mg_exit_code mg = 0)
     \<and> (mg_exit_code mg = 0 \<or> mg_exit_code mg = 1 \<and> (\<exists>bits. Act_Control bits \<in> set (mg_log mg) \<and> bits AND KILL \<noteq> 0))"

definition pids_of :: "manager \<Rightarrow> role \<Rightarrow> int" where
  "pids_of mg r = wk_pid (mg_worker mg r)"

text \<open>\<open>log_plus mg as mg'\<close>: the actions taken from \<open>mg\<close> to \<open>mg'\<close>.\<close>

definition log_plus :: "manager \<Rightarrow> action list \<Rightarrow> manager \<Rightarrow> bool" where
  "log_plus mg as mg' \<longleftrightarrow> mg_log mg' = mg_log mg @ as"

lemma log_plusD: "log_plus mg as mg' \<Longrightarrow> drop (length (mg_log mg)) (mg_log mg') = as"
  by (simp add: log_plus_def)

lemma forked_append [simp]: "forked (as @ bs) = forked as \<union> forked bs"
  by (induction as rule: forked.induct) auto

lemma begin_shutdown_sound:
  assumes "shut_ok mg" "code = 0 \<or> code = 1 \<and> (\<exists>bits. Act_Control bits \<in> set (mg_log mg) \<and> bits AND KILL \<noteq> 0)"
  shows "shut_ok (begin_shutdown code mg)" and "pids_of (begin_shutdown code mg) = pids_of mg"
    and "log_plus mg (if mg_shutting_down mg then [] else [Act_Term_Group]) (begin_shutdown code mg)"
    and "mg_shutting_down (begin_shutdown code mg)"
    and "mg_shutting_down mg \<Longrightarrow> begin_shutdown code mg = mg"
  using assms by (auto simp: begin_shutdown_def shut_ok_def pids_of_def log_plus_def split: if_splits)

lemma mg_signals_sound:
  assumes "shut_ok mg"
  shows "shut_ok (mg_signals mg)" and "pids_of (mg_signals mg) = pids_of mg"
    and "\<exists>as. log_plus mg as (mg_signals mg) \<and> forked as = {}"
    and "mg_shutting_down mg \<Longrightarrow> mg_shutting_down (mg_signals mg) \<and> mg_log (mg_signals mg) = mg_log mg
      \<and> mg_exit_code (mg_signals mg) = mg_exit_code mg"
proof -
  define m1 where "m1 = (if mg_shutdown_req mg \<and> \<not> mg_shutting_down mg then begin_shutdown 0 mg else mg)"
  have m1: "shut_ok m1" "pids_of m1 = pids_of mg" "\<exists>as. log_plus mg as m1 \<and> forked as = {}"
    "mg_shutting_down mg \<Longrightarrow> m1 = mg"
    using begin_shutdown_sound [OF assms, of 0] assms by (auto simp: m1_def log_plus_def)
  have eq: "mg_signals mg = (if mg_restart_req m1 then
      (if \<not> mg_shutting_down m1 \<and> wk_pid (mg_worker m1 EXEC) > 0 \<and> \<not> mg_restart_pending m1
       then m1\<lparr>mg_restart_req := False, mg_restart_pending := True,
         mg_log := mg_log m1 @ [Act_Term_Exec (wk_pid (mg_worker m1 EXEC))]\<rparr>
       else m1\<lparr>mg_restart_req := False\<rparr>) else m1)"
    by (simp add: mg_signals_def m1_def [symmetric] Let_def)
  show "shut_ok (mg_signals mg)" using m1(1) unfolding eq by (auto simp: shut_ok_def)
  show "pids_of (mg_signals mg) = pids_of mg" using m1(2) unfolding eq by (simp add: pids_of_def fun_eq_iff)
  obtain as where as: "mg_log m1 = mg_log mg @ as" "forked as = {}" using m1(3) by (auto simp: log_plus_def)
  then show "\<exists>as. log_plus mg as (mg_signals mg) \<and> forked as = {}"
    unfolding eq log_plus_def by (cases "mg_restart_req m1") auto
  show "mg_shutting_down (mg_signals mg) \<and> mg_log (mg_signals mg) = mg_log mg \<and> mg_exit_code (mg_signals mg) = mg_exit_code mg"
    if "mg_shutting_down mg" using that m1(4) unfolding eq by simp
qed

section \<open>An exit\<close>

lemma respawn_sound:
  assumes "shut_ok mg" "\<not> mg_shutting_down mg"
  shows "shut_ok (respawn_exec env fl pid mg)" and "pids_of (respawn_exec env fl pid mg) = (pids_of mg)(EXEC := pid)"
    and "\<exists>w. log_plus mg [Act_Spawn EXEC w pid] (respawn_exec env fl pid mg)"
  using assms by (auto simp: respawn_exec_def next_strategy_def mg_spawn_def shut_ok_def pids_of_def log_plus_def Let_def
      fun_eq_iff split: prod.splits)

lemma set_control_sound:
  assumes "shut_ok mg" "\<not> mg_shutting_down mg"
  shows "shut_ok (set_control bits mg)" and "\<not> mg_shutting_down (set_control bits mg)"
    and "pids_of (set_control bits mg) = pids_of mg" and "log_plus mg [Act_Control bits] (set_control bits mg)"
    and "Act_Control bits \<in> set (mg_log (set_control bits mg))"
  using assms by (auto simp: set_control_def shut_ok_def pids_of_def log_plus_def fun_eq_iff)

lemma kill_bits: "KILL AND KILL \<noteq> 0" "(KILL OR PAUSE) AND KILL \<noteq> 0"
  by (simp_all add: KILL_def PAUSE_def)

lemma on_exit_sound:
  fixes st r pid fl env
  assumes ok: "shut_ok mg" "\<not> mg_shutting_down mg"
  defines "mg' \<equiv> on_exit env fl pid r st mg"
  shows "shut_ok mg'"
    and "(\<exists>as. log_plus mg as mg' \<and> (pids_of mg' = pids_of mg \<and> forked as = {}
      \<or> r = EXEC \<and> pids_of mg' = (pids_of mg)(EXEC := pid) \<and> forked as = (if 0 < pid then {pid} else {})))"
proof -
  let ?P = "\<lambda>mg'. shut_ok mg' \<and> (\<exists>as. log_plus mg as mg' \<and> (pids_of mg' = pids_of mg \<and> forked as = {}
      \<or> r = EXEC \<and> pids_of mg' = (pids_of mg)(EXEC := pid) \<and> forked as = (if 0 < pid then {pid} else {})))"
  note c = set_control_sound [OF ok]
  have respawn: "?P (respawn_exec env fl pid m)" if h: "r = EXEC" "shut_ok m" "\<not> mg_shutting_down m" "pids_of m = pids_of mg"
    "log_plus mg as m" "forked as = {}" for m as
  proof -
    obtain w where "log_plus m [Act_Spawn EXEC w pid] (respawn_exec env fl pid m)" using respawn_sound(3) [OF h(2,3)] by blast
    then have "log_plus mg (as @ [Act_Spawn EXEC w pid]) (respawn_exec env fl pid m)" using h(5) by (simp add: log_plus_def)
    then show ?thesis using respawn_sound(1,2) [OF h(2,3)] h(1,4,6) by (intro conjI exI) auto
  qed
  have down: "?P (begin_shutdown code m)" if "shut_ok m" "\<not> mg_shutting_down m" "pids_of m = pids_of mg" "log_plus mg as m"
    "forked as = {}" "code = 0 \<or> code = 1 \<and> (\<exists>bits. Act_Control bits \<in> set (mg_log m) \<and> bits AND KILL \<noteq> 0)" for m as code
  proof -
    note b = begin_shutdown_sound [OF that(1,6)]
    have "log_plus mg (as @ [Act_Term_Group]) (begin_shutdown code m)" using b(3) that(2,4) by (simp add: log_plus_def)
    then show ?thesis using b(1,2) that(3,5) by (intro conjI exI) auto
  qed
  have id: "?P mg" using ok by (auto simp: log_plus_def)
  have same: "shut_ok (mg\<lparr>mg_restart_pending := False\<rparr>)" "pids_of (mg\<lparr>mg_restart_pending := False\<rparr>) = pids_of mg"
    "log_plus mg [] (mg\<lparr>mg_restart_pending := False\<rparr>)" "log_plus mg [] mg"
    using ok(1) by (simp_all add: shut_ok_def pids_of_def log_plus_def fun_eq_iff)
  have "?P mg'"
  proof (cases r)
    case EXEC
    have kill: "\<exists>bits. Act_Control bits \<in> set (mg_log (set_control KILL mg)) \<and> bits AND KILL \<noteq> 0"
      using c(5) [of KILL] kill_bits by blast
    show ?thesis
      unfolding mg'_def on_exit_def EXEC role.case Let_def
      using ok same(1,2) c(1-3) [of KILL] kill respawn [OF EXEC _ _ _ same(3)] respawn [OF EXEC _ _ _ same(4)]
        respawn [OF EXEC _ _ _ c(4) [of KILL]] down [OF _ _ _ c(4) [of KILL]]
      by (simp add: EXEC split del: if_split) (simp split: if_split)
  next
    case DASHBOARD
    then show ?thesis using id by (simp add: mg'_def on_exit_def)
  next
    case EXCHANGE
    have "\<exists>bits. Act_Control bits \<in> set (mg_log (set_control (KILL OR PAUSE) mg)) \<and> bits AND KILL \<noteq> 0"
      using c(5) [of "KILL OR PAUSE"] kill_bits by blast
    then show ?thesis
      using ok c(1-3) [of "KILL OR PAUSE"] down [OF ok refl same(4)] down [OF _ _ _ c(4) [of "KILL OR PAUSE"]]
      by (simp add: mg'_def on_exit_def EXCHANGE split: if_split)
  next
    case CORE
    have "\<exists>bits. Act_Control bits \<in> set (mg_log (set_control (KILL OR PAUSE) mg)) \<and> bits AND KILL \<noteq> 0"
      using c(5) [of "KILL OR PAUSE"] kill_bits by blast
    then show ?thesis
      using ok c(1-3) [of "KILL OR PAUSE"] down [OF ok refl same(4)] down [OF _ _ _ c(4) [of "KILL OR PAUSE"]]
      by (simp add: mg'_def on_exit_def CORE split: if_split)
  qed
  then show "shut_ok mg'" and "(\<exists>as. log_plus mg as mg' \<and> (pids_of mg' = pids_of mg \<and> forked as = {}
      \<or> r = EXEC \<and> pids_of mg' = (pids_of mg)(EXEC := pid) \<and> forked as = (if 0 < pid then {pid} else {})))" by blast+
qed

section \<open>The table of workers\<close>

definition one_each :: "(role \<Rightarrow> int) \<Rightarrow> bool" where
  "one_each f \<longleftrightarrow> (\<forall>r r'. f r = f r' \<longrightarrow> 0 < f r \<longrightarrow> r = r')"

definition pids_in :: "(role \<Rightarrow> int) \<Rightarrow> int set" where
  "pids_in f = {p. 0 < p \<and> (\<exists>r. f r = p)}"

lemma in_pids: "p \<in> pids_in f \<longleftrightarrow> 0 < p \<and> (\<exists>r. f r = p)"
  by (simp add: pids_in_def)

lemma table_clear:
  assumes "one_each f"
  shows "one_each (f(r := - 1))" and "pids_in (f(r := - 1)) = pids_in f - {f r}"
proof -
  show "one_each (f(r := - 1))" using assms by (auto simp: one_each_def)
  have "p \<in> pids_in (f(r := - 1)) \<longleftrightarrow> p \<in> pids_in f - {f r}" for p
  proof
    assume "p \<in> pids_in (f(r := - 1))"
    then obtain r' where r': "0 < p" "(f(r := - 1)) r' = p" by (auto simp: in_pids)
    then have "r' \<noteq> r" "f r' = p" by (auto split: if_splits)
    with r'(1) assms show "p \<in> pids_in f - {f r}" by (auto simp: in_pids one_each_def)
  next
    assume "p \<in> pids_in f - {f r}"
    then obtain r' where "0 < p" "f r' = p" "r' \<noteq> r" by (auto simp: in_pids)
    then show "p \<in> pids_in (f(r := - 1))" unfolding in_pids by (intro conjI exI [of _ r']) simp_all
  qed
  then show "pids_in (f(r := - 1)) = pids_in f - {f r}" by blast
qed

lemma table_set:
  assumes "one_each f" "f r = - 1" "fork_ok (pids_in f) p"
  shows "one_each (f(r := p))" and "pids_in (f(r := p)) = pids_in f \<union> (if 0 < p then {p} else {})"
proof -
  have new: "f r' \<noteq> p \<or> \<not> 0 < p" for r' using assms(3) by (auto simp: fork_ok_def in_pids)
  show "one_each (f(r := p))" using assms(1) new by (auto simp: one_each_def)
  have "q \<in> pids_in (f(r := p)) \<longleftrightarrow> q \<in> pids_in f \<or> q = p \<and> 0 < p" for q
  proof
    assume "q \<in> pids_in (f(r := p))"
    then obtain r' where "0 < q" "(f(r := p)) r' = q" by (auto simp: in_pids)
    then show "q \<in> pids_in f \<or> q = p \<and> 0 < p" by (cases "r' = r") (auto simp: in_pids)
  next
    assume "q \<in> pids_in f \<or> q = p \<and> 0 < p"
    then show "q \<in> pids_in (f(r := p))"
    proof
      assume "q \<in> pids_in f"
      then obtain r' where "0 < q" "f r' = q" by (auto simp: in_pids)
      then show ?thesis using assms(2) unfolding in_pids by (intro conjI exI [of _ r']) auto
    next
      assume "q = p \<and> 0 < p"
      then show ?thesis unfolding in_pids by (intro conjI exI [of _ r]) simp_all
    qed
  qed
  then show "pids_in (f(r := p)) = pids_in f \<union> (if 0 < p then {p} else {})" by auto
qed

lemma role_of_unique:
  assumes "one_each (pids_of mg)" "0 < p" "pids_of mg r = p"
  shows "role_of mg p = Some r"
proof -
  have "wk_pid (mg_worker mg k) = p \<longleftrightarrow> k = r" for k
    using assms by (auto simp: one_each_def pids_of_def)
  then show ?thesis by (cases r) (simp_all add: role_of_def ROLES_def)
qed

section \<open>The world\<close>

definition wd_inv :: "world \<Rightarrow> bool" where
  "wd_inv wd \<longleftrightarrow> shut_ok (wd_mg wd) \<and> one_each (pids_of (wd_mg wd)) \<and> wd_children wd = pids_in (pids_of (wd_mg wd))
     \<and> (wd_over wd \<longrightarrow> wd_children wd = {})"

lemma mg_reap_sound:
  assumes ok: "shut_ok mg" "one_each (pids_of mg)" and p: "p \<in> pids_in (pids_of mg)"
    and fk: "fork_ok (pids_in (pids_of mg) - {p}) pid"
  shows "shut_ok (mg_reap env fl pid p st mg)" and "one_each (pids_of (mg_reap env fl pid p st mg))"
    and "\<exists>as. log_plus mg as (mg_reap env fl pid p st mg)
      \<and> pids_in (pids_of (mg_reap env fl pid p st mg)) = (pids_in (pids_of mg) - {p}) \<union> forked as"
    and "mg_shutting_down mg \<Longrightarrow> mg_shutting_down (mg_reap env fl pid p st mg)
      \<and> mg_log (mg_reap env fl pid p st mg) = mg_log mg \<and> mg_exit_code (mg_reap env fl pid p st mg) = mg_exit_code mg"
proof -
  obtain r where r: "pids_of mg r = p" "0 < p" using p by (auto simp: pids_in_def)
  define m where "m = mg\<lparr>mg_worker := (mg_worker mg)(r := (mg_worker mg r)\<lparr>wk_pid := - 1\<rparr>)\<rparr>"
  have m: "shut_ok m" "pids_of m = (pids_of mg)(r := - 1)" "mg_log m = mg_log mg" "mg_shutting_down m = mg_shutting_down mg"
    "mg_exit_code m = mg_exit_code mg"
    using ok(1) by (simp_all add: m_def shut_ok_def pids_of_def fun_eq_iff)
  have run: "mg_reap env fl pid p st mg = (if mg_shutting_down mg then m else on_exit env fl pid r st m)"
    using role_of_unique [OF ok(2) r(2,1)] by (simp add: mg_reap_def m_def [symmetric] Let_def m(4))
  note cl = table_clear [OF ok(2), of r, folded m(2), unfolded r(1)]
  have "shut_ok (mg_reap env fl pid p st mg) \<and> one_each (pids_of (mg_reap env fl pid p st mg))
    \<and> (\<exists>as. log_plus mg as (mg_reap env fl pid p st mg)
      \<and> pids_in (pids_of (mg_reap env fl pid p st mg)) = (pids_in (pids_of mg) - {p}) \<union> forked as)"
  proof (cases "mg_shutting_down mg")
    case True
    then show ?thesis using m cl by (auto simp: run log_plus_def)
  next
    case False
    then have nd: "\<not> mg_shutting_down m" by (simp add: m(4))
    note e = on_exit_sound [OF m(1) nd, of env fl pid r st]
    obtain as where as: "log_plus m as (on_exit env fl pid r st m)"
      "pids_of (on_exit env fl pid r st m) = pids_of m \<and> forked as = {}
        \<or> r = EXEC \<and> pids_of (on_exit env fl pid r st m) = (pids_of m)(EXEC := pid) \<and> forked as = (if 0 < pid then {pid} else {})"
      using e(2) by blast
    have lp: "log_plus mg as (on_exit env fl pid r st m)" using as(1) by (simp add: log_plus_def m(3))
    from as(2) show ?thesis
    proof (elim disjE conjE)
      assume "r = EXEC" "pids_of (on_exit env fl pid r st m) = (pids_of m)(EXEC := pid)" "forked as = (if 0 < pid then {pid} else {})"
      moreover have "fork_ok (pids_in (pids_of m)) pid" "pids_of m r = - 1" using fk by (simp_all add: cl(2)) (simp add: m(2))
      ultimately show ?thesis using e(1) lp table_set [OF cl(1)] cl(2) False by (auto simp: run)
    qed (use e(1) lp cl False in \<open>auto simp: run\<close>)
  qed
  then show "shut_ok (mg_reap env fl pid p st mg)" and "one_each (pids_of (mg_reap env fl pid p st mg))"
    and "\<exists>as. log_plus mg as (mg_reap env fl pid p st mg)
      \<and> pids_in (pids_of (mg_reap env fl pid p st mg)) = (pids_in (pids_of mg) - {p}) \<union> forked as" by simp_all
  show "mg_shutting_down mg \<Longrightarrow> mg_shutting_down (mg_reap env fl pid p st mg)
      \<and> mg_log (mg_reap env fl pid p st mg) = mg_log mg \<and> mg_exit_code (mg_reap env fl pid p st mg) = mg_exit_code mg"
    using m by (simp add: run)
qed

text \<open>Nothing more is done to others, and the exit code stands.\<close>

definition settled :: "manager \<Rightarrow> manager \<Rightarrow> bool" where
  "settled mg mg' \<longleftrightarrow> (mg_shutting_down mg \<longrightarrow>
     mg_shutting_down mg' \<and> mg_log mg' = mg_log mg \<and> mg_exit_code mg' = mg_exit_code mg)"

lemma settled_trans: "settled a b \<Longrightarrow> settled b c \<Longrightarrow> settled a c"
  by (simp add: settled_def)

lemma poll_step:
  assumes "mg_iterate env wait fl pid (wd_mg wd) = (go, mg')" "log_plus (wd_mg wd) as mg'"
  shows "wd_step env (Poll wait fl pid) wd
    = \<lparr>wd_mg = mg', wd_children = (wd_children wd - reaped wait) \<union> forked as, wd_over = \<not> go\<rparr>"
  using assms by (simp add: log_plusD)

lemma idle_sound:
  assumes inv: "wd_inv wd" and w: "reaped wait = {}"
    and it: "mg_iterate env wait fl pid (wd_mg wd) = (go, mg_signals (wd_mg wd))" "go \<or> wd_children wd = {}"
  shows "wd_inv (wd_step env (Poll wait fl pid) wd)"
    and "settled (wd_mg wd) (wd_mg (wd_step env (Poll wait fl pid) wd))"
proof -
  have i: "shut_ok (wd_mg wd)" "one_each (pids_of (wd_mg wd))" "wd_children wd = pids_in (pids_of (wd_mg wd))"
    using inv unfolding wd_inv_def by blast+
  note s = mg_signals_sound [OF i(1)]
  obtain as where as: "log_plus (wd_mg wd) as (mg_signals (wd_mg wd))" "forked as = {}" using s(3) by blast
  note st = poll_step [OF it(1) as(1)]
  show "wd_inv (wd_step env (Poll wait fl pid) wd)"
    unfolding st wd_inv_def world.simps w as(2) s(2) using s(1) i it(2) by blast
  show "settled (wd_mg wd) (wd_mg (wd_step env (Poll wait fl pid) wd))"
    unfolding st world.simps settled_def using s(4) by blast
qed

lemma poll_sound:
  assumes inv: "wd_inv wd" and ev: "ev_legal wd (Poll wait fl pid)"
  shows "wd_inv (wd_step env (Poll wait fl pid) wd)"
    and "settled (wd_mg wd) (wd_mg (wd_step env (Poll wait fl pid) wd))"
proof -
  let ?mg = "wd_mg wd" and ?m = "mg_signals (wd_mg wd)"
  have i: "shut_ok ?mg" "one_each (pids_of ?mg)" "wd_children wd = pids_in (pids_of ?mg)"
    using inv unfolding wd_inv_def by blast+
  note s = mg_signals_sound [OF i(1)]
  obtain as where as: "log_plus ?mg as ?m" "forked as = {}" using s(3) by blast
  have "wd_inv (wd_step env (Poll wait fl pid) wd) \<and> settled ?mg (wd_mg (wd_step env (Poll wait fl pid) wd))"
  proof (cases wait)
    case (W_Exit p st)
    let ?m' = "mg_reap env fl pid p st ?m"
    have p: "p \<in> pids_in (pids_of ?m)" "fork_ok (pids_in (pids_of ?m) - {p}) pid"
      using ev unfolding W_Exit ev_legal.simps wait_result.case reaped.simps i(3) s(2) by blast+
    have o: "one_each (pids_of ?m)" unfolding s(2) by (rule i(2))
    note r = mg_reap_sound [OF s(1) o p, of env fl st]
    obtain bs where bs: "log_plus ?m bs ?m'" "pids_in (pids_of ?m') = (pids_in (pids_of ?m) - {p}) \<union> forked bs" using r(3) by blast
    have it: "mg_iterate env wait fl pid ?mg = (True, ?m')" by (simp only: mg_iterate_def W_Exit Let_def wait_result.case)
    have "log_plus ?mg (as @ bs) ?m'" using as(1) bs(1) by (simp add: log_plus_def)
    note step = poll_step [OF it this]
    have "wd_inv (wd_step env (Poll wait fl pid) wd)"
      unfolding step unfolding wd_inv_def world.simps W_Exit reaped.simps forked_append as(2) i(3) bs(2) s(2)
      using r(1,2) by simp
    moreover have "settled ?mg ?m" "settled ?m ?m'" unfolding settled_def using s(4) r(4) by blast+
    then have "settled ?mg (wd_mg (wd_step env (Poll wait fl pid) wd))" unfolding step world.simps by (rule settled_trans)
    ultimately show ?thesis ..
  next
    case W_None
    have "mg_iterate env wait fl pid ?mg = (True, ?m)" by (simp only: mg_iterate_def W_None Let_def wait_result.case)
    moreover have "reaped wait = {}" by (simp only: W_None reaped.simps)
    ultimately show ?thesis using idle_sound [OF inv, of wait env fl pid True] by blast
  next
    case W_Eintr
    have "mg_iterate env wait fl pid ?mg = (True, ?m)" by (simp only: mg_iterate_def W_Eintr Let_def wait_result.case)
    moreover have "reaped wait = {}" by (simp only: W_Eintr reaped.simps)
    ultimately show ?thesis using idle_sound [OF inv, of wait env fl pid True] by blast
  next
    case W_No_Child
    have "mg_iterate env wait fl pid ?mg = (False, ?m)" by (simp only: mg_iterate_def W_No_Child Let_def wait_result.case)
    moreover have "reaped wait = {}" by (simp only: W_No_Child reaped.simps)
    moreover have "wd_children wd = {}" using ev by (simp add: W_No_Child)
    ultimately show ?thesis using idle_sound [OF inv, of wait env fl pid False] by blast
  qed
  then show "wd_inv (wd_step env (Poll wait fl pid) wd)"
    and "settled ?mg (wd_mg (wd_step env (Poll wait fl pid) wd))" by blast+
qed

text \<open>What \<open>fork\<close> returns at the start.\<close>

definition pids_ok :: "(role \<Rightarrow> int) \<Rightarrow> bool" where
  "pids_ok pids \<longleftrightarrow> one_each pids"

lemma wd_start_inv:
  assumes "pids_ok pids"
  shows "wd_inv (wd_start env pids)"
proof -
  have w: "wk_pid (mg_workers env r) = - 1" for r
    by (cases r) (simp_all add: mg_workers_def make_exec_def add_arg_def Let_def)
  define f where "f = (\<lambda>r. if r \<noteq> DASHBOARD \<or> get_bool (me_cfg env) ''dashboard'' True then pids r else - 1)"
  have p: "pids_of (mg_start env pids) = f"
  proof
    fix r show "pids_of (mg_start env pids) r = f r"
      using w [of r] by (cases r) (simp_all add: mg_start_def ROLES_def mg_spawn_def pids_of_def f_def)
  qed
  have "shut_ok (mg_start env pids)" by (simp add: mg_start_def ROLES_def mg_spawn_def shut_ok_def)
  moreover have "one_each f"
    unfolding one_each_def
  proof (intro allI impI)
    fix r r' assume h: "f r = f r'" "0 < f r"
    have "0 < f k \<Longrightarrow> f k = pids k" for k by (auto simp: f_def split: if_splits)
    from this [of r] this [of r'] h have "pids r = pids r'" "0 < pids r" by simp_all
    then show "r = r'" using assms unfolding pids_ok_def one_each_def by blast
  qed
  moreover have "forked (mg_log (mg_start env pids)) = pids_in f"
  proof -
    have "(\<exists>r. f r = p) \<longleftrightarrow> p = f EXCHANGE \<or> p = f CORE \<or> p = f EXEC \<or> p = f DASHBOARD" for p
      by (metis role.exhaust)
    then show ?thesis by (auto simp: mg_start_def ROLES_def mg_spawn_def pids_in_def f_def)
  qed
  ultimately show ?thesis by (simp add: wd_inv_def wd_start_def p)
qed

lemma event_sound:
  assumes "wd_inv wd" "ev_legal wd ev"
  shows "wd_inv (wd_step env ev wd)" and "settled (wd_mg wd) (wd_mg (wd_step env ev wd))"
proof -
  have quiet: "wd_inv (wd\<lparr>wd_mg := mg\<rparr>) \<and> settled (wd_mg wd) (wd_mg (wd\<lparr>wd_mg := mg\<rparr>))"
    if "mg_worker mg = mg_worker (wd_mg wd)" "mg_log mg = mg_log (wd_mg wd)" "mg_exit_code mg = mg_exit_code (wd_mg wd)"
      "mg_shutting_down mg = mg_shutting_down (wd_mg wd)" for mg
  proof -
    have p: "pids_of mg = pids_of (wd_mg wd)" using that(1) by (simp add: pids_of_def fun_eq_iff)
    have s: "shut_ok mg = shut_ok (wd_mg wd)" unfolding shut_ok_def that ..
    show ?thesis using assms(1) that by (auto simp: wd_inv_def settled_def p s)
  qed
  have "wd_inv (wd_step env ev wd) \<and> settled (wd_mg wd) (wd_mg (wd_step env ev wd))"
  proof (cases ev)
    case (Poll wait fl pid)
    then show ?thesis using poll_sound [OF assms(1)] assms(2) by metis
  next
    case Sig_Term
    then show ?thesis using quiet [of "(wd_mg wd)\<lparr>mg_shutdown_req := True\<rparr>"] by simp
  next
    case Sig_Usr1
    then show ?thesis using quiet [of "(wd_mg wd)\<lparr>mg_restart_req := True\<rparr>"] by simp
  next
    case (Set_Flags f)
    then show ?thesis using quiet [of "(wd_mg wd)\<lparr>mg_flags := f\<rparr>"] by simp
  next
    case (Set_Swap s)
    then show ?thesis using quiet [of "(wd_mg wd)\<lparr>mg_swap_path := s\<rparr>"] by simp
  qed
  then show "wd_inv (wd_step env ev wd)" and "settled (wd_mg wd) (wd_mg (wd_step env ev wd))" by blast+
qed

lemma reach_inv: "mg_reach env pids wd \<Longrightarrow> pids_ok pids \<Longrightarrow> wd_inv wd"
  by (induction rule: mg_reach.induct) (simp_all only: wd_start_inv event_sound(1))

section \<open>Runs of events\<close>

fun legal_run :: "mg_env \<Rightarrow> world \<Rightarrow> mg_event list \<Rightarrow> bool" where
  "legal_run env wd [] \<longleftrightarrow> True"
| "legal_run env wd (ev # evs) \<longleftrightarrow> ev_legal wd ev \<and> legal_run env (wd_step env ev wd) evs"

definition wd_run :: "mg_env \<Rightarrow> mg_event list \<Rightarrow> world \<Rightarrow> world" where
  "wd_run env evs wd = fold (wd_step env) evs wd"

lemma run_inv: "wd_inv wd \<Longrightarrow> legal_run env wd evs \<Longrightarrow> wd_inv (wd_run env evs wd) \<and> settled (wd_mg wd) (wd_mg (wd_run env evs wd))"
proof (induction evs arbitrary: wd)
  case Nil then show ?case by (simp add: wd_run_def settled_def)
next
  case (Cons ev evs)
  have h: "ev_legal wd ev" "legal_run env (wd_step env ev wd) evs" using Cons.prems(2) by simp_all
  note e = event_sound [OF Cons.prems(1) h(1)]
  have "wd_run env (ev # evs) wd = wd_run env evs (wd_step env ev wd)" by (simp add: wd_run_def)
  with Cons.IH [OF e(1) h(2)] show ?case using settled_trans [OF e(2)] by metis
qed

text \<open>
  Once it is to stop, every answer of \<open>waitpid\<close>, a child or \<open>ECHILD\<close>, is one of the answers left.
\<close>

definition stopping :: "manager \<Rightarrow> bool" where
  "stopping mg \<longleftrightarrow> mg_shutdown_req mg \<or> mg_shutting_down mg"

fun answers :: "mg_event \<Rightarrow> bool" where
  "answers (Poll (W_Exit p st) fl pid) \<longleftrightarrow> True"
| "answers (Poll W_No_Child fl pid) \<longleftrightarrow> True"
| "answers _ \<longleftrightarrow> False"

definition answers_left :: "world \<Rightarrow> nat" where
  "answers_left wd = card (wd_children wd) + (if wd_over wd then 0 else 1)"

lemma pids_in_finite: "finite (pids_in f)"
proof -
  have "r \<in> {EXCHANGE, CORE, EXEC, DASHBOARD}" for r by (cases r) simp_all
  then have "pids_in f \<subseteq> f ` {EXCHANGE, CORE, EXEC, DASHBOARD}" unfolding pids_in_def by blast
  then show ?thesis by (rule finite_subset) simp
qed

lemma stopping_signals:
  assumes "shut_ok mg" "stopping mg"
  shows "mg_shutting_down (mg_signals mg)" and "stopping (mg_signals mg)" and "mg_exit_code (mg_signals mg) = mg_exit_code mg"
  using assms by (simp_all add: mg_signals_def begin_shutdown_def stopping_def shut_ok_def Let_def split: if_splits)

lemma stopping_reap:
  assumes "mg_shutting_down mg"
  shows "mg_shutting_down (mg_reap env fl pid p st mg)" and "mg_log (mg_reap env fl pid p st mg) = mg_log mg"
    and "mg_exit_code (mg_reap env fl pid p st mg) = mg_exit_code mg"
  using assms by (simp_all add: mg_reap_def split: option.split)

lemma stopping_poll:
  assumes inv: "wd_inv wd" and st: "stopping (wd_mg wd)" and ev: "ev_legal wd (Poll wait fl pid)"
  shows "stopping (wd_mg (wd_step env (Poll wait fl pid) wd))"
    and "mg_exit_code (wd_mg (wd_step env (Poll wait fl pid) wd)) = mg_exit_code (wd_mg wd)"
    and "answers_left (wd_step env (Poll wait fl pid) wd) + (if answers (Poll wait fl pid) then 1 else 0) = answers_left wd"
proof -
  let ?mg = "wd_mg wd" and ?m = "mg_signals (wd_mg wd)"
  define mg' where "mg' = (case wait of W_Exit p st \<Rightarrow> mg_reap env fl pid p st ?m | _ \<Rightarrow> ?m)"
  have ok: "shut_ok ?mg" and ch: "wd_children wd = pids_in (pids_of ?mg)" using inv unfolding wd_inv_def by blast+
  note s = stopping_signals [OF ok st]
  have it: "mg_iterate env wait fl pid ?mg = (wait \<noteq> W_No_Child, mg')"
    by (cases wait) (simp_all only: mg_iterate_def mg'_def Let_def wait_result.case wait_result.simps simp_thms)
  obtain as where as: "log_plus ?mg as ?m" "forked as = {}" using mg_signals_sound(3) [OF ok] by blast
  have m: "mg_shutting_down mg'" "mg_log mg' = mg_log ?m" "mg_exit_code mg' = mg_exit_code ?mg"
    using s stopping_reap [OF s(1)] by (simp_all add: mg'_def split: wait_result.split)
  have "log_plus ?mg as mg'" using as(1) m(2) by (simp add: log_plus_def)
  note step = poll_step [OF it this]
  show "stopping (wd_mg (wd_step env (Poll wait fl pid) wd))" unfolding step using m(1) by (simp add: stopping_def)
  show "mg_exit_code (wd_mg (wd_step env (Poll wait fl pid) wd)) = mg_exit_code ?mg" unfolding step by (simp add: m(3))
  have fin: "finite (wd_children wd)" by (simp add: ch pids_in_finite)
  have pos: "p \<in> wd_children wd \<Longrightarrow> 0 < card (wd_children wd)" for p using fin card_gt_0_iff by blast
  show "answers_left (wd_step env (Poll wait fl pid) wd) + (if answers (Poll wait fl pid) then 1 else 0) = answers_left wd"
    unfolding step using ev fin pos as(2) by (cases wait) (auto simp: answers_left_def)
qed

lemma stopping_event:
  assumes "wd_inv wd" "stopping (wd_mg wd)" "ev_legal wd ev"
  shows "stopping (wd_mg (wd_step env ev wd))" and "mg_exit_code (wd_mg (wd_step env ev wd)) = mg_exit_code (wd_mg wd)"
    and "answers_left (wd_step env ev wd) + (if answers ev then 1 else 0) = answers_left wd"
proof -
  have "stopping (wd_mg (wd_step env ev wd)) \<and> mg_exit_code (wd_mg (wd_step env ev wd)) = mg_exit_code (wd_mg wd)
    \<and> answers_left (wd_step env ev wd) + (if answers ev then 1 else 0) = answers_left wd"
  proof (cases ev)
    case (Poll wait fl pid)
    note p = stopping_poll [OF assms(1,2) assms(3) [unfolded Poll], of env, folded Poll]
    show ?thesis by (intro conjI p)
  qed (use assms(2) in \<open>simp_all add: stopping_def answers_left_def\<close>)
  then show "stopping (wd_mg (wd_step env ev wd))" and "mg_exit_code (wd_mg (wd_step env ev wd)) = mg_exit_code (wd_mg wd)"
    and "answers_left (wd_step env ev wd) + (if answers ev then 1 else 0) = answers_left wd" by blast+
qed

lemma stopping_run:
  "wd_inv wd \<Longrightarrow> stopping (wd_mg wd) \<Longrightarrow> legal_run env wd evs \<Longrightarrow>
    answers_left (wd_run env evs wd) + length (filter answers evs) = answers_left wd
    \<and> mg_exit_code (wd_mg (wd_run env evs wd)) = mg_exit_code (wd_mg wd)"
proof (induction evs arbitrary: wd)
  case Nil then show ?case by (simp add: wd_run_def)
next
  case (Cons ev evs)
  have h: "ev_legal wd ev" "legal_run env (wd_step env ev wd) evs" using Cons.prems(3) by simp_all
  note s = stopping_event [OF Cons.prems(1,2) h(1), of env]
  have "wd_run env (ev # evs) wd = wd_run env evs (wd_step env ev wd)" by (simp add: wd_run_def)
  then show ?case using Cons.IH [OF event_sound(1) [OF Cons.prems(1) h(1)] s(1) h(2)] s(2,3) by (cases "answers ev") simp_all
qed

lemma over_answers: "wd_inv wd \<Longrightarrow> wd_over wd \<longleftrightarrow> answers_left wd = 0"
  by (auto simp: wd_inv_def answers_left_def)

end
