(* ===== verification/Manager_Properties.thy ===== *)
theory Manager_Properties
  imports Manager_Facts
begin

text \<open>
  The properties of the supervisor, for every reachable world, and an instance of each: a supervisor
  whose exec crashed.
\<close>

definition sample_env :: mg_env where
  "sample_env = \<lparr>me_cfg = [(''dashboard'', ''0''), (''strategy'', ''builtin:quoter'')], me_cfg_path = ''a.cfg'',
     me_exec_mode = ''null'', me_auto_restart = False\<rparr>"

definition sample_pids :: "role \<Rightarrow> int" where
  "sample_pids r = (case r of EXCHANGE \<Rightarrow> 101 | CORE \<Rightarrow> 102 | EXEC \<Rightarrow> 103 | DASHBOARD \<Rightarrow> 104)"

definition crash :: mg_event where
  "crash = Poll (W_Exit 103 (Signaled 11)) None (- 1)"

definition sample_world :: world where
  "sample_world = wd_step sample_env crash (wd_start sample_env sample_pids)"

lemma sample_one_each: "one_each sample_pids"
  by (auto simp: one_each_def sample_pids_def split: role.splits)

lemma sample_no_dashboard: "\<not> get_bool (me_cfg sample_env) ''dashboard'' True"
  by code_simp

lemmas run_manager = wd_start_def mg_start_def ROLES_def mg_spawn_def mg_iterate_def mg_signals_def mg_reap_def role_of_def
  on_exit_def begin_shutdown_def set_control_def sample_no_dashboard sample_pids_def crash_def Let_def

lemma sample_start: "wd_children (wd_start sample_env sample_pids) = {101, 102, 103}"
  by (auto simp: run_manager)

lemma no_workers_yet: "wk_pid (mg_workers env r) = - 1"
  by (cases r) (simp_all add: mg_workers_def make_exec_def add_arg_def Let_def)

lemma sample_reach: "mg_reach sample_env sample_pids sample_world"
  unfolding sample_world_def
proof (rule mg_reach.step [OF mg_reach.start])
  show "ev_legal (wd_start sample_env sample_pids) crash"
    using sample_start by (simp add: crash_def fork_ok_def) (simp add: wd_start_def)
qed

section \<open>Properties\<close>

text \<open>
  C28.  In every reachable world the table of workers is the truth about the processes: the children the
  supervisor has forked and not yet waited for are exactly the pids in its table, no two roles share
  one, and the loop is left only when there is no child left.
\<close>

theorem manager_one_process_per_role:
  assumes "mg_reach env pids wd" and "one_each pids"
  shows "wd_children wd = {p. 0 < p \<and> (\<exists>r. wk_pid (mg_worker (wd_mg wd) r) = p)}
    \<and> inj_on (\<lambda>r. wk_pid (mg_worker (wd_mg wd) r)) {r. 0 < wk_pid (mg_worker (wd_mg wd) r)}
    \<and> (wd_over wd \<longrightarrow> wd_children wd = {})"
proof -
  have "wd_inv wd" using assms by (simp add: reach_inv pids_ok_def)
  then have "one_each (pids_of (wd_mg wd))" "wd_children wd = pids_in (pids_of (wd_mg wd))" "wd_over wd \<longrightarrow> wd_children wd = {}"
    unfolding wd_inv_def by blast+
  then show ?thesis by (auto simp: one_each_def pids_in_def pids_of_def inj_on_def)
qed

theorem manager_one_process_per_role_witness:
  "wd_children sample_world = {p. 0 < p \<and> (\<exists>r. wk_pid (mg_worker (wd_mg sample_world) r) = p)}"
  using manager_one_process_per_role [OF sample_reach sample_one_each] by blast

text \<open>
  C29.  The signal to the process group is the last thing the supervisor does to other processes: once it is
  shutting down its log ends with that signal, sent once, and no continuation signals, starts or stops
  anything more; the exit code stands, and it is 1 only if \<open>KILL\<close> was set before.
\<close>

theorem manager_signals_group_once:
  assumes "mg_reach env pids wd" and "one_each pids" and "mg_shutting_down (wd_mg wd)" and "legal_run env wd evs"
  shows "\<exists>pre. mg_log (wd_mg wd) = pre @ [Act_Term_Group] \<and> mg_log (wd_mg (wd_run env evs wd)) = pre @ [Act_Term_Group]
    \<and> Act_Term_Group \<notin> set pre \<and> mg_exit_code (wd_mg (wd_run env evs wd)) = mg_exit_code (wd_mg wd)
    \<and> (mg_exit_code (wd_mg wd) = 0
      \<or> mg_exit_code (wd_mg wd) = 1 \<and> (\<exists>bits. Act_Control bits \<in> set pre \<and> bits AND KILL \<noteq> 0))"
proof -
  have inv: "wd_inv wd" using assms(1,2) by (simp add: reach_inv pids_ok_def)
  then have ok: "shut_ok (wd_mg wd)" unfolding wd_inv_def by blast
  obtain pre where pre: "mg_log (wd_mg wd) = pre @ [Act_Term_Group]" "Act_Term_Group \<notin> set pre"
    using ok assms(3) unfolding shut_ok_def by (auto split: if_splits)
  have code: "mg_exit_code (wd_mg wd) = 0 \<or> mg_exit_code (wd_mg wd) = 1
      \<and> (\<exists>bits. Act_Control bits \<in> set (mg_log (wd_mg wd)) \<and> bits AND KILL \<noteq> 0)"
    using ok unfolding shut_ok_def by blast
  have "Act_Control bits \<in> set (mg_log (wd_mg wd)) \<longleftrightarrow> Act_Control bits \<in> set pre" for bits by (simp add: pre(1))
  note pre = pre code [unfolded this]
  have "settled (wd_mg wd) (wd_mg (wd_run env evs wd))" using run_inv [OF inv assms(4)] by blast
  then show ?thesis using pre assms(3) unfolding settled_def by (intro exI [of _ pre]) auto
qed

lemma sample_down: "mg_shutting_down (wd_mg sample_world)" "mg_exit_code (wd_mg sample_world) = 1" "\<not> wd_over sample_world"
  "wd_children sample_world = {101, 102}"
  by code_simp+

definition last_polls :: "mg_event list" where
  "last_polls = [Sig_Term, Poll (W_Exit 102 (Exited 0)) None (- 1), Poll W_None None (- 1),
     Poll (W_Exit 101 (Signaled 15)) None (- 1), Poll W_No_Child None (- 1)]"

theorem manager_signals_group_once_witness:
  "\<exists>pre. mg_log (wd_mg sample_world) = pre @ [Act_Term_Group] \<and> Act_Term_Group \<notin> set pre"
  using manager_signals_group_once [OF sample_reach sample_one_each sample_down(1), of "[]"] by auto

text \<open>
  C30.  The supervisor exits: once \<open>SIGTERM\<close> was received or it is shutting down, its loop is over after
  exactly one answer of \<open>waitpid\<close> per child and the final \<open>ECHILD\<close>, whatever the children, the
  signals, the operator and the failures of \<open>fork\<close> do meanwhile; no new child is started, and the exit
  code does not change.
\<close>

theorem manager_exits:
  assumes "mg_reach env pids wd" and "one_each pids" and "\<not> wd_over wd" and "legal_run env wd evs"
    and "mg_shutdown_req (wd_mg wd) \<or> mg_shutting_down (wd_mg wd)"
  shows "length (filter answers evs) \<le> card (wd_children wd) + 1
    \<and> (wd_over (wd_run env evs wd) \<longleftrightarrow> length (filter answers evs) = card (wd_children wd) + 1)
    \<and> mg_exit_code (wd_mg (wd_run env evs wd)) = mg_exit_code (wd_mg wd)"
proof -
  have inv: "wd_inv wd" using assms(1,2) by (simp add: reach_inv pids_ok_def)
  have st: "stopping (wd_mg wd)" using assms(5) by (simp add: stopping_def)
  have left: "answers_left wd = card (wd_children wd) + 1" using assms(3) by (simp add: answers_left_def)
  have "wd_inv (wd_run env evs wd)" using run_inv [OF inv assms(4)] by blast
  then have "wd_over (wd_run env evs wd) \<longleftrightarrow> answers_left (wd_run env evs wd) = 0" by (rule over_answers)
  with stopping_run [OF inv st assms(4)] left show ?thesis by auto
qed

theorem manager_exits_witness:
  "wd_over (wd_run sample_env last_polls sample_world) \<and> mg_exit_code (wd_mg (wd_run sample_env last_polls sample_world)) = 1"
proof -
  have "legal_run sample_env sample_world last_polls"
    by code_simp
  moreover have "length (filter answers last_polls) = 3" by (simp add: last_polls_def)
  ultimately show ?thesis
    using manager_exits [OF sample_reach sample_one_each sample_down(3), of last_polls] sample_down by simp
qed

lemma make_exec_fields:
  shows "wk_pid (make_exec spec mode path w) = wk_pid w"
    and "wk_args (make_exec spec mode path w) = map (fit 300) [''--mode='' @ mode, ''--strategy='' @ spec, ''--config='' @ path]"
  by (simp_all add: make_exec_def add_arg_def Let_def)

definition next_spec :: "mg_env \<Rightarrow> string option \<Rightarrow> string \<Rightarrow> string" where
  "next_spec env fl swap = fit 256 (if swap \<noteq> [] then take 248 swap
     else default_strategy (if fst (cfg_load fl []) then snd (cfg_load fl []) else me_cfg env))"

lemma respawn_exec_fields:
  shows "wk_pid (mg_worker (respawn_exec env fl pid mg) EXEC) = pid"
    and "wk_args (mg_worker (respawn_exec env fl pid mg) EXEC)
      = map (fit 300) [''--mode='' @ me_exec_mode env, ''--strategy='' @ next_spec env fl (mg_swap_path mg), ''--config='' @ me_cfg_path env]"
    and "mg_swap_path (respawn_exec env fl pid mg) = []" and "mg_flags (respawn_exec env fl pid mg) = mg_flags mg"
    and "mg_shutting_down (respawn_exec env fl pid mg) = mg_shutting_down mg"
    and "mg_restart_pending (respawn_exec env fl pid mg) = mg_restart_pending mg"
  by (simp_all add: respawn_exec_def next_strategy_def mg_spawn_def make_exec_fields next_spec_def Let_def split_beta del: list.map)

text \<open>
  What becomes of a strategy that ended, from every reachable world that is not stopping.  If a restart
  was asked for (by \<open>SIGUSR1\<close> or by the exit code 75) exec is started again with the control word as it
  was, otherwise \<open>KILL\<close> is set, and exec is started again only with \<open>auto_restart_exec\<close>.  A new exec
  gets the strategy the operator wrote into the control block, which is then empty, or else the one in
  the configuration file.
\<close>

theorem manager_replaces_exec:
  fixes announced :: bool
  assumes "mg_reach env pids wd" and "one_each pids" and "\<not> mg_shutdown_req (wd_mg wd)" and "\<not> mg_shutting_down (wd_mg wd)"
    and "wk_pid (mg_worker (wd_mg wd) EXEC) = p" and "ev_legal wd (Poll (W_Exit p st) fl pid)"
  defines "announced \<equiv> mg_restart_pending (wd_mg wd) \<or> mg_restart_req (wd_mg wd) \<or> st = Exited MG_EXIT_SWAP"
    and "mg' \<equiv> wd_mg (wd_step env (Poll (W_Exit p st) fl pid) wd)"
    and "spec \<equiv> fit 256 (if mg_swap_path (wd_mg wd) \<noteq> [] then take 248 (mg_swap_path (wd_mg wd))
      else default_strategy (if fst (cfg_load fl []) then snd (cfg_load fl []) else me_cfg env))"
  shows "mg_flags mg' = (if announced then mg_flags (wd_mg wd) else mg_flags (wd_mg wd) OR KILL)
    \<and> (if announced \<or> me_auto_restart env
        then \<not> mg_shutting_down mg' \<and> \<not> mg_restart_pending mg' \<and> wk_pid (mg_worker mg' EXEC) = pid \<and> mg_swap_path mg' = []
          \<and> wk_args (mg_worker mg' EXEC) = map (fit 300) [''--mode='' @ me_exec_mode env, ''--strategy='' @ spec, ''--config='' @ me_cfg_path env]
        else mg_shutting_down mg' \<and> mg_exit_code mg' = 1 \<and> wk_pid (mg_worker mg' EXEC) = - 1)"
proof -
  have inv: "wd_inv wd" using assms(1,2) by (simp add: reach_inv pids_ok_def)
  let ?mg = "wd_mg wd" and ?m = "mg_signals (wd_mg wd)"
  have i: "one_each (pids_of ?mg)" "wd_children wd = pids_in (pids_of ?mg)" using inv unfolding wd_inv_def by blast+
  have "p \<in> pids_in (pids_of ?mg)" using assms(6) i(2) by simp
  then have p: "0 < p" by (simp add: in_pids)
  have m: "mg_worker ?m = mg_worker ?mg" "\<not> mg_shutting_down ?m" "mg_swap_path ?m = mg_swap_path ?mg" "mg_flags ?m = mg_flags ?mg"
    "mg_restart_pending ?m \<longleftrightarrow> mg_restart_pending ?mg \<or> mg_restart_req ?mg"
    using assms(3,4,5) p by (simp_all add: mg_signals_def Let_def)
  have "role_of ?m p = Some EXEC"
    using role_of_unique [of ?m p EXEC] i(1) p assms(5) by (simp add: pids_of_def [abs_def] m(1))
  then have mg': "mg' = on_exit env fl pid EXEC st
      (?m\<lparr>mg_worker := (mg_worker ?mg)(EXEC := (mg_worker ?mg EXEC)\<lparr>wk_pid := - 1\<rparr>)\<rparr>)"
    using m(1,2) by (simp add: mg'_def mg_iterate_def Let_def mg_reap_def)
  show ?thesis
    using m unfolding mg' announced_def spec_def next_spec_def [symmetric]
    by (simp add: on_exit_def respawn_exec_fields set_control_def begin_shutdown_def)
qed

definition sample_swap :: mg_event where
  "sample_swap = Poll (W_Exit 103 (Exited 75)) None 105"

theorem manager_replaces_exec_witness:
  "wk_pid (mg_worker (wd_mg (wd_step sample_env sample_swap (wd_start sample_env sample_pids))) EXEC) = 105
    \<and> mg_flags (wd_mg (wd_step sample_env sample_swap (wd_start sample_env sample_pids))) = mg_flags (wd_mg (wd_start sample_env sample_pids))"
proof -
  have "ev_legal (wd_start sample_env sample_pids) sample_swap"
    using sample_start by (simp add: sample_swap_def fork_ok_def) (simp add: wd_start_def)
  moreover have "wk_pid (mg_worker (wd_mg (wd_start sample_env sample_pids)) EXEC) = 103"
    "\<not> mg_shutdown_req (wd_mg (wd_start sample_env sample_pids))" "\<not> mg_shutting_down (wd_mg (wd_start sample_env sample_pids))"
    by (simp_all add: run_manager)
  ultimately show ?thesis
    using manager_replaces_exec [OF mg_reach.start [of sample_env sample_pids] sample_one_each, of 103 "Exited 75" None 105]
    by (simp add: sample_swap_def MG_EXIT_SWAP_def del: wd_step.simps ev_legal.simps)
qed

end
