(* ===== verification/Layout_Hash.thy ===== *)
theory Layout_Hash
  imports Bytes
begin

text \<open>
  The FNV-1a hashes of \<open>src/common/ipc/layout.hpp\<close> and \<open>src/exec/module_abi.hpp\<close>, by which
  processes and strategy modules built from different headers recognise each other.  The sizes and
  offsets that are hashed are the compiler's, a parameter; the functions are the program's.  Shown:
  a step is a bijection of the hash, so two inputs that differ in one byte never collide.
\<close>

section \<open>Code\<close>

definition FNV_OFFSET :: u32 where "FNV_OFFSET = 2166136261"
definition FNV_PRIME :: u32 where "FNV_PRIME = 16777619"

definition fnv1a :: "u32 \<Rightarrow> u64 \<Rightarrow> u32" where
  "fnv1a h v = fold (\<lambda>i h. (h XOR ucast (drop_bit (8 * i) v AND 0xff)) * FNV_PRIME) [0..<8] h"

definition hash_parts :: "u32 \<Rightarrow> u64 list \<Rightarrow> u32" where
  "hash_parts h parts = fold (\<lambda>p h. fnv1a h p) parts h"

definition compute_layout_hash :: "u64 list \<Rightarrow> u32" where
  "compute_layout_hash parts = hash_parts FNV_OFFSET parts"

definition MODULE_ABI_VERSION :: u32 where "MODULE_ABI_VERSION = 1"

text \<open>\<open>parts\<close>: the sizes and alignments of the shared types.\<close>

definition exec_abi_hash :: "u32 \<Rightarrow> u64 list \<Rightarrow> u32" where
  "exec_abi_hash layout_hash parts = hash_parts layout_hash (parts @ [ucast MODULE_ABI_VERSION])"

definition name_hash :: "string \<Rightarrow> u32" where
  "name_hash s = fold (\<lambda>c h. (h XOR ucast (of_char c :: u8)) * FNV_PRIME) s FNV_OFFSET"

section \<open>One byte at a time\<close>

definition fnv_byte :: "u8 \<Rightarrow> u32 \<Rightarrow> u32" where
  "fnv_byte b h = (h XOR ucast b) * FNV_PRIME"

definition fnv_bytes :: "u8 list \<Rightarrow> u32 \<Rightarrow> u32" where
  "fnv_bytes bs h = fold fnv_byte bs h"

text \<open>The prime is odd, so multiplication by it can be undone.\<close>

lemma fnv_prime_inverse: "FNV_PRIME * 899433627 = 1"
  by (simp add: FNV_PRIME_def)

lemma times_prime_inj: "a * FNV_PRIME = b * FNV_PRIME \<longleftrightarrow> a = b"
proof
  assume "a * FNV_PRIME = b * FNV_PRIME"
  then have "a * (FNV_PRIME * 899433627) = b * (FNV_PRIME * 899433627)" by (metis mult.assoc)
  then show "a = b" by (simp only: fnv_prime_inverse mult_1_right)
qed simp

lemma xor_cancel: "(h XOR a = h XOR b) \<longleftrightarrow> a = (b :: 'a::len word)"
proof
  assume "h XOR a = h XOR b"
  then have "h XOR (h XOR a) = h XOR (h XOR b)" by simp
  then show "a = b" by (simp add: xor.assoc [symmetric])
qed simp

lemma ucast_byte_inj: "(ucast (a :: u8) :: u32) = ucast b \<longleftrightarrow> a = b"
proof
  assume e: "(ucast a :: u32) = ucast b"
  have "(ucast (ucast w :: u32) :: u8) = w" for w :: u8
    by (rule bit_word_eqI) (simp add: bit_ucast_iff)
  with e show "a = b" by metis
qed simp

lemma fnv_byte_inj: "fnv_byte b h = fnv_byte b h' \<longleftrightarrow> h = h'"
  unfolding fnv_byte_def times_prime_inj using xor_cancel [of "ucast b" h h'] by (simp add: xor.commute)

lemma fnv_byte_inj': "fnv_byte a h = fnv_byte b h \<longleftrightarrow> a = b"
  unfolding fnv_byte_def times_prime_inj xor_cancel ucast_byte_inj ..

lemma fnv_bytes_append: "fnv_bytes (as @ bs) h = fnv_bytes bs (fnv_bytes as h)"
  by (simp add: fnv_bytes_def)

lemma fnv_bytes_inj: "fnv_bytes bs h = fnv_bytes bs h' \<longleftrightarrow> h = h'"
  by (induction bs arbitrary: h h') (simp_all add: fnv_bytes_def fnv_byte_inj)

lemma fnv_bytes_one_byte:
  assumes "a \<noteq> b"
  shows "fnv_bytes (pre @ a # post) h \<noteq> fnv_bytes (pre @ b # post) h"
proof
  assume "fnv_bytes (pre @ a # post) h = fnv_bytes (pre @ b # post) h"
  then have "fnv_byte a (fnv_bytes pre h) = fnv_byte b (fnv_bytes pre h)"
    using fnv_bytes_inj [of post] by (simp add: fnv_bytes_append) (simp add: fnv_bytes_def)
  then show False using assms by (simp only: fnv_byte_inj')
qed

section \<open>The hashes are folds over bytes\<close>

lemma fnv1a_bytes: "fnv1a h v = fnv_bytes (le_bytes 8 v) h"
proof -
  have b: "(ucast (drop_bit n v AND 0xff) :: u32) = ucast (ucast (drop_bit n v) :: u8)" for n
  proof (rule bit_word_eqI)
    fix i assume "i < LENGTH(32)"
    have m: "(0xff :: u64) = mask 8" by (simp add: mask_eq_exp_minus_1)
    show "bit (ucast (drop_bit n v AND 0xff) :: u32) i = bit (ucast (ucast (drop_bit n v) :: u8) :: u32) i"
      using \<open>i < LENGTH(32)\<close> by (auto simp: m bit_ucast_iff bit_and_iff bit_mask_iff)
  qed
  show ?thesis
    unfolding fnv1a_def fnv_bytes_def le_bytes_def fold_map b fnv_byte_def [abs_def] by (simp add: comp_def)
qed

lemma hash_parts_bytes: "hash_parts h parts = fnv_bytes (concat (map (le_bytes 8) parts)) h"
  by (induction parts arbitrary: h) (simp_all add: hash_parts_def fnv1a_bytes fnv_bytes_append, simp add: fnv_bytes_def)

lemma name_hash_bytes: "name_hash s = fnv_bytes (map of_char s) FNV_OFFSET"
  by (simp add: name_hash_def fnv_bytes_def fold_map fnv_byte_def [abs_def] comp_def)

text \<open>Two values that differ in one byte.\<close>

definition one_byte_apart :: "u64 \<Rightarrow> u64 \<Rightarrow> bool" where
  "one_byte_apart v w \<longleftrightarrow> (\<exists>j<8. le_bytes 8 v ! j \<noteq> le_bytes 8 w ! j
     \<and> (\<forall>i<8. i \<noteq> j \<longrightarrow> le_bytes 8 v ! i = le_bytes 8 w ! i))"

lemma one_byte_apartD:
  assumes "one_byte_apart v w"
  obtains pre a b post where "le_bytes 8 v = pre @ a # post" "le_bytes 8 w = pre @ b # post" "a \<noteq> b"
proof -
  obtain j where j: "j < 8" "le_bytes 8 v ! j \<noteq> le_bytes 8 w ! j"
    "\<And>i. i < 8 \<Longrightarrow> i \<noteq> j \<Longrightarrow> le_bytes 8 v ! i = le_bytes 8 w ! i"
    using assms unfolding one_byte_apart_def by blast
  have t: "take j (le_bytes 8 v) = take j (le_bytes 8 w)" using j(1,3) by (intro nth_equalityI) simp_all
  have d: "drop (Suc j) (le_bytes 8 v) = drop (Suc j) (le_bytes 8 w)" using j(1,3) by (intro nth_equalityI) simp_all
  show thesis
    by (rule that [OF _ _ j(2)]) (use id_take_nth_drop [of j "le_bytes 8 v"] id_take_nth_drop [of j "le_bytes 8 w"] j(1) t d in simp_all)
qed

lemma hash_parts_detects:
  assumes "one_byte_apart v w"
  shows "hash_parts h (ps @ v # qs) \<noteq> hash_parts h (ps @ w # qs)"
proof -
  from assms obtain pre a b post where s: "le_bytes 8 v = pre @ a # post" "le_bytes 8 w = pre @ b # post" "a \<noteq> b"
    by (rule one_byte_apartD)
  show ?thesis
    using fnv_bytes_one_byte [OF s(3), of "concat (map (le_bytes 8) ps) @ pre" "post @ concat (map (le_bytes 8) qs)" h]
    by (simp add: hash_parts_bytes s(1,2))
qed

end
