(* ===== verification/Strategy_Modules.thy ===== *)
theory Strategy_Modules
  imports Layout_Hash Strategies
begin

text \<open>
  The boundary between exec and a strategy module, \<open>src/exec/module_abi.hpp\<close>: the table of entry
  points, the instruction sets a module needs, the builtin strategies, and the export and import of
  a strategy's private state.  A trivially copyable strategy is the bytes of its object; which bytes
  these are is the locale \<open>trivially_copyable\<close>, interpreted for the three strategies of the
  repository.
\<close>

section \<open>Instruction sets\<close>

datatype isa = SSE42 | POPCNT | AVX | AVX2 | BMI2 | FMA | AVX512F

definition ISAS :: "isa list" where "ISAS = [SSE42, POPCNT, AVX, AVX2, BMI2, FMA, AVX512F]"

primrec isa_shift :: "isa \<Rightarrow> nat" where
  "isa_shift SSE42 = 0" | "isa_shift POPCNT = 1" | "isa_shift AVX = 2" | "isa_shift AVX2 = 3"
| "isa_shift BMI2 = 4" | "isa_shift FMA = 5" | "isa_shift AVX512F = 6"

definition isa_bit :: "isa \<Rightarrow> u32" where "isa_bit i = push_bit (isa_shift i) 1"

text \<open>The extensions the compiler targets, and those the processor has.\<close>

definition build_isa_mask :: "(isa \<Rightarrow> bool) \<Rightarrow> u32" where
  "build_isa_mask defined = fold (\<lambda>i m. if defined i then m OR isa_bit i else m) ISAS 0"

definition cpu_isa_mask :: "(isa \<Rightarrow> bool) \<Rightarrow> u32" where
  "cpu_isa_mask supports = fold (\<lambda>i m. m OR (if supports i then isa_bit i else 0)) ISAS 0"

lemma isa_bit_bit: "bit (isa_bit i) n \<longleftrightarrow> n = isa_shift i"
proof -
  have "isa_shift i < 32" by (cases i) simp_all
  moreover have "bit (1 :: u32) k \<longleftrightarrow> k = 0" for k by (simp add: bit_1_iff)
  ultimately show ?thesis
    unfolding isa_bit_def bit_push_bit_iff by (cases "n = isa_shift i") auto
qed

lemma isa_shift_inj: "isa_shift i = isa_shift j \<longleftrightarrow> i = j"
  by (cases i; cases j) simp_all

lemma isa_masks_bit:
  shows "bit (build_isa_mask P) n \<longleftrightarrow> (\<exists>i. P i \<and> n = isa_shift i)" and "cpu_isa_mask P = build_isa_mask P"
proof -
  have "(\<exists>i. P i \<and> n = isa_shift i) \<longleftrightarrow> (\<exists>i\<in>set ISAS. P i \<and> n = isa_shift i)"
  proof -
    have "i \<in> set ISAS" for i by (cases i) (simp_all add: ISAS_def)
    then show ?thesis by blast
  qed
  moreover have "bit (fold (\<lambda>i m. if P i then m OR isa_bit i else m) is m) n
      \<longleftrightarrow> bit m n \<or> (\<exists>i\<in>set is. P i \<and> n = isa_shift i)" for "is" m
    by (induction "is" arbitrary: m) (auto simp: bit_or_iff isa_bit_bit)
  ultimately show "bit (build_isa_mask P) n \<longleftrightarrow> (\<exists>i. P i \<and> n = isa_shift i)" by (simp add: build_isa_mask_def)
  have "(\<lambda>i m. m OR (if P i then isa_bit i else 0)) = (\<lambda>i m. if P i then m OR isa_bit i else m)"
    by (simp add: fun_eq_iff)
  then show "cpu_isa_mask P = build_isa_mask P" by (simp add: cpu_isa_mask_def build_isa_mask_def)
qed

lemma isa_subset: "build_isa_mask need AND NOT (cpu_isa_mask have) = 0 \<longleftrightarrow> (\<forall>i. need i \<longrightarrow> have i)"
proof -
  have "build_isa_mask need AND NOT (cpu_isa_mask have) = 0
    \<longleftrightarrow> (\<forall>n<32. bit (build_isa_mask need) n \<longrightarrow> bit (build_isa_mask have) n)"
    by (auto simp: bit_eq_iff bit_and_iff bit_not_iff isa_masks_bit(2))
  also have "\<dots> \<longleftrightarrow> (\<forall>i. need i \<longrightarrow> have i)"
  proof -
    have "isa_shift i < 32" for i by (cases i) simp_all
    then show ?thesis unfolding isa_masks_bit(1) by (metis isa_shift_inj)
  qed
  finally show ?thesis .
qed

section \<open>The table of a module\<close>

text \<open>An entry point is present or null; what it runs is \<open>module_run\<close>.\<close>

record strategy_module =
  md_abi_version :: u32
  md_layout_hash :: u32
  md_isa_mask :: u32
  md_name :: string
  md_build_id :: string
  md_create :: bool
  md_run_null :: bool
  md_run_live :: bool
  md_destroy :: bool

definition module_table :: "u32 \<Rightarrow> u64 list \<Rightarrow> (isa \<Rightarrow> bool) \<Rightarrow> string \<Rightarrow> string \<Rightarrow> strategy_module" where
  "module_table layout_hash parts defined name build = \<lparr>md_abi_version = MODULE_ABI_VERSION,
     md_layout_hash = exec_abi_hash layout_hash parts, md_isa_mask = build_isa_mask defined, md_name = name,
     md_build_id = build, md_create = True, md_run_null = True, md_run_live = False, md_destroy = True\<rparr>"

text \<open>\<open>Impl::run_null\<close>: the optional hooks \<open>on_start\<close> and \<open>on_stop\<close> around the loop.\<close>

definition call_hook :: "('s \<Rightarrow> 'h \<Rightarrow> ('s \<times> 'h) option) option \<Rightarrow> 's \<Rightarrow> 'h \<Rightarrow> ('s \<times> 'h) option" where
  "call_hook hook s h = (case hook of None \<Rightarrow> Some (s, h) | Some f \<Rightarrow> f s h)"

definition module_run :: "machine \<Rightarrow> ('s \<Rightarrow> null_router host \<Rightarrow> ('s \<times> null_router host) option) option \<Rightarrow> 's hooks
    \<Rightarrow> ('s \<Rightarrow> null_router host \<Rightarrow> ('s \<times> null_router host) option) option \<Rightarrow> 's \<Rightarrow> null_router host
    \<Rightarrow> (run_exit \<times> 's \<times> null_router host) option" where
  "module_run M on_start S on_stop s h =
     (case call_hook on_start s h of
        None \<Rightarrow> None
      | Some (s, h) \<Rightarrow> (case run_strategy M S s h of
          None \<Rightarrow> None
        | Some (e, s, h) \<Rightarrow> map_option (Pair e) (call_hook on_stop s h)))"

lemma module_run_no_hooks: "module_run M None S None s h = run_strategy M S s h"
  by (cases "run_strategy M S s h") (auto simp: module_run_def call_hook_def)

section \<open>Builtin strategies\<close>

definition BUILTINS_MAX :: nat where "BUILTINS_MAX = 16"

definition builtins_add :: "strategy_module \<Rightarrow> strategy_module list \<Rightarrow> bool \<times> strategy_module list" where
  "builtins_add m table = (if length table = BUILTINS_MAX then (False, table) else (True, table @ [m]))"

fun builtins_find :: "string \<Rightarrow> strategy_module list \<Rightarrow> strategy_module option" where
  "builtins_find name [] = None"
| "builtins_find name (m # ms) = (if md_name m = name then Some m else builtins_find name ms)"

section \<open>Exported state\<close>

definition STATE_MAGIC :: u32 where "STATE_MAGIC = 0x4c4c5354"
definition STATE_HEADER :: u64 where "STATE_HEADER = 16"

definition state_header :: "string \<Rightarrow> u64 \<Rightarrow> u8 list" where
  "state_header name sz = le_bytes 4 STATE_MAGIC @ le_bytes 4 (name_hash name) @ le_bytes 8 sz"

text \<open>
  \<open>obj\<close>: the object's bytes; the result: the count returned and the bytes written to \<open>buf\<close>.
\<close>

definition export_state :: "bool \<Rightarrow> string \<Rightarrow> u64 \<Rightarrow> u8 list \<Rightarrow> u64 \<Rightarrow> u64 \<times> u8 list" where
  "export_state trivial name sz obj cap =
     (if trivial then
        let need = STATE_HEADER + sz
        in if cap < need then (0, []) else (need, state_header name sz @ obj)
      else (0, []))"

definition import_state :: "bool \<Rightarrow> string \<Rightarrow> u64 \<Rightarrow> u8 list \<Rightarrow> u8 list \<Rightarrow> u64 \<Rightarrow> bool \<times> u8 list" where
  "import_state trivial name sz obj buf len =
     (if trivial then
        if len \<noteq> STATE_HEADER + sz then (False, obj)
        else if le_word (take 4 buf) \<noteq> STATE_MAGIC \<or> le_word (take 4 (drop 4 buf)) \<noteq> name_hash name
          \<or> le_word (take 8 (drop 8 buf)) \<noteq> sz then (False, obj)
        else (True, take (unat sz) (drop 16 buf))
      else (False, obj))"

lemma state_header_fields:
  shows "length (state_header name sz) = 16"
    and "le_word (take 4 (state_header name sz @ obj)) = STATE_MAGIC"
    and "le_word (take 4 (drop 4 (state_header name sz @ obj))) = name_hash name"
    and "le_word (take 8 (drop 8 (state_header name sz @ obj))) = sz"
  by (simp_all add: state_header_def le_word_bytes)

lemma import_export:
  assumes "length obj = unat sz" "export_state trivial name sz obj cap = (n, buf)" "n \<noteq> 0" "trivial"
  shows "import_state trivial name' sz' obj' buf n =
    (if sz' = sz \<and> name_hash name' = name_hash name then (True, obj) else (False, obj'))"
proof -
  have e: "n = STATE_HEADER + sz" "buf = state_header name sz @ obj"
    using assms(2-4) by (auto simp: export_state_def Let_def split: if_splits)
  have "n = STATE_HEADER + sz' \<longleftrightarrow> sz' = sz" by (auto simp: e(1))
  then show ?thesis
    using assms(1,4) by (auto simp: import_state_def e(2) state_header_def le_word_bytes)
qed

section \<open>Objects as bytes\<close>

locale trivially_copyable =
  fixes to_bytes :: "'s \<Rightarrow> u8 list" and of_bytes :: "u8 list \<Rightarrow> 's" and sz :: u64 and valid :: "'s \<Rightarrow> bool"
  assumes sz: "length (to_bytes s) = unat sz"
    and object: "valid s \<Longrightarrow> of_bytes (to_bytes s) = s"
begin

lemma swap_keeps_state:
  assumes "valid s" "export_state True name sz (to_bytes s) cap = (n, buf)" "n \<noteq> 0"
  shows "fst (import_state True name sz (to_bytes t) buf n)"
    and "of_bytes (snd (import_state True name sz (to_bytes t) buf n)) = s"
  using import_export [OF sz assms(2,3) TrueI, of name sz "to_bytes t"] object [OF assms(1)] by simp_all

end

definition dummy_bytes :: "dummy_quoter \<Rightarrow> u8 list" where
  "dummy_bytes s = le_bytes 8 (dq_bid s) @ le_bytes 8 (dq_ask s) @ le_bytes 8 (dq_ticks s)"

definition dummy_of_bytes :: "u8 list \<Rightarrow> dummy_quoter" where
  "dummy_of_bytes bs = \<lparr>dq_bid = le_word (take 8 bs), dq_ask = le_word (take 8 (drop 8 bs)),
     dq_ticks = le_word (take 8 (drop 16 bs))\<rparr>"

interpretation dummy_obj: trivially_copyable dummy_bytes dummy_of_bytes 24 "\<lambda>_. True"
  by unfold_locales (simp_all add: dummy_bytes_def dummy_of_bytes_def le_word_bytes)

text \<open>Six bytes of padding follow the two flags.\<close>

definition imbalance_bytes :: "imbalance_taker \<Rightarrow> u8 list" where
  "imbalance_bytes s = [if im_buy_armed s then 1 else 0, if im_sell_armed s then 1 else 0] @ replicate 6 0
     @ le_bytes 8 (word_of_int (im_last_ns s) :: u64)"

definition imbalance_of_bytes :: "u8 list \<Rightarrow> imbalance_taker" where
  "imbalance_of_bytes bs = \<lparr>im_buy_armed = (bs ! 0 \<noteq> 0), im_sell_armed = (bs ! 1 \<noteq> 0),
     im_last_ns = sint (le_word (take 8 (drop 8 bs)) :: u64)\<rparr>"

interpretation imbalance_obj: trivially_copyable imbalance_bytes imbalance_of_bytes 16
  "\<lambda>s. - (2 ^ 63) \<le> im_last_ns s \<and> im_last_ns s < 2 ^ 63"
proof
  fix s show "length (imbalance_bytes s) = unat (16 :: u64)" by (simp add: imbalance_bytes_def)
  assume "- (2 ^ 63) \<le> im_last_ns s \<and> im_last_ns s < 2 ^ 63"
  then have "sint (word_of_int (im_last_ns s) :: u64) = im_last_ns s" by (simp add: signed_of_int signed_take_bit_int_eq_self)
  then show "imbalance_of_bytes (imbalance_bytes s) = s"
    by (simp add: imbalance_bytes_def imbalance_of_bytes_def le_word_bytes numeral_eq_Suc)
qed

definition logging_bytes :: "logging_strategy \<Rightarrow> u8 list" where
  "logging_bytes s = le_bytes 8 (lg_ticks s) @ le_bytes 8 (lg_trades s)"

definition logging_of_bytes :: "u8 list \<Rightarrow> logging_strategy" where
  "logging_of_bytes bs = \<lparr>lg_ticks = le_word (take 8 bs), lg_trades = le_word (take 8 (drop 8 bs))\<rparr>"

interpretation logging_obj: trivially_copyable logging_bytes logging_of_bytes 16 "\<lambda>_. True"
  by unfold_locales (simp_all add: logging_bytes_def logging_of_bytes_def le_word_bytes)

end
