(* ===== verification/Module_Loader.thy ===== *)
theory Module_Loader
  imports Strategy_Modules
begin

text \<open>
  \<open>src/exec/loader.cpp\<close>: how exec resolves a strategy.  The file and what the operating system
  answers are the record \<open>loader_env\<close>; what the loader opens, maps and closes is a list of
  \<open>os_action\<close>s.  An access outside the mapped image is \<open>None\<close>.  The reason is the \<open>load_error\<close>; touching
  the loaded pages is in \<open>Platform\<close>.
\<close>

section \<open>Errors and resources\<close>

datatype load_error = No_Builtin string | Abi_Mismatch | Layout_Mismatch string string | Isa_Missing string
  | Missing_Entry string | Cannot_Open | Cannot_Stat | Cannot_Read | Not_Elf | Not_X86_64 | Truncated_Headers
  | Has_Tls | Cannot_Copy | Dlopen_Failed | No_Export

datatype os_resource = R_File | R_Map | R_Memfd | R_Handle

datatype os_action = Acquire os_resource | Release os_resource

section \<open>The ELF check\<close>

definition SIZEOF_EHDR :: nat where "SIZEOF_EHDR = 64"
definition SIZEOF_PHDR :: nat where "SIZEOF_PHDR = 56"
definition PT_TLS :: u32 where "PT_TLS = 7"

definition elf_field :: "nat \<Rightarrow> nat \<Rightarrow> u8 list \<Rightarrow> 'a::len word" where
  "elf_field off n img = le_word (take n (drop off img))"

definition elf_type :: "u8 list \<Rightarrow> u16" where "elf_type img = elf_field 16 2 img"
definition elf_machine :: "u8 list \<Rightarrow> u16" where "elf_machine img = elf_field 18 2 img"
definition elf_phoff :: "u8 list \<Rightarrow> u64" where "elf_phoff img = elf_field 32 8 img"
definition elf_phnum :: "u8 list \<Rightarrow> u16" where "elf_phnum img = elf_field 56 2 img"

text \<open>\<open>memcpy\<close> of a program header at an offset of the image, and its \<open>p_type\<close>.\<close>

definition elf_phdr_type :: "u8 list \<Rightarrow> u64 \<Rightarrow> u32 option" where
  "elf_phdr_type img off =
     (if unat off + SIZEOF_PHDR \<le> length img then Some (elf_field (unat off) 4 img) else None)"

fun elf_scan :: "u8 list \<Rightarrow> nat \<Rightarrow> nat \<Rightarrow> (load_error + unit) option" where
  "elf_scan img i 0 = Some (Inr ())"
| "elf_scan img i (Suc k) =
     (case elf_phdr_type img (elf_phoff img + word_of_nat (i * SIZEOF_PHDR)) of
        None \<Rightarrow> None
      | Some t \<Rightarrow> if t = PT_TLS then Some (Inl Has_Tls) else elf_scan img (i + 1) k)"

definition check_elf :: "u8 list \<Rightarrow> (load_error + unit) option" where
  "check_elf img =
     (if length img < SIZEOF_EHDR \<or> take 4 img \<noteq> [0x7f, 0x45, 0x4c, 0x46] then Some (Inl Not_Elf)
      else if img ! 4 \<noteq> 2 \<or> elf_machine img \<noteq> 62 \<or> elf_type img \<noteq> 3 then Some (Inl Not_X86_64)
      else if elf_phoff img + ucast (elf_phnum img) * word_of_nat SIZEOF_PHDR > word_of_nat (length img)
        then Some (Inl Truncated_Headers)
      else elf_scan img 0 (unat (elf_phnum img)))"

section \<open>The module's table\<close>

record host_abi =
  ha_layout_hash :: u32
  ha_parts :: "u64 list"
  ha_cpu :: "isa \<Rightarrow> bool"

definition check_module :: "host_abi \<Rightarrow> strategy_module \<Rightarrow> load_error + unit" where
  "check_module A m =
     (if md_abi_version m \<noteq> MODULE_ABI_VERSION then Inl Abi_Mismatch
      else if md_layout_hash m \<noteq> exec_abi_hash (ha_layout_hash A) (ha_parts A)
        then Inl (Layout_Mismatch (md_name m) (md_build_id m))
      else if md_isa_mask m AND NOT (cpu_isa_mask (ha_cpu A)) \<noteq> 0 then Inl (Isa_Missing (md_name m))
      else if \<not> md_create m \<or> \<not> md_run_null m \<or> \<not> md_destroy m then Inl (Missing_Entry (md_name m))
      else Inr ())"

section \<open>Loading\<close>

definition is_module_path :: "string \<Rightarrow> bool" where
  "is_module_path spec \<longleftrightarrow> CHR ''/'' \<in> set spec \<or> 3 < length spec \<and> drop (length spec - 3) spec = ''.so''"

text \<open>
  What \<open>open\<close>, \<open>fstat\<close>, \<open>mmap\<close>, \<open>memfd_create\<close>, each \<open>write\<close>, \<open>dlopen\<close>, \<open>dlsym\<close> and the module's
  entry function answer.
\<close>

record loader_env =
  le_open :: bool
  le_stat :: bool
  le_image :: "u8 list option" \<comment> \<open>\<open>None\<close>: \<open>MAP_FAILED\<close>\<close>
  le_memfd :: int
  le_write :: "nat \<Rightarrow> int"
  le_dlopen :: bool
  le_entry :: "strategy_module option"

record loaded_module =
  lm_module :: strategy_module
  lm_handle :: bool
  lm_memfd :: int

function copy_from :: "(nat \<Rightarrow> int) \<Rightarrow> nat \<Rightarrow> nat \<Rightarrow> nat \<Rightarrow> nat" where
  "copy_from write k off len =
     (if off < len then (let w = write k in if w \<le> 0 then off else copy_from write (k + 1) (off + nat w) len) else off)"
  by pat_completeness auto
termination by (relation "measure (\<lambda>(write, k, off, len). len - off)") auto

declare copy_from.simps [simp del]

text \<open>From the memfd on: \<open>acts\<close> is what was done before.\<close>

definition load_from_memfd :: "host_abi \<Rightarrow> loader_env \<Rightarrow> os_action list \<Rightarrow> (load_error + loaded_module) \<times> os_action list" where
  "load_from_memfd A E acts =
     (if \<not> le_dlopen E then (Inl Dlopen_Failed, acts @ [Release R_Memfd])
      else let acts = acts @ [Acquire R_Handle] in case le_entry E of
        None \<Rightarrow> (Inl No_Export, acts @ [Release R_Handle, Release R_Memfd])
      | Some m \<Rightarrow> (case check_module A m of
          Inl e \<Rightarrow> (Inl e, acts @ [Release R_Handle, Release R_Memfd])
        | Inr _ \<Rightarrow> (Inr \<lparr>lm_module = m, lm_handle = True, lm_memfd = le_memfd E\<rparr>, acts)))"

definition load_file :: "host_abi \<Rightarrow> loader_env \<Rightarrow> ((load_error + loaded_module) \<times> os_action list) option" where
  "load_file A E =
     (if \<not> le_open E then Some (Inl Cannot_Open, [])
      else if \<not> le_stat E then Some (Inl Cannot_Stat, [Acquire R_File, Release R_File])
      else case le_image E of
        None \<Rightarrow> Some (Inl Cannot_Read, [Acquire R_File, Release R_File])
      | Some img \<Rightarrow>
          let acts = [Acquire R_File, Acquire R_Map, Release R_File]
          in case check_elf img of
            None \<Rightarrow> None
          | Some (Inl e) \<Rightarrow> Some (Inl e, acts @ [Release R_Map])
          | Some (Inr _) \<Rightarrow>
              if le_memfd E < 0 then Some (Inl Cannot_Copy, acts @ [Release R_Map])
              else let acts = acts @ [Acquire R_Memfd]; len = length img
                in if copy_from (le_write E) 0 0 len \<noteq> len
                   then Some (Inl Cannot_Copy, acts @ [Release R_Map, Release R_Memfd])
                   else Some (load_from_memfd A E (acts @ [Release R_Map])))"

definition load_strategy :: "host_abi \<Rightarrow> strategy_module list \<Rightarrow> loader_env \<Rightarrow> string
    \<Rightarrow> ((load_error + loaded_module) \<times> os_action list) option" where
  "load_strategy A builtins E spec =
     (if \<not> is_module_path spec then
        let name = (if take 8 spec = ''builtin:'' then drop 8 spec else spec)
        in case builtins_find name builtins of
          None \<Rightarrow> Some (Inl (No_Builtin name), [])
        | Some m \<Rightarrow> (case check_module A m of
            Inl e \<Rightarrow> Some (Inl e, [])
          | Inr _ \<Rightarrow> Some (Inr \<lparr>lm_module = m, lm_handle = False, lm_memfd = - 1\<rparr>, []))
      else load_file A E)"

section \<open>The check and the file\<close>

text \<open>Where the table of program headers ends, without wrap-around, and the types it lists.\<close>

definition phdrs_end :: "u8 list \<Rightarrow> nat" where
  "phdrs_end img = unat (elf_phoff img) + SIZEOF_PHDR * unat (elf_phnum img)"

definition phdr_types :: "u8 list \<Rightarrow> u32 list" where
  "phdr_types img = map (\<lambda>i. elf_field (unat (elf_phoff img) + SIZEOF_PHDR * i) 4 img) [0..<unat (elf_phnum img)]"

definition elf_ok :: "u8 list \<Rightarrow> bool" where
  "elf_ok img \<longleftrightarrow> SIZEOF_EHDR \<le> length img \<and> take 4 img = [0x7f, 0x45, 0x4c, 0x46] \<and> img ! 4 = 2
     \<and> elf_machine img = 62 \<and> elf_type img = 3 \<and> phdrs_end img \<le> length img \<and> PT_TLS \<notin> set (phdr_types img)"

text \<open>
  A header that passes every check because the end of its table, computed modulo \<open>2 ^ 64\<close>, falls into the file.
\<close>

definition elf_wraps :: "u8 list \<Rightarrow> bool" where
  "elf_wraps img \<longleftrightarrow> SIZEOF_EHDR \<le> length img \<and> take 4 img = [0x7f, 0x45, 0x4c, 0x46] \<and> img ! 4 = 2
     \<and> elf_machine img = 62 \<and> elf_type img = 3 \<and> 2 ^ 64 \<le> phdrs_end img \<and> phdrs_end img - 2 ^ 64 \<le> length img"

lemma elf_scan_ok:
  assumes "unat (elf_phoff img) + SIZEOF_PHDR * (i + k) \<le> length img" "length img < 2 ^ 64"
  shows "elf_scan img i k = Some (if \<exists>j<k. elf_field (unat (elf_phoff img) + SIZEOF_PHDR * (i + j)) 4 img = PT_TLS
    then Inl Has_Tls else Inr ())"
  using assms(1)
proof (induction k arbitrary: i)
  case (Suc k)
  let ?a = "\<lambda>j. unat (elf_phoff img) + SIZEOF_PHDR * (i + j)"
  have a: "?a 0 + SIZEOF_PHDR \<le> length img" using Suc.prems by (simp add: SIZEOF_PHDR_def)
  then have "?a 0 < 2 ^ 64" using assms(2) by linarith
  then have u: "unat (elf_phoff img + word_of_nat (i * SIZEOF_PHDR)) = ?a 0"
    by (subst unat_add_no_wrap) (simp_all add: unat_of_nat mult.commute del: of_nat_mult)
  have t: "elf_phdr_type img (elf_phoff img + word_of_nat (i * SIZEOF_PHDR)) = Some (elf_field (?a 0) 4 img)"
    unfolding elf_phdr_type_def u using a by simp
  have "unat (elf_phoff img) + SIZEOF_PHDR * (i + 1 + k) \<le> length img" using Suc.prems by simp
  note IH = Suc.IH [OF this]
  have ex: "(\<exists>j<Suc k. P j) \<longleftrightarrow> P 0 \<or> (\<exists>j<k. P (Suc j))" for P :: "nat \<Rightarrow> bool"
    by (metis Suc_less_eq less_Suc_eq_0_disj)
  show ?case unfolding ex elf_scan.simps t option.case IH by simp
qed simp

lemma phdrs_bytes:
  "unat (ucast (elf_phnum img) * word_of_nat SIZEOF_PHDR :: u64) = SIZEOF_PHDR * unat (elf_phnum img)"
  "SIZEOF_PHDR * unat (elf_phnum img) < 2 ^ 22"
proof -
  have "unat (elf_phnum img) < 2 ^ 16" using unsigned_less [where ?'a = nat and w = "elf_phnum img"] by simp
  then show n: "SIZEOF_PHDR * unat (elf_phnum img) < 2 ^ 22" by (simp add: SIZEOF_PHDR_def)
  have "unat (elf_phnum img) < 2 ^ 64" using n by (simp add: SIZEOF_PHDR_def)
  then show "unat (ucast (elf_phnum img) * word_of_nat SIZEOF_PHDR :: u64) = SIZEOF_PHDR * unat (elf_phnum img)"
    using n by (simp add: unat_word_ariths unat_of_nat SIZEOF_PHDR_def unsigned_ucast_eq take_bit_nat_eq_self mult.commute)
qed

lemma phdrs_end_word:
  "unat (elf_phoff img + ucast (elf_phnum img) * word_of_nat SIZEOF_PHDR) = phdrs_end img mod 2 ^ 64"
  by (subst unat_word_ariths(1)) (simp add: phdrs_bytes phdrs_end_def)

text \<open>The check, for images of files: it leaves the image exactly for wrapping headers.\<close>

lemma check_elf_exact:
  assumes "length img < 2 ^ 63"
  shows "check_elf img = None \<longleftrightarrow> elf_wraps img" and "check_elf img = Some (Inr ()) \<longleftrightarrow> elf_ok img"
proof -
  let ?n = "unat (elf_phnum img)"
  have l: "unat (word_of_nat (length img) :: u64) = length img" using assms by (simp add: unat_of_nat)
  have big: "elf_phoff img + ucast (elf_phnum img) * word_of_nat SIZEOF_PHDR > word_of_nat (length img)
      \<longleftrightarrow> length img < phdrs_end img mod 2 ^ 64"
    unfolding word_less_nat_alt phdrs_end_word l ..
  have "(check_elf img = None \<longleftrightarrow> elf_wraps img) \<and> (check_elf img = Some (Inr ()) \<longleftrightarrow> elf_ok img)"
  proof (cases "phdrs_end img < 2 ^ 64")
    case True
    then have m: "phdrs_end img mod 2 ^ 64 = phdrs_end img" by simp
    show ?thesis
    proof (cases "phdrs_end img \<le> length img")
      case in_file: True
      have "PT_TLS \<in> set (phdr_types img) \<longleftrightarrow> (\<exists>j<?n. elf_field (unat (elf_phoff img) + SIZEOF_PHDR * j) 4 img = PT_TLS)"
        by (auto simp: phdr_types_def image_iff eq_commute [of PT_TLS])
      then show ?thesis
        using True in_file elf_scan_ok [of img 0 ?n] assms unfolding check_elf_def big m elf_ok_def elf_wraps_def
        by (auto simp: phdrs_end_def)
    next
      case False
      then show ?thesis using True unfolding check_elf_def big m elf_ok_def elf_wraps_def by auto
    qed
  next
    case False
    have off: "unat (elf_phoff img) < 2 ^ 64" using unsigned_less [where ?'a = nat and w = "elf_phoff img"] by simp
    have m: "phdrs_end img mod 2 ^ 64 = phdrs_end img - 2 ^ 64"
      using False off phdrs_bytes(2) [of img] by (simp add: phdrs_end_def mod_if)
    obtain k where k: "?n = Suc k" using False off by (cases ?n) (auto simp: phdrs_end_def)
    have "length img < unat (elf_phoff img)" using False phdrs_bytes(2) [of img] assms by (simp add: phdrs_end_def)
    then have "elf_scan img 0 ?n = None" unfolding k by (simp add: elf_phdr_type_def)
    moreover have "\<not> elf_ok img" using False assms by (auto simp: elf_ok_def)
    ultimately show ?thesis using False unfolding check_elf_def big m elf_wraps_def by auto
  qed
  then show "check_elf img = None \<longleftrightarrow> elf_wraps img" and "check_elf img = Some (Inr ()) \<longleftrightarrow> elf_ok img" by blast+
qed

section \<open>Nothing leaks\<close>

text \<open>What is held after the actions, \<open>None\<close> if something was acquired or released twice.\<close>

fun replay :: "os_resource set \<Rightarrow> os_action list \<Rightarrow> os_resource set option" where
  "replay held [] = Some held"
| "replay held (Acquire r # as) = (if r \<in> held then None else replay (insert r held) as)"
| "replay held (Release r # as) = (if r \<in> held then replay (held - {r}) as else None)"

definition module_ok :: "host_abi \<Rightarrow> strategy_module \<Rightarrow> bool" where
  "module_ok A m \<longleftrightarrow> md_abi_version m = MODULE_ABI_VERSION \<and> md_layout_hash m = exec_abi_hash (ha_layout_hash A) (ha_parts A)
     \<and> md_isa_mask m AND NOT (cpu_isa_mask (ha_cpu A)) = 0 \<and> md_create m \<and> md_run_null m \<and> md_destroy m"

lemma check_module_ok: "check_module A m = Inr () \<longleftrightarrow> module_ok A m"
  by (simp add: check_module_def module_ok_def)

lemma check_module_cases:
  obtains (bad) e where "check_module A m = Inl e" | (good) "check_module A m = Inr ()" "module_ok A m"
  using check_module_ok [of A m] by (cases "check_module A m") auto

lemma load_from_memfd_sound:
  assumes "replay {} acts = Some {R_Memfd}" "load_from_memfd A E acts = (res, acts')"
  shows "case res of Inl e \<Rightarrow> replay {} acts' = Some {}
    | Inr lm \<Rightarrow> lm_handle lm \<and> replay {} acts' = Some {R_Memfd, R_Handle} \<and> module_ok A (lm_module lm)"
proof -
  have app: "replay {} (acts @ as) = replay {R_Memfd} as" for as
  proof -
    have "replay h (as1 @ as2) = (case replay h as1 of None \<Rightarrow> None | Some h' \<Rightarrow> replay h' as2)" for h as1 as2
      by (induction h as1 rule: replay.induct) simp_all
    then show ?thesis using assms(1) by simp
  qed
  show ?thesis
  proof (cases "le_dlopen E")
    case True
    show ?thesis
    proof (cases "le_entry E")
      case None
      then show ?thesis using True assms(2) by (auto simp: load_from_memfd_def Let_def app)
    next
      case (Some m)
      show ?thesis
        by (cases rule: check_module_cases [of A m])
          (use Some True assms(2) in \<open>auto simp: load_from_memfd_def Let_def app\<close>)
    qed
  qed (use assms(2) in \<open>auto simp: load_from_memfd_def app\<close>)
qed

lemma load_file_sound:
  assumes "\<And>img. le_image E = Some img \<Longrightarrow> length img < 2 ^ 63"
  shows "case load_file A E of
      None \<Rightarrow> \<exists>img. le_image E = Some img \<and> elf_wraps img
    | Some (Inl e, acts) \<Rightarrow> replay {} acts = Some {}
    | Some (Inr lm, acts) \<Rightarrow> lm_handle lm \<and> replay {} acts = Some {R_Memfd, R_Handle} \<and> module_ok A (lm_module lm)
        \<and> (\<exists>img. le_image E = Some img \<and> elf_ok img)"
proof (cases "le_open E \<and> le_stat E")
  case True
  then have o: "le_open E" "le_stat E" by simp_all
  show ?thesis
  proof (cases "le_image E")
    case None
    then show ?thesis using o by (simp add: load_file_def)
  next
    case (Some img)
    note exact = check_elf_exact [OF assms [OF Some]]
    show ?thesis
    proof (cases "check_elf img")
      case None
      then show ?thesis using exact(1) o Some by (simp add: load_file_def Let_def)
    next
      case checked: (Some r)
      show ?thesis
      proof (cases r)
        case (Inl e)
        then show ?thesis using o Some checked by (auto simp: load_file_def Let_def)
      next
        case (Inr u)
        then have ok: "elf_ok img" using exact(2) checked by simp
        show ?thesis
        proof (cases "le_memfd E < 0 \<or> copy_from (le_write E) 0 0 (length img) \<noteq> length img")
          case True
          then show ?thesis using o Some checked Inr by (auto simp: load_file_def Let_def)
        next
          case False
          let ?acts = "[Acquire R_File, Acquire R_Map, Release R_File, Acquire R_Memfd, Release R_Map]"
          have run: "load_file A E = Some (load_from_memfd A E ?acts)"
            using False o Some checked Inr by (simp add: load_file_def Let_def)
          obtain res acts where m: "load_from_memfd A E ?acts = (res, acts)" by fastforce
          have "replay {} ?acts = Some {R_Memfd}" by auto
          from load_from_memfd_sound [OF this m] have "case res of Inl e \<Rightarrow> replay {} acts = Some {}
            | Inr lm \<Rightarrow> lm_handle lm \<and> replay {} acts = Some {R_Memfd, R_Handle} \<and> module_ok A (lm_module lm)" by simp
          then show ?thesis using run m Some ok by (cases res) auto
        qed
      qed
    qed
  qed
qed (auto simp: load_file_def)

end
