(* ===== verification/Shm_Segment.thy ===== *)
theory Shm_Segment
  imports Config_File
begin

text \<open>
  \<open>ShmSegment\<close> and \<open>attach_pipeline\<close> of \<open>src/common/ipc/shm_segment.cpp\<close>.  The operating system is
  the set of open descriptors and of mapped addresses of the process, and a flag that a descriptor or
  mapping was given back that was not held; the results of its calls are arguments.  The objects of a
  program are a finite map from names to segments.  Shown: every descriptor and mapping has exactly
  one owner, nothing is given back twice, and a segment that failed half way holds nothing.
\<close>

section \<open>Code\<close>

record os =
  os_fds :: "int set"
  os_maps :: "nat set"
  os_bad :: bool

definition os_close :: "int \<Rightarrow> os \<Rightarrow> os" where
  "os_close fd s = s\<lparr>os_fds := os_fds s - {fd}, os_bad := os_bad s \<or> fd \<notin> os_fds s\<rparr>"

definition os_munmap :: "nat \<Rightarrow> os \<Rightarrow> os" where
  "os_munmap a s = s\<lparr>os_maps := os_maps s - {a}, os_bad := os_bad s \<or> a \<notin> os_maps s\<rparr>"

text \<open>What \<open>memfd_create\<close>, \<open>ftruncate\<close> and \<open>mmap\<close> return: \<open>- 1\<close>, failure, and \<open>None\<close> for \<open>MAP_FAILED\<close>.\<close>

record map_answers =
  pa_fd :: int
  pa_trunc :: bool
  pa_addr :: "nat option"

definition do_memfd :: "int \<Rightarrow> os \<Rightarrow> os" where
  "do_memfd fd s = (if fd = - 1 then s else s\<lparr>os_fds := insert fd (os_fds s)\<rparr>)"

definition do_mmap :: "nat option \<Rightarrow> os \<Rightarrow> os" where
  "do_mmap a s = (case a of None \<Rightarrow> s | Some a \<Rightarrow> s\<lparr>os_maps := insert a (os_maps s)\<rparr>)"

record segment =
  sg_fd :: int
  sg_addr :: "nat option" \<comment> \<open>\<open>None\<close>: \<open>nullptr\<close>\<close>
  sg_size :: nat
  sg_owner :: bool
  sg_valid :: bool

definition seg_new :: segment where
  "seg_new = \<lparr>sg_fd = - 1, sg_addr = None, sg_size = 0, sg_owner = False, sg_valid = False\<rparr>"

text \<open>\<open>map_memfd\<close> works on the members \<open>fd_\<close> and \<open>addr_\<close> it is passed by reference.\<close>

definition map_memfd :: "map_answers \<Rightarrow> segment \<Rightarrow> os \<Rightarrow> bool \<times> segment \<times> os" where
  "map_memfd p g s =
     (let g = g\<lparr>sg_fd := pa_fd p\<rparr>; s = do_memfd (pa_fd p) s
      in if sg_fd g = - 1 then (False, g, s)
         else if \<not> pa_trunc p then (False, g\<lparr>sg_fd := - 1\<rparr>, os_close (sg_fd g) s)
         else let g = g\<lparr>sg_addr := pa_addr p\<rparr>; s = do_mmap (pa_addr p) s
           in if sg_addr g = None then (False, g\<lparr>sg_fd := - 1, sg_addr := None\<rparr>, os_close (sg_fd g) s)
              else (True, g, s))"

definition seg_create :: "nat \<Rightarrow> map_answers \<Rightarrow> map_answers \<Rightarrow> segment \<Rightarrow> os \<Rightarrow> bool \<times> segment \<times> os" where
  "seg_create sz huge plain g s =
     (if sg_valid g then (False, g, s)
      else let (ok, g, s) = map_memfd huge g s; (ok, g, s) = (if ok then (True, g, s) else map_memfd plain g s)
        in if \<not> ok then (False, g, s) else (True, g\<lparr>sg_size := sz, sg_owner := True, sg_valid := True\<rparr>, s))"

definition seg_attach :: "int \<Rightarrow> nat \<Rightarrow> nat option \<Rightarrow> segment \<Rightarrow> os \<Rightarrow> bool \<times> segment \<times> os" where
  "seg_attach fd sz a g s =
     (if sg_valid g \<or> fd < 0 then (False, g, s)
      else let g = g\<lparr>sg_addr := a\<rparr>; s = do_mmap a s
        in if sg_addr g = None then (False, g, s)
           else (True, g\<lparr>sg_fd := fd, sg_size := sz, sg_owner := False, sg_valid := True\<rparr>, s))"

definition seg_reset :: "segment \<Rightarrow> os \<Rightarrow> segment \<times> os" where
  "seg_reset g s =
     (let s = (case sg_addr g of None \<Rightarrow> s | Some a \<Rightarrow> os_munmap a s);
          s = (if sg_fd g \<noteq> - 1 then os_close (sg_fd g) s else s)
      in (seg_new, s))"

text \<open>The move constructor and what it leaves behind; move assignment of two different objects.\<close>

definition seg_move :: "segment \<Rightarrow> segment \<times> segment" where
  "seg_move other = (other, seg_new)"

definition seg_assign :: "segment \<Rightarrow> segment \<Rightarrow> os \<Rightarrow> segment \<times> segment \<times> os" where
  "seg_assign this other s =
     (let (this, s) = seg_reset this s; (this, other) = seg_move other in (this, other, s))"

section \<open>Programs\<close>

type_synonym objects = "nat \<Rightarrow> segment option"

datatype seg_cmd =
    Construct nat
  | Destroy nat
  | Create nat nat map_answers map_answers
  | Attach nat int nat "nat option"
  | Move_Construct nat nat
  | Move_Assign nat nat

text \<open>A step of a program: \<open>None\<close> when it uses an object that does not exist.\<close>

fun seg_step :: "seg_cmd \<Rightarrow> objects \<times> os \<Rightarrow> (objects \<times> os) option" where
  "seg_step (Construct i) (H, s) = (if H i = None then Some (H(i \<mapsto> seg_new), s) else None)"
| "seg_step (Destroy i) (H, s) = (case H i of
     None \<Rightarrow> None | Some g \<Rightarrow> (case seg_reset g s of (_, s) \<Rightarrow> Some (H(i := None), s)))"
| "seg_step (Create i sz huge plain) (H, s) = (case H i of
     None \<Rightarrow> None | Some g \<Rightarrow> (case seg_create sz huge plain g s of (_, g, s) \<Rightarrow> Some (H(i \<mapsto> g), s)))"
| "seg_step (Attach i fd sz a) (H, s) = (case H i of
     None \<Rightarrow> None | Some g \<Rightarrow> (case seg_attach fd sz a g s of (_, g, s) \<Rightarrow> Some (H(i \<mapsto> g), s)))"
| "seg_step (Move_Construct i j) (H, s) = (case (H i, H j) of
     (None, Some g) \<Rightarrow> (case seg_move g of (x, y) \<Rightarrow> Some (H(i \<mapsto> x, j \<mapsto> y), s)) | _ \<Rightarrow> None)"
| "seg_step (Move_Assign i j) (H, s) = (case (H i, H j) of
     (Some x, Some y) \<Rightarrow> if i = j then Some (H, s)
       else (case seg_assign x y s of (x, y, s) \<Rightarrow> Some (H(i \<mapsto> x, j \<mapsto> y), s)) | _ \<Rightarrow> None)"

text \<open>
  What the operating system promises: a new descriptor or mapping is not one in use.  What the
  program promises: it attaches an open descriptor that no segment owns.
\<close>

definition owned_fds :: "objects \<Rightarrow> int set" where
  "owned_fds H = {fd. fd \<noteq> - 1 \<and> (\<exists>i g. H i = Some g \<and> sg_fd g = fd)}"

definition owned_maps :: "objects \<Rightarrow> nat set" where
  "owned_maps H = {a. \<exists>i g. H i = Some g \<and> sg_addr g = Some a}"

definition answers_ok :: "map_answers \<Rightarrow> os \<Rightarrow> bool" where
  "answers_ok p s \<longleftrightarrow> (pa_fd p = - 1 \<or> 0 \<le> pa_fd p \<and> pa_fd p \<notin> os_fds s) \<and> (\<forall>a. pa_addr p = Some a \<longrightarrow> a \<notin> os_maps s)"

fun seg_legal :: "seg_cmd \<Rightarrow> objects \<times> os \<Rightarrow> bool" where
  "seg_legal (Create i sz huge plain) (H, s) \<longleftrightarrow> answers_ok huge s \<and> answers_ok plain s"
| "seg_legal (Attach i fd sz a) (H, s) \<longleftrightarrow> (0 \<le> fd \<longrightarrow> fd \<in> os_fds s - owned_fds H) \<and> (\<forall>x. a = Some x \<longrightarrow> x \<notin> os_maps s)"
| "seg_legal _ _ \<longleftrightarrow> True"

fun seg_run :: "seg_cmd list \<Rightarrow> objects \<times> os \<Rightarrow> (objects \<times> os) option" where
  "seg_run [] w = Some w"
| "seg_run (c # cs) w = (if seg_legal c w then (case seg_step c w of None \<Rightarrow> None | Some w \<Rightarrow> seg_run cs w) else None)"

fun attached :: "seg_cmd list \<Rightarrow> int set" where
  "attached [] = {}"
| "attached (Attach i fd sz a # cs) = insert fd (attached cs)"
| "attached (_ # cs) = attached cs"

section \<open>One segment and the rest of the process\<close>

definition seg_fds :: "segment \<Rightarrow> int set" where
  "seg_fds g = (if sg_fd g = - 1 then {} else {sg_fd g})"

definition seg_maps :: "segment \<Rightarrow> nat set" where
  "seg_maps g = set_option (sg_addr g)"

definition seg_ok :: "segment \<Rightarrow> bool" where
  "seg_ok g \<longleftrightarrow> (if sg_valid g then 0 \<le> sg_fd g \<and> sg_addr g \<noteq> None else sg_fd g = - 1 \<and> sg_addr g = None)"

text \<open>\<open>F\<close> and \<open>M\<close>: the descriptors and mappings that are not this segment's.\<close>

definition seg_holds :: "int set \<Rightarrow> nat set \<Rightarrow> segment \<Rightarrow> os \<Rightarrow> bool" where
  "seg_holds F M g s \<longleftrightarrow> seg_ok g \<and> os_fds s = F \<union> seg_fds g \<and> F \<inter> seg_fds g = {} \<and> os_maps s = M \<union> seg_maps g \<and> M \<inter> seg_maps g = {}
     \<and> \<not> os_bad s"

lemma seg_holds_new: "seg_holds F M seg_new s \<longleftrightarrow> os_fds s = F \<and> os_maps s = M \<and> \<not> os_bad s"
  by (auto simp: seg_holds_def seg_ok_def seg_new_def seg_fds_def seg_maps_def)

lemma seg_holds_invalid:
  assumes "seg_holds F M g s" "\<not> sg_valid g"
  shows "sg_fd g = - 1" and "sg_addr g = None" and "os_fds s = F" and "os_maps s = M" and "\<not> os_bad s"
  using assms by (auto simp: seg_holds_def seg_ok_def seg_fds_def seg_maps_def)

lemma map_memfd_sound:
  assumes "map_memfd p g s = (ok, g', s')" "answers_ok p s" "sg_addr g = None" "\<not> sg_valid g" "\<not> os_bad s"
  shows "\<not> sg_valid g' \<and> \<not> os_bad s' \<and>
    (if ok then 0 \<le> sg_fd g' \<and> sg_fd g' \<notin> os_fds s \<and> os_fds s' = insert (sg_fd g') (os_fds s)
       \<and> (\<exists>a. sg_addr g' = Some a \<and> a \<notin> os_maps s \<and> os_maps s' = insert a (os_maps s))
     else sg_fd g' = - 1 \<and> sg_addr g' = None \<and> os_fds s' = os_fds s \<and> os_maps s' = os_maps s)"
  using assms by (cases "pa_addr p")
    (auto simp: map_memfd_def answers_ok_def do_memfd_def do_mmap_def os_close_def Let_def split: if_splits)

lemma seg_create_sound:
  assumes "seg_create sz huge plain g s = (ok, g', s')" "seg_holds F M g s" "answers_ok huge s" "answers_ok plain s"
  shows "seg_holds F M g' s'"
proof (cases "sg_valid g")
  case False
  note i = seg_holds_invalid [OF assms(2) False]
  obtain ok1 g1 s1 where m1: "map_memfd huge g s = (ok1, g1, s1)" by (cases "map_memfd huge g s") auto
  note r1 = map_memfd_sound [OF m1 assms(3) i(2) False i(5)]
  show ?thesis
  proof (cases ok1)
    case True
    then show ?thesis using assms(1) False m1 r1 i by (auto simp: seg_create_def seg_holds_def seg_ok_def seg_fds_def seg_maps_def)
  next
    case F1: False
    then have g1: "sg_addr g1 = None" "\<not> sg_valid g1" "\<not> os_bad s1" and s1: "os_fds s1 = os_fds s" "os_maps s1 = os_maps s"
      using r1 by simp_all
    have a: "answers_ok plain s1" using assms(4) by (simp add: answers_ok_def s1)
    obtain ok2 g2 s2 where m2: "map_memfd plain g1 s1 = (ok2, g2, s2)" by (cases "map_memfd plain g1 s1") auto
    note r2 = map_memfd_sound [OF m2 a g1]
    show ?thesis
      using assms(1) False m1 F1 m2 r2 s1 i
      by (cases ok2) (auto simp: seg_create_def seg_holds_def seg_ok_def seg_fds_def seg_maps_def)
  qed
qed (use assms(1,2) in \<open>simp add: seg_create_def\<close>)

lemma seg_attach_sound:
  assumes "seg_attach fd sz a g s = (ok, g', s')" "seg_holds F M g s" "0 \<le> fd \<longrightarrow> fd \<in> F" "\<forall>x. a = Some x \<longrightarrow> x \<notin> os_maps s"
  shows "seg_holds (if ok then F - {fd} else F) M g' s'" and "ok \<Longrightarrow> seg_fds g' = {fd} \<and> fd \<in> F"
  using assms seg_holds_invalid [OF assms(2)]
  by (auto simp: seg_attach_def do_mmap_def seg_holds_def seg_ok_def seg_fds_def seg_maps_def Let_def split: if_splits option.splits)

lemma seg_reset_sound:
  assumes "seg_holds F M g s"
  shows "fst (seg_reset g s) = seg_new" and "seg_holds F M seg_new (snd (seg_reset g s))"
  using assms unfolding seg_holds_new
  by (auto simp: seg_reset_def os_close_def os_munmap_def seg_holds_def seg_fds_def seg_maps_def Let_def split: option.splits)

section \<open>All segments\<close>

definition objs_ok :: "objects \<Rightarrow> bool" where
  "objs_ok H \<longleftrightarrow> (\<forall>i g. H i = Some g \<longrightarrow> seg_ok g)
   \<and> (\<forall>i j g g'. H i = Some g \<longrightarrow> H j = Some g' \<longrightarrow> i \<noteq> j \<longrightarrow> seg_fds g \<inter> seg_fds g' = {} \<and> seg_maps g \<inter> seg_maps g' = {})"

definition seg_inv :: "int set \<Rightarrow> nat set \<Rightarrow> objects \<times> os \<Rightarrow> bool" where
  "seg_inv F M w \<longleftrightarrow> (case w of (H, s) \<Rightarrow> objs_ok H \<and> os_fds s = F \<union> owned_fds H \<and> F \<inter> owned_fds H = {}
     \<and> os_maps s = M \<union> owned_maps H \<and> M \<inter> owned_maps H = {} \<and> \<not> os_bad s)"

lemma owned_alt: "owned_fds H = (\<Union>g\<in>ran H. seg_fds g)" "owned_maps H = (\<Union>g\<in>ran H. seg_maps g)"
  by (auto simp: owned_fds_def owned_maps_def seg_fds_def seg_maps_def ran_def split: if_splits)

lemma owned_put:
  assumes "H i = None"
  shows "owned_fds (H(i \<mapsto> g)) = seg_fds g \<union> owned_fds H" and "owned_maps (H(i \<mapsto> g)) = seg_maps g \<union> owned_maps H"
  using assms by (auto simp: owned_alt ran_map_upd)

lemma objs_put:
  assumes "H i = None"
  shows "objs_ok (H(i \<mapsto> g)) \<longleftrightarrow> seg_ok g \<and> objs_ok H \<and> seg_fds g \<inter> owned_fds H = {} \<and> seg_maps g \<inter> owned_maps H = {}"
    (is "?L \<longleftrightarrow> ?R")
proof
  have h: "(H(i \<mapsto> g)) j = Some g' \<longleftrightarrow> j = i \<and> g' = g \<or> j \<noteq> i \<and> H j = Some g'" for j g' by auto
  have ne: "H j = Some g' \<Longrightarrow> j \<noteq> i" for j g' using assms by auto
  {
    assume L: ?L
    have "seg_fds g \<inter> seg_fds g' = {} \<and> seg_maps g \<inter> seg_maps g' = {}" if "H j = Some g'" for j g'
      using L that ne [OF that] unfolding objs_ok_def h by metis
    then have "seg_fds g \<inter> owned_fds H = {}" "seg_maps g \<inter> owned_maps H = {}" unfolding owned_alt ran_def by blast+
    moreover have "seg_ok g" "objs_ok H" using L ne unfolding objs_ok_def h by metis+
    ultimately show ?R by blast
  }
  {
    assume R: ?R
    have "seg_fds g \<inter> seg_fds g' = {} \<and> seg_maps g \<inter> seg_maps g' = {}" if "H j = Some g'" for j g'
      using R that unfolding owned_alt ran_def by blast
    then show ?L using R ne unfolding objs_ok_def h by (metis inf_commute)
  }
qed

text \<open>The invariant, seen from one object.\<close>

lemma seg_inv_put:
  assumes "H i = None"
  shows "seg_inv F M (H(i \<mapsto> g), s) \<longleftrightarrow> objs_ok H \<and> F \<inter> owned_fds H = {} \<and> M \<inter> owned_maps H = {}
    \<and> seg_holds (F \<union> owned_fds H) (M \<union> owned_maps H) g s"
proof -
  note p = owned_put [where H = H and i = i and g = g, OF assms] objs_put [where H = H and i = i and g = g, OF assms]
  show ?thesis unfolding seg_inv_def seg_holds_def prod.case p by blast
qed

lemma seg_inv_fresh: "seg_inv F M (H, s) \<Longrightarrow> H i = None \<Longrightarrow> seg_inv F M (H(i \<mapsto> seg_new), s)"
  using seg_inv_put [where H = H and i = i and F = F and M = M and g = seg_new and s = s] by (simp add: seg_holds_new seg_inv_def)

lemma seg_inv_at:
  assumes "H i = Some g"
  shows "seg_inv F M (H, s) \<longleftrightarrow> (let H = H(i := None) in objs_ok H \<and> F \<inter> owned_fds H = {} \<and> M \<inter> owned_maps H = {}
    \<and> seg_holds (F \<union> owned_fds H) (M \<union> owned_maps H) g s)"
proof -
  have "(H(i := None))(i \<mapsto> g) = H" using assms by auto
  then show ?thesis using seg_inv_put [of "H(i := None)" i F M g s] by (simp add: Let_def)
qed

lemma seg_inv_replace:
  assumes "seg_holds (F \<union> owned_fds (H(i := None))) (M \<union> owned_maps (H(i := None))) g s" "objs_ok (H(i := None))"
    "F \<inter> owned_fds (H(i := None)) = {}" "M \<inter> owned_maps (H(i := None)) = {}"
  shows "seg_inv F M (H(i \<mapsto> g), s)"
  using seg_inv_put [where H = "H(i := None)" and i = i and F = F and M = M and g = g and s = s] assms by simp

lemma seg_inv_out:
  assumes "seg_inv F M (H, s)" "H i = Some g"
  shows "seg_holds (F \<union> owned_fds (H(i := None))) (M \<union> owned_maps (H(i := None))) g s"
    and "objs_ok (H(i := None))" "F \<inter> owned_fds (H(i := None)) = {}" "M \<inter> owned_maps (H(i := None)) = {}"
  using assms(1) by (simp_all add: seg_inv_at [where H = H and i = i, OF assms(2)] Let_def)

lemma seg_inv_reset:
  assumes "seg_inv F M (H, s)" "H i = Some g"
  shows "seg_inv F M (H(i := None), snd (seg_reset g s))"
  using seg_reset_sound(2) [OF seg_inv_out(1) [OF assms]] seg_inv_out(2-4) [OF assms] by (simp add: seg_inv_def seg_holds_new)

lemma seg_inv_moved:
  assumes "seg_inv F M (H, s)" "H j = Some g" "H i = None"
  shows "seg_inv F M (H(i \<mapsto> g, j \<mapsto> seg_new), s)"
proof -
  let ?H = "H(j := None)"
  have ij: "i \<noteq> j" using assms(2,3) by auto
  have "?H i = None" using assms(3) by simp
  then have "seg_inv F M (?H(i \<mapsto> g), s)" using seg_inv_put [where H = ?H and i = i] seg_inv_out [OF assms(1,2)] by blast
  moreover have "(?H(i \<mapsto> g)) j = None" using ij by simp
  ultimately have "seg_inv F M ((?H(i \<mapsto> g))(j \<mapsto> seg_new), s)" by (rule seg_inv_fresh)
  moreover have "(?H(i \<mapsto> g))(j \<mapsto> seg_new) = H(i \<mapsto> g, j \<mapsto> seg_new)" using ij by auto
  ultimately show ?thesis by simp
qed

lemma seg_inv_attached:
  assumes inv: "seg_inv F M (H, s)" and g: "H i = Some g" and c: "seg_attach fd sz a g s = (ok, g', s')"
    and "0 \<le> fd \<longrightarrow> fd \<in> os_fds s \<and> fd \<notin> owned_fds H" and "\<forall>x. a = Some x \<longrightarrow> x \<notin> os_maps s"
  shows "seg_inv (if ok then F - {fd} else F) M (H(i \<mapsto> g'), s')"
proof -
  let ?H = "H(i := None)" and ?F = "if ok then F - {fd} else F"
  note o = seg_inv_out [OF inv g]
  have free: "0 \<le> fd \<longrightarrow> fd \<in> F \<union> owned_fds ?H"
    using assms(4) o(1) inv by (auto simp: seg_inv_def)
  have sub: "owned_fds ?H \<subseteq> owned_fds H" by (auto simp: owned_fds_def split: if_splits)
  have nonneg: "ok \<Longrightarrow> 0 \<le> fd" using c by (auto simp: seg_attach_def Let_def split: if_splits)
  have e: "(if ok then (F \<union> owned_fds ?H) - {fd} else F \<union> owned_fds ?H) = ?F \<union> owned_fds ?H" using assms(4) nonneg sub by auto
  have "seg_holds (?F \<union> owned_fds ?H) (M \<union> owned_maps ?H) g' s'"
    using seg_attach_sound(1) [OF c o(1) free assms(5)] unfolding e .
  then show ?thesis using o(2-4) by (intro seg_inv_replace) (auto split: if_splits)
qed

lemma seg_step_sound:
  assumes "seg_inv F M (H, s)" "seg_legal c (H, s)" "seg_step c (H, s) = Some w"
  shows "\<exists>F'. seg_inv F' M w \<and> F - attached [c] \<subseteq> F' \<and> F' \<subseteq> F"
proof (cases c)
  case (Construct i)
  then have i: "H i = None" "w = (H(i \<mapsto> seg_new), s)" using assms(3) by (auto split: if_splits)
  have "seg_inv F M (H(i \<mapsto> seg_new), s)" using assms(1) i(1) by (rule seg_inv_fresh)
  then show ?thesis using i(2) by auto
next
  case (Destroy i)
  then obtain g where g: "H i = Some g" using assms(3) by (auto split: option.splits)
  show ?thesis using seg_inv_reset [OF assms(1) g] assms(3) g Destroy by (auto split: prod.splits)
next
  case (Create i sz huge plain)
  then obtain g where g: "H i = Some g" using assms(3) by (auto split: option.splits)
  obtain ok g' s' where c: "seg_create sz huge plain g s = (ok, g', s')" by (cases "seg_create sz huge plain g s") auto
  note o = seg_inv_out [OF assms(1) g]
  from seg_create_sound [OF c o(1)] have "seg_inv F M (H(i \<mapsto> g'), s')"
    using o(2-4) assms(2) Create by (intro seg_inv_replace) simp_all
  then show ?thesis using assms(3) g c Create by auto
next
  case (Attach i fd sz a)
  then obtain g where g: "H i = Some g" using assms(3) by (auto split: option.splits)
  obtain ok g' s' where c: "seg_attach fd sz a g s = (ok, g', s')" by (cases "seg_attach fd sz a g s") auto
  have "seg_inv (if ok then F - {fd} else F) M (H(i \<mapsto> g'), s')"
    by (rule seg_inv_attached [OF assms(1) g c]) (use assms(2) Attach in auto)
  then show ?thesis using assms(3) g c Attach by (intro exI [of _ "if ok then F - {fd} else F"]) auto
next
  case (Move_Construct i j)
  then obtain g where g: "H i = None" "H j = Some g" "w = (H(i \<mapsto> g, j \<mapsto> seg_new), s)"
    using assms(3) by (auto simp: seg_move_def split: option.splits)
  show ?thesis using seg_inv_moved [OF assms(1) g(2,1)] g(3) by auto
next
  case (Move_Assign i j)
  show ?thesis
  proof (cases "i = j")
    case True
    then show ?thesis using assms(1,3) Move_Assign by (auto split: option.splits)
  next
    case ij: False
    then obtain x y where xy: "H i = Some x" "H j = Some y" and w: "w = (H(i \<mapsto> y, j \<mapsto> seg_new), snd (seg_reset x s))"
      using assms(3) Move_Assign by (auto simp: seg_assign_def seg_move_def split: option.splits prod.splits)
    have "(H(i := None)) j = Some y" "(H(i := None)) i = None" using xy(2) ij by simp_all
    note m = seg_inv_moved [OF seg_inv_reset [OF assms(1) xy(1)] this]
    have "(H(i := None))(i \<mapsto> y, j \<mapsto> seg_new) = H(i \<mapsto> y, j \<mapsto> seg_new)" by simp
    then show ?thesis using m w by (intro exI [of _ F]) (simp only:, blast)
  qed
qed

lemma seg_run_sound:
  "seg_inv F M w \<Longrightarrow> seg_run cs w = Some w' \<Longrightarrow> \<exists>F'. seg_inv F' M w' \<and> F - attached cs \<subseteq> F' \<and> F' \<subseteq> F"
proof (induction cs arbitrary: F w)
  case Nil then show ?case by auto
next
  case (Cons c cs)
  obtain H s where w: "w = (H, s)" by (cases w)
  obtain w1 where w1: "seg_legal c (H, s)" "seg_step c (H, s) = Some w1" "seg_run cs w1 = Some w'"
    using Cons.prems(2) by (auto simp: w split: if_splits option.splits)
  from seg_step_sound [OF Cons.prems(1) [unfolded w] w1(1,2)] obtain F1 where
    F1: "seg_inv F1 M w1" "F - attached [c] \<subseteq> F1" "F1 \<subseteq> F" by blast
  from Cons.IH [OF F1(1) w1(3)] obtain F' where "seg_inv F' M w'" "F1 - attached cs \<subseteq> F'" "F' \<subseteq> F1" by blast
  moreover have "attached (c # cs) = attached [c] \<union> attached cs" by (cases c) auto
  ultimately show ?case using F1(2,3) by (intro exI [of _ F']) auto
qed

end
