(* ===== verification/Decimal.thy ===== *)
theory Decimal
  imports Config_File
begin

text \<open>
  Numbers as \<open>printf\<close> prints them: decimal digits of an integer, and \<open>%.<n>f\<close> of a number, which the C
  library rounds to the nearest, ties to even.  Printed integers are read back by the parsers of
  \<open>Config_File\<close>.
\<close>

section \<open>Integers\<close>

fun show_nat :: "nat \<Rightarrow> string" where
  "show_nat n = (if n < 10 then [char_of (48 + n)] else show_nat (n div 10) @ [char_of (48 + n mod 10)])"

declare show_nat.simps [simp del]

fun show_hex :: "nat \<Rightarrow> string" where
  "show_hex n = (let d = n mod 16; c = char_of (if d < 10 then 48 + d else 87 + d)
     in if n < 16 then [c] else show_hex (n div 16) @ [c])"

declare show_hex.simps [simp del]

definition show_int :: "int \<Rightarrow> string" where
  "show_int i = (if i < 0 then CHR ''-'' # show_nat (nat (- i)) else show_nat (nat i))"

lemma digit_char:
  assumes "d < 10"
  shows "is_digit (char_of (48 + d))" and "digits_value (ds @ [char_of (48 + d)]) = 10 * digits_value ds + int d"
proof -
  have c: "(of_char (char_of (48 + d)) :: nat) = 48 + d" using assms by simp
  then have "(of_char (char_of (48 + d)) :: int) = int (48 + d)" by (metis of_nat_of_char)
  then show "is_digit (char_of (48 + d))" and "digits_value (ds @ [char_of (48 + d)]) = 10 * digits_value ds + int d"
    using assms c by (simp_all add: is_digit_def digits_value_def)
qed

lemma show_nat_digits: "list_all is_digit (show_nat n) \<and> show_nat n \<noteq> [] \<and> digits_value (show_nat n) = int n"
proof (induction n rule: show_nat.induct)
  case (1 n)
  show ?case
  proof (cases "n < 10")
    case True
    then show ?thesis using digit_char [of n] digit_char(2) [of n "[]"] by (simp add: show_nat.simps [of n]) (simp add: digits_value_def)
  next
    case False
    moreover have "10 * int (n div 10) + int (n mod 10) = int n" by (metis mult_div_mod_eq of_nat_add of_nat_mult of_nat_numeral)
    ultimately show ?thesis using 1 digit_char(1) [of "n mod 10"] digit_char(2) [of "n mod 10" "show_nat (n div 10)"] by (simp add: show_nat.simps [of n])
  qed
qed

lemma digit_no_space: "is_digit c \<Longrightarrow> \<not> is_c_space c \<and> c \<noteq> CHR ''-'' \<and> c \<noteq> CHR ''+''"
  by (auto simp: is_digit_def is_c_space_def)

lemma show_nat_length: "n < 10 ^ k \<Longrightarrow> 0 < k \<Longrightarrow> length (show_nat n) \<le> k"
proof (induction k arbitrary: n)
  case (Suc k)
  show ?case
  proof (cases "n < 10")
    case True
    then show ?thesis by (subst show_nat.simps) simp
  next
    case False
    have k: "0 < k" using Suc.prems(1) False by (cases k) simp_all
    have "n div 10 < 10 ^ k" using Suc.prems(1) by (simp add: less_mult_imp_div_less mult.commute)
    then have "length (show_nat (n div 10)) \<le> k" using k by (rule Suc.IH)
    then show ?thesis using False by (subst show_nat.simps) simp
  qed
qed simp

lemma show_nat_set: "c \<in> set (show_nat n) \<Longrightarrow> is_digit c"
  using show_nat_digits [of n] by (simp add: list_all_iff)

lemma strtoll_shown:
  assumes "int n < 2 ^ 63"
  shows "strtoll (show_nat n) = Some (int n, [])"
proof -
  obtain c cs where s: "show_nat n = c # cs" using show_nat_digits [of n] by (cases "show_nat n") auto
  have d: "list_all is_digit (c # cs)" "digits_value (c # cs) = int n" using show_nat_digits [of n] by (simp_all add: s)
  then have c: "is_digit c" by simp
  have w: "takeWhile is_digit cs = cs" "dropWhile is_digit cs = []"
    using d(1) by (auto simp: list_all_iff)
  show ?thesis
    using digit_no_space [OF c] d(2) assms unfolding s strtoll_def take_sign_def by (simp add: w c)
qed

text \<open>Width and precision of a conversion.\<close>

definition pad_left :: "nat \<Rightarrow> string \<Rightarrow> string" where
  "pad_left n s = replicate (n - length s) CHR '' '' @ s"

definition pad_right :: "nat \<Rightarrow> string \<Rightarrow> string" where
  "pad_right n s = s @ replicate (n - length s) CHR '' ''"

section \<open>Fixed point\<close>

definition round_even :: "real \<Rightarrow> int" where
  "round_even x = (let f = \<lfloor>x\<rfloor>; d = x - of_int f
     in if d < 1 / 2 then f else if d > 1 / 2 then f + 1 else if even f then f else f + 1)"

definition pad_zeros :: "nat \<Rightarrow> string \<Rightarrow> string" where
  "pad_zeros n s = replicate (n - length s) CHR ''0'' @ s"

definition show_fixed :: "nat \<Rightarrow> real \<Rightarrow> string" where
  "show_fixed n x = (let m = nat (round_even (\<bar>x\<bar> * 10 ^ n))
     in (if x < 0 then ''-'' else []) @ show_nat (m div 10 ^ n)
       @ (if n = 0 then [] else ''.'' @ pad_zeros n (show_nat (m mod 10 ^ n))))"

text \<open>A \<open>double\<close> that may be NaN.\<close>

definition show_opt :: "nat \<Rightarrow> real option \<Rightarrow> string" where
  "show_opt n x = (case x of None \<Rightarrow> ''nan'' | Some x \<Rightarrow> show_fixed n x)"

lemma show_fixed_chars:
  assumes "c \<in> set (show_fixed n x)"
  shows "is_digit c \<or> c = CHR ''-'' \<or> c = CHR ''.''"
  using assms show_nat_set by (auto simp: show_fixed_def pad_zeros_def Let_def is_digit_def split: if_splits)

lemma show_fixed_length:
  assumes "\<bar>x\<bar> < 10 ^ k" "0 < n" "0 < k"
  shows "length (show_fixed n x) \<le> k + n + 3"
proof -
  let ?m = "nat (round_even (\<bar>x\<bar> * 10 ^ n))"
  have "\<bar>x\<bar> * 10 ^ n < 10 ^ k * 10 ^ n" using assms(1) by simp
  then have "\<bar>x\<bar> * 10 ^ n < of_int (10 ^ (k + n))" by (simp add: power_add)
  then have "\<lfloor>\<bar>x\<bar> * 10 ^ n\<rfloor> < 10 ^ (k + n)" by (simp only: floor_less_iff)
  then have "round_even (\<bar>x\<bar> * 10 ^ n) \<le> 10 ^ (k + n)" by (simp add: round_even_def Let_def)
  then have "?m \<le> 10 ^ (k + n)" by (simp add: nat_le_iff)
  then have "?m div 10 ^ n \<le> 10 ^ (k + n) div 10 ^ n" by (rule div_le_mono)
  then have "?m div 10 ^ n \<le> 10 ^ k" by (simp add: power_add)
  then have "?m div 10 ^ n < 10 ^ (k + 1)" by (rule le_less_trans) simp
  then have a: "length (show_nat (?m div 10 ^ n)) \<le> k + 1" by (rule show_nat_length) simp
  have "?m mod 10 ^ n < 10 ^ n" by simp
  then have "length (show_nat (?m mod 10 ^ n)) \<le> n" using assms(2) by (rule show_nat_length)
  moreover define l where "l = length (show_nat (?m div 10 ^ n))"
  moreover define r where "r = length (show_nat (?m mod 10 ^ n))"
  ultimately have "l \<le> k + 1" "r \<le> n" using a by simp_all
  moreover have "length (show_fixed n x) = (if x < 0 then 1 else 0) + l + 1 + (n - r + r)"
    using assms(2) unfolding show_fixed_def Let_def pad_zeros_def l_def r_def by simp
  ultimately show ?thesis by simp
qed

end
