(* ===== verification/Pipeline_Attach.thy ===== *)
theory Pipeline_Attach
  imports Shm_Segment Layout_Hash Decimal
begin

text \<open>
  How a worker finds the pipeline's memory: the manager prints the descriptor on the command line and
  publishes the header (\<open>src/manager/manager.cpp\<close>), \<open>attach_pipeline\<close> of
  \<open>src/common/ipc/shm_segment.cpp\<close> parses the one and waits for the other.  The header in memory is
  a sequence of values, one per access of the worker.  Shown: the worker never acts on a header that
  is half written, and it runs exactly when its own layout hash is the manager's.
\<close>

section \<open>Code\<close>

definition SHM_SIZE :: nat where "SHM_SIZE = 16 * 1024 * 1024"
definition MAGIC :: u64 where "MAGIC = 0xDEADBEEF"
definition VERSION :: u32 where "VERSION = 4"
definition INT_MAX :: int where "INT_MAX = 2 ^ 31 - 1"

record shm_header =
  sh_magic :: u64
  sh_version :: u32
  sh_layout_hash :: u32

text \<open>A new segment is zero; the manager's three stores, in order.\<close>

definition header_new :: shm_header where
  "header_new = \<lparr>sh_magic = 0, sh_version = 0, sh_layout_hash = 0\<rparr>"

definition header_stores :: "u32 \<Rightarrow> (shm_header \<Rightarrow> shm_header) list" where
  "header_stores hash = [\<lambda>h. h\<lparr>sh_version := VERSION\<rparr>, \<lambda>h. h\<lparr>sh_layout_hash := hash\<rparr>, \<lambda>h. h\<lparr>sh_magic := MAGIC\<rparr>]"

definition header_after :: "u32 \<Rightarrow> nat \<Rightarrow> shm_header" where
  "header_after hash n = fold (\<lambda>f h. f h) (take n (header_stores hash)) header_new"

text \<open>The worker: the argument, the mapping, the wait and the check.\<close>

definition parse_fd :: "string option \<Rightarrow> int option" where
  "parse_fd fd_arg = (case fd_arg of
     None \<Rightarrow> None
   | Some s \<Rightarrow> (case strtoll s of
       Some (fd, []) \<Rightarrow> if fd < 0 \<or> fd > INT_MAX then None else Some fd
     | _ \<Rightarrow> None))"

partial_function (option) wait_magic :: "(nat \<Rightarrow> shm_header) \<Rightarrow> nat \<Rightarrow> nat option" where
  "wait_magic hdr k = (if sh_magic (hdr k) = 0 then wait_magic hdr (k + 1) else Some k)"

definition attach_pipeline :: "u32 \<Rightarrow> (nat \<Rightarrow> shm_header) \<Rightarrow> nat option \<Rightarrow> string option \<Rightarrow> segment \<Rightarrow> os
    \<Rightarrow> (int option \<times> segment \<times> os) option" where
  "attach_pipeline layout_hash hdr a fd_arg g s =
     (case parse_fd fd_arg of
        None \<Rightarrow> Some (Some 2, g, s)
      | Some fd \<Rightarrow> (case seg_attach fd SHM_SIZE a g s of
          (False, g, s) \<Rightarrow> Some (Some 2, g, s)
        | (True, g, s) \<Rightarrow> (case wait_magic hdr 0 of
            None \<Rightarrow> None
          | Some k \<Rightarrow>
              if sh_magic (hdr (k + 1)) \<noteq> MAGIC \<or> sh_version (hdr (k + 2)) \<noteq> VERSION
                \<or> sh_layout_hash (hdr (k + 3)) \<noteq> layout_hash then Some (Some 2, g, s)
              else Some (None, g, s))))"

section \<open>The descriptor survives the command line\<close>

lemma parse_shown:
  assumes "int n \<le> INT_MAX"
  shows "parse_fd (Some (show_nat n)) = Some (int n)"
proof -
  have "strtoll (show_nat n) = Some (int n, [])" using assms by (intro strtoll_shown) (simp add: INT_MAX_def)
  then show ?thesis using assms by (simp add: parse_fd_def)
qed

section \<open>Publication\<close>

lemma header_after_cases:
  shows "n < 3 \<Longrightarrow> sh_magic (header_after hash n) = 0"
    and "3 \<le> n \<Longrightarrow> header_after hash n = \<lparr>sh_magic = MAGIC, sh_version = VERSION, sh_layout_hash = hash\<rparr>"
proof -
  show "sh_magic (header_after hash n) = 0" if "n < 3"
  proof -
    have "n = 0 \<or> n = 1 \<or> n = 2" using that by linarith
    then show ?thesis by (elim disjE) (simp_all add: header_after_def header_stores_def header_new_def numeral_2_eq_2)
  qed
  show "header_after hash n = \<lparr>sh_magic = MAGIC, sh_version = VERSION, sh_layout_hash = hash\<rparr>" if "3 \<le> n"
    using that by (simp add: header_after_def header_stores_def header_new_def take_Cons' numeral_eq_Suc split: nat.split)
qed

lemma wait_magic_returns:
  assumes "sh_magic (hdr n) \<noteq> 0" "k \<le> n"
  shows "\<exists>j. wait_magic hdr k = Some j \<and> k \<le> j \<and> sh_magic (hdr j) \<noteq> 0"
  using assms(2)
proof (induction "n - k" arbitrary: k)
  case 0
  then show ?case using assms(1) by (subst wait_magic.simps) simp
next
  case (Suc m)
  show ?case
  proof (cases "sh_magic (hdr k) = 0")
    case True
    then have "k < n" using Suc.prems assms(1) by (cases "k = n") simp_all
    then have "\<exists>j. wait_magic hdr (k + 1) = Some j \<and> k + 1 \<le> j \<and> sh_magic (hdr j) \<noteq> 0" using Suc.hyps by simp
    then show ?thesis using True by (subst wait_magic.simps) auto
  qed (subst wait_magic.simps, simp)
qed

text \<open>\<open>phase k\<close>: the stores the manager has made when the worker makes its \<open>k\<close>-th access.\<close>

lemma attach_published:
  assumes "mono phase" "3 \<le> phase n" "int fd \<le> INT_MAX"
  shows "attach_pipeline layout_hash (\<lambda>k. header_after hash (phase k)) (Some a) (Some (show_nat fd)) seg_new s
    = Some (if hash = layout_hash then None else Some 2,
        \<lparr>sg_fd = int fd, sg_addr = Some a, sg_size = SHM_SIZE, sg_owner = False, sg_valid = True\<rparr>, do_mmap (Some a) s)"
proof -
  let ?hdr = "\<lambda>k. header_after hash (phase k)"
  have "sh_magic (?hdr n) \<noteq> 0" using header_after_cases(2) [OF assms(2)] by (simp add: MAGIC_def)
  from wait_magic_returns [where hdr = ?hdr, OF this, of 0] obtain j where
    j: "wait_magic ?hdr 0 = Some j" "sh_magic (?hdr j) \<noteq> 0" by auto
  have "3 \<le> phase j" using header_after_cases(1) [of "phase j" hash] j(2) by linarith
  then have "3 \<le> phase (j + i)" for i using monoD [OF assms(1), of j "j + i"] by simp
  then have h: "?hdr (j + i) = \<lparr>sh_magic = MAGIC, sh_version = VERSION, sh_layout_hash = hash\<rparr>" for i
    by (rule header_after_cases(2))
  have at: "seg_attach (int fd) SHM_SIZE (Some a) seg_new s = (True,
      \<lparr>sg_fd = int fd, sg_addr = Some a, sg_size = SHM_SIZE, sg_owner = False, sg_valid = True\<rparr>, do_mmap (Some a) s)"
    by (simp add: seg_attach_def seg_new_def)
  show ?thesis
    unfolding attach_pipeline_def parse_shown [OF assms(3)] option.case at prod.case bool.case j(1) h by simp
qed

end
