(* ===== verification/Stats_Log.thy ===== *)
theory Stats_Log
  imports Decimal Exec_Context
begin

text \<open>
  \<open>write_stats_log\<close> of \<open>src/exec/stats_log.hpp\<close>: the text exec leaves behind, one \<open>key=value\<close> a line.
  The entries are a list, printed as \<open>print_config\<close> prints them.  Shown: a reader of such files finds
  every counter of the run in it.
\<close>

section \<open>Code\<close>

definition REJECT_REASONS :: "reject_reason list" where
  "REJECT_REASONS = [Rej_None, Rej_Kill, Rej_Pause, Rej_Not_Traded, Rej_Not_Allowed, Rej_Instrument_Status,
     Rej_Bad_Order, Rej_Min_Qty, Rej_Min_Notional, Rej_Max_Order_Qty, Rej_Max_Order_Notional,
     Rej_Max_Position, Rej_Max_Position_Notional, Rej_Max_Open_Orders, Rej_Price_Band,
     Rej_Insufficient_Base, Rej_Insufficient_Quote, Rej_Rate_Limit, Rej_Open_Order_Limit,
     Rej_Unknown_Order, Rej_Table_Full, Rej_Ring_Full]"

definition show_u64 :: "u64 \<Rightarrow> string" where "show_u64 v = show_nat (unat v)"

definition log_u :: "string \<Rightarrow> u64 \<Rightarrow> string \<times> string" where "log_u k v = (k, show_u64 v)"

definition cycles_ns :: "(real \<Rightarrow> real) \<Rightarrow> real \<Rightarrow> u64 \<Rightarrow> u64" where
  "cycles_ns rnd tsc_per_ns c = word_of_int (trunc (rnd (dbl rnd (uint c) / tsc_per_ns)))"

definition bucket_bound :: "nat \<Rightarrow> u64" where
  "bucket_bound b = (if b < 63 then push_bit (b + 1) 1 else - 1)"

definition log_hist :: "(real \<Rightarrow> real) \<Rightarrow> real \<Rightarrow> string \<Rightarrow> histogram \<Rightarrow> (string \<times> string) list" where
  "log_hist rnd tsc_per_ns name h = (let ns = cycles_ns rnd tsc_per_ns
     in [log_u (name @ ''_n'') (hg_count h),
         log_u (name @ ''_p50_ns'') (ns (percentile_cycles rnd (rnd (1 / 2)) h)),
         log_u (name @ ''_p99_ns'') (ns (percentile_cycles rnd (rnd (99 / 100)) h)),
         log_u (name @ ''_p999_ns'') (ns (percentile_cycles rnd (rnd (999 / 1000)) h)),
         log_u (name @ ''_max_ns'') (ns (hg_max_cycles h))]
        @ map (\<lambda>b. log_u (name @ ''_le_'' @ show_u64 (ns (bucket_bound b)) @ ''ns'') (hg_buckets h b))
            (filter (\<lambda>b. hg_buckets h b \<noteq> 0) [0..<64]))"

definition log_counters :: "exec_context \<Rightarrow> (string \<times> u64) list" where
  "log_counters x = (let s = x_st x in
     [(''exec_generation'', es_exec_generation s), (''frames'', es_frames s), (''frame_gaps'', mv_frame_gaps (x_view x)),
      (''orders_new'', es_orders_new s), (''orders_replace'', es_orders_replace s), (''orders_cancel'', es_orders_cancel s),
      (''acks'', es_acks s), (''replaced'', es_replaced s), (''canceled'', es_canceled s), (''expired'', es_expired s),
      (''fills'', es_fills s), (''venue_rejects'', es_venue_rejects s), (''unsolicited'', es_unsolicited s),
      (''risk_rejects'', es_risk_rejects s), (''ring_full_rejects'', es_ring_full_rejects s)])"

definition log_rejects :: "exec_stats \<Rightarrow> (string \<times> u64) list" where
  "log_rejects s = map (\<lambda>r. (''reject.'' @ reject_name r, es_rejects s r))
     (filter (\<lambda>r. es_rejects s r \<noteq> 0) (tl REJECT_REASONS))"

definition log_equity :: "(real \<Rightarrow> real) \<Rightarrow> exec_context \<Rightarrow> real" where
  "log_equity rnd x = rnd (dbl rnd (equity (x_account x)) / 100000000)"

definition log_entries :: "(real \<Rightarrow> real) \<Rightarrow> exec_context \<Rightarrow> string \<Rightarrow> (string \<times> string) list" where
  "log_entries rnd x strategy =
     [(''strategy'', strategy)]
     @ map (\<lambda>(k, v). log_u k v) (log_counters x @ log_rejects (x_st x) @ [(''open_orders_at_exit'', ucast (ot_n (x_orders x)))])
     @ [(''equity'', show_fixed 8 (log_equity rnd x))]
     @ log_hist rnd (x_tsc_per_ns x) ''tick_to_order'' (es_tick_to_order (x_st x))
     @ log_hist rnd (x_tsc_per_ns x) ''tick'' (es_tick (x_st x))
     @ log_hist rnd (x_tsc_per_ns x) ''feed_transit'' (es_feed_transit (x_st x))"

text \<open>The result and the file written, if it could be opened.\<close>

definition write_stats_log :: "(real \<Rightarrow> real) \<Rightarrow> exec_context \<Rightarrow> bool \<Rightarrow> string \<Rightarrow> bool \<times> string option" where
  "write_stats_log rnd x opens strategy =
     (if opens then (True, Some (print_config (log_entries rnd x strategy))) else (False, None))"

section \<open>Every entry is well formed\<close>

lemma trimmed_chars:
  assumes "\<forall>c\<in>set s. \<not> is_line_end c"
  shows "trimmed s"
  using assms by (cases s) (auto simp: trimmed_def is_line_end_def)

definition plain :: "string \<Rightarrow> bool" where
  "plain s \<longleftrightarrow> (\<forall>c\<in>set s. \<not> is_line_end c \<and> c \<noteq> CHR ''='' \<and> c \<noteq> CHR ''#'')"

lemma plain_append [simp]: "plain (s @ t) \<longleftrightarrow> plain s \<and> plain t"
  by (auto simp: plain_def)

lemma plain_digits: "(\<And>c. c \<in> set s \<Longrightarrow> is_digit c \<or> c = CHR ''-'' \<or> c = CHR ''.'') \<Longrightarrow> plain s"
  by (force simp: plain_def is_line_end_def is_blank_def is_digit_def)

lemma entry_ok_plain:
  assumes "plain k" "plain v" "k \<noteq> []" "length k < KEY_LEN" "length v < VAL_LEN"
  shows "entry_ok (k, v)"
proof -
  have "trimmed k" "trimmed v" using assms(1,2) by (auto intro!: trimmed_chars simp: plain_def)
  moreover have "hd k \<noteq> CHR ''#''" using assms(1,3) by (cases k) (auto simp: plain_def)
  ultimately show ?thesis using assms by (auto simp: entry_ok_def plain_def is_line_end_def)
qed

lemma show_u64_plain: "plain (show_u64 v)" and show_u64_length: "length (show_u64 v) \<le> 20"
proof -
  show "plain (show_u64 v)" by (rule plain_digits) (auto simp: show_u64_def dest: show_nat_set)
  have "unat v < 2 ^ 64" using unsigned_less [of v] by simp
  also have "(2 :: nat) ^ 64 < 10 ^ 20" by simp
  finally show "length (show_u64 v) \<le> 20" unfolding show_u64_def by (rule show_nat_length) simp
qed

lemma log_u_ok: "plain k \<Longrightarrow> k \<noteq> [] \<Longrightarrow> length k < KEY_LEN \<Longrightarrow> entry_ok (log_u k v)"
  using show_u64_length [of v] by (auto simp: log_u_def VAL_LEN_def intro!: entry_ok_plain show_u64_plain)

lemma plain_simps [simp]:
  "plain []" "plain (c # cs) \<longleftrightarrow> \<not> is_line_end c \<and> c \<noteq> CHR ''='' \<and> c \<noteq> CHR ''#'' \<and> plain cs"
  by (auto simp: plain_def)

lemma log_hist_ok:
  assumes "plain name" "length name \<le> 20"
  shows "\<forall>kv\<in>set (log_hist rnd k name h). entry_ok kv" and "length (log_hist rnd k name h) \<le> 69"
    and "\<forall>kv\<in>set (log_hist rnd k name h). \<exists>r. fst kv = name @ CHR ''_'' # r"
proof -
  have "length (filter P [0..<64]) \<le> 64" for P by (rule order_trans [OF length_filter_le]) simp
  then show "length (log_hist rnd k name h) \<le> 69" by (simp add: log_hist_def Let_def)
  have "length (name @ ''_le_'' @ show_u64 v @ ''ns'') < KEY_LEN" for v
    using show_u64_length [of v] assms(2) by (simp add: KEY_LEN_def)
  then show "\<forall>kv\<in>set (log_hist rnd k name h). entry_ok kv"
    using assms show_u64_plain
    by (auto simp: log_hist_def Let_def KEY_LEN_def is_line_end_def is_blank_def intro!: log_u_ok)
  show "\<forall>kv\<in>set (log_hist rnd k name h). \<exists>r. fst kv = name @ CHR ''_'' # r"
    by (auto simp: log_hist_def Let_def log_u_def)
qed

lemma log_rejects_ok:
  "\<forall>(k, v)\<in>set (log_rejects s). \<exists>r. k = ''reject.'' @ reject_name r" "length (log_rejects s) \<le> 21"
  "distinct (map fst (log_rejects s))" "\<forall>(k, v)\<in>set (log_rejects s). plain k \<and> length k < KEY_LEN"
proof -
  show "\<forall>(k, v)\<in>set (log_rejects s). \<exists>r. k = ''reject.'' @ reject_name r" by (auto simp: log_rejects_def)
  show "length (log_rejects s) \<le> 21"
    unfolding log_rejects_def length_map by (rule order_trans [OF length_filter_le]) (simp add: REJECT_REASONS_def)
  have "distinct (map (\<lambda>r. ''reject.'' @ reject_name r) (tl REJECT_REASONS))"
    by (simp add: REJECT_REASONS_def reject_name_def)
  then show "distinct (map fst (log_rejects s))"
    by (simp add: log_rejects_def comp_def distinct_map_filter)
  have "plain (''reject.'' @ reject_name r) \<and> length (''reject.'' @ reject_name r) < KEY_LEN" for r
    by (cases r) (simp_all add: reject_name_def is_line_end_def is_blank_def KEY_LEN_def)
  then show "\<forall>(k, v)\<in>set (log_rejects s). plain k \<and> length k < KEY_LEN" by (auto simp: log_rejects_def)
qed

lemma reject_keys: "k \<in> fst ` set (log_rejects s) \<Longrightarrow> \<exists>r. k = ''reject.'' @ r"
  by (auto simp: log_rejects_def)

definition log_numbers :: "exec_context \<Rightarrow> (string \<times> u64) list" where
  "log_numbers x = log_counters x @ log_rejects (x_st x) @ [(''open_orders_at_exit'', ucast (ot_n (x_orders x)))]"

lemma log_numbers_ok:
  "\<forall>(k, v)\<in>set (log_numbers x). plain k \<and> k \<noteq> [] \<and> length k < KEY_LEN" "length (log_numbers x) \<le> 37"
  "distinct (map fst (log_numbers x))"
proof -
  have "\<forall>(k, v)\<in>set (log_counters x). plain k \<and> k \<noteq> [] \<and> length k < KEY_LEN"
    by (simp add: log_counters_def Let_def is_line_end_def is_blank_def KEY_LEN_def)
  moreover have "\<forall>(k, v)\<in>set (log_rejects (x_st x)). plain k \<and> k \<noteq> [] \<and> length k < KEY_LEN"
    using log_rejects_ok(1,4) [of "x_st x"] by fastforce
  ultimately show "\<forall>(k, v)\<in>set (log_numbers x). plain k \<and> k \<noteq> [] \<and> length k < KEY_LEN"
    by (simp add: log_numbers_def ball_Un is_line_end_def is_blank_def KEY_LEN_def)
  show "length (log_numbers x) \<le> 37" using log_rejects_ok(2) [of "x_st x"] by (simp add: log_numbers_def log_counters_def Let_def)
  have "distinct (map fst (log_counters x))" "''open_orders_at_exit'' \<notin> fst ` set (log_counters x)"
    by (simp_all add: log_counters_def Let_def)
  moreover have r: "''reject.'' @ s \<notin> fst ` set (log_counters x)" "''open_orders_at_exit'' \<noteq> ''reject.'' @ s" for s
    by (simp_all add: log_counters_def Let_def)
  have k: "k \<notin> fst ` set (log_counters x) \<and> k \<noteq> ''open_orders_at_exit''" if "k \<in> fst ` set (log_rejects (x_st x))" for k
    using reject_keys [OF that] r by (metis (no_types))
  have "fst ` set (log_counters x) \<inter> fst ` set (log_rejects (x_st x)) = {}" "''open_orders_at_exit'' \<notin> fst ` set (log_rejects (x_st x))"
    using k by (fast, metis)
  ultimately show "distinct (map fst (log_numbers x))"
    using log_rejects_ok(3) [of "x_st x"] unfolding log_numbers_def map_append distinct_append by auto
qed

lemma log_numbers_elsewhere:
  assumes "(k, v) \<in> set (log_numbers x)"
  shows "k \<noteq> ''equity''" "k \<noteq> ''strategy''" "k \<noteq> ''tick_to_order'' @ CHR ''_'' # r" "k \<noteq> ''tick'' @ CHR ''_'' # r" "k \<noteq> ''feed_transit'' @ CHR ''_'' # r"
proof -
  have "k \<in> fst ` set (log_counters x) \<or> (\<exists>s. k = ''reject.'' @ s) \<or> k = ''open_orders_at_exit''"
  proof -
    have "k \<in> fst ` set (log_numbers x)" using assms by (metis fst_conv imageI)
    then show ?thesis using reject_keys [of k "x_st x"] by (auto simp only: log_numbers_def set_append image_Un list.set image_insert fst_conv)
  qed
  then show "k \<noteq> ''equity''" "k \<noteq> ''strategy''" "k \<noteq> ''tick_to_order'' @ CHR ''_'' # r" "k \<noteq> ''tick'' @ CHR ''_'' # r"
    "k \<noteq> ''feed_transit'' @ CHR ''_'' # r"
    by (auto simp: log_counters_def Let_def)
qed

section \<open>The log is read back\<close>

lemma map_of_rev_middle:
  assumes "(k, v) \<in> set F" "distinct (map fst F)" "k \<notin> fst ` set post"
  shows "map_of (rev (pre @ F @ post)) k = Some v"
proof -
  have "distinct (map fst (rev F))" using assms(2) by (simp flip: rev_map)
  then have "map_of (rev F) k = Some v" using assms(1) by simp
  moreover have "map_of (rev post) k = None" using assms(3) by (simp add: map_of_eq_None_iff)
  ultimately show ?thesis by (simp add: map_add_def)
qed

lemma stats_log_lookup:
  assumes "entry_ok (''strategy'', strategy)" "\<bar>log_equity rnd x\<bar> < 10 ^ 20"
  shows "\<exists>cfg. cfg_load (snd (write_stats_log rnd x True strategy)) [] = (True, cfg) \<and> cfg_map cfg ''strategy'' = Some strategy
    \<and> (\<forall>(k, v)\<in>set (log_numbers x). cfg_map cfg k = Some (show_u64 v))"
proof -
  let ?E = "log_entries rnd x strategy" and ?L = "map (\<lambda>(k, v). log_u k v) (log_numbers x)"
  let ?h = "log_hist rnd (x_tsc_per_ns x)"
  let ?post = "[(''equity'', show_fixed 8 (log_equity rnd x))] @ ?h ''tick_to_order'' (es_tick_to_order (x_st x))
     @ ?h ''tick'' (es_tick (x_st x)) @ ?h ''feed_transit'' (es_feed_transit (x_st x))"
  have E: "?E = [(''strategy'', strategy)] @ ?L @ ?post" by (simp add: log_entries_def log_numbers_def)
  have names: "plain ''tick_to_order''" "plain ''tick''" "plain ''feed_transit''"
    by (simp_all add: is_line_end_def is_blank_def)
  note h = log_hist_ok [OF names(1), of rnd "x_tsc_per_ns x" "es_tick_to_order (x_st x)"]
    log_hist_ok [OF names(2), of rnd "x_tsc_per_ns x" "es_tick (x_st x)"]
    log_hist_ok [OF names(3), of rnd "x_tsc_per_ns x" "es_feed_transit (x_st x)"]
  have "plain (show_fixed 8 (log_equity rnd x))" by (rule plain_digits) (rule show_fixed_chars)
  moreover have "length (show_fixed 8 (log_equity rnd x)) < VAL_LEN"
    using show_fixed_length [OF assms(2), of 8] by (simp add: VAL_LEN_def)
  ultimately have eq: "entry_ok (''equity'', show_fixed 8 (log_equity rnd x))"
    by (intro entry_ok_plain) (simp_all add: is_line_end_def is_blank_def KEY_LEN_def)
  have L: "\<forall>kv\<in>set ?L. entry_ok kv" using log_numbers_ok(1) [of x] by (auto intro!: log_u_ok)
  have ok: "\<forall>kv\<in>set ?E. entry_ok kv" unfolding E using assms(1) L eq h by (simp add: ball_Un)
  have "length ?E \<le> 1 + 37 + (1 + 69 + 69 + 69)" unfolding E using log_numbers_ok(2) [of x] h by simp
  then have "card (fst ` set ?E) \<le> MAX_ENTRIES"
    using card_length [of "map fst ?E"] by (simp add: MAX_ENTRIES_def)
  with parse_printed [OF ok, of "[]" True] obtain cfg where
    cfg: "load_from (print_config ?E) True [] = (True, cfg)" "cfg_map cfg = cfg_map [] ++ map_of (rev ?E)"
    by (auto simp: cfg_inv_def)
  have m: "cfg_map cfg = map_of (rev ?E)" unfolding cfg(2) by (auto simp: cfg_map_def cfg_find_def map_add_def split: option.split)
  have fstL: "map fst ?L = map fst (log_numbers x)" by (auto simp: log_u_def)
  have post: "k \<notin> fst ` set ?post" if k: "k \<noteq> ''equity''" "\<And>r. k \<noteq> ''tick_to_order'' @ CHR ''_'' # r"
    "\<And>r. k \<noteq> ''tick'' @ CHR ''_'' # r" "\<And>r. k \<noteq> ''feed_transit'' @ CHR ''_'' # r" for k
    using k h(3,6,9) by (auto simp: image_iff simp del: append.simps)
  have "map_of (rev ?E) k = Some (show_u64 v)" if kv: "(k, v) \<in> set (log_numbers x)" for k v
    unfolding E
  proof (rule map_of_rev_middle)
    show "(k, show_u64 v) \<in> set ?L" using kv by (force simp: log_u_def)
    show "distinct (map fst ?L)" unfolding fstL by (rule log_numbers_ok(3))
    show "k \<notin> fst ` set ?post" by (rule post) (rule log_numbers_elsewhere [OF kv])+
  qed
  moreover have "map_of (rev ?E) ''strategy'' = Some strategy"
  proof -
    have "''strategy'' \<notin> fst ` set ?post" by (rule post) simp_all
    moreover have "''strategy'' \<notin> fst ` set ?L"
      using log_numbers_elsewhere(2) [of "''strategy''" _ x] by (auto simp: log_u_def)
    ultimately have "''strategy'' \<notin> fst ` set (?L @ ?post)" by auto
    then show ?thesis unfolding E
      using map_of_rev_middle [of "''strategy''" strategy "[(''strategy'', strategy)]" "?L @ ?post" "[]"] by simp
  qed
  ultimately show ?thesis using cfg(1) by (auto simp: m write_stats_log_def cfg_load_def)
qed

end
