(* ===== verification/Exec_Process.thy ===== *)
theory Exec_Process
  imports Exec_Setup Module_Loader Pipeline_Attach Stats_Log Manager
begin

text \<open>
  \<open>main\<close> of \<open>src/exec/exec_main.cpp\<close> from the command line to the exit code: arguments, configuration,
  strategy, shared memory, set-up, the run of the module, the end of \<open>Exec_Setup\<close> with the statistics
  log, and the acknowledgement of a swap.  A module's \<open>create\<close> returns an object or null.
\<close>

section \<open>Arguments\<close>

record exec_args =
  ea_mode :: string
  ea_strategy :: "string option"
  ea_config :: "string option"

text \<open>\<open>strncmp(s, p, n) == 0\<close> for a literal of length \<open>n\<close>.\<close>

definition has_prefix :: "string \<Rightarrow> string \<Rightarrow> bool" where
  "has_prefix p s \<longleftrightarrow> take (length p) s = p"

fun parse_args :: "string list \<Rightarrow> exec_args \<Rightarrow> exec_args option" where
  "parse_args [] a = Some a"
| "parse_args (s # ss) a =
     (if has_prefix ''--mode='' s then parse_args ss (a\<lparr>ea_mode := drop 7 s\<rparr>)
      else if has_prefix ''--strategy='' s then parse_args ss (a\<lparr>ea_strategy := Some (drop 11 s)\<rparr>)
      else if has_prefix ''--config='' s then parse_args ss (a\<lparr>ea_config := Some (drop 9 s)\<rparr>)
      else None)"

definition args_new :: "string option \<Rightarrow> exec_args" where
  "args_new strat = \<lparr>ea_mode = ''null'', ea_strategy = strat, ea_config = None\<rparr>"

section \<open>The process\<close>

text \<open>
  What surrounds the process: the file system, the loader's and the segment's surroundings, the header
  as the worker reads it, what \<open>setup\<close> and the run read, and whether the log can be opened.
  \<open>xe_flags\<close> is the control word when \<open>main\<close> acknowledges a swap.
\<close>

record exec_env =
  xe_default_strategy :: "string option"
  xe_file :: "string \<Rightarrow> string option"
  xe_host :: host_abi
  xe_builtins :: "strategy_module list"
  xe_loader :: loader_env
  xe_header :: "nat \<Rightarrow> shm_header"
  xe_map :: "nat option"
  xe_os :: os
  xe_tsc_per_ns :: real
  xe_instruments :: "instrument_table option"
  xe_prev_generation :: u64
  xe_slots :: "u32 \<Rightarrow> exec_report"
  xe_flags :: u32
  xe_log_opens :: "string \<Rightarrow> bool"

text \<open>A loaded module's code: \<open>create\<close> and the hooks its \<open>run_null\<close> calls.\<close>

record 's module_code =
  mo_create :: "string \<Rightarrow> 's option"
  mo_on_start :: "('s \<Rightarrow> null_router host \<Rightarrow> ('s \<times> null_router host) option) option"
  mo_hooks :: "'s hooks"
  mo_on_stop :: "('s \<Rightarrow> null_router host \<Rightarrow> ('s \<times> null_router host) option) option"

record exec_result =
  er_code :: int
  er_host :: "null_router host option"
  er_flags :: u32
  er_log :: "string option"

definition exec_failed :: "exec_env \<Rightarrow> int \<Rightarrow> exec_result" where
  "exec_failed E code = \<lparr>er_code = code, er_host = None, er_flags = xe_flags E, er_log = None\<rparr>"

text \<open>From the loaded module and the attached segment on.\<close>

definition exec_run :: "machine \<Rightarrow> exec_env \<Rightarrow> config \<Rightarrow> string \<Rightarrow> 's module_code \<Rightarrow> exec_result option" where
  "exec_run M E cfg name C =
     (let (ok, x) = exec_setup (mc_rnd M) cfg (xe_tsc_per_ns E) (xe_instruments E) (xe_prev_generation E) (exec_new no_instruments);
          h = \<lparr>h_x = x, h_router = ring_new (xe_slots E), h_reads = 0, h_pops = 0\<rparr>
      in if \<not> ok then Some (exec_failed E (if mc_shutdown M 0 then 0 else 2))
         else case mo_create C (get_str cfg ''strategy.params'' '''') of
           None \<Rightarrow> Some (exec_failed E 2)
         | Some s \<Rightarrow> (case module_run M (mo_on_start C) (mo_hooks C) (mo_on_stop C) s h of
             None \<Rightarrow> None
           | Some (why, s, h) \<Rightarrow> (case exec_finish M h of
               None \<Rightarrow> None
             | Some h \<Rightarrow>
                 let log = snd (write_stats_log (mc_rnd M) (h_x h)
                       (xe_log_opens E (get_str cfg ''exec.stats_log'' ''strategy_stats.log'')) name)
                 in Some (if why = Exit_Swap
                      then \<lparr>er_code = EXIT_SWAP, er_host = Some h, er_flags = xe_flags E AND NOT SWAP, er_log = log\<rparr>
                      else \<lparr>er_code = 0, er_host = Some h, er_flags = xe_flags E, er_log = log\<rparr>))))"

definition exec_process :: "machine \<Rightarrow> exec_env \<Rightarrow> (loaded_module \<Rightarrow> 's module_code) \<Rightarrow> string list \<Rightarrow> exec_result option" where
  "exec_process M E code argv =
     (case argv of
        prog # fd_arg # rest \<Rightarrow> (case parse_args rest (args_new (xe_default_strategy E)) of
          None \<Rightarrow> Some (exec_failed E 2)
        | Some a \<Rightarrow>
            if ea_mode a \<noteq> ''null'' then Some (exec_failed E 2)
            else (case ea_strategy a of
              None \<Rightarrow> Some (exec_failed E 2)
            | Some spec \<Rightarrow>
                (case (case ea_config a of None \<Rightarrow> (True, []) | Some f \<Rightarrow> cfg_load (xe_file E f) []) of (ok, cfg) \<Rightarrow>
                  if \<not> ok then Some (exec_failed E 2)
                  else (case load_strategy (xe_host E) (xe_builtins E) (xe_loader E) spec of
                    None \<Rightarrow> None
                  | Some (Inl e, acts) \<Rightarrow> Some (exec_failed E 2)
                  | Some (Inr lm, acts) \<Rightarrow>
                      (case attach_pipeline (ha_layout_hash (xe_host E)) (xe_header E) (xe_map E) (Some fd_arg) seg_new (xe_os E) of
                         None \<Rightarrow> None
                       | Some (Some c, g, s) \<Rightarrow> Some (exec_failed E c)
                       | Some (None, g, s) \<Rightarrow> exec_run M E cfg (md_name (lm_module lm)) (code lm))))))
      | _ \<Rightarrow> Some (exec_failed E 2))"

section \<open>The command line of the supervisor\<close>

lemma has_prefix_append [simp]: "has_prefix p (p @ s)"
  by (simp add: has_prefix_def)

lemma parse_args_manager:
  "parse_args [''--mode='' @ m, ''--strategy='' @ s, ''--config='' @ c] a = Some (a\<lparr>ea_mode := m, ea_strategy := Some s, ea_config := Some c\<rparr>)"
  by (simp add: has_prefix_def)

text \<open>The argument vector \<open>spawn\<close> builds in the child.\<close>

definition spawn_argv :: "worker \<Rightarrow> nat \<Rightarrow> string list" where
  "spawn_argv w shm_fd = wk_path w # fit 16 (show_nat shm_fd) # wk_args w"

lemma spawned_args:
  assumes "length mode \<le> 290" "length spec \<le> 288" "length cfg_path \<le> 290"
  shows "\<exists>path. spawn_argv (make_exec spec mode cfg_path w) fd
    = path # fit 16 (show_nat fd) # [''--mode='' @ mode, ''--strategy='' @ spec, ''--config='' @ cfg_path]"
  using assms by (auto simp: spawn_argv_def make_exec_def add_arg_def fit_def Let_def)

lemma fit_fd: "int fd \<le> INT_MAX \<Longrightarrow> fit 16 (show_nat fd) = show_nat fd"
proof -
  assume "int fd \<le> INT_MAX"
  then have "fd < 10 ^ 10" by (simp add: INT_MAX_def)
  then have "length (show_nat fd) \<le> 10" by (rule show_nat_length) simp
  then show ?thesis by (simp add: fit_def)
qed

section \<open>From the loaded module to the exit code\<close>

text \<open>With a strategy that defines neither \<open>on_start\<close> nor \<open>on_stop\<close> the run is \<open>exec_main\<close>.\<close>

lemma exec_run_main:
  fixes M E cfg
  assumes C: "mo_create C (get_str cfg ''strategy.params'' '''') = Some s" "mo_on_start C = None" "mo_on_stop C = None"
    and run: "exec_main M cfg (xe_tsc_per_ns E) (xe_instruments E) (xe_prev_generation E) (xe_slots E) (mo_hooks C) s = Some (code, h)"
  defines "ok \<equiv> fst (exec_setup (mc_rnd M) cfg (xe_tsc_per_ns E) (xe_instruments E) (xe_prev_generation E) (exec_new no_instruments))"
  shows "exec_run M E cfg name C = Some (if ok then \<lparr>er_code = code, er_host = Some h,
      er_flags = (if code = EXIT_SWAP then xe_flags E AND NOT SWAP else xe_flags E),
      er_log = snd (write_stats_log (mc_rnd M) (h_x h) (xe_log_opens E (get_str cfg ''exec.stats_log'' ''strategy_stats.log'')) name)\<rparr>
    else exec_failed E code)"
proof -
  obtain ok' x where su: "exec_setup (mc_rnd M) cfg (xe_tsc_per_ns E) (xe_instruments E) (xe_prev_generation E) (exec_new no_instruments) = (ok', x)"
    by (cases "exec_setup (mc_rnd M) cfg (xe_tsc_per_ns E) (xe_instruments E) (xe_prev_generation E) (exec_new no_instruments)")
  let ?h = "\<lparr>h_x = x, h_router = ring_new (xe_slots E), h_reads = 0, h_pops = 0\<rparr>"
  show ?thesis
  proof (cases ok')
    case False
    then show ?thesis using run su by (simp add: exec_run_def exec_main_def ok_def exec_failed_def split: if_splits)
  next
    case True
    then obtain why s' h1 where r: "run_strategy M (mo_hooks C) s ?h = Some (why, s', h1)"
      "exec_finish M h1 = Some h" "code = (if why = Exit_Swap then EXIT_SWAP else 0)"
      using run su by (auto simp: exec_main_def split: option.splits)
    then show ?thesis
      using True C su by (cases why) (simp_all add: exec_run_def module_run_no_hooks ok_def EXIT_SWAP_def)
  qed
qed

text \<open>
  What a module's code owes: its hooks keep the contract \<open>strategy\<close>, and \<open>on_start\<close> and \<open>on_stop\<close>, when it
  defines them, return and leave a ready host ready; each makes at most \<open>k\<close> new orders a call.
\<close>

definition hook_ok :: "nat \<Rightarrow> ('s \<Rightarrow> null_router host \<Rightarrow> ('s \<times> null_router host) option) option \<Rightarrow> bool" where
  "hook_ok k hook \<longleftrightarrow> (\<forall>n s h. null_ready (n + k) h
     \<longrightarrow> (\<exists>s' h'. call_hook hook s h = Some (s', h') \<and> null_ready n h' \<and> calm_step h h'))"

definition code_ok :: "nat \<Rightarrow> 's module_code \<Rightarrow> bool" where
  "code_ok k C \<longleftrightarrow> strategy (mo_hooks C) k \<and> hook_ok k (mo_on_start C) \<and> hook_ok k (mo_on_stop C)"

lemma no_hook_ok [simp]: "hook_ok k None"
  using null_ready_mono by (auto simp: hook_ok_def call_hook_def)

lemma hook_okD:
  assumes "hook_ok k hook" "null_ready (n + k) h"
  obtains s' h' where "call_hook hook s h = Some (s', h')" "null_ready n h'" "calm_step h h'"
  using assms unfolding hook_ok_def by metis

lemma exec_run_returns:
  fixes M E cfg name
  assumes C: "code_ok k C" and "2 * k * d + k * m + 2 * k < 2 ^ 40"
    and leave: "told_to_leave M (1 + d)" "mc_pop M (d + m) = None" "mc_late M j"
  defines "setup \<equiv> exec_setup (mc_rnd M) cfg (xe_tsc_per_ns E) (xe_instruments E) (xe_prev_generation E) (exec_new no_instruments)"
  obtains (failed) c where "exec_run M E cfg name C = Some (exec_failed E c)" "c \<in> {0, 2}"
      "fst setup \<Longrightarrow> mo_create C (get_str cfg ''strategy.params'' '''') = None"
    | (ran) swap h log where "exec_run M E cfg name C = Some \<lparr>er_code = (if swap then EXIT_SWAP else 0), er_host = Some h,
        er_flags = (if swap then xe_flags E AND NOT SWAP else xe_flags E), er_log = log\<rparr>"
      "fst setup" "exec_inv (h_x h)" "calm (x_account (snd setup)) (x_account (h_x h))"
      "(\<And>i. i \<le> d \<Longrightarrow> \<not> mc_shutdown M (1 + i)) \<Longrightarrow> mc_flags M (1 + d) AND SWAP \<noteq> 0 \<Longrightarrow> swap"
proof (cases "fst setup \<and> mo_create C (get_str cfg ''strategy.params'' '''') \<noteq> None")
  case False
  then show thesis
    by (intro failed [of "if \<not> fst setup \<and> mc_shutdown M 0 then 0 else 2"])
      (auto simp: exec_run_def setup_def [symmetric] split_beta)
next
  case True
  then obtain s where ok: "fst setup" and s: "mo_create C (get_str cfg ''strategy.params'' '''') = Some s" by blast
  let ?h = "\<lparr>h_x = snd setup, h_router = ring_new (xe_slots E), h_reads = 0, h_pops = 0\<rparr> :: null_router host"
  have "\<not> fst (exec_setup (mc_rnd M) cfg (xe_tsc_per_ns E) None (xe_prev_generation E) (exec_new no_instruments))"
    by (simp add: exec_setup_def Let_def)
  then obtain its where its: "xe_instruments E = Some its" using ok by (cases "xe_instruments E") (simp_all add: setup_def)
  have "null_ready (2 * k * d + k * m + 2 * k) ?h"
    by (rule exec_setup_ready(1) [OF assms(2), where ok = "fst setup" and x = "snd setup"]) (simp add: setup_def its)
  then have "null_ready ((k + 2 * k * d + k * m) + k) ?h" by (simp add: algebra_simps)
  from hook_okD [OF _ this, of "mo_on_start C" s] C obtain s1 h1 where
    h1: "call_hook (mo_on_start C) s ?h = Some (s1, h1)" "null_ready (k + 2 * k * d + k * m) h1" "calm_step ?h h1"
    by (auto simp: code_ok_def)
  have "h_pops h1 = 0" using h1(3) by (simp add: calm_step_def)
  with strategy.run_strategy_ready [of "mo_hooks C" k k d m h1 M s1] C h1(2) leave obtain e s2 h2 where
    h2: "run_strategy M (mo_hooks C) s1 h1 = Some (e, s2, h2)" "null_ready k h2" "calm (x_account (h_x h1)) (x_account (h_x h2))"
    by (auto simp: code_ok_def)
  from hook_okD [of k "mo_on_stop C" 0 h2 s2] C h2(2) obtain s3 h3 where
    h3: "call_hook (mo_on_stop C) s2 h2 = Some (s3, h3)" "null_ready 0 h3" "calm_step h2 h3" by (auto simp: code_ok_def)
  from exec_finish_returns [OF h3(2) leave(3)] obtain h4 where
    h4: "exec_finish M h3 = Some h4" "null_ready 0 h4" "calm (x_account (h_x h3)) (x_account (h_x h4))" by blast
  have run: "\<exists>log. exec_run M E cfg name C = Some \<lparr>er_code = (if e = Exit_Swap then EXIT_SWAP else 0), er_host = Some h4,
      er_flags = (if e = Exit_Swap then xe_flags E AND NOT SWAP else xe_flags E), er_log = log\<rparr>"
    using ok s h1(1) h2(1) h3(1) h4(1) by (simp add: exec_run_def setup_def [symmetric] split_beta module_run_def)
  have swap: "e = Exit_Swap" if "\<And>i. i \<le> d \<Longrightarrow> \<not> mc_shutdown M (1 + i)" "mc_flags M (1 + d) AND SWAP \<noteq> 0"
  proof -
    obtain t h0 where "run_from M (mo_hooks C) 1 t s1 h0 = Some (e, s2, h2)"
      using h2(1) by (auto simp: run_strategy_def read_tsc_def Let_def)
    from run_from_swaps [OF this that] show ?thesis .
  qed
  have "calm (x_account (snd setup)) (x_account (h_x h4))"
    using h1(3) h2(3) h3(3) h4(3) by (auto simp: calm_step_def intro: calm_trans)
  moreover have "exec_inv (h_x h4)" using null_readyD(1) [OF h4(2)] by (simp add: host_ok_def)
  ultimately show thesis using run ok swap ran by blast
qed

end
