(* ===== verification/Core_Loop.thy ===== *)
theory Core_Loop
  imports Core_Main Histogram
begin

text \<open>
  The event loop of \<open>main\<close> in \<open>src/core/core_main.cpp\<close> around the \<open>process\<close> lambda of \<open>Core_Main\<close>:
  the time stamps and latency histograms, their publication every 65536 events, the bound
  \<open>max_events\<close>, the shutdown flag, the final drain of the input ring and the statistics left behind.
  What the loop reads from outside is the record \<open>core_env\<close>: the result of every pop and of every
  read of the time stamp counter, the shutdown flag at every iteration, and how many frames exec took
  off the feed ring before an event.
\<close>

section \<open>Code\<close>

record latency_stats =
  lt_transit :: histogram
  lt_process :: histogram
  lt_e2e :: histogram

definition FEED_ITCH :: u8 where "FEED_ITCH = 1"

record feed_stats =
  fs_frames_pushed :: u64
  fs_frames_dropped :: u64
  fs_events_in :: u64
  fs_book_resets :: u64
  fs_heartbeat_tsc :: u64
  fs_mode :: u8

record core_env =
  ce_pop :: "nat \<Rightarrow> event option"
  ce_tsc :: "nat \<Rightarrow> u64"
  ce_stop :: "nat \<Rightarrow> bool"
  ce_taken :: "nat \<Rightarrow> nat"

text \<open>The thread's state; \<open>cl_pops\<close> and \<open>cl_reads\<close> count the pops and the time stamps read.\<close>

record core_loop =
  cl_core :: core_state
  cl_n :: u64
  cl_hist :: latency_stats
  cl_lat :: "latency_stats option" \<comment> \<open>last stored in \<open>lat_seq\<close>\<close>
  cl_feed_stats :: "feed_stats option" \<comment> \<open>last stored in shared memory\<close>
  cl_pops :: nat
  cl_reads :: nat

definition PUB_MASK :: u64 where "PUB_MASK = push_bit 16 1 - 1"

definition loop_new :: "core_state \<Rightarrow> core_loop" where
  "loop_new c = \<lparr>cl_core = c, cl_n = 0, cl_hist = \<lparr>lt_transit = hist_new, lt_process = hist_new, lt_e2e = hist_new\<rparr>,
     cl_lat = None, cl_feed_stats = None, cl_pops = 0, cl_reads = 0\<rparr>"

text \<open>exec takes \<open>n\<close> frames.\<close>

definition take_frames :: "nat \<Rightarrow> core_state \<Rightarrow> core_state" where
  "take_frames n = ((\<lambda>c. c\<lparr>cs_ring := snd (try_pop FEED_RING_CAPACITY (cs_ring c))\<rparr>) ^^ n)"

definition core_event :: "core_env \<Rightarrow> u16 \<Rightarrow> event \<Rightarrow> core_loop \<Rightarrow> core_loop option" where
  "core_event E inst ev l = map_option (\<lambda>c. l\<lparr>cl_core := c\<rparr>)
     (core_process inst ev (take_frames (ce_taken E (cl_pops l)) (cl_core l)))"

definition loop_tsc :: "core_env \<Rightarrow> core_loop \<Rightarrow> u64 \<times> core_loop" where
  "loop_tsc E l = (ce_tsc E (cl_reads l), l\<lparr>cl_reads := cl_reads l + 1\<rparr>)"

definition publish_feed_stats :: "core_env \<Rightarrow> u64 \<Rightarrow> core_loop \<Rightarrow> core_loop" where
  "publish_feed_stats E events_in l = (let (t, l) = loop_tsc E l
     in l\<lparr>cl_feed_stats := Some \<lparr>fs_frames_pushed = cs_pushed (cl_core l), fs_frames_dropped = cs_dropped (cl_core l),
          fs_events_in = events_in, fs_book_resets = 0, fs_heartbeat_tsc = t, fs_mode = FEED_ITCH\<rparr>\<rparr>)"

text \<open>The body of the loop for a popped event.\<close>

definition core_turn :: "core_env \<Rightarrow> u16 \<Rightarrow> event \<Rightarrow> core_loop \<Rightarrow> core_loop option" where
  "core_turn E inst ev l =
     (let (t1, l) = loop_tsc E l in case core_event E inst ev l of
        None \<Rightarrow> None
      | Some l \<Rightarrow>
          let (t3, l) = loop_tsc E l; h = cl_hist l;
              l = l\<lparr>cl_hist := \<lparr>lt_transit = hist_record (t1 - ev_tsc_in ev) (lt_transit h),
                lt_process = hist_record (t3 - t1) (lt_process h), lt_e2e = hist_record (t3 - ev_tsc_in ev) (lt_e2e h)\<rparr>,
                cl_n := cl_n l + 1\<rparr>
          in Some (if cl_n l AND PUB_MASK = 0 then publish_feed_stats E (cl_n l) (l\<lparr>cl_lat := Some (cl_hist l)\<rparr>) else l))"

definition loop_pop :: "core_env \<Rightarrow> core_loop \<Rightarrow> event option \<times> core_loop" where
  "loop_pop E l = (ce_pop E (cl_pops l), l\<lparr>cl_pops := cl_pops l + 1\<rparr>)"

partial_function (option) core_loop_from :: "core_env \<Rightarrow> u16 \<Rightarrow> u64 \<Rightarrow> nat \<Rightarrow> core_loop \<Rightarrow> core_loop option" where
  "core_loop_from E inst max_events iter l =
     (if \<not> ce_stop E iter \<and> cl_n l < max_events then
        (case fst (loop_pop E l) of
           None \<Rightarrow> core_loop_from E inst max_events (iter + 1) (snd (loop_pop E l))
         | Some ev \<Rightarrow> (case core_turn E inst ev (snd (loop_pop E l)) of
             None \<Rightarrow> None
           | Some l \<Rightarrow> core_loop_from E inst max_events (iter + 1) l))
      else Some l)"

partial_function (option) core_drain :: "core_env \<Rightarrow> u16 \<Rightarrow> u64 \<Rightarrow> core_loop \<Rightarrow> (u64 \<times> core_loop) option" where
  "core_drain E inst drained l =
     (case fst (loop_pop E l) of
        None \<Rightarrow> Some (drained, snd (loop_pop E l))
      | Some ev \<Rightarrow> (case core_event E inst ev (snd (loop_pop E l)) of
          None \<Rightarrow> None
        | Some l \<Rightarrow> core_drain E inst (drained + 1) l))"

text \<open>\<open>max_events\<close> as configured; 0 replays the whole feed.\<close>

definition max_events_of :: "int \<Rightarrow> u64" where
  "max_events_of cfg = (if 0 < cfg then word_of_int cfg else - 1)"

definition core_main_run :: "core_env \<Rightarrow> u16 \<Rightarrow> u64 \<Rightarrow> core_state \<Rightarrow> core_loop option" where
  "core_main_run E inst max_events c =
     (case core_loop_from E inst max_events 0 (loop_new c) of
        None \<Rightarrow> None
      | Some l \<Rightarrow> (case core_drain E inst 0 l of
          None \<Rightarrow> None
        | Some (drained, l) \<Rightarrow> Some (publish_feed_stats E (cl_n l + drained) l)))"

section \<open>Runs of commands\<close>

lemma core_run_append:
  "core_run inst (as @ bs) s = (case core_run inst as s of
     None \<Rightarrow> None
   | Some (ins, outs, t) \<Rightarrow> map_option (\<lambda>(ins', outs', u). (ins @ ins', outs @ outs', u)) (core_run inst bs t))"
proof (induction inst as s rule: core_run.induct)
  case (1 inst s)
  then show ?case by (cases "core_run inst bs s") auto
next
  case (2 inst ev cs s)
  show ?case
  proof (cases "core_process inst ev s")
    case (Some s')
    then show ?thesis using "2.IH" [OF Some]
      by (cases "core_run inst cs s'") (auto simp: option.map_comp comp_def case_prod_unfold split: option.splits)
  qed simp
next
  case (3 inst cs s)
  obtain x r where pop: "try_pop FEED_RING_CAPACITY (cs_ring s) = (x, r)" by (cases "try_pop FEED_RING_CAPACITY (cs_ring s)")
  show ?case using "3.IH" [OF pop [symmetric]] pop
    by (cases "core_run inst cs (s\<lparr>cs_ring := r\<rparr>)") (auto simp: option.map_comp comp_def case_prod_unfold split: option.splits)
qed

lemma take_frames_run: "\<exists>outs. core_run inst (replicate n Consume) c = Some ([], outs, take_frames n c)"
proof (induction n arbitrary: c)
  case 0 then show ?case by (simp add: take_frames_def)
next
  case (Suc n)
  obtain x r where pop: "try_pop FEED_RING_CAPACITY (cs_ring c) = (x, r)" by (cases "try_pop FEED_RING_CAPACITY (cs_ring c)")
  have "take_frames (Suc n) c = take_frames n (c\<lparr>cs_ring := r\<rparr>)" 
    unfolding take_frames_def funpow_Suc_right by (simp add: pop)
  then show ?case using Suc.IH [of "c\<lparr>cs_ring := r\<rparr>"] pop by auto
qed

end
