(* ===== verification/Core_Loop_Facts.thy ===== *)
theory Core_Loop_Facts
  imports Core_Loop
begin

text \<open>
  What the event loop of core does: it applies every popped event once, in order, measures each with
  the two time stamps around it, publishes the histograms of all complete blocks of 65536 events, and
  ends with the input ring seen empty.
\<close>

section \<open>The events popped\<close>

definition popped :: "core_env \<Rightarrow> nat \<Rightarrow> event list" where
  "popped E p = concat (map (\<lambda>k. case ce_pop E k of None \<Rightarrow> [] | Some ev \<Rightarrow> [ev]) [0..<p])"

lemma popped_simps [simp]:
  "popped E 0 = []"
  "popped E (Suc p) = popped E p @ (case ce_pop E p of None \<Rightarrow> [] | Some ev \<Rightarrow> [ev])"
  by (simp_all add: popped_def)

lemma popped_prefix: "p \<le> q \<Longrightarrow> \<exists>evs. popped E q = popped E p @ evs"
  by (induction q rule: dec_induct) auto

text \<open>The reads of the time stamp counter before event \<open>k\<close>: two an event, one a publication.\<close>

definition read_at :: "nat \<Rightarrow> nat" where
  "read_at k = 2 * k + k div 65536"

definition lat_of :: "core_env \<Rightarrow> event list \<Rightarrow> nat \<Rightarrow> latency_stats" where
  "lat_of E evs m =
     \<lparr>lt_transit = hist_of (map (\<lambda>k. ce_tsc E (read_at k) - ev_tsc_in (evs ! k)) [0..<m]),
      lt_process = hist_of (map (\<lambda>k. ce_tsc E (read_at k + 1) - ce_tsc E (read_at k)) [0..<m]),
      lt_e2e = hist_of (map (\<lambda>k. ce_tsc E (read_at k + 1) - ev_tsc_in (evs ! k)) [0..<m])\<rparr>"

lemma lat_of_append: "m \<le> length evs \<Longrightarrow> lat_of E (evs @ evs') m = lat_of E evs m"
proof -
  assume m: "m \<le> length evs"
  have "map (\<lambda>k. f k (ev_tsc_in ((evs @ evs') ! k))) [0..<m] = map (\<lambda>k. f k (ev_tsc_in (evs ! k))) [0..<m]"
    for f :: "nat \<Rightarrow> u64 \<Rightarrow> u64"
    using m by (intro map_cong) (simp_all add: nth_append)
  note e = this [of "\<lambda>k t. ce_tsc E (read_at k) - t"] this [of "\<lambda>k t. ce_tsc E (read_at k + 1) - t"]
  show ?thesis unfolding lat_of_def e ..
qed

lemma lat_of_Suc:
  assumes "length evs = m"
  shows "lat_of E (evs @ [ev]) (Suc m) = (let h = lat_of E evs m; t1 = ce_tsc E (read_at m); t3 = ce_tsc E (read_at m + 1)
    in \<lparr>lt_transit = hist_record (t1 - ev_tsc_in ev) (lt_transit h), lt_process = hist_record (t3 - t1) (lt_process h),
        lt_e2e = hist_record (t3 - ev_tsc_in ev) (lt_e2e h)\<rparr>)"
proof -
  have "(evs @ [ev]) ! m = ev" using assms by (simp add: nth_append)
  then show ?thesis using lat_of_append [of m evs E "[ev]"] assms by (simp add: lat_of_def hist_of_snoc Let_def)
qed

section \<open>The invariant\<close>

definition core_at :: "u16 \<Rightarrow> core_state \<Rightarrow> event list \<Rightarrow> core_state \<Rightarrow> bool" where
  "core_at inst c0 evs c \<longleftrightarrow> (\<exists>cs ins outs. events_of cs = evs \<and> core_run inst cs c0 = Some (ins, outs, c))"

definition lat_published :: "core_env \<Rightarrow> event list \<Rightarrow> nat \<Rightarrow> latency_stats option" where
  "lat_published E evs n = (if n div 65536 = 0 then None else Some (lat_of E evs (65536 * (n div 65536))))"

definition loop_inv :: "core_env \<Rightarrow> u16 \<Rightarrow> core_state \<Rightarrow> core_loop \<Rightarrow> bool" where
  "loop_inv E inst c0 l \<longleftrightarrow> (let evs = popped E (cl_pops l); n = length evs in
     unat (cl_n l) = n \<and> cl_reads l = read_at n \<and> cl_hist l = lat_of E evs n \<and> cl_lat l = lat_published E evs n
     \<and> core_at inst c0 evs (cl_core l))"

definition core_runs :: "core_env \<Rightarrow> u16 \<Rightarrow> core_state \<Rightarrow> bool" where
  "core_runs E inst c0 \<longleftrightarrow> (\<forall>cs p. events_of cs = popped E p \<longrightarrow> core_run inst cs c0 \<noteq> None)
     \<and> (\<forall>p. length (popped E p) < 2 ^ 64)"

lemma core_event_runs:
  assumes "core_runs E inst c0" "core_at inst c0 (popped E p) (cl_core l)" "ce_pop E p = Some ev"
  shows "\<exists>c. core_event E inst ev l = Some (l\<lparr>cl_core := c\<rparr>) \<and> core_at inst c0 (popped E (Suc p)) c"
proof -
  obtain cs ins outs where cs: "events_of cs = popped E p" "core_run inst cs c0 = Some (ins, outs, cl_core l)"
    using assms(2) by (auto simp: core_at_def)
  let ?k = "ce_taken E (cl_pops l)"
  let ?cs = "cs @ replicate ?k Consume @ [Event ev]"
  obtain outs' where t: "core_run inst (replicate ?k Consume) (cl_core l) = Some ([], outs', take_frames ?k (cl_core l))"
    using take_frames_run by blast
  have ev: "events_of (as @ bs) = events_of as @ events_of bs" for as bs
    by (induction as rule: events_of.induct) simp_all
  have "events_of (replicate k Consume) = []" for k by (induction k) simp_all
  then have e: "events_of ?cs = popped E (Suc p)" using cs(1) assms(3) by (simp add: ev)
  then have "core_run inst ?cs c0 \<noteq> None" using assms(1) unfolding core_runs_def by blast
  moreover have run: "core_run inst ?cs c0 = map_option (\<lambda>(ins', outs'', u). (ins @ ins', outs @ outs' @ outs'', u))
      (core_run inst [Event ev] (take_frames ?k (cl_core l)))"
    by (simp add: core_run_append cs(2) t option.map_comp comp_def case_prod_unfold del: core_run.simps)
  ultimately obtain ins' outs'' c where c: "core_run inst [Event ev] (take_frames ?k (cl_core l)) = Some (ins', outs'', c)"
    by (cases "core_run inst [Event ev] (take_frames ?k (cl_core l))") auto
  then have "core_process inst ev (take_frames ?k (cl_core l)) = Some c" by (auto split: option.splits)
  moreover have "core_at inst c0 (popped E (Suc p)) c"
    unfolding core_at_def using e run c by (intro exI [of _ ?cs]) auto
  ultimately show ?thesis by (auto simp: core_event_def)
qed

lemma block_step:
  "Suc n mod 65536 = 0 \<Longrightarrow> Suc n div 65536 = Suc (n div 65536) \<and> 65536 * Suc (n div 65536) = Suc n"
  "Suc n mod 65536 \<noteq> 0 \<Longrightarrow> Suc n div 65536 = n div 65536"
proof -
  show "Suc n mod 65536 = 0 \<Longrightarrow> Suc n div 65536 = Suc (n div 65536) \<and> 65536 * Suc (n div 65536) = Suc n"
    using mult_div_mod_eq [of 65536 "Suc n"] by (simp add: div_Suc)
  show "Suc n mod 65536 \<noteq> 0 \<Longrightarrow> Suc n div 65536 = n div 65536" by (simp add: div_Suc)
qed

lemma read_at_Suc: "read_at (Suc n) = read_at n + 2 + (if Suc n mod 65536 = 0 then 1 else 0)"
  by (simp add: read_at_def div_Suc)

lemma pub_mask: "(w AND PUB_MASK = 0) \<longleftrightarrow> unat w mod 65536 = 0"
proof -
  have "PUB_MASK = mask 16" by (simp add: PUB_MASK_def mask_eq_exp_minus_1)
  then have "unat (w AND PUB_MASK) = unat w mod 2 ^ 16" using unat_and_mask [of w 16] by simp
  then have "unat (w AND PUB_MASK) = unat w mod 65536" by simp
  then show ?thesis by (metis unat_eq_0)
qed

lemma core_turn_sound:
  assumes "core_runs E inst c0" "loop_inv E inst c0 l" "ce_pop E (cl_pops l) = Some ev"
  shows "\<exists>l'. core_turn E inst ev (snd (loop_pop E l)) = Some l' \<and> loop_inv E inst c0 l'
    \<and> cl_pops l' = cl_pops l + 1 \<and> cl_n l' = cl_n l + 1"
proof -
  let ?evs = "popped E (cl_pops l)"
  define n where "n = length ?evs"
  have i: "unat (cl_n l) = n" "cl_reads l = read_at n" "cl_hist l = lat_of E ?evs n" "cl_lat l = lat_published E ?evs n"
    "core_at inst c0 ?evs (cl_core l)"
    using assms(2) by (simp_all add: loop_inv_def Let_def n_def)
  have evs: "popped E (Suc (cl_pops l)) = ?evs @ [ev]" using assms(3) by simp
  have "length (popped E (Suc (cl_pops l))) < 2 ^ 64" using assms(1) unfolding core_runs_def by blast
  then have "Suc (length ?evs) < 2 ^ 64" unfolding evs by simp
  then have n1: "unat (cl_n l + 1) = Suc n" using i(1) by (subst unat_add_no_wrap) (simp_all add: n_def)
  let ?l = "(snd (loop_pop E l))\<lparr>cl_reads := cl_reads l + 1\<rparr>"
  have "core_at inst c0 ?evs (cl_core ?l)" using i(5) by (simp add: loop_pop_def)
  from core_event_runs [OF assms(1) this assms(3)] obtain c where
    c: "core_event E inst ev ?l = Some (?l\<lparr>cl_core := c\<rparr>)" "core_at inst c0 (?evs @ [ev]) c" unfolding evs by blast
  let ?h = "lat_of E (?evs @ [ev]) (Suc n)"
  let ?m = "l\<lparr>cl_core := c, cl_n := cl_n l + 1, cl_hist := ?h, cl_pops := cl_pops l + 1, cl_reads := read_at n + 2\<rparr>"
  have t: "core_turn E inst ev (snd (loop_pop E l)) = Some (if Suc n mod 65536 = 0
      then publish_feed_stats E (cl_n l + 1) (?m\<lparr>cl_lat := Some ?h\<rparr>) else ?m)"
    using c(1) i(2,3) lat_of_Suc [OF n_def [symmetric], of E ev] pub_mask [of "cl_n l + 1"] n1
    by (cases l) (simp add: core_turn_def loop_tsc_def loop_pop_def publish_feed_stats_def Let_def)
  show ?thesis
  proof (cases "Suc n mod 65536 = 0")
    case True
    have "65536 * (Suc n div 65536) = Suc n" "Suc n div 65536 \<noteq> 0" using block_step(1) [OF True] by simp_all
    then have "lat_published E (?evs @ [ev]) (Suc n) = Some ?h" by (simp add: lat_published_def)
    then show ?thesis
      unfolding t using True n1 c(2) n_def evs
      by (simp add: publish_feed_stats_def loop_tsc_def loop_inv_def Let_def read_at_Suc)
  next
    case False
    have "65536 * (n div 65536) \<le> length ?evs" by (simp add: n_def)
    note p = lat_of_append [OF this, of E "[ev]"]
    show ?thesis
      unfolding t using False n1 c(2) n_def evs i(4) block_step(2) [OF False] p
      by (simp add: loop_inv_def Let_def lat_published_def read_at_Suc)
  qed
qed

section \<open>The loop, the drain and the end\<close>

lemma loop_inv_pop:
  "loop_inv E inst c0 l \<Longrightarrow> ce_pop E (cl_pops l) = None \<Longrightarrow> loop_inv E inst c0 (snd (loop_pop E l))"
  by (simp add: loop_inv_def loop_pop_def Let_def)

lemma core_loop_sound:
  assumes "core_runs E inst c0" "ce_stop E K"
  shows "iter \<le> K \<Longrightarrow> loop_inv E inst c0 l \<Longrightarrow> cl_n l \<le> max_events \<Longrightarrow>
    \<exists>l'. core_loop_from E inst max_events iter l = Some l' \<and> loop_inv E inst c0 l' \<and> cl_n l' \<le> max_events
      \<and> (cl_n l' = max_events \<or> (\<exists>k. ce_stop E k))"
proof (induction "K - iter" arbitrary: iter l)
  case 0
  then have "ce_stop E iter" using assms(2) by simp
  then show ?case using "0.prems"(2,3) by (subst core_loop_from.simps) auto
next
  case (Suc m)
  show ?case
  proof (cases "\<not> ce_stop E iter \<and> cl_n l < max_events")
    case True
    then have k: "m = K - (iter + 1)" "iter + 1 \<le> K" using Suc.hyps(2) by simp_all
    note IH = Suc.hyps(1) [OF k]
    show ?thesis
    proof (cases "ce_pop E (cl_pops l)")
      case None
      have "cl_n (snd (loop_pop E l)) \<le> max_events" using Suc.prems(3) by (simp add: loop_pop_def)
      from IH [OF loop_inv_pop [OF Suc.prems(2) None] this] show ?thesis
        using True None by (subst core_loop_from.simps) (simp add: loop_pop_def)
    next
      case (Some ev)
      from core_turn_sound [OF assms(1) Suc.prems(2) Some] obtain l1 where
        l1: "core_turn E inst ev (snd (loop_pop E l)) = Some l1" "loop_inv E inst c0 l1" "cl_n l1 = cl_n l + 1" by blast
      have "cl_n l1 \<le> max_events" using True inc_le [of "cl_n l" max_events] by (simp add: l1(3) add.commute)
      from IH [OF l1(2) this] show ?thesis
        using True Some l1(1) by (subst core_loop_from.simps) (simp add: loop_pop_def)
    qed
  qed (use Suc.prems in \<open>subst core_loop_from.simps, auto\<close>)
qed

lemma core_drain_sound:
  assumes "core_runs E inst c0" "ce_pop E D = None"
  shows "cl_pops l \<le> D \<Longrightarrow> core_at inst c0 (popped E (cl_pops l)) (cl_core l) \<Longrightarrow>
    \<exists>evs p c. core_drain E inst d l = Some (d + word_of_nat (length evs), l\<lparr>cl_pops := Suc p, cl_core := c\<rparr>)
      \<and> popped E (Suc p) = popped E (cl_pops l) @ evs \<and> ce_pop E p = None \<and> core_at inst c0 (popped E (Suc p)) c"
proof (induction "D - cl_pops l" arbitrary: d l)
  case 0
  then have n: "ce_pop E (cl_pops l) = None" using assms(2) by simp
  show ?case
    by (rule exI [of _ "[]"], rule exI [of _ "cl_pops l"], rule exI [of _ "cl_core l"])
      (use n "0.prems" in \<open>subst core_drain.simps, simp add: loop_pop_def\<close>)
next
  case (Suc m)
  show ?case
  proof (cases "ce_pop E (cl_pops l)")
    case None
    show ?thesis
      by (rule exI [of _ "[]"], rule exI [of _ "cl_pops l"], rule exI [of _ "cl_core l"])
        (use None Suc.prems in \<open>subst core_drain.simps, simp add: loop_pop_def\<close>)
  next
    case (Some ev)
    have at: "core_at inst c0 (popped E (cl_pops l)) (cl_core (snd (loop_pop E l)))" using Suc.prems(2) by (simp add: loop_pop_def)
    from core_event_runs [OF assms(1) at Some] obtain c where
      c: "core_event E inst ev (snd (loop_pop E l)) = Some ((snd (loop_pop E l))\<lparr>cl_core := c\<rparr>)"
        "core_at inst c0 (popped E (Suc (cl_pops l))) c" by blast
    let ?l = "(snd (loop_pop E l))\<lparr>cl_core := c\<rparr>"
    have p: "cl_pops ?l = Suc (cl_pops l)" by (simp add: loop_pop_def)
    have "m = D - cl_pops ?l" "cl_pops ?l \<le> D" "core_at inst c0 (popped E (cl_pops ?l)) (cl_core ?l)"
      using Suc.hyps(2) c(2) by (simp_all add: p del: popped_simps)
    from Suc.hyps(1) [OF this, of "d + 1"] obtain evs q c' where
      r: "core_drain E inst (d + 1) ?l = Some (d + 1 + word_of_nat (length evs), ?l\<lparr>cl_pops := Suc q, cl_core := c'\<rparr>)"
        "popped E (Suc q) = popped E (cl_pops ?l) @ evs" "ce_pop E q = None" "core_at inst c0 (popped E (Suc q)) c'" by blast
    have "core_drain E inst d l = core_drain E inst (d + 1) ?l"
      using Some c(1) by (subst core_drain.simps) (simp add: loop_pop_def)
    moreover have "popped E (Suc q) = popped E (cl_pops l) @ (ev # evs)" using r(2) Some by (simp add: p)
    moreover have "d + 1 + word_of_nat (length evs) = d + word_of_nat (length (ev # evs))" by (simp add: algebra_simps)
    moreover have "?l\<lparr>cl_pops := Suc q, cl_core := c'\<rparr> = l\<lparr>cl_pops := Suc q, cl_core := c'\<rparr>" by (simp add: loop_pop_def)
    ultimately show ?thesis using r(1,3,4) by metis
  qed
qed

text \<open>The whole run, from a fresh core.\<close>

lemma core_main_sound:
  assumes runs: "core_runs E inst c" and stop: "ce_stop E K" and empty: "\<forall>p. \<exists>D\<ge>p. ce_pop E D = None"
  shows "\<exists>l p n. core_main_run E inst max_events c = Some l \<and> cl_pops l = Suc p \<and> ce_pop E p = None
    \<and> core_at inst c (popped E (Suc p)) (cl_core l)
    \<and> n \<le> length (popped E (Suc p)) \<and> unat (cl_n l) = n \<and> cl_n l \<le> max_events
    \<and> cl_hist l = lat_of E (popped E (Suc p)) n \<and> cl_lat l = lat_published E (popped E (Suc p)) n
    \<and> cl_feed_stats l = Some \<lparr>fs_frames_pushed = cs_pushed (cl_core l), fs_frames_dropped = cs_dropped (cl_core l),
        fs_events_in = word_of_nat (length (popped E (Suc p))), fs_book_resets = 0,
        fs_heartbeat_tsc = ce_tsc E (read_at n), fs_mode = FEED_ITCH\<rparr>"
proof -
  have "core_run inst [] c = Some ([], [], c)" by simp
  then have "core_at inst c [] c" unfolding core_at_def by (intro exI [of _ "[]"]) simp
  then have "loop_inv E inst c (loop_new c)"
    by (simp add: loop_inv_def loop_new_def Let_def read_at_def lat_of_def lat_published_def hist_of_def)
  from core_loop_sound [OF runs stop _ this, of 0 max_events] obtain l1 where
    l1: "core_loop_from E inst max_events 0 (loop_new c) = Some l1" "loop_inv E inst c l1" "cl_n l1 \<le> max_events"
    by (auto simp: loop_new_def)
  define evs1 where "evs1 = popped E (cl_pops l1)"
  have i: "unat (cl_n l1) = length evs1" "cl_reads l1 = read_at (length evs1)" "cl_hist l1 = lat_of E evs1 (length evs1)"
    "cl_lat l1 = lat_published E evs1 (length evs1)" "core_at inst c evs1 (cl_core l1)"
    using l1(2) by (simp_all add: loop_inv_def Let_def evs1_def)
  obtain D where D: "cl_pops l1 \<le> D" "ce_pop E D = None" using empty by blast
  from core_drain_sound [OF runs D(2) D(1), of 0] i(5) obtain evs2 p c2 where
    d: "core_drain E inst 0 l1 = Some (word_of_nat (length evs2), l1\<lparr>cl_pops := Suc p, cl_core := c2\<rparr>)"
      "popped E (Suc p) = evs1 @ evs2" "ce_pop E p = None" "core_at inst c (popped E (Suc p)) c2"
    unfolding evs1_def by auto
  define l where "l = publish_feed_stats E (cl_n l1 + word_of_nat (length evs2)) (l1\<lparr>cl_pops := Suc p, cl_core := c2\<rparr>)"
  have run: "core_main_run E inst max_events c = Some l" using l1(1) d(1) by (simp add: core_main_run_def l_def)
  have len: "length evs1 \<le> length (evs1 @ evs2)" by simp
  have lat: "lat_of E (evs1 @ evs2) m = lat_of E evs1 m" if "m \<le> length evs1" for m using lat_of_append [OF that] .
  have pub: "lat_published E (evs1 @ evs2) (length evs1) = lat_published E evs1 (length evs1)"
    unfolding lat_published_def by (simp add: lat)
  have "cl_n l1 = word_of_nat (length evs1)" by (simp flip: i(1))
  then have cnt: "cl_n l1 + word_of_nat (length evs2) = word_of_nat (length (evs1 @ evs2))" by simp
  show ?thesis
    by (rule exI [of _ l], rule exI [of _ p], rule exI [of _ "length evs1"])
      (use run d(2-4) i l1(3) len lat [OF order_refl] pub cnt in
        \<open>simp add: l_def publish_feed_stats_def loop_tsc_def Let_def del: popped_simps\<close>)
qed

text \<open>On a legal feed the loop's environment is one in which \<open>process\<close> returns.\<close>

lemma legal_core_runs:
  assumes "\<And>p. legal_feed symbol (popped E p) Map.empty" "\<And>p. length (popped E p) < 2 ^ 64"
  shows "core_runs E inst (core_new symbol scratch slots)"
proof -
  have f: "cs_feed (core_new symbol scratch slots) = feed_new symbol" by (simp add: core_new_def)
  have s: "feed_inv (cs_feed (core_new symbol scratch slots))" "abs_books (cs_feed (core_new symbol scratch slots)) = Map.empty"
    "fd_symbol (cs_feed (core_new symbol scratch slots)) = symbol"
    unfolding f by (rule feed_new_inv, rule feed_new_inv, simp add: feed_new_def)
  have "core_run inst cs (core_new symbol scratch slots) \<noteq> None" if "events_of cs = popped E p" for cs p
    using core_run_returns [OF s(1), of cs inst] assms(1) [of p] that unfolding s(2,3) by auto
  then show ?thesis using assms(2) unfolding core_runs_def by blast
qed

end
