(* ===== verification/Latency_Log.thy ===== *)
theory Latency_Log
  imports Core_Loop Stats_Log
begin

text \<open>
  The text core writes to its latency log: \<open>fmt_ns\<close>, \<open>dump\<close> and \<open>dump_full\<close> of
  \<open>src/common/histogram.hpp\<close>, and the periodic and final output of \<open>main\<close> in
  \<open>src/core/core_main.cpp\<close>.  Shown: the full dump lists every non-empty bucket once, each with the
  share of the samples that lie below its end.
\<close>

section \<open>Code\<close>

definition cycles_to_ns :: "(real \<Rightarrow> real) \<Rightarrow> real \<Rightarrow> u64 \<Rightarrow> real" where
  "cycles_to_ns rnd tsc_per_ns c = rnd (dbl rnd (uint c) / tsc_per_ns)"

text \<open>Into a buffer of 16 bytes.\<close>

definition fmt_ns :: "(real \<Rightarrow> real) \<Rightarrow> real \<Rightarrow> string" where
  "fmt_ns rnd ns = take 15
     (if ns < 1000 then show_fixed 0 ns @ ''ns''
      else if ns < 1000000 then show_fixed 1 (rnd (ns / 1000)) @ ''us''
      else if ns < 1000000000 then show_fixed 1 (rnd (ns / 1000000)) @ ''ms''
      else show_fixed 2 (rnd (ns / 1000000000)) @ ''s'')"

definition hist_dump :: "(real \<Rightarrow> real) \<Rightarrow> real \<Rightarrow> string \<Rightarrow> histogram \<Rightarrow> string" where
  "hist_dump rnd tsc_per_ns label h =
     (let f = (\<lambda>c. fmt_ns rnd (cycles_to_ns rnd tsc_per_ns c))
      in ''[lat] '' @ label @ '' p50='' @ f (percentile_cycles rnd (rnd (1 / 2)) h)
         @ '' p99='' @ f (percentile_cycles rnd (rnd (99 / 100)) h) @ '' p999='' @ f (percentile_cycles rnd (rnd (999 / 1000)) h)
         @ '' max='' @ f (hg_max_cycles h) @ '' n='' @ show_u64 (hg_count h) @ [NL])"

text \<open>The rows of the full dump: bucket, bounds, count and cumulated share in percent.\<close>

definition hist_rows :: "(real \<Rightarrow> real) \<Rightarrow> histogram \<Rightarrow> (nat \<times> u64 \<times> u64 \<times> u64 \<times> real) list" where
  "hist_rows rnd h = snd (fold (\<lambda>b (cum, rows).
     if hg_buckets h b = 0 then (cum, rows)
     else let cum = cum + hg_buckets h b; lo = (if b = 0 then 0 else push_bit b 1); hi = bucket_bound b;
              pct = (if hg_count h \<noteq> 0 then rnd (rnd (100 * dbl rnd (uint cum)) / dbl rnd (uint (hg_count h))) else 0)
          in (cum, rows @ [(b, lo, hi, hg_buckets h b, pct)])) [0..<64] (0, []))"

definition hist_dump_full :: "(real \<Rightarrow> real) \<Rightarrow> real \<Rightarrow> string \<Rightarrow> histogram \<Rightarrow> string" where
  "hist_dump_full rnd tsc_per_ns label h =
     (let f = (\<lambda>c. fmt_ns rnd (cycles_to_ns rnd tsc_per_ns c))
      in ''[lat-full] '' @ label @ '' n='' @ show_u64 (hg_count h) @ '' max='' @ f (hg_max_cycles h) @ [NL]
         @ concat (map (\<lambda>(b, lo, hi, n, pct). ''  ['' @ pad_left 2 (show_nat b) @ ''] '' @ pad_left 8 (f lo) @ ''..''
              @ pad_right 8 (f hi) @ '' n='' @ pad_right 10 (show_u64 n) @ '' cum='' @ pad_left 6 (show_fixed 2 pct) @ ''%'' @ [NL])
            (hist_rows rnd h)))"

text \<open>One period of the log thread, and what \<open>main\<close> writes at the end.\<close>

definition lat_period :: "(real \<Rightarrow> real) \<Rightarrow> real \<Rightarrow> u64 \<Rightarrow> latency_stats option \<Rightarrow> string" where
  "lat_period rnd tsc_per_ns drops load = (case load of
     None \<Rightarrow> []
   | Some l \<Rightarrow> if hg_count (lt_e2e l) > 0
       then hist_dump rnd tsc_per_ns ''transit'' (lt_transit l) @ hist_dump rnd tsc_per_ns ''process'' (lt_process l)
         @ hist_dump rnd tsc_per_ns ''e2e'' (lt_e2e l) @ ''[drops] '' @ show_u64 drops @ [NL]
       else [])"

definition lat_final :: "(real \<Rightarrow> real) \<Rightarrow> real \<Rightarrow> u64 \<Rightarrow> core_loop \<Rightarrow> string" where
  "lat_final rnd tsc_per_ns drops l =
     (let h = cl_hist l; each = (\<lambda>f. f ''transit'' (lt_transit h) @ f ''process'' (lt_process h) @ f ''e2e'' (lt_e2e h))
      in [NL] @ ''=== aggregated (n='' @ show_u64 (cl_n l) @ '' drops='' @ show_u64 drops @ '' frames=''
         @ show_u64 (cs_pushed (cl_core l)) @ '' frames_dropped='' @ show_u64 (cs_dropped (cl_core l)) @ '') ==='' @ [NL]
         @ each (hist_dump rnd tsc_per_ns) @ [NL] @ ''=== full distribution ==='' @ [NL] @ each (hist_dump_full rnd tsc_per_ns))"

section \<open>The rows of the dump\<close>

definition row_cums :: "histogram \<Rightarrow> nat list \<Rightarrow> u64" where
  "row_cums h bs = (\<Sum>b\<leftarrow>bs. hg_buckets h b)"

lemma hist_rows_eq:
  "hist_rows rnd h = map (\<lambda>b. (b, if b = 0 then 0 else push_bit b 1, bucket_bound b, hg_buckets h b,
     if hg_count h \<noteq> 0 then rnd (rnd (100 * dbl rnd (uint (row_cums h [0..<Suc b]))) / dbl rnd (uint (hg_count h))) else 0))
     (filter (\<lambda>b. hg_buckets h b \<noteq> 0) [0..<64])"
proof -
  let ?row = "\<lambda>b. (b, (if b = 0 then 0 else push_bit b 1 :: u64), bucket_bound b, hg_buckets h b,
     if hg_count h \<noteq> 0 then rnd (rnd (100 * dbl rnd (uint (row_cums h [0..<Suc b]))) / dbl rnd (uint (hg_count h))) else 0)"
  let ?step = "\<lambda>b (cum, rows). if hg_buckets h b = 0 then (cum, rows)
     else let cum = cum + hg_buckets h b; lo = (if b = 0 then 0 else push_bit b 1 :: u64); hi = bucket_bound b;
              pct = (if hg_count h \<noteq> 0 then rnd (rnd (100 * dbl rnd (uint cum)) / dbl rnd (uint (hg_count h))) else 0)
          in (cum, rows @ [(b, lo, hi, hg_buckets h b, pct)])"
  have "fold ?step [0..<n] (0, []) = (row_cums h [0..<n], map ?row (filter (\<lambda>b. hg_buckets h b \<noteq> 0) [0..<n]))" for n
    by (induction n) (simp_all add: row_cums_def Let_def)
  then show ?thesis by (simp add: hist_rows_def)
qed

lemma row_cums_samples: "b \<le> 64 \<Longrightarrow> row_cums (hist_of xs) [0..<b] = word_of_nat (samples_below b xs)"
proof (induction b)
  case 0
  then show ?case by (simp add: row_cums_def samples_below_def)
next
  case (Suc b)
  then have "row_cums (hist_of xs) [0..<b] = word_of_nat (samples_below b xs)" by simp
  then show ?case by (simp add: row_cums_def hist_of_fields samples_below_Suc)
qed

end
