(* ===== verification/Dashboard_Frame.thy ===== *)
theory Dashboard_Frame
  imports Core_Loop Market_View Itch_Parser
begin

text \<open>
  The frame core publishes for the dashboard: \<open>dashboard::Snapshot\<close> of
  \<open>src/common/ipc/dashboard_snapshot.hpp\<close>, \<open>DashboardPublisher\<close> of \<open>src/core/core_main.cpp\<close> and the
  loop that calls it, \<open>src/core/snapshot/book_snapshotter.hpp\<close>.  Wall-clock time is a number of
  nanoseconds, a parameter.
\<close>

section \<open>The frame\<close>

definition to_display :: "(real \<Rightarrow> real) \<Rightarrow> int \<Rightarrow> int \<Rightarrow> real" where
  "to_display rnd ticks price_exp =
     (let scale = ((\<lambda>s. rnd (s / 10)) ^^ nat (- price_exp)) 1; scale = ((\<lambda>s. rnd (s * 10)) ^^ nat price_exp) scale
      in rnd (dbl rnd ticks * scale))"

record dash_level =
  dl_price :: int
  dl_qty :: int
  dl_order_count :: u32

record dash_snapshot =
  ds_event_seq :: u64
  ds_best_bid :: int
  ds_best_ask :: int
  ds_spread :: int
  ds_total_bid_qty :: int
  ds_total_ask_qty :: int
  ds_instrument :: u16
  ds_price_exp :: int
  ds_nb :: int
  ds_na :: int
  ds_bids :: "dash_level list"
  ds_asks :: "dash_level list"
  ds_vwmid :: real
  ds_imbalance :: real
  ds_ema :: real
  ds_tick_rate :: real
  ds_latency_p99_ns :: real
  ds_latency_p999_ns :: real
  ds_ring_occupancy :: real

definition no_dash_level :: dash_level where
  "no_dash_level = \<lparr>dl_price = 0, dl_qty = 0, dl_order_count = 0\<rparr>"

definition dash_new :: dash_snapshot where
  "dash_new = \<lparr>ds_event_seq = 0, ds_best_bid = 0, ds_best_ask = 0, ds_spread = 0, ds_total_bid_qty = 0,
     ds_total_ask_qty = 0, ds_instrument = 0, ds_price_exp = 0, ds_nb = 0, ds_na = 0,
     ds_bids = replicate DASH_DEPTH no_dash_level, ds_asks = replicate DASH_DEPTH no_dash_level, ds_vwmid = 0,
     ds_imbalance = 0, ds_ema = 0, ds_tick_rate = 0, ds_latency_p99_ns = 0, ds_latency_p999_ns = 0,
     ds_ring_occupancy = 0\<rparr>"

section \<open>The publisher\<close>

record publisher =
  pb_instrument :: u16
  pb_price_exp :: int
  pb_tsc_per_ns :: real
  pb_have_prev :: bool
  pb_prev_seq :: u64
  pb_prev_t :: int
  pb_ema_init :: bool
  pb_ema :: real

definition publisher_new :: "u16 \<Rightarrow> int \<Rightarrow> real \<Rightarrow> publisher" where
  "publisher_new inst price_exp tsc_per_ns = \<lparr>pb_instrument = inst, pb_price_exp = price_exp, pb_tsc_per_ns = tsc_per_ns,
     pb_have_prev = False, pb_prev_seq = 0, pb_prev_t = 0, pb_ema_init = False, pb_ema = 0\<rparr>"

definition dash_level_of :: "book_level \<Rightarrow> dash_level" where
  "dash_level_of l = \<lparr>dl_price = uint (lv_price l), dl_qty = uint (lv_shares l), dl_order_count = lv_order_count l\<rparr>"

definition have_bid :: "book_snapshot \<Rightarrow> bool" where
  "have_bid s \<longleftrightarrow> 0 < sn_nb s \<and> sn_best_bid s \<noteq> 0"

definition have_ask :: "book_snapshot \<Rightarrow> bool" where
  "have_ask s \<longleftrightarrow> 0 < sn_na s \<and> sn_best_ask s \<noteq> UINT32_MAX"

text \<open>The part of the frame that is the book.\<close>

definition frame_book :: "publisher \<Rightarrow> book_snapshot \<Rightarrow> dash_snapshot" where
  "frame_book pb s =
     (let bids = map dash_level_of (take (sn_nb s) (sn_bids s)); asks = map dash_level_of (take (sn_na s) (sn_asks s))
      in dash_new\<lparr>ds_event_seq := sn_event_seq s, ds_instrument := pb_instrument pb, ds_price_exp := pb_price_exp pb,
           ds_nb := int (sn_nb s), ds_na := int (sn_na s),
           ds_best_bid := (if have_bid s then uint (sn_best_bid s) else 0),
           ds_best_ask := (if have_ask s then uint (sn_best_ask s) else 0),
           ds_spread := (if have_bid s \<and> have_ask s \<and> sn_best_ask s \<ge> sn_best_bid s
              then uint (sn_best_ask s - sn_best_bid s) else 0),
           ds_bids := overlay bids (ds_bids dash_new), ds_asks := overlay asks (ds_asks dash_new),
           ds_total_bid_qty := (\<Sum>l\<leftarrow>bids. dl_qty l), ds_total_ask_qty := (\<Sum>l\<leftarrow>asks. dl_qty l)\<rparr>)"

definition depth_imbalance :: "(real \<Rightarrow> real) \<Rightarrow> dash_snapshot \<Rightarrow> real" where
  "depth_imbalance rnd f =
     (let b = dbl rnd (ds_total_bid_qty f); a = dbl rnd (ds_total_ask_qty f); tot = rnd (b + a)
      in if tot > 0 then rnd (rnd (b - a) / tot) else 0)"

definition vw_mid :: "(real \<Rightarrow> real) \<Rightarrow> book_snapshot \<Rightarrow> dash_snapshot \<Rightarrow> real" where
  "vw_mid rnd s f =
     (let bid_px = to_display rnd (ds_best_bid f) (ds_price_exp f); ask_px = to_display rnd (ds_best_ask f) (ds_price_exp f)
      in if have_bid s \<and> have_ask s then
           let bq = dbl rnd (uint (lv_shares (sn_bids s ! 0))); aq = dbl rnd (uint (lv_shares (sn_asks s ! 0)));
               q = rnd (bq + aq)
           in if q > 0 then rnd (rnd (rnd (bid_px * aq) + rnd (ask_px * bq)) / q)
              else rnd (rnd (bid_px + ask_px) * (1 / 2))
         else if have_bid s then bid_px
         else if have_ask s then ask_px
         else 0)"

definition EMA_ALPHA :: "(real \<Rightarrow> real) \<Rightarrow> real" where "EMA_ALPHA rnd = rnd (5 / 100)"

definition publisher_ema :: "(real \<Rightarrow> real) \<Rightarrow> real \<Rightarrow> publisher \<Rightarrow> publisher" where
  "publisher_ema rnd vwmid pb =
     pb\<lparr>pb_ema := (if pb_ema_init pb
          then rnd (rnd (EMA_ALPHA rnd * vwmid) + rnd (rnd (1 - EMA_ALPHA rnd) * pb_ema pb)) else vwmid),
        pb_ema_init := True\<rparr>"

text \<open>Events per second since the frame before; \<open>dt\<close> is in seconds.\<close>

definition tick_rate :: "(real \<Rightarrow> real) \<Rightarrow> int \<Rightarrow> u64 \<Rightarrow> publisher \<Rightarrow> real" where
  "tick_rate rnd now event_seq pb =
     (let dt = rnd (dbl rnd (now - pb_prev_t pb) / 1000000000)
      in if pb_have_prev pb \<and> dt > 0 then rnd (dbl rnd (uint (event_seq - pb_prev_seq pb)) / dt) else 0)"

definition occupancy :: "(real \<Rightarrow> real) \<Rightarrow> u32 \<Rightarrow> real" where
  "occupancy rnd n = (let occ = rnd (dbl rnd (uint n) / dbl rnd (uint CORE_RING_CAPACITY)) in if occ > 1 then 1 else occ)"

text \<open>
  \<open>operator()\<close> up to the push: \<open>now\<close> is the steady clock, \<open>in_size\<close> the input ring's occupancy, \<open>lat\<close>
  the result of the load of the latency histograms.
\<close>

definition publisher_frame :: "(real \<Rightarrow> real) \<Rightarrow> int \<Rightarrow> u32 \<Rightarrow> latency_stats option \<Rightarrow> book_snapshot \<Rightarrow> publisher
    \<Rightarrow> dash_snapshot \<times> publisher" where
  "publisher_frame rnd now in_size lat s pb =
     (let f = frame_book pb s;
          f = f\<lparr>ds_imbalance := depth_imbalance rnd f\<rparr>;
          f = f\<lparr>ds_vwmid := vw_mid rnd s f\<rparr>;
          pb = (if have_bid s \<or> have_ask s then publisher_ema rnd (ds_vwmid f) pb else pb);
          f = f\<lparr>ds_ema := pb_ema pb, ds_tick_rate := tick_rate rnd now (sn_event_seq s) pb\<rparr>;
          pb = pb\<lparr>pb_prev_t := now, pb_prev_seq := sn_event_seq s, pb_have_prev := True\<rparr>;
          f = f\<lparr>ds_ring_occupancy := occupancy rnd in_size\<rparr>;
          f = (case lat of
                 None \<Rightarrow> f
               | Some ls \<Rightarrow> if hg_count (lt_e2e ls) > 0 then
                   f\<lparr>ds_latency_p99_ns := rnd (dbl rnd (uint (percentile_cycles rnd (rnd (99 / 100)) (lt_e2e ls))) / pb_tsc_per_ns pb),
                     ds_latency_p999_ns := rnd (dbl rnd (uint (percentile_cycles rnd (rnd (999 / 1000)) (lt_e2e ls))) / pb_tsc_per_ns pb)\<rparr>
                 else f)
      in (f, pb))"

definition DASH_RING_CAPACITY :: u32 where "DASH_RING_CAPACITY = 64"

definition publisher_call :: "(real \<Rightarrow> real) \<Rightarrow> int \<Rightarrow> u32 \<Rightarrow> latency_stats option \<Rightarrow> book_snapshot
    \<Rightarrow> publisher \<times> dash_snapshot ring \<Rightarrow> publisher \<times> dash_snapshot ring" where
  "publisher_call rnd now in_size lat s = (\<lambda>(pb, out). case publisher_frame rnd now in_size lat s pb of
     (f, pb) \<Rightarrow> (pb, snd (try_push DASH_RING_CAPACITY f out)))"

section \<open>The snapshotter\<close>

text \<open>
  One period: up to 64 loads of the seqlock, \<open>loads\<close> their results until one succeeds.  The callback
  runs on a value that was stored at least once.
\<close>

fun load_within :: "nat \<Rightarrow> 'a option list \<Rightarrow> 'a option" where
  "load_within 0 loads = None"
| "load_within n [] = None"
| "load_within (Suc n) (x # loads) = (case x of Some v \<Rightarrow> Some v | None \<Rightarrow> load_within n loads)"

definition snapshot_period :: "book_snapshot option list \<Rightarrow> book_snapshot option" where
  "snapshot_period loads = (case load_within 64 loads of
     None \<Rightarrow> None
   | Some s \<Rightarrow> if sn_event_seq s = 0 then None else Some s)"

text \<open>A period's clock, ring occupancy, latency load and snapshot loads; the list ends at shutdown.\<close>

fun run_snapshotter :: "(real \<Rightarrow> real) \<Rightarrow> (int \<times> u32 \<times> latency_stats option \<times> book_snapshot option list) list
    \<Rightarrow> publisher \<times> dash_snapshot ring \<Rightarrow> publisher \<times> dash_snapshot ring" where
  "run_snapshotter rnd [] st = st"
| "run_snapshotter rnd ((now, in_size, lat, loads) # ps) st =
     run_snapshotter rnd ps (case snapshot_period loads of
       None \<Rightarrow> st | Some s \<Rightarrow> publisher_call rnd now in_size lat s st)"

section \<open>Averages under rounding\<close>

text \<open>
  Rounding to nearest is odd and exact at one; \<open>precise eps\<close> is the relative error of an operation
  that neither overflows nor underflows.
\<close>

definition nearest :: "(real \<Rightarrow> real) \<Rightarrow> bool" where
  "nearest rnd \<longleftrightarrow> rounding rnd \<and> (\<forall>x. rnd (- x) = - rnd x) \<and> rnd 1 = 1"

definition precise :: "real \<Rightarrow> (real \<Rightarrow> real) \<Rightarrow> bool" where
  "precise eps rnd \<longleftrightarrow> 0 \<le> eps \<and> eps < 1 \<and> (\<forall>x. \<bar>rnd x - x\<bar> \<le> eps * \<bar>x\<bar>)"

lemma preciseD:
  assumes "precise eps rnd" "0 \<le> x"
  shows "x * (1 - eps) \<le> rnd x" and "rnd x \<le> x * (1 + eps)" and "0 \<le> rnd x"
proof -
  have "\<bar>rnd x - x\<bar> \<le> eps * \<bar>x\<bar>" using assms(1) unfolding precise_def by blast
  then have "\<bar>rnd x - x\<bar> \<le> eps * x" using assms(2) by simp
  then show a: "x * (1 - eps) \<le> rnd x" and "rnd x \<le> x * (1 + eps)" by (auto simp: algebra_simps abs_le_iff)
  show "0 \<le> rnd x" using a assms by (meson diff_ge_0_iff_ge less_imp_le mult_nonneg_nonneg order_trans precise_def)
qed

lemma imbalance_bounds:
  assumes "nearest rnd" "0 \<le> b" "0 \<le> a" "rnd (b + a) > 0"
  shows "\<bar>rnd (rnd (b - a) / rnd (b + a))\<bar> \<le> 1"
proof -
  have r: "rounding rnd" and odd: "\<And>x. rnd (- x) = - rnd x" and one: "rnd 1 = 1" using assms(1) by (auto simp: nearest_def)
  have "rnd (b - a) \<le> rnd (b + a)" "rnd (a - b) \<le> rnd (b + a)" using assms(2,3) by (auto intro!: roundingD(1) [OF r])
  moreover have "rnd (a - b) = - rnd (b - a)" using odd [of "b - a"] by simp
  ultimately have q: "rnd (b - a) / rnd (b + a) \<le> 1" "- 1 \<le> rnd (b - a) / rnd (b + a)"
    using assms(4) by (simp_all add: divide_le_eq le_divide_eq)
  have "rnd (- 1) = - 1" using odd [of 1] one by simp
  with roundingD(1) [OF r q(1)] roundingD(1) [OF r q(2)] one show ?thesis by simp
qed

lemma weighted_mean_bounds:
  assumes p: "precise eps rnd" and a: "0 \<le> a" "a \<le> b" and w: "0 \<le> u" "0 \<le> v" "0 < u + v"
  defines "m \<equiv> rnd (rnd (rnd (a * u) + rnd (b * v)) / rnd (u + v))"
  shows "a * (1 - eps) ^ 3 / (1 + eps) \<le> m" and "m \<le> b * (1 + eps) ^ 3 / (1 - eps)"
proof -
  have e: "0 \<le> eps" "eps < 1" using p by (auto simp: precise_def)
  have ab: "0 \<le> b" using a by simp
  define n where "n = rnd (a * u) + rnd (b * v)"
  have nn: "0 \<le> n" unfolding n_def using preciseD(3) [OF p] a w ab by simp
  have au: "a * u \<le> b * u" "a * v \<le> b * v" using a w by (simp_all add: mult_right_mono)
  have lo: "a * (u + v) * (1 - eps) \<le> n"
  proof -
    have "a * u * (1 - eps) \<le> rnd (a * u)" "b * v * (1 - eps) \<le> rnd (b * v)" using preciseD(1) [OF p] a w ab by simp_all
    moreover have "a * v * (1 - eps) \<le> b * v * (1 - eps)" using au(2) e mult_right_mono [of "a * v" "b * v" "1 - eps"] by simp
    ultimately show ?thesis unfolding n_def by (simp add: algebra_simps)
  qed
  have hi: "n \<le> b * (u + v) * (1 + eps)"
  proof -
    have "rnd (a * u) \<le> a * u * (1 + eps)" "rnd (b * v) \<le> b * v * (1 + eps)" using preciseD(2) [OF p] a w ab by simp_all
    moreover have "a * u * (1 + eps) \<le> b * u * (1 + eps)" using au(1) e mult_right_mono [of "a * u" "b * u" "1 + eps"] by simp
    ultimately show ?thesis unfolding n_def by (simp add: algebra_simps)
  qed
  define q where "q = rnd (u + v)"
  have q: "(u + v) * (1 - eps) \<le> q" "q \<le> (u + v) * (1 + eps)" unfolding q_def using preciseD(1,2) [OF p, of "u + v"] w by simp_all
  have q0: "0 < (u + v) * (1 - eps)" using w e by simp
  then have q1: "0 < q" using q(1) by linarith
  have m: "n * (1 - eps) * (1 - eps) / q \<le> m" "m \<le> n * (1 + eps) * (1 + eps) / q"
  proof -
    have r: "n * (1 - eps) \<le> rnd n" "rnd n \<le> n * (1 + eps)" "0 \<le> rnd n" using preciseD [OF p nn] by simp_all
    have "0 \<le> rnd n / q" using r(3) q1 by simp
    note d = preciseD(1,2) [OF p this]
    have "n * (1 - eps) / q * (1 - eps) \<le> rnd n / q * (1 - eps)" using r(1) q1 e by (intro mult_right_mono divide_right_mono) simp_all
    then show "n * (1 - eps) * (1 - eps) / q \<le> m" using d(1) unfolding m_def n_def q_def by simp
    have "rnd n / q * (1 + eps) \<le> n * (1 + eps) / q * (1 + eps)" using r(2) q1 e by (intro mult_right_mono divide_right_mono) simp_all
    then show "m \<le> n * (1 + eps) * (1 + eps) / q" using d(2) unfolding m_def n_def q_def by simp
  qed
  have "a * (1 - eps) ^ 3 / (1 + eps) = a * (u + v) * (1 - eps) * (1 - eps) * (1 - eps) / ((u + v) * (1 + eps))"
    using w e by (simp add: power3_eq_cube)
  also have "\<dots> \<le> n * (1 - eps) * (1 - eps) / q"
    using lo nn q(2) q1 e by (intro frac_le mult_right_mono) simp_all
  finally show "a * (1 - eps) ^ 3 / (1 + eps) \<le> m" using m(1) by linarith
  have "n * (1 + eps) * (1 + eps) / q \<le> b * (u + v) * (1 + eps) * (1 + eps) * (1 + eps) / ((u + v) * (1 - eps))"
    using hi nn q(1) q0 e ab w by (intro frac_le mult_right_mono) simp_all
  also have "\<dots> = b * (1 + eps) ^ 3 / (1 - eps)" using w e by (simp add: power3_eq_cube)
  finally show "m \<le> b * (1 + eps) ^ 3 / (1 - eps)" using m(2) by linarith
qed

end
