(* ===== verification/Exec_Snapshots.thy ===== *)
theory Exec_Snapshots
  imports Exec_Reports
begin

text \<open>
  What exec publishes for the dashboard: the blocks of \<open>src/common/ipc/stats.hpp\<close>, the \<open>snapshot\<close>
  functions of \<open>src/exec/account.hpp\<close> and \<open>src/exec/order_table.hpp\<close> and \<open>ExecContext::publish\<close> of
  \<open>src/exec/exec_context.hpp\<close>.  \<open>std::partial_sort\<close> leaves the order of equal times open; the model
  keeps the table's.
\<close>

section \<open>Blocks\<close>

record position_row =
  pr_qty_lots :: int
  pr_avg_px_ticks :: int
  pr_realized_pnl :: int
  pr_unrealized_pnl :: int
  pr_fees :: int
  pr_bought :: int
  pr_sold :: int
  pr_peak_equity :: int
  pr_max_drawdown :: int
  pr_fills :: u32
  pr_instrument :: u16

record asset_balance =
  ab_name :: string
  ab_total :: int
  ab_reserved :: int

record open_order =
  oo_cl_ord_id :: u64
  oo_tsc_sent :: u64
  oo_px :: int
  oo_qty :: int
  oo_leaves :: int
  oo_instrument :: u16
  oo_side :: side
  oo_st :: ord_status

text \<open>The used rows of the three blocks, with the statistics, as last stored in shared memory.\<close>

record exec_blocks =
  xb_stats :: exec_stats
  xb_positions :: "position_row list"
  xb_balances :: "asset_balance list"
  xb_open_orders :: "open_order list"

section \<open>Code\<close>

definition position_snapshot :: "account \<Rightarrow> position_row list" where
  "position_snapshot a = map (\<lambda>i. let p = tr_pos i; inst = tr_id i in
     \<lparr>pr_qty_lots = ps_qty p, pr_avg_px_ticks = avg_px a inst, pr_realized_pnl = realized a inst,
      pr_unrealized_pnl = unrealized a inst, pr_fees = ps_fees p, pr_bought = ps_bought p, pr_sold = ps_sold p,
      pr_peak_equity = ac_peak a, pr_max_drawdown = ac_max_dd a, pr_fills = ps_fills p, pr_instrument = inst\<rparr>) (ac_inst a)"

text \<open>Names are arrays of eight bytes on both sides.\<close>

definition balance_snapshot :: "account \<Rightarrow> asset_balance list" where
  "balance_snapshot a = map (\<lambda>b. \<lparr>ab_name = bl_name b, ab_total = bl_total b, ab_reserved = bl_reserved b\<rparr>) (ac_bal a)"

definition open_order_of :: "order_row \<Rightarrow> open_order" where
  "open_order_of r = \<lparr>oo_cl_ord_id = row_id r, oo_tsc_sent = row_tsc_decision r, oo_px = row_px r, oo_qty = row_qty r,
     oo_leaves = row_leaves r, oo_instrument = row_instrument r, oo_side = row_side r, oo_st = row_status r\<rparr>"

definition table_rows :: "order_table \<Rightarrow> order_row list" where
  "table_rows t = map (\<lambda>p. ot_rows t (word_of_nat p)) [0..<unat (ot_n t)]"

definition order_snapshot :: "order_table \<Rightarrow> open_order list" where
  "order_snapshot t = (let k = (if ot_n t < 64 then unat (ot_n t) else 64)
     in map open_order_of (take k (sort_key row_t_submit_ns (table_rows t))))"

text \<open>\<open>publish\<close>: the context it leaves and the blocks it stores.\<close>

definition exec_publish :: "(real \<Rightarrow> real) \<Rightarrow> u64 \<Rightarrow> u64 \<Rightarrow> exec_context \<Rightarrow> exec_context \<times> exec_blocks" where
  "exec_publish rnd tsc now_tsc x =
     (let x = publish_stats rnd tsc now_tsc x
      in (x, \<lparr>xb_stats = x_st x, xb_positions = position_snapshot (x_account x),
              xb_balances = balance_snapshot (x_account x), xb_open_orders = order_snapshot (x_orders x)\<rparr>))"

section \<open>The oldest orders\<close>

lemma table_rows_live:
  assumes "exec_inv x"
  shows "set (table_rows (x_orders x)) = ran (live x)" and "distinct (map row_id (table_rows (x_orders x)))"
    and "length (table_rows (x_orders x)) = unat (ot_n (x_orders x))"
proof -
  let ?t = "x_orders x"
  have inv: "ot_inv ?t" using exec_invD(1) [OF assms] .
  have p: "word_of_nat i < ot_n ?t" if "i < unat (ot_n ?t)" for i
    using that unat_u32_less [of "ot_n ?t"] by (simp add: word_less_nat_alt unat_of_nat)
  have at: "row_at ?t (row_id (ot_rows ?t (word_of_nat i))) (word_of_nat i)" if "i < unat (ot_n ?t)" for i
    using row_at_self [OF inv p [OF that]] .
  show "set (table_rows ?t) = ran (live x)"
  proof
    show "set (table_rows ?t) \<subseteq> ran (live x)"
    proof
      fix r assume "r \<in> set (table_rows ?t)"
      then obtain i where i: "i < unat (ot_n ?t)" "r = ot_rows ?t (word_of_nat i)" by (auto simp: table_rows_def)
      then show "r \<in> ran (live x)" using row_atD(1) [OF inv at [OF i(1)]] by (auto simp: ran_def live_def)
    qed
    show "ran (live x) \<subseteq> set (table_rows ?t)"
    proof
      fix r assume "r \<in> ran (live x)"
      then obtain k where k: "ot_abs ?t k = Some r" by (auto simp: ran_def live_def)
      then obtain q where q: "row_at ?t k q" "ot_rows ?t q = r"
        by (cases rule: ot_find_cases [OF inv, where k = k]) auto
      have "unat q < unat (ot_n ?t)" using row_atD(3) [OF inv q(1)] by (simp add: word_less_nat_alt)
      moreover have "ot_rows ?t (word_of_nat (unat q)) = r" using q(2) by simp
      ultimately show "r \<in> set (table_rows ?t)" unfolding table_rows_def by force
    qed
  qed
  show "distinct (map row_id (table_rows ?t))"
    unfolding table_rows_def distinct_map map_map comp_def
  proof (intro conjI inj_onI distinct_upt)
    fix i j assume h: "i \<in> set [0..<unat (ot_n ?t)]" "j \<in> set [0..<unat (ot_n ?t)]"
      and e: "row_id (ot_rows ?t (word_of_nat i)) = row_id (ot_rows ?t (word_of_nat j))"
    have i: "i < unat (ot_n ?t)" and j: "j < unat (ot_n ?t)" using h by auto
    have "(word_of_nat i :: u32) = word_of_nat j"
      using at [OF i, unfolded row_at_def e] at [OF j, unfolded row_at_def] by (metis option.inject)
    then have "unat (word_of_nat i :: u32) = unat (word_of_nat j :: u32)" by (rule arg_cong)
    moreover have "unat (word_of_nat i :: u32) = i" "unat (word_of_nat j :: u32) = j"
      using i j unat_u32_less [of "ot_n ?t"] by (auto intro!: unat_of_nat_u32)
    ultimately show "i = j" by simp
  qed
  show "length (table_rows ?t) = unat (ot_n ?t)" by (simp add: table_rows_def)
qed

lemma take_sorted_oldest:
  assumes "r \<in> set (take k (sort_key f xs))" "r' \<in> set xs" "r' \<notin> set (take k (sort_key f xs))"
  shows "f r \<le> f r'"
proof -
  let ?s = "sort_key f xs"
  have "r' \<in> set (drop k ?s)"
    using assms(2,3) by (metis Un_iff append_take_drop_id set_append set_sort)
  moreover have "sorted (map f (take k ?s) @ map f (drop k ?s))"
    using sorted_sort_key [of f xs] by (simp flip: map_append)
  ultimately show ?thesis using assms(1) by (auto simp: sorted_append)
qed

end
