(* ===== verification/Scroll_Ring.thy ===== *)
theory Scroll_Ring
  imports Prelude
begin

text \<open>
  Arrays written round and round: a write at the head, the head moved on modulo the size, the number
  of used cells up to the size.  The dashboard keeps its plot histories in this shape
  (\<open>Series\<close> and \<open>PlotRing\<close>); plotting reads \<open>count\<close> cells from an offset on, modulo the size.
\<close>

definition scroll_next :: "nat \<Rightarrow> nat \<Rightarrow> nat" where
  "scroll_next n hp = (hp + 1) mod n"

definition scroll_grow :: "nat \<Rightarrow> nat \<Rightarrow> nat" where
  "scroll_grow n sz = (if sz < n then sz + 1 else sz)"

definition scroll_start :: "nat \<Rightarrow> nat \<Rightarrow> nat \<Rightarrow> nat" where
  "scroll_start n hp sz = (if sz < n then 0 else hp)"

text \<open>What is read from the start on.\<close>

definition scroll_read :: "nat \<Rightarrow> nat \<Rightarrow> nat \<Rightarrow> 'a list \<Rightarrow> 'a list" where
  "scroll_read n start sz arr = map (\<lambda>k. arr ! ((start + k) mod n)) [0..<sz]"

text \<open>After the values \<open>xs\<close> were written.\<close>

definition scroll_at :: "nat \<Rightarrow> nat \<Rightarrow> nat \<Rightarrow> nat \<Rightarrow> bool" where
  "scroll_at n len hp sz \<longleftrightarrow> 0 < n \<and> hp = len mod n \<and> sz = min n len"

definition scroll_has :: "nat \<Rightarrow> 'a list \<Rightarrow> 'a list \<Rightarrow> bool" where
  "scroll_has n arr xs \<longleftrightarrow> length arr = n \<and> (\<forall>i<length xs. length xs \<le> i + n \<longrightarrow> arr ! (i mod n) = xs ! i)"

definition last_n :: "nat \<Rightarrow> 'a list \<Rightarrow> 'a list" where
  "last_n n xs = drop (length xs - n) xs"

lemma scroll_at_push: "scroll_at n len hp sz \<Longrightarrow> scroll_at n (Suc len) (scroll_next n hp) (scroll_grow n sz)"
  by (auto simp: scroll_at_def scroll_next_def scroll_grow_def mod_Suc_eq)

lemma scroll_has_new: "scroll_has n (replicate n x) []"
  by (simp add: scroll_has_def)

lemma mod_apart:
  fixes i j n :: nat
  assumes "i < j" "j < i + n"
  shows "i mod n \<noteq> j mod n"
proof
  assume "i mod n = j mod n"
  then have "n dvd (j - i)" using assms(1) mod_eq_dvd_iff_nat [of i j n] by simp
  then have "n \<le> j - i" using assms(1) by (simp add: dvd_imp_le)
  then show False using assms by linarith
qed

lemma scroll_has_push:
  assumes "scroll_has n arr xs" "scroll_at n (length xs) hp sz"
  shows "scroll_has n (arr[hp := x]) (xs @ [x])"
  unfolding scroll_has_def
proof (intro conjI allI impI)
  have n: "0 < n" "hp = length xs mod n" "length arr = n" using assms by (auto simp: scroll_has_def scroll_at_def)
  show "length (arr[hp := x]) = n" using n by simp
  fix i assume i: "i < length (xs @ [x])" "length (xs @ [x]) \<le> i + n"
  show "arr[hp := x] ! (i mod n) = (xs @ [x]) ! i"
  proof (cases "i = length xs")
    case True
    then show ?thesis using n by simp
  next
    case False
    then have "i mod n \<noteq> hp" using i mod_apart [of i "length xs" n] n(2) by simp
    then show ?thesis using False i assms(1) by (simp add: scroll_has_def nth_append)
  qed
qed

lemma scroll_read_last:
  assumes "scroll_has n arr xs" "scroll_at n (length xs) hp sz"
  shows "scroll_read n (scroll_start n hp sz) sz arr = last_n n xs"
proof (rule nth_equalityI)
  have n: "0 < n" "hp = length xs mod n" "sz = min n (length xs)" using assms by (auto simp: scroll_at_def)
  show "length (scroll_read n (scroll_start n hp sz) sz arr) = length (last_n n xs)"
    using n by (simp add: scroll_read_def last_n_def)
  fix k assume "k < length (scroll_read n (scroll_start n hp sz) sz arr)"
  then have k: "k < sz" by (simp add: scroll_read_def)
  let ?i = "length xs - n + k"
  have i: "?i < length xs" "length xs \<le> ?i + n" using k n by auto
  have "(scroll_start n hp sz + k) mod n = ?i mod n"
  proof (cases "length xs < n")
    case True
    then show ?thesis using n by (simp add: scroll_start_def)
  next
    case False
    then have "(length xs - n) mod n = length xs mod n" by (simp add: le_mod_geq)
    then have "(length xs mod n + k) mod n = ?i mod n" by (metis mod_add_left_eq)
    then show ?thesis using False n by (simp add: scroll_start_def)
  qed
  then show "scroll_read n (scroll_start n hp sz) sz arr ! k = last_n n xs ! k"
    using k i assms(1) by (simp add: scroll_read_def last_n_def scroll_has_def)
qed

text \<open>The cell before the head holds the value written last.\<close>

lemma scroll_last:
  assumes "scroll_has n arr xs" "scroll_at n (length xs) hp sz" "xs \<noteq> []"
  shows "arr ! ((hp + n - 1) mod n) = last xs"
proof -
  have n: "0 < n" "hp = length xs mod n" using assms(2) by (auto simp: scroll_at_def)
  have "(hp + n - 1) mod n = (hp + (n - 1)) mod n" using n(1) by simp
  also have "\<dots> = (length xs + (n - 1)) mod n" unfolding n(2) by (rule mod_add_left_eq)
  also have "length xs + (n - 1) = (length xs - 1) + n" using n(1) assms(3) by (cases xs) simp_all
  finally have "(hp + n - 1) mod n = (length xs - 1) mod n" by simp
  moreover have "arr ! ((length xs - 1) mod n) = xs ! (length xs - 1)"
    using assms(1,3) n(1) by (simp add: scroll_has_def)
  ultimately show ?thesis using assms(3) by (simp add: last_conv_nth)
qed

lemma scroll_has_map: "scroll_has n arr xs \<Longrightarrow> scroll_has n (map g arr) (map g xs)"
  by (cases n) (auto simp: scroll_has_def)

end
