(* ===== verification/Trading_Panels.thy ===== *)
theory Trading_Panels
  imports Dashboard_Frame Exec_Snapshots Scroll_Ring Stats_Log
begin

text \<open>
  \<open>src/dashboard/trading_panels.cpp\<close>: the plot histories, \<open>update\<close>, the operator's buttons and the
  numbers the panels show.  A \<open>float\<close> that may be NaN is an option, \<open>flt\<close> the rounding to \<open>float\<close> as
  \<open>rnd\<close> is to \<open>double\<close>.  What \<open>update\<close> loads from shared memory is an argument, \<open>None\<close> where the seqlock
  could not be read.  The calls of the drawing library are not modelled, only which values and colours
  they are given.
\<close>

section \<open>Histories\<close>

definition SERIES_N :: nat where "SERIES_N = 240"

record series =
  sr_t :: "real list"
  sr_v :: "real option list list" \<comment> \<open>four rows\<close>
  sr_head :: nat
  sr_size :: nat

definition series_new :: series where
  "series_new = \<lparr>sr_t = replicate SERIES_N 0, sr_v = replicate 4 (replicate SERIES_N (Some 0)), sr_head = 0, sr_size = 0\<rparr>"

text \<open>The arguments \<open>b\<close>, \<open>c\<close> and \<open>d\<close> default to NaN.\<close>

definition series_push :: "real \<Rightarrow> real option \<Rightarrow> real option \<Rightarrow> real option \<Rightarrow> real option \<Rightarrow> series \<Rightarrow> series" where
  "series_push tt a b c d s =
     (let h = sr_head s
      in s\<lparr>sr_t := (sr_t s)[h := tt], sr_v := map2 (\<lambda>v row. row[h := v]) [a, b, c, d] (sr_v s),
           sr_head := scroll_next SERIES_N h, sr_size := scroll_grow SERIES_N (sr_size s)\<rparr>)"

definition series_offset :: "series \<Rightarrow> nat" where
  "series_offset s = scroll_start SERIES_N (sr_head s) (sr_size s)"

section \<open>State\<close>

text \<open>What exec publishes, with the two fields \<open>main\<close> fills once.\<close>

record exec_view = exec_stats +
  ev_strategy_name :: string
  ev_mode :: u8

definition EXEC_NULL :: u8 where "EXEC_NULL = 0"
definition EXEC_LIVE :: u8 where "EXEC_LIVE = 1"
definition FEED_NONE :: u8 where "FEED_NONE = 0"

record panels =
  tp_tsc_per_ns :: real
  tp_exec :: exec_view
  tp_exec_prev :: exec_view
  tp_feed :: feed_stats
  tp_feed_prev :: feed_stats
  tp_pos :: "position_row list"
  tp_bal :: "asset_balance list"
  tp_oo :: "open_order list"
  tp_have_exec :: bool
  tp_have_feed :: bool
  tp_last_sample :: real
  tp_frames_per_s :: real
  tp_iters_per_s :: real
  tp_events_per_s :: real
  tp_t2o :: series
  tp_transit :: series
  tp_tick :: series
  tp_rings :: series
  tp_equity :: series
  tp_swap_buf :: string

definition exec_view_new :: exec_view where
  "exec_view_new = exec_stats.extend stats_new \<lparr>ev_strategy_name = [], ev_mode = 0\<rparr>"

definition feed_stats_new :: feed_stats where
  "feed_stats_new = \<lparr>fs_frames_pushed = 0, fs_frames_dropped = 0, fs_events_in = 0, fs_book_resets = 0,
     fs_heartbeat_tsc = 0, fs_mode = 0\<rparr>"

definition panels_new :: "real \<Rightarrow> panels" where
  "panels_new tsc_per_ns = \<lparr>tp_tsc_per_ns = tsc_per_ns, tp_exec = exec_view_new, tp_exec_prev = exec_view_new,
     tp_feed = feed_stats_new, tp_feed_prev = feed_stats_new, tp_pos = [], tp_bal = [], tp_oo = [], tp_have_exec = False,
     tp_have_feed = False, tp_last_sample = 0, tp_frames_per_s = 0, tp_iters_per_s = 0, tp_events_per_s = 0,
     tp_t2o = series_new, tp_transit = series_new, tp_tick = series_new, tp_rings = series_new,
     tp_equity = series_new, tp_swap_buf = []\<rparr>"

section \<open>update\<close>

definition money :: "(real \<Rightarrow> real) \<Rightarrow> int \<Rightarrow> real" where
  "money rnd v = rnd (dbl rnd v / 100000000)"

definition hist_delta :: "histogram \<Rightarrow> histogram \<Rightarrow> histogram" where
  "hist_delta now prev = hist_new\<lparr>hg_buckets := (\<lambda>b. if b < 64 then hg_buckets now b - hg_buckets prev b else 0),
     hg_count := hg_count now - hg_count prev\<rparr>"

definition delta_pct :: "(real \<Rightarrow> real) \<Rightarrow> histogram \<Rightarrow> histogram \<Rightarrow> real \<Rightarrow> real \<Rightarrow> real option" where
  "delta_pct rnd now prev p tsc_per_ns = (let d = hist_delta now prev
     in if hg_count d \<noteq> 0 then Some (rnd (dbl rnd (uint (percentile_cycles rnd p d)) / tsc_per_ns)) else None)"

text \<open>One attempt at each of the five seqlocks, and the occupancy of the four rings.\<close>

record panel_loads =
  pl_exec :: "exec_view option"
  pl_feed :: "feed_stats option"
  pl_pos :: "position_row list option"
  pl_bal :: "asset_balance list option"
  pl_oo :: "open_order list option"
  pl_exchange_to_core :: u32
  pl_feed_to_exec :: u32
  pl_exec_to_gateway :: u32
  pl_gateway_to_exec :: u32

definition ORDER_RING_CAPACITY :: u32 where "ORDER_RING_CAPACITY = 4096"
definition EXEC_RING_CAPACITY :: u32 where "EXEC_RING_CAPACITY = 4096"

definition panels_load :: "panel_loads \<Rightarrow> panels \<Rightarrow> panels" where
  "panels_load L s =
     (let s = (case pl_exec L of Some e \<Rightarrow> s\<lparr>tp_exec := e, tp_have_exec := (es_exec_generation e \<noteq> 0)\<rparr> | None \<Rightarrow> s);
          s = (case pl_feed L of Some f \<Rightarrow> s\<lparr>tp_feed := f, tp_have_feed := (fs_mode f \<noteq> FEED_NONE)\<rparr> | None \<Rightarrow> s);
          s = (case pl_pos L of Some ps \<Rightarrow> s\<lparr>tp_pos := ps\<rparr> | None \<Rightarrow> s);
          s = (case pl_bal L of Some bs \<Rightarrow> s\<lparr>tp_bal := bs\<rparr> | None \<Rightarrow> s)
      in case pl_oo L of Some oo \<Rightarrow> s\<lparr>tp_oo := oo\<rparr> | None \<Rightarrow> s)"

definition ring_percent :: "(real \<Rightarrow> real) \<Rightarrow> u32 \<Rightarrow> u32 \<Rightarrow> real" where
  "ring_percent flt n cap = flt (flt (100 * flt (of_int (uint n))) / flt (of_int (uint cap)))"

definition SAMPLE_S :: real where "SAMPLE_S = 1 / 4"

definition push_percentiles :: "(real \<Rightarrow> real) \<Rightarrow> (real \<Rightarrow> real) \<Rightarrow> real \<Rightarrow> real \<Rightarrow> histogram \<Rightarrow> histogram \<Rightarrow> bool
    \<Rightarrow> series \<Rightarrow> series" where
  "push_percentiles rnd flt t k now prev p999 = (let pct = (\<lambda>p. map_option flt (delta_pct rnd now prev (rnd p) k))
     in series_push t (pct (1 / 2)) (pct (99 / 100)) (if p999 then pct (999 / 1000) else None) None)"

definition sum_rows :: "(position_row \<Rightarrow> int) \<Rightarrow> panels \<Rightarrow> int" where
  "sum_rows f s = (\<Sum>r\<leftarrow>tp_pos s. f r)"

definition panels_sample :: "(real \<Rightarrow> real) \<Rightarrow> (real \<Rightarrow> real) \<Rightarrow> panel_loads \<Rightarrow> real \<Rightarrow> real \<Rightarrow> panels \<Rightarrow> panels" where
  "panels_sample rnd flt L t_now dt s =
     (let t = flt t_now;
          s = (if es_exec_generation (tp_exec s) \<noteq> es_exec_generation (tp_exec_prev s) then s\<lparr>tp_exec_prev := tp_exec s\<rparr> else s);
          e = tp_exec s; p = tp_exec_prev s; k = tp_tsc_per_ns s;
          s = s\<lparr>tp_frames_per_s := rnd (dbl rnd (uint (es_frames e - es_frames p)) / dt),
                tp_iters_per_s := rnd (dbl rnd (uint (es_iterations e - es_iterations p)) / dt),
                tp_events_per_s := rnd (dbl rnd (uint (fs_events_in (tp_feed s) - fs_events_in (tp_feed_prev s))) / dt)\<rparr>;
          s = s\<lparr>tp_t2o := push_percentiles rnd flt t k (es_tick_to_order e) (es_tick_to_order p) True (tp_t2o s),
                tp_transit := push_percentiles rnd flt t k (es_feed_transit e) (es_feed_transit p) False (tp_transit s),
                tp_tick := push_percentiles rnd flt t k (es_tick e) (es_tick p) False (tp_tick s),
                tp_rings := series_push t (Some (ring_percent flt (pl_exchange_to_core L) CORE_RING_CAPACITY))
                  (Some (ring_percent flt (pl_feed_to_exec L) FEED_RING_CAPACITY))
                  (Some (ring_percent flt (pl_exec_to_gateway L) ORDER_RING_CAPACITY))
                  (Some (ring_percent flt (pl_gateway_to_exec L) EXEC_RING_CAPACITY)) (tp_rings s)\<rparr>;
          realized = sum_rows pr_realized_pnl s; unrealized = sum_rows pr_unrealized_pnl s; fees = sum_rows pr_fees s;
          s = s\<lparr>tp_equity := series_push t (Some (flt (money rnd (realized + unrealized - fees))))
                  (Some (flt (money rnd realized))) None None (tp_equity s)\<rparr>
      in s\<lparr>tp_exec_prev := tp_exec s, tp_feed_prev := tp_feed s, tp_last_sample := t_now\<rparr>)"

definition panels_update :: "(real \<Rightarrow> real) \<Rightarrow> (real \<Rightarrow> real) \<Rightarrow> panel_loads \<Rightarrow> real \<Rightarrow> panels \<Rightarrow> panels" where
  "panels_update rnd flt L t_now s =
     (let s = panels_load L s; dt = rnd (t_now - tp_last_sample s)
      in if dt < SAMPLE_S then s else panels_sample rnd flt L t_now dt s)"

section \<open>The operator's controls\<close>

record control =
  ct_flags :: u32
  ct_swap_path :: string

text \<open>Which buttons are pressed in a frame; \<open>flags\<close> was loaded at the start of the strip.\<close>

definition press_toggle :: "u32 \<Rightarrow> u32 \<Rightarrow> control \<Rightarrow> control" where
  "press_toggle b flags c =
     (if flags AND b \<noteq> 0 then c\<lparr>ct_flags := ct_flags c AND NOT b\<rparr> else c\<lparr>ct_flags := ct_flags c OR b\<rparr>)"

definition press_swap :: "panels \<Rightarrow> control \<Rightarrow> control" where
  "press_swap s c = (if tp_swap_buf s \<noteq> [] then c\<lparr>ct_swap_path := tp_swap_buf s, ct_flags := ct_flags c OR SWAP\<rparr> else c)"

definition strip_buttons :: "bool \<Rightarrow> bool \<Rightarrow> bool \<Rightarrow> u32 \<Rightarrow> panels \<Rightarrow> control \<Rightarrow> control" where
  "strip_buttons kill_pressed pause_pressed swap_pressed flags s c =
     (let c = (if kill_pressed then press_toggle KILL flags c else c);
          c = (if pause_pressed then press_toggle PAUSE flags c else c)
      in if swap_pressed then press_swap s c else c)"

section \<open>The status strip\<close>

datatype colour = Plain | Red | Green | Amber | Grey

type_synonym shown = "colour \<times> string"

definition age_ms :: "(real \<Rightarrow> real) \<Rightarrow> u64 \<Rightarrow> u64 \<Rightarrow> panels \<Rightarrow> real option" where
  "age_ms rnd now tsc s =
     (if tsc \<noteq> 0 then Some (rnd (rnd (dbl rnd (uint (now - tsc)) / tp_tsc_per_ns s) / 1000000)) else None)"

definition clamp :: "real \<Rightarrow> real option \<Rightarrow> real option" where
  "clamp hi v = map_option (\<lambda>x. if x > hi then hi else x) v"

definition older :: "real option \<Rightarrow> real \<Rightarrow> bool" where
  "older age ms = (case age of None \<Rightarrow> False | Some x \<Rightarrow> x > ms)"

definition strip_text :: "(real \<Rightarrow> real) \<Rightarrow> u64 \<Rightarrow> panels \<Rightarrow> shown list" where
  "strip_text rnd now s =
     (let e = tp_exec s; exec_age = age_ms rnd now (es_heartbeat_tsc e) s; feed_age = age_ms rnd now (fs_heartbeat_tsc (tp_feed s)) s
      in [if tp_have_exec s
          then (Plain, ''Exec '' @ (if ev_mode e = EXEC_LIVE then ''LIVE'' else ''NULL'') @ ''  ''
                 @ pad_right 16 (take 16 (ev_strategy_name e)) @ '' gen '' @ pad_right 5 (show_u64 (es_exec_generation e)))
          else (Grey, ''Exec: no stats yet''),
          (if \<not> tp_have_exec s \<or> older exec_age 500 then Red else Green,
             ''exec hb '' @ pad_left 6 (show_opt 0 (clamp 999999 exec_age)) @ '' ms''),
          (if \<not> tp_have_feed s \<or> older feed_age 2000 then Amber else Green,
             ''feed hb '' @ pad_left 6 (show_opt 0 (clamp 999999 feed_age)) @ '' ms''),
          (Plain, ''feed '' @ pad_left 9 (show_opt 0 (clamp 999999999 (Some (tp_events_per_s s)))) @ '' ev/s''),
          (Plain, ''exec '' @ pad_left 7 (show_opt 0 (clamp 9999999 (Some (tp_frames_per_s s)))) @ '' frames/s''),
          (Plain, pad_left 8 (show_opt 2 (clamp (rnd (9999999 / 100)) (Some (rnd (tp_iters_per_s s / 1000000))))) @ ''M iter/s'')])"

definition strip_labels :: "u32 \<Rightarrow> shown list" where
  "strip_labels flags =
     [if flags AND KILL \<noteq> 0 then (Red, ''KILL ON (clear)'') else (Grey, ''KILL''),
      if flags AND PAUSE \<noteq> 0 then (Amber, ''PAUSED (resume)'') else (Grey, ''PAUSE'')]"

section \<open>The trading tab\<close>

text \<open>\<open>pow(10, tick_exp) * tick_mant\<close>; the library's power is the rounded one.\<close>

definition px_scale :: "(real \<Rightarrow> real) \<Rightarrow> instrument \<Rightarrow> real" where
  "px_scale rnd inst = rnd (rnd (10 powi in_tick_exp inst) * dbl rnd (in_tick_mant inst))"

text \<open>The fraction of the position limit in use and its label, \<open>None\<close> for no limit.\<close>

definition limit_use :: "(real \<Rightarrow> real) \<Rightarrow> (real \<Rightarrow> real) \<Rightarrow> exec_view \<Rightarrow> position_row \<Rightarrow> (real \<times> string) option" where
  "limit_use rnd flt e r =
     (if es_limit_max_position e > 0 then
        let use = flt (rnd (\<bar>dbl rnd (pr_qty_lots r)\<bar> / dbl rnd (es_limit_max_position e)))
        in Some (if use > 1 then 1 else use, show_fixed 0 (flt (use * 100)) @ ''%'')
      else None)"

definition position_cells :: "(real \<Rightarrow> real) \<Rightarrow> instrument_table \<Rightarrow> position_row \<Rightarrow> string list" where
  "position_cells rnd its r =
     (let inst = it_rows its (ucast (pr_instrument r)) in
      [in_symbol inst @ ''/'' @ in_venue inst, show_int (pr_qty_lots r),
       show_fixed 4 (rnd (dbl rnd (pr_avg_px_ticks r) * px_scale rnd inst)), show_fixed 2 (money rnd (pr_realized_pnl r)),
       show_fixed 2 (money rnd (pr_unrealized_pnl r)), show_fixed 2 (money rnd (pr_fees r)), show_int (pr_bought r),
       show_int (pr_sold r)])"

definition equity_line :: "(real \<Rightarrow> real) \<Rightarrow> panels \<Rightarrow> string option" where
  "equity_line rnd s = (case tp_pos s of
     [] \<Rightarrow> None
   | r0 # _ \<Rightarrow>
       let eq = tp_equity s; now = (if sr_size eq \<noteq> 0 then sr_v eq ! 0 ! ((sr_head eq + SERIES_N - 1) mod SERIES_N) else Some 0)
       in Some (''Equity '' @ show_opt 2 now @ ''   peak '' @ show_fixed 2 (money rnd (pr_peak_equity r0))
            @ ''   max drawdown '' @ show_fixed 2 (money rnd (pr_max_drawdown r0))))"

definition balance_cells :: "(real \<Rightarrow> real) \<Rightarrow> asset_balance \<Rightarrow> string list" where
  "balance_cells rnd b = [take 8 (ab_name b), show_fixed 4 (money rnd (ab_total b)), show_fixed 4 (money rnd (ab_reserved b)),
     show_fixed 4 (money rnd (ab_total b - ab_reserved b))]"

definition per_order :: "(real \<Rightarrow> real) \<Rightarrow> u64 \<Rightarrow> exec_view \<Rightarrow> real" where
  "per_order rnd n e = (let sent = dbl rnd (uint (es_orders_new e)) in if sent \<noteq> 0 then rnd (dbl rnd (uint n) / sent) else 0)"

definition execution_lines :: "(real \<Rightarrow> real) \<Rightarrow> exec_view \<Rightarrow> shown list" where
  "execution_lines rnd e =
     [(Plain, ''orders '' @ show_u64 (es_orders_new e) @ ''  amends '' @ show_u64 (es_orders_replace e)
        @ ''  cancels '' @ show_u64 (es_orders_cancel e) @ ''   acks '' @ show_u64 (es_acks e)
        @ ''  replaced '' @ show_u64 (es_replaced e) @ ''  canceled '' @ show_u64 (es_canceled e)
        @ ''  expired '' @ show_u64 (es_expired e) @ ''  venue rejects '' @ show_u64 (es_venue_rejects e)),
      (Plain, ''amend/order '' @ show_fixed 2 (per_order rnd (es_orders_replace e) e)
        @ ''   cancel/order '' @ show_fixed 2 (per_order rnd (es_orders_cancel e) e)
        @ ''   risk rejects '' @ show_u64 (es_risk_rejects e) @ ''   ring-full rejects '' @ show_u64 (es_ring_full_rejects e)),
      if es_fills e = 0 then (Grey, ''fills, fill ratio, maker/taker, markouts: no fills (null mode)'')
      else (Plain, ''fills '' @ show_u64 (es_fills e) @ ''  fill ratio '' @ show_fixed 3 (per_order rnd (es_fills e) e))]"

definition rate_cells :: "instrument_table \<Rightarrow> panels \<Rightarrow> shown list" where
  "rate_cells its s = map (\<lambda>k. let b = es_rate_budget (tp_exec s) ! k in
       (if b < 5 then Red else Green,
        '' '' @ in_symbol (it_rows its (ucast (pr_instrument (tp_pos s ! k)))) @ '' '' @ show_fixed 1 b))
     [0..<min 4 (length (tp_pos s))]"

definition reject_cells :: "exec_view \<Rightarrow> (string \<times> string) list" where
  "reject_cells e = map (\<lambda>r. (reject_name r, show_u64 (es_rejects e r))) (filter (\<lambda>r. es_rejects e r \<noteq> 0) (tl REJECT_REASONS))"

definition order_cells :: "(real \<Rightarrow> real) \<Rightarrow> u64 \<Rightarrow> instrument_table \<Rightarrow> panels \<Rightarrow> open_order \<Rightarrow> colour \<times> string list" where
  "order_cells rnd now its s ord =
     (let inst = it_rows its (ucast (oo_instrument ord)) in
      (if oo_side ord = Buy then Green else Red,
       [show_hex (unat (oo_cl_ord_id ord AND 0xffffffffff)), if oo_side ord = Buy then ''BUY'' else ''SELL'',
        show_fixed 4 (rnd (dbl rnd (oo_px ord) * px_scale rnd inst)), show_int (oo_qty ord), show_int (oo_leaves ord),
        show_fixed 0 (rnd (rnd (dbl rnd (uint (now - oo_tsc_sent ord)) / tp_tsc_per_ns s) / 1000000))]))"

definition orders_title :: "panels \<Rightarrow> string" where
  "orders_title s = ''Open orders ('' @ show_nat (length (tp_oo s)) @ '' shown, ''
     @ show_nat (unat (es_open_orders (tp_exec s))) @ '' live)''"

record trading_tab =
  tt_positions :: "(string list \<times> (real \<times> string) option) list"
  tt_equity :: "string option"
  tt_balances :: "string list list"
  tt_execution :: "shown list"
  tt_rates :: "shown list"
  tt_rejects :: "(string \<times> string) list"
  tt_orders_title :: string
  tt_orders :: "(colour \<times> string list) list"

definition trading_tab_of :: "(real \<Rightarrow> real) \<Rightarrow> (real \<Rightarrow> real) \<Rightarrow> u64 \<Rightarrow> instrument_table \<Rightarrow> panels \<Rightarrow> trading_tab" where
  "trading_tab_of rnd flt now its s =
     \<lparr>tt_positions = map (\<lambda>r. (position_cells rnd its r, limit_use rnd flt (tp_exec s) r)) (tp_pos s),
      tt_equity = equity_line rnd s, tt_balances = map (balance_cells rnd) (tp_bal s),
      tt_execution = execution_lines rnd (tp_exec s), tt_rates = rate_cells its s, tt_rejects = reject_cells (tp_exec s),
      tt_orders_title = orders_title s, tt_orders = map (order_cells rnd now its s) (tp_oo s)\<rparr>"

section \<open>The health tab\<close>

text \<open>A plotted line: the points from the offset on, oldest first.\<close>

definition series_line :: "series \<Rightarrow> nat \<Rightarrow> (real \<times> real option) list" where
  "series_line s k = zip (scroll_read SERIES_N (series_offset s) (sr_size s) (sr_t s))
     (scroll_read SERIES_N (series_offset s) (sr_size s) (sr_v s ! k))"

definition health_lines :: "panels \<Rightarrow> (string \<times> (real \<times> real option) list) list" where
  "health_lines s =
     (let plot = (\<lambda>sr labels. map (\<lambda>(k, l). (l, series_line sr k)) (zip [0..<length labels] labels))
      in plot (tp_t2o s) [''p50'', ''p99'', ''p99.9''] @ plot (tp_transit s) [''feed transit p50'', ''feed transit p99'']
         @ plot (tp_tick s) [''on_tick p50'', ''on_tick p99'']
         @ plot (tp_rings s) [''exchange->core'', ''feed->exec'', ''order->gateway'', ''reports->exec''])"

definition health_now :: "panels \<Rightarrow> real" where
  "health_now s = (let t = tp_t2o s in if sr_size t \<noteq> 0 then sr_t t ! ((sr_head t + SERIES_N - 1) mod SERIES_N) else 0)"

definition gaps_ok :: "panels \<Rightarrow> bool" where
  "gaps_ok s \<longleftrightarrow> es_frame_gaps (tp_exec s) = 0 \<and> fs_frames_dropped (tp_feed s) = 0"

definition health_text :: "panels \<Rightarrow> shown" where
  "health_text s = (if gaps_ok s then Green else Red,
     ''feed: '' @ show_u64 (fs_frames_pushed (tp_feed s)) @ '' frames pushed, '' @ show_u64 (fs_frames_dropped (tp_feed s))
     @ '' dropped   exec: '' @ show_u64 (es_frames (tp_exec s)) @ '' frames, '' @ show_u64 (es_frame_gaps (tp_exec s)) @ '' gap frames'')"

end
