(* ===== verification/Dashboard_Ui.thy ===== *)
theory Dashboard_Ui
  imports Trading_Panels
begin

text \<open>
  \<open>src/dashboard/dashboard_main.cpp\<close>: the ring of plotted frames, the axes, the contents of the book
  table and of the six plots, and the loop of \<open>run_ui\<close>.  A plot is the text above it, the limits of
  its axes and the lines it is given; layout, widgets and the window system are not modelled.
\<close>

section \<open>The ring of frames\<close>

definition PLOT_N :: nat where "PLOT_N = 5000"

text \<open>\<open>bid\<close> and \<open>ask\<close> hold NaN, here \<open>None\<close>, while a side is empty.\<close>

record plot_ring =
  pg_t :: "real list"
  pg_bid :: "real option list"
  pg_ask :: "real option list"
  pg_vwmid :: "real list"
  pg_micro_trend :: "real list"
  pg_imbalance :: "real list"
  pg_imbalance_ema :: "real list"
  pg_tick_rate :: "real list"
  pg_lat_p99 :: "real list"
  pg_lat_p999 :: "real list"
  pg_ring_occ :: "real list"
  pg_ins :: nat
  pg_sz :: nat

definition plot_ring_new :: plot_ring where
  "plot_ring_new = (let z = replicate PLOT_N (0 :: real); o0 = replicate PLOT_N (Some (0 :: real))
     in \<lparr>pg_t = z, pg_bid = o0, pg_ask = o0, pg_vwmid = z, pg_micro_trend = z, pg_imbalance = z, pg_imbalance_ema = z,
         pg_tick_rate = z, pg_lat_p99 = z, pg_lat_p999 = z, pg_ring_occ = z, pg_ins = 0, pg_sz = 0\<rparr>)"

definition plot_price :: "(real \<Rightarrow> real) \<Rightarrow> (real \<Rightarrow> real) \<Rightarrow> int \<Rightarrow> dash_snapshot \<Rightarrow> real option" where
  "plot_price rnd flt px f = (if px \<noteq> 0 then Some (flt (to_display rnd px (ds_price_exp f))) else None)"

definition IMBAL_EMA_ALPHA :: "(real \<Rightarrow> real) \<Rightarrow> real" where "IMBAL_EMA_ALPHA flt = flt (5 / 100)"

definition next_ema :: "(real \<Rightarrow> real) \<Rightarrow> real \<Rightarrow> real \<Rightarrow> real" where
  "next_ema flt ema x = flt (flt (ema * flt (1 - IMBAL_EMA_ALPHA flt)) + flt (flt x * IMBAL_EMA_ALPHA flt))"

definition plot_push :: "(real \<Rightarrow> real) \<Rightarrow> (real \<Rightarrow> real) \<Rightarrow> real \<Rightarrow> dash_snapshot \<Rightarrow> plot_ring \<Rightarrow> plot_ring" where
  "plot_push rnd flt t_now f r =
     (let i = pg_ins r; prev = (i + PLOT_N - 1) mod PLOT_N
      in r\<lparr>pg_t := (pg_t r)[i := t_now],
           pg_bid := (pg_bid r)[i := plot_price rnd flt (ds_best_bid f) f],
           pg_ask := (pg_ask r)[i := plot_price rnd flt (ds_best_ask f) f],
           pg_vwmid := (pg_vwmid r)[i := flt (ds_vwmid f)],
           pg_micro_trend := (pg_micro_trend r)[i := flt (rnd (ds_ema f - ds_vwmid f))],
           pg_imbalance := (pg_imbalance r)[i := flt (ds_imbalance f)],
           pg_tick_rate := (pg_tick_rate r)[i := flt (ds_tick_rate f)],
           pg_lat_p99 := (pg_lat_p99 r)[i := flt (ds_latency_p99_ns f)],
           pg_lat_p999 := (pg_lat_p999 r)[i := flt (ds_latency_p999_ns f)],
           pg_ring_occ := (pg_ring_occ r)[i := flt (rnd (ds_ring_occupancy f * 100))],
           pg_imbalance_ema := (pg_imbalance_ema r)[i := (if pg_sz r > 0
              then next_ema flt (pg_imbalance_ema r ! prev) (ds_imbalance f) else flt (ds_imbalance f))],
           pg_ins := scroll_next PLOT_N i, pg_sz := scroll_grow PLOT_N (pg_sz r)\<rparr>)"

definition plot_oldest :: "plot_ring \<Rightarrow> nat" where
  "plot_oldest r = scroll_start PLOT_N (pg_ins r) (pg_sz r)"

definition ring_line :: "plot_ring \<Rightarrow> 'a list \<Rightarrow> (real \<times> 'a) list" where
  "ring_line r ys = zip (scroll_read PLOT_N (plot_oldest r) (pg_sz r) (pg_t r)) (scroll_read PLOT_N (plot_oldest r) (pg_sz r) ys)"

section \<open>Axes\<close>

text \<open>The constants are \<open>float\<close> literals.\<close>

definition ring_range :: "(real \<Rightarrow> real) \<Rightarrow> real list \<Rightarrow> nat \<Rightarrow> nat \<Rightarrow> real \<Rightarrow> real \<times> real" where
  "ring_range flt ys sz oldest min_span =
     (if sz = 0 then (0, min_span)
      else let y0 = ys ! (oldest mod PLOT_N);
               (lo, hi) = fold (\<lambda>k (lo, hi). let v = ys ! ((oldest + k) mod PLOT_N)
                 in (if v < lo then v else lo, if v > hi then v else hi)) [0..<sz] (y0, y0);
               center = flt (flt (lo + hi) * (1 / 2));
               half = max (flt (flt (flt (hi - lo) * (1 / 2)) * flt (115 / 100))) (flt (min_span * (1 / 2)))
           in (flt (center - half), flt (center + half)))"

record sticky =
  sk_lo :: real
  sk_hi :: real
  sk_zoom_time :: real

definition sticky_new :: sticky where "sticky_new = \<lparr>sk_lo = 0, sk_hi = 0, sk_zoom_time = 0\<rparr>"

definition sticky_update :: "(real \<Rightarrow> real) \<Rightarrow> real \<Rightarrow> real \<times> real \<Rightarrow> real \<Rightarrow> sticky \<Rightarrow> sticky" where
  "sticky_update flt vwmid data t_now k =
     (let (data_lo, data_hi) = data; data_span = flt (data_hi - data_lo); view_span = flt (sk_hi k - sk_lo k);
          out_of_bounds = (vwmid < flt (sk_lo k + flt (view_span * flt (1 / 10)))
            \<or> vwmid > flt (sk_hi k - flt (view_span * flt (1 / 10))));
          should_contract = (data_span < flt (view_span * (1 / 2)) \<and> flt (t_now - sk_zoom_time k) > 2)
      in if sk_lo k = 0 \<or> out_of_bounds \<or> should_contract then
           let padding = max (flt (data_span * (1 / 4))) (flt (5 / 1000))
           in \<lparr>sk_lo = flt (data_lo - padding), sk_hi = flt (data_hi + padding), sk_zoom_time = t_now\<rparr>
         else k)"

definition micro_range :: "(real \<Rightarrow> real) \<Rightarrow> real \<times> real \<Rightarrow> real \<times> real" where
  "micro_range flt yr =
     (let y_abs = max \<bar>fst yr\<bar> \<bar>snd yr\<bar>; y_abs = (if y_abs < flt (1 / 10 ^ 8) then flt (1 / 10 ^ 6) else y_abs)
      in (flt (- y_abs * flt (12 / 10)), flt (y_abs * flt (12 / 10))))"

definition format_metric_suffix :: "(real \<Rightarrow> real) \<Rightarrow> real \<Rightarrow> string" where
  "format_metric_suffix rnd v =
     (if \<bar>v\<bar> \<ge> 1000000 then show_fixed 1 (rnd (v / 1000000)) @ ''M''
      else if \<bar>v\<bar> \<ge> 1000 then show_fixed 0 (rnd (v / 1000)) @ ''k''
      else show_fixed 0 v)"

section \<open>Plots\<close>

record plot =
  pl_title :: "shown list"
  pl_x :: "real \<times> real"
  pl_y :: "real \<times> real"
  pl_lines :: "(string \<times> (real \<times> real option) list) list"

definition show_sign :: "nat \<Rightarrow> real \<Rightarrow> string" where
  "show_sign n x = (if x < 0 then [] else ''+'') @ show_fixed n x"

definition HIST_S :: real where "HIST_S = 30"
definition SLA_TARGET_NS :: real where "SLA_TARGET_NS = 500"

definition numbers :: "real list \<Rightarrow> real option list" where "numbers ys = map Some ys"

definition lines_if :: "nat \<Rightarrow> (string \<times> (real \<times> real option) list) list \<Rightarrow> (string \<times> (real \<times> real option) list) list" where
  "lines_if sz ls = (if sz > 1 then ls else [])"

definition plot_price_trio :: "(real \<Rightarrow> real) \<Rightarrow> (real \<Rightarrow> real) \<Rightarrow> dash_snapshot \<Rightarrow> plot_ring \<Rightarrow> real \<Rightarrow> sticky \<Rightarrow> plot \<times> sticky" where
  "plot_price_trio rnd flt s r t_now k =
     (let k = sticky_update flt (ds_vwmid s) (ring_range flt (pg_vwmid r) (pg_sz r) (plot_oldest r) (flt (1 / 1000))) t_now k
      in (\<lparr>pl_title = [(Green, ''Bid: '' @ show_fixed 4 (to_display rnd (ds_best_bid s) (ds_price_exp s))),
             (Red, ''  Ask: '' @ show_fixed 4 (to_display rnd (ds_best_ask s) (ds_price_exp s))),
             (Plain, ''  VWMID: '' @ show_fixed 4 (ds_vwmid s))],
           pl_x = (flt (t_now - HIST_S), t_now), pl_y = (sk_lo k, sk_hi k),
           pl_lines = lines_if (pg_sz r) [(''Bid'', ring_line r (pg_bid r)), (''Ask'', ring_line r (pg_ask r)),
             (''Mid'', ring_line r (numbers (pg_vwmid r)))]\<rparr>, k))"

text \<open>The shaded areas are given two arrays with the positive and the negative values.\<close>

definition plot_microtrend :: "(real \<Rightarrow> real) \<Rightarrow> (real \<Rightarrow> real) \<Rightarrow> dash_snapshot \<Rightarrow> plot_ring \<Rightarrow> real \<Rightarrow> plot" where
  "plot_microtrend rnd flt s r t_now =
     \<lparr>pl_title = [(Plain, ''EMA-VWMID: '' @ show_sign 6 (rnd (ds_ema s - ds_vwmid s)))],
      pl_x = (flt (t_now - HIST_S), t_now),
      pl_y = micro_range flt (ring_range flt (pg_micro_trend r) (pg_sz r) (plot_oldest r) 0),
      pl_lines = (''##zero'', [(flt (t_now - HIST_S), Some 0), (t_now, Some 0)]) # lines_if (pg_sz r)
        [(''##pos'', ring_line r (numbers (map (\<lambda>v. if v > 0 then v else 0) (pg_micro_trend r)))),
         (''##neg'', ring_line r (numbers (map (\<lambda>v. if v < 0 then v else 0) (pg_micro_trend r)))),
         (''##line'', ring_line r (numbers (pg_micro_trend r)))]\<rparr>"

definition plot_imbalance :: "(real \<Rightarrow> real) \<Rightarrow> dash_snapshot \<Rightarrow> plot_ring \<Rightarrow> real \<Rightarrow> plot" where
  "plot_imbalance flt s r t_now =
     (let prev = (pg_ins r + PLOT_N - 1) mod PLOT_N;
          ema_val = (if pg_sz r > 0 then pg_imbalance_ema r ! prev else flt (ds_imbalance s))
      in \<lparr>pl_title = [(Plain, ''Imbalance: '' @ show_sign 4 (ds_imbalance s) @ ''  EMA: '' @ show_sign 4 ema_val)],
          pl_x = (flt (t_now - HIST_S), t_now), pl_y = (- (11 / 10), 11 / 10),
          pl_lines = lines_if (pg_sz r) [(''Raw'', ring_line r (numbers (pg_imbalance r))),
            (''EMA'', ring_line r (numbers (pg_imbalance_ema r)))]\<rparr>)"

definition plot_tickrate :: "(real \<Rightarrow> real) \<Rightarrow> dash_snapshot \<Rightarrow> plot_ring \<Rightarrow> real \<Rightarrow> plot" where
  "plot_tickrate flt s r t_now =
     \<lparr>pl_title = [(Amber, ''Tick Rate: '' @ show_fixed 0 (ds_tick_rate s) @ '' /s'')],
      pl_x = (flt (t_now - HIST_S), t_now), pl_y = ring_range flt (pg_tick_rate r) (pg_sz r) (plot_oldest r) 100,
      pl_lines = lines_if (pg_sz r) [(''##tr'', ring_line r (numbers (pg_tick_rate r)))]\<rparr>"

definition plot_latency :: "(real \<Rightarrow> real) \<Rightarrow> dash_snapshot \<Rightarrow> plot_ring \<Rightarrow> real \<Rightarrow> plot" where
  "plot_latency flt s r t_now =
     \<lparr>pl_title = [(Plain, ''P99: '' @ show_fixed 0 (ds_latency_p99_ns s) @ '' ns  P999: ''
        @ show_fixed 0 (ds_latency_p999_ns s) @ '' ns'')],
      pl_x = (flt (t_now - HIST_S), t_now),
      pl_y = (0, max (snd (ring_range flt (pg_lat_p999 r) (pg_sz r) (plot_oldest r) 200)) (flt (SLA_TARGET_NS * flt (12 / 10)))),
      pl_lines = (''Latency Target'', [(flt (t_now - HIST_S), Some SLA_TARGET_NS), (t_now, Some SLA_TARGET_NS)])
        # lines_if (pg_sz r) [(''P99'', ring_line r (numbers (pg_lat_p99 r))), (''P999'', ring_line r (numbers (pg_lat_p999 r)))]\<rparr>"

definition plot_queue_depth :: "(real \<Rightarrow> real) \<Rightarrow> (real \<Rightarrow> real) \<Rightarrow> dash_snapshot \<Rightarrow> plot_ring \<Rightarrow> real \<Rightarrow> plot" where
  "plot_queue_depth rnd flt s r t_now =
     (let pct = flt (rnd (ds_ring_occupancy s * 100)); col = (if pct < 30 then Green else if pct < 70 then Amber else Red)
      in \<lparr>pl_title = [(col, ''Queue: '' @ show_fixed 1 pct @ ''%'')], pl_x = (flt (t_now - HIST_S), t_now), pl_y = (0, 100),
          pl_lines = lines_if (pg_sz r) [(''##fill'', ring_line r (numbers (pg_ring_occ r))),
            (''##line'', ring_line r (numbers (pg_ring_occ r)))]\<rparr>)"

definition render_plots :: "(real \<Rightarrow> real) \<Rightarrow> (real \<Rightarrow> real) \<Rightarrow> dash_snapshot \<Rightarrow> plot_ring \<Rightarrow> real \<Rightarrow> sticky \<Rightarrow> plot list \<times> sticky" where
  "render_plots rnd flt s r t_now k =
     (let (trio, k) = plot_price_trio rnd flt s r t_now k
      in ([trio, plot_microtrend rnd flt s r t_now, plot_imbalance flt s r t_now, plot_tickrate flt s r t_now,
           plot_latency flt s r t_now, plot_queue_depth rnd flt s r t_now], k))"

section \<open>The book table\<close>

definition book_row :: "(real \<Rightarrow> real) \<Rightarrow> dash_snapshot \<Rightarrow> nat \<Rightarrow> string option list" where
  "book_row rnd s i =
     (let bid = (\<lambda>f. if int i < ds_nb s then Some (f (ds_bids s ! i)) else None);
          ask = (\<lambda>f. if int i < ds_na s then Some (f (ds_asks s ! i)) else None);
          price = (\<lambda>l. show_fixed 6 (to_display rnd (dl_price l) (ds_price_exp s)));
          qty = (\<lambda>l. show_int (dl_qty l)); orders = (\<lambda>l. show_nat (unat (dl_order_count l)))
      in [bid price, bid qty, bid orders, ask orders, ask qty, ask price])"

definition render_book :: "(real \<Rightarrow> real) \<Rightarrow> dash_snapshot \<Rightarrow> string list \<times> string option list list" where
  "render_book rnd s =
     ([''Spread: '' @ show_fixed 6 (to_display rnd (ds_spread s) (ds_price_exp s)),
       ''Seq: '' @ show_u64 (ds_event_seq s) @ ''  BidQty: '' @ show_int (ds_total_bid_qty s) @ ''  AskQty: ''
         @ show_int (ds_total_ask_qty s)],
      map (book_row rnd s) [0..<DASH_DEPTH])"

section \<open>The loop\<close>

record ui =
  ui_panels :: panels
  ui_latest :: dash_snapshot
  ui_book :: dash_snapshot
  ui_ring :: plot_ring
  ui_have_data :: bool
  ui_last_book_update :: real
  ui_next_frame :: int
  ui_sticky :: sticky

definition ui_new :: "real \<Rightarrow> int \<Rightarrow> ui" where
  "ui_new tsc_per_ns now = \<lparr>ui_panels = panels_new tsc_per_ns, ui_latest = dash_new, ui_book = dash_new, ui_ring = plot_ring_new,
     ui_have_data = False, ui_last_book_update = 0, ui_next_frame = now, ui_sticky = sticky_new\<rparr>"

text \<open>Nanoseconds; \<open>woke\<close> and \<open>again\<close> are the two readings of the clock.\<close>

definition ui_pace :: "int \<Rightarrow> int \<Rightarrow> int \<Rightarrow> int" where
  "ui_pace next_frame woke again =
     (let next_frame = next_frame + 16667000 in if woke > next_frame + 100000000 then again else next_frame)"

definition BOOK_UPDATE_INTERVAL :: real where "BOOK_UPDATE_INTERVAL = 1 / 2"

text \<open>What one turn of the loop reads: the frames it pops, the time, and what the panels load.\<close>

record ui_in =
  in_frames :: "dash_snapshot list"
  in_t :: real
  in_loads :: panel_loads
  in_woke :: int
  in_again :: int

definition ui_drain :: "dash_snapshot list \<Rightarrow> ui \<Rightarrow> ui" where
  "ui_drain fs u = fold (\<lambda>f u. u\<lparr>ui_latest := f, ui_have_data := True\<rparr>) fs u"

definition ui_turn :: "(real \<Rightarrow> real) \<Rightarrow> (real \<Rightarrow> real) \<Rightarrow> ui_in \<Rightarrow> ui \<Rightarrow> ui" where
  "ui_turn rnd flt i u =
     (let u = u\<lparr>ui_next_frame := ui_pace (ui_next_frame u) (in_woke i) (in_again i)\<rparr>;
          u = ui_drain (in_frames i) u;
          t_now = in_t i;
          u = u\<lparr>ui_panels := panels_update rnd flt (in_loads i) t_now (ui_panels u)\<rparr>
      in if ui_have_data u then
           let u = u\<lparr>ui_ring := plot_push rnd flt (flt t_now) (ui_latest u) (ui_ring u)\<rparr>
           in if rnd (t_now - ui_last_book_update u) \<ge> BOOK_UPDATE_INTERVAL
              then u\<lparr>ui_book := ui_latest u, ui_last_book_update := t_now\<rparr> else u
         else u)"

text \<open>The market tab, drawn at time \<open>t\<close>.\<close>

definition market_tab :: "(real \<Rightarrow> real) \<Rightarrow> (real \<Rightarrow> real) \<Rightarrow> real \<Rightarrow> ui
    \<Rightarrow> (string list \<times> string option list list) \<times> plot list \<times> ui" where
  "market_tab rnd flt t u = (let (plots, k) = render_plots rnd flt (ui_latest u) (ui_ring u) (flt t) (ui_sticky u)
     in (render_book rnd (ui_book u), plots, u\<lparr>ui_sticky := k\<rparr>))"

end
