(* ===== verification/Worker_Mains.thy ===== *)
theory Worker_Mains
  imports Exec_Process Core_Loop_Facts Latency_Log Itch_Wire Dashboard_Ui
begin

text \<open>
  The \<open>main\<close> functions of the other workers: \<open>src/core/core_main.cpp\<close> around \<open>Core_Loop\<close>,
  \<open>src/exchange/exchange_main.cpp\<close> around the parser, and \<open>src/dashboard/dashboard_main.cpp\<close>.
  Signals and pinning to a processor core are left out; \<open>None\<close> is a process that does not end, or
  reads outside its memory in the feed.
\<close>

section \<open>core\<close>

text \<open>
  \<open>cw_drops\<close> is the counter of dropped events when the log is closed.
\<close>

record core_world =
  cw_file :: "string \<Rightarrow> string option"
  cw_layout_hash :: u32
  cw_header :: "nat \<Rightarrow> shm_header"
  cw_map :: "nat option"
  cw_os :: os
  cw_instruments :: instrument_table
  cw_log_opens :: bool
  cw_tsc_per_ns :: real
  cw_scratch :: book_snapshot
  cw_slots :: "u32 \<Rightarrow> market_update"
  cw_env :: core_env
  cw_drops :: u64

record core_result =
  cr_code :: int
  cr_instruments :: instrument_table
  cr_loop :: "core_loop option"
  cr_log :: string

definition core_failed :: "core_world \<Rightarrow> int \<Rightarrow> core_result" where
  "core_failed W code = \<lparr>cr_code = code, cr_instruments = cw_instruments W, cr_loop = None, cr_log = []\<rparr>"

definition bytes_of :: "string \<Rightarrow> u8 list" where "bytes_of s = map of_char s"

definition core_main :: "(real \<Rightarrow> real) \<Rightarrow> core_world \<Rightarrow> string list \<Rightarrow> core_result option" where
  "core_main rnd W argv =
     (case load_from_args (cw_file W) (tl argv) [] of (ok, cfg) \<Rightarrow>
        if length argv < 2 \<or> \<not> ok then Some (core_failed W 2)
        else let primary = set_primary (bytes_of (get_str cfg ''symbols'' ''TQQQ''));
                 max_events = max_events_of (get_i64 cfg ''max_events'' 0)
          in case attach_pipeline (cw_layout_hash W) (cw_header W) (cw_map W) (Some (argv ! 1)) seg_new (cw_os W) of
               None \<Rightarrow> None
             | Some (Some c, g, s) \<Rightarrow> Some (core_failed W c)
             | Some (None, g, s) \<Rightarrow>
                 let (inst, its) = it_add (cw_instruments W) (itch_row primary)
                 in if \<not> cw_log_opens W then Some ((core_failed W 1)\<lparr>cr_instruments := its\<rparr>)
                    else map_option (\<lambda>l. \<lparr>cr_code = 0, cr_instruments = its, cr_loop = Some l,
                        cr_log = lat_final rnd (cw_tsc_per_ns W) (cw_drops W) l\<rparr>)
                      (core_main_run (cw_env W) inst max_events (core_new primary (cw_scratch W) (cw_slots W))))"

section \<open>exchange\<close>

text \<open>What the \<open>k\<close>-th call of \<open>next\<close> sees, and the shutdown flag before it.\<close>

record exchange_env =
  ee_obs :: "nat \<Rightarrow> (u32 \<times> bool) list"
  ee_tsc :: "nat \<Rightarrow> u64"
  ee_stop :: "nat \<Rightarrow> bool"

partial_function (option) exchange_loop :: "exchange_env \<Rightarrow> nat \<Rightarrow> itch_parser \<Rightarrow> itch_parser option" where
  "exchange_loop E k p =
     (if \<not> itch_done p \<and> \<not> ee_stop E k then
        (case parser_next (ee_obs E k) (ee_tsc E k) p of
           Next p \<Rightarrow> exchange_loop E (k + 1) p
         | _ \<Rightarrow> None)
      else Some p)"

definition exchange_main :: "(string \<Rightarrow> string option) \<Rightarrow> (string \<Rightarrow> u8 list option) \<Rightarrow> u32 \<Rightarrow> (nat \<Rightarrow> shm_header) \<Rightarrow> nat option
    \<Rightarrow> os \<Rightarrow> exchange_env \<Rightarrow> event ring \<Rightarrow> string list \<Rightarrow> (int \<times> itch_parser option) option" where
  "exchange_main fs data layout_hash hdr a s E r argv =
     (case load_from_args fs (tl argv) [] of (ok, cfg) \<Rightarrow>
        if length argv < 3 \<or> \<not> ok then Some (2, None)
        else case data (argv ! 2) of
          None \<Rightarrow> Some (1, None)
        | Some bytes \<Rightarrow> (case attach_pipeline layout_hash hdr a (Some (argv ! 1)) seg_new s of
            None \<Rightarrow> None
          | Some (Some c, g, s) \<Rightarrow> Some (c, None)
          | Some (None, g, s) \<Rightarrow>
              map_option (\<lambda>p. (0, Some p)) (exchange_loop E 0 \<lparr>ip_data = bytes, ip_cursor = 0, ip_ring = r\<rparr>)))"

section \<open>dashboard\<close>

text \<open>\<open>turns\<close>: what the loop reads in each turn until the window is closed or a signal arrives; no turn
  when the window system does not start.\<close>

definition dashboard_main :: "(real \<Rightarrow> real) \<Rightarrow> (real \<Rightarrow> real) \<Rightarrow> u32 \<Rightarrow> (nat \<Rightarrow> shm_header) \<Rightarrow> nat option \<Rightarrow> os \<Rightarrow> real \<Rightarrow> int
    \<Rightarrow> ui_in list \<Rightarrow> string list \<Rightarrow> (int \<times> ui option) option" where
  "dashboard_main rnd flt layout_hash hdr a s tsc_per_ns now turns argv =
     (if length argv < 2 then Some (2, None)
      else case attach_pipeline layout_hash hdr a (Some (argv ! 1)) seg_new s of
        None \<Rightarrow> None
      | Some (Some c, g, s) \<Rightarrow> Some (c, None)
      | Some (None, g, s) \<Rightarrow> Some (0, Some (fold (ui_turn rnd flt) turns (ui_new tsc_per_ns now))))"

section \<open>The parser's loop\<close>

text \<open>On a file of well-formed messages, with room in the ring, the loop is \<open>parser_run\<close> over them.\<close>

lemma exchange_loop_run:
  assumes "\<And>j. j < length msgs \<Longrightarrow> \<not> ee_stop E (k + j)" "list_all msg_ok msgs"
    and "makes_room (map (\<lambda>j. (ee_obs E j, ee_tsc E j)) [k..<k + length msgs]) p"
    and "ip_data p = pre @ concat (map encode_frame msgs)" "ip_cursor p = length pre"
  shows "\<exists>evs q. exchange_loop E k p = Some q \<and> itch_done q
    \<and> parser_run (map (\<lambda>j. (ee_obs E j, ee_tsc E j)) [k..<k + length msgs]) p = Some (evs, q)"
  using assms
proof (induction msgs arbitrary: k p pre)
  case Nil
  then have "itch_done p" by (simp add: itch_done_def)
  then show ?case by (subst exchange_loop.simps) simp
next
  case (Cons m msgs)
  let ?x = "\<lambda>j. (ee_obs E j, ee_tsc E j)"
  have xs: "map ?x [k..<k + length (m # msgs)] = ?x k # map ?x [Suc k..<Suc k + length msgs]"
    by (subst upt_conv_Cons) simp_all
  from Cons.prems(3) obtain r i where claim: "claim_spin (ee_obs E k) (ip_ring p) = Claimed r i"
    unfolding xs by (auto split: claim_result.splits)
  obtain q where step: "parser_next (ee_obs E k) (ee_tsc E k) p = Next q" and q: "ip_data q = ip_data p"
    "ip_cursor q = length (pre @ encode_frame m)"
    using next_frame [OF _ _ Cons.prems(5) claim, of m "concat (map encode_frame msgs)" "ee_tsc E k"] Cons.prems(2,4) by simp
  have "length (be_bytes 2 (w :: u16)) = 2" for w by simp
  then have "0 < length (encode_frame m)" by (simp add: encode_frame_def del: length_greater_0_conv)
  then have nd: "\<not> itch_done p" using Cons.prems(4,5) by (simp add: itch_done_def)
  have "\<not> ee_stop E k" using Cons.prems(1) [of 0] by simp
  then have loop: "exchange_loop E k p = exchange_loop E (Suc k) q" using nd step by (subst exchange_loop.simps) simp
  have "\<exists>evs q'. exchange_loop E (Suc k) q = Some q' \<and> itch_done q'
    \<and> parser_run (map ?x [Suc k..<Suc k + length msgs]) q = Some (evs, q')"
  proof (rule Cons.IH [where pre = "pre @ encode_frame m"])
    show "\<not> ee_stop E (Suc k + j)" if "j < length msgs" for j using Cons.prems(1) [of "Suc j"] that by simp
    show "list_all msg_ok msgs" using Cons.prems(2) by simp
    show "makes_room (map ?x [Suc k..<Suc k + length msgs]) q" using Cons.prems(3) unfolding xs by (simp add: step)
    show "ip_data q = (pre @ encode_frame m) @ concat (map encode_frame msgs)" using q(1) Cons.prems(4) by simp
    show "ip_cursor q = length (pre @ encode_frame m)" by (rule q(2))
  qed
  then show ?case unfolding xs loop by (auto simp: step)
qed

end
