(* ===== verification/Platform.thy ===== *)
theory Platform
  imports Doubles Config_File
begin

text \<open>
  What the processes do to the machine they run on: the calibration of the time-stamp counter
  (\<open>src/common/platform/tsc.hpp\<close>), the processor each thread is pinned to
  (\<open>src/common/platform/cpu_pin.hpp\<close>, \<open>src/common/config.hpp\<close>), and the touching of pages before the
  hot loop (\<open>prefault\<close> in \<open>src/exec/exec_main.cpp\<close> and \<open>src/exec/loader.cpp\<close>).  Readings of clocks and
  addresses are arguments.  Shown: a steady clock is calibrated exactly, also across a second, and
  every page that holds a byte of the object or of a loaded segment is touched.
\<close>

section \<open>Calibration\<close>

text \<open>A \<open>timespec\<close>; the difference of the seconds is multiplied as an unsigned 64-bit number.\<close>

record timespec =
  ts_sec :: int
  ts_nsec :: int

definition elapsed_ns :: "timespec \<Rightarrow> timespec \<Rightarrow> u64" where
  "elapsed_ns a b = word_of_int (ts_sec b - ts_sec a) * 1000000000 + word_of_int (ts_nsec b - ts_nsec a)"

definition calibrate_tsc :: "(real \<Rightarrow> real) \<Rightarrow> u64 \<Rightarrow> timespec \<Rightarrow> timespec \<Rightarrow> u64 \<Rightarrow> real" where
  "calibrate_tsc rnd tsc_a a b tsc_b = rnd (dbl rnd (uint (tsc_b - tsc_a)) / dbl rnd (uint (elapsed_ns a b)))"

definition ts_ns :: "timespec \<Rightarrow> int" where
  "ts_ns t = ts_sec t * 1000000000 + ts_nsec t"

lemma elapsed_ns_exact:
  assumes "ts_ns a \<le> ts_ns b" "ts_ns b - ts_ns a < 2 ^ 64"
  shows "uint (elapsed_ns a b) = ts_ns b - ts_ns a"
proof -
  have "elapsed_ns a b = word_of_int (ts_ns b - ts_ns a)"
    by (simp add: elapsed_ns_def ts_ns_def algebra_simps flip: of_int_mult of_int_add of_int_diff) (simp add: algebra_simps)
  then show ?thesis using assms by (simp add: uint_word_of_int take_bit_int_eq_self del: of_int_diff)
qed

text \<open>
  With a counter that runs \<open>f\<close> ticks a nanosecond, whose differences and rate are exact as \<open>double\<close>s,
  the calibration is the rate, whether or not the counter or the nanoseconds wrapped in between.
\<close>

lemma calibrate_tsc_exact:
  assumes "ts_ns a < ts_ns b" "ts_ns b - ts_ns a < 2 ^ 64" "dbl rnd (ts_ns b - ts_ns a) = of_int (ts_ns b - ts_ns a)"
    and "dbl rnd (uint (tsc_b - tsc_a)) = f * of_int (ts_ns b - ts_ns a)" "rnd f = f"
  shows "calibrate_tsc rnd tsc_a a b tsc_b = f"
  using assms by (simp add: calibrate_tsc_def elapsed_ns_exact)

section \<open>Processors\<close>

definition EXCHANGE_CORE :: int where "EXCHANGE_CORE = 2"
definition HOT_CORE :: int where "HOT_CORE = 4"
definition EXEC_CORE :: int where "EXEC_CORE = 3"
definition SNAPSHOT_CORE :: int where "SNAPSHOT_CORE = 6"
definition LAT_DUMP_CORE :: int where "LAT_DUMP_CORE = 0"

text \<open>
  \<open>CPU_SET\<close> leaves the set of 1024 processors empty for one outside; the system refuses a set without a
  processor the thread may run on, and the caller goes on where it was.
\<close>

definition cpu_set :: "int \<Rightarrow> int set" where
  "cpu_set core_id = (if 0 \<le> core_id \<and> core_id < 1024 then {core_id} else {})"

definition pin_to_core :: "int set \<Rightarrow> int \<Rightarrow> int set \<Rightarrow> bool \<times> int set" where
  "pin_to_core online core_id running =
     (if cpu_set core_id \<inter> online \<noteq> {} then (True, cpu_set core_id \<inter> online) else (False, running))"

text \<open>\<open>int(cfg.get_i64(key, def))\<close>\<close>

definition core_of :: "config \<Rightarrow> string \<Rightarrow> int \<Rightarrow> int" where
  "core_of cfg key def = sint (word_of_int (get_i64 cfg key def) :: 32 word)"

lemma pin_to_core_within: "running \<subseteq> online \<Longrightarrow> snd (pin_to_core online core_id running) \<subseteq> online"
  by (simp add: pin_to_core_def)

lemma pin_to_core_alone: "fst (pin_to_core online core_id running) \<Longrightarrow> snd (pin_to_core online core_id running) = {core_id}"
  by (auto simp: pin_to_core_def cpu_set_def split: if_splits)

lemma default_cores:
  "core_of [] key EXCHANGE_CORE = 2" "core_of [] key HOT_CORE = 4" "core_of [] key EXEC_CORE = 3"
  "core_of [] key SNAPSHOT_CORE = 6" "core_of [] key LAT_DUMP_CORE = 0"
  by (simp_all add: core_of_def get_i64_def cfg_find_def EXCHANGE_CORE_def HOT_CORE_def EXEC_CORE_def
      SNAPSHOT_CORE_def LAT_DUMP_CORE_def)

section \<open>Touching pages\<close>

text \<open>The addresses touched from \<open>p\<close> to the end, \<open>page\<close> apart.\<close>

function touch_from :: "nat \<Rightarrow> nat \<Rightarrow> nat \<Rightarrow> nat list" where
  "touch_from page p stop = (if 0 < page \<and> p < stop then p # touch_from page (p + page) stop else [])"
  by pat_completeness auto
termination by (relation "measure (\<lambda>(page, p, stop). stop - p)") auto

declare touch_from.simps [simp del]

text \<open>exec's own objects: offsets of the bytes rewritten.\<close>

definition prefault_object :: "nat \<Rightarrow> nat list" where
  "prefault_object len = touch_from 4096 0 len"

text \<open>
  A loaded object: its name, its base address and its program headers (type, address, size).
  \<open>dl_iterate_phdr\<close> stops at the first whose name is the module's; addresses do not wrap.
\<close>

record phdr =
  ph_type :: u32
  ph_vaddr :: nat
  ph_memsz :: nat

record loaded_object =
  ld_name :: string
  ld_addr :: nat
  ld_phdrs :: "phdr list"

definition PT_LOAD :: u32 where "PT_LOAD = 1"

definition touch_segment :: "nat \<Rightarrow> nat \<Rightarrow> phdr \<Rightarrow> nat list" where
  "touch_segment page addr ph =
     (if ph_type ph \<noteq> PT_LOAD then []
      else let start = (addr + ph_vaddr ph) div page * page; stop = addr + ph_vaddr ph + ph_memsz ph
           in touch_from page start stop)"

fun prefault_module :: "nat \<Rightarrow> string \<Rightarrow> loaded_object list \<Rightarrow> bool \<times> nat list" where
  "prefault_module page path [] = (False, [])"
| "prefault_module page path (x # xs) =
     (if ld_name x \<noteq> path then prefault_module page path xs
      else (True, concat (map (touch_segment page (ld_addr x)) (ld_phdrs x))))"

lemma touch_from_set:
  "0 < page \<Longrightarrow> set (touch_from page p stop) = {p + k * page |k. p + k * page < stop}"
proof (induction page p stop rule: touch_from.induct)
  case (1 page p stop)
  show ?case
  proof (cases "0 < page \<and> p < stop")
    case True
    have "{p + k * page |k. p + k * page < stop} = insert p {p + page + k * page |k. p + page + k * page < stop}" (is "?l = ?r")
    proof
      show "?l \<subseteq> ?r"
      proof
        fix x assume "x \<in> ?l"
        then obtain k where k: "x = p + k * page" "x < stop" by blast
        show "x \<in> ?r"
        proof (cases k)
          case (Suc j)
          then have "x = p + page + j * page" using k by simp
          then show ?thesis using k by blast
        qed (use k in simp)
      qed
      show "?r \<subseteq> ?l"
      proof
        fix x assume "x \<in> ?r"
        then consider "x = p" | j where "x = p + page + j * page" "x < stop" by blast
        then show "x \<in> ?l"
        proof cases
          case 1
          then have "x = p + 0 * page" "p + 0 * page < stop" using True by simp_all
          then show ?thesis by blast
        next
          case (2 j)
          then have "x = p + Suc j * page" by simp
          then show ?thesis using 2 by blast
        qed
      qed
    qed
    then show ?thesis using True 1 by (subst touch_from.simps) simp
  next
    case False
    then have "stop \<le> p" using \<open>0 < page\<close> by simp
    moreover from False have "touch_from page p stop = []" by (subst touch_from.simps) (simp only: if_False)
    ultimately show ?thesis by auto
  qed
qed

text \<open>The page of every byte of the range is touched.\<close>

lemma touch_from_pages:
  assumes "0 < page" "page dvd start" "start \<le> x" "x < stop"
  shows "x div page * page \<in> set (touch_from page start stop)"
proof -
  obtain k where k: "start = k * page" using assms(2) by (metis dvd_def mult.commute)
  then have "k \<le> x div page" using div_le_mono [OF assms(3), of page] assms(1) by simp
  then obtain j where "x div page = k + j" using le_Suc_ex by blast
  then have j: "x div page * page = start + j * page" by (simp add: k algebra_simps)
  have "x div page * page < stop" by (rule le_less_trans [OF div_times_less_eq_dividend assms(4)])
  then have "start + j * page < stop" by (simp only: j)
  with j show ?thesis unfolding touch_from_set [OF assms(1)] mem_Collect_eq by (intro exI [of _ j] conjI)
qed

lemma prefault_object_pages: "x < len \<Longrightarrow> x div 4096 * 4096 \<in> set (prefault_object len)"
  unfolding prefault_object_def by (rule touch_from_pages) simp_all

lemma touch_segment_pages:
  assumes "0 < page" "ph_type ph = PT_LOAD" "addr + ph_vaddr ph \<le> x" "x < addr + ph_vaddr ph + ph_memsz ph"
  shows "x div page * page \<in> set (touch_segment page addr ph)"
proof -
  have "(addr + ph_vaddr ph) div page * page \<le> x" using assms(3) div_times_less_eq_dividend le_trans by blast
  then show ?thesis
    unfolding touch_segment_def Let_def using assms(1,2,4) by (simp add: touch_from_pages)
qed

lemma prefault_module_pages:
  assumes "\<And>x. x \<in> set xs \<Longrightarrow> ld_name x = path \<Longrightarrow> x = obj" "obj \<in> set xs" "ld_name obj = path" "0 < page"
    and "ph \<in> set (ld_phdrs obj)" "ph_type ph = PT_LOAD"
    and "ld_addr obj + ph_vaddr ph \<le> x" "x < ld_addr obj + ph_vaddr ph + ph_memsz ph"
  shows "fst (prefault_module page path xs) \<and> x div page * page \<in> set (snd (prefault_module page path xs))"
  using assms(1,2)
proof (induction xs)
  case (Cons y ys)
  show ?case
  proof (cases "ld_name y = path")
    case True
    then have "y = obj" using Cons.prems(1) by simp
    then show ?thesis using assms(3,5) touch_segment_pages [OF assms(4,6-8)] by auto
  next
    case False
    then have "obj \<in> set ys" using Cons.prems(2) assms(3) by auto
    from Cons.IH [OF Cons.prems(1) this] False show ?thesis by simp
  qed
qed simp

end
