(* ===== verification/Platform_Properties.thy ===== *)
theory Platform_Properties
  imports Worker_Mains Run_Properties Platform
begin

text \<open>
  Properties of what surrounds the pipeline's code: shared memory, the loading of strategy modules and
  the start of exec by the supervisor.
\<close>

section \<open>Shared memory\<close>

text \<open>
  C38.  A program of constructions, destructions, mappings, moves and move assignments of \<open>ShmSegment\<close>
  objects never closes or unmaps what it does not hold; at every moment each open descriptor and
  mapping it acquired belongs to exactly one object, so that none is left when all objects are gone.
  Nothing is taken from the rest of the process but descriptors handed to \<open>attach\<close>, each of which must be
  open and belong to no segment, or the call is not legal (\<open>seg_legal\<close>).  The operating
  system hands out descriptors and addresses that are not in use.
\<close>

theorem segments_own_exactly:
  assumes "seg_run cs (Map.empty, s0) = Some (H, s)" and "\<not> os_bad s0"
  shows "\<not> os_bad s
    \<and> (\<forall>i j g g'. H i = Some g \<and> H j = Some g' \<and> i \<noteq> j \<longrightarrow> seg_fds g \<inter> seg_fds g' = {} \<and> seg_maps g \<inter> seg_maps g' = {})
    \<and> os_maps s = os_maps s0 \<union> owned_maps H \<and> os_maps s0 \<inter> owned_maps H = {}
    \<and> (\<exists>F. os_fds s0 - attached cs \<subseteq> F \<and> F \<subseteq> os_fds s0 \<and> os_fds s = F \<union> owned_fds H \<and> F \<inter> owned_fds H = {})"
proof -
  have "seg_inv (os_fds s0) (os_maps s0) (Map.empty, s0)"
    using assms(2) by (simp add: seg_inv_def objs_ok_def owned_fds_def owned_maps_def)
  from seg_run_sound [OF this assms(1)] obtain F where
    F: "seg_inv F (os_maps s0) (H, s)" "os_fds s0 - attached cs \<subseteq> F" "F \<subseteq> os_fds s0" by blast
  then have i: "objs_ok H" "os_fds s = F \<union> owned_fds H" "F \<inter> owned_fds H = {}" "os_maps s = os_maps s0 \<union> owned_maps H"
    "os_maps s0 \<inter> owned_maps H = {}" "\<not> os_bad s" by (simp_all add: seg_inv_def)
  show ?thesis
  proof (intro conjI i(4-6))
    show "\<forall>i j g g'. H i = Some g \<and> H j = Some g' \<and> i \<noteq> j \<longrightarrow> seg_fds g \<inter> seg_fds g' = {} \<and> seg_maps g \<inter> seg_maps g' = {}"
      using i(1) unfolding objs_ok_def by blast
    show "\<exists>F. os_fds s0 - attached cs \<subseteq> F \<and> F \<subseteq> os_fds s0 \<and> os_fds s = F \<union> owned_fds H \<and> F \<inter> owned_fds H = {}"
      using F(2,3) i(2,3) by blast
  qed
qed

text \<open>Two segments, the first failing to map with huge pages; a move assignment over a mapped one.\<close>

lemma segments_own_exactly_witness:
  "\<exists>H s. seg_run [Construct 0, Create 0 4096 \<lparr>pa_fd = 7, pa_trunc = False, pa_addr = None\<rparr> \<lparr>pa_fd = 7, pa_trunc = True, pa_addr = Some 64\<rparr>,
      Construct 1, Attach 1 3 4096 (Some 128), Move_Assign 0 1, Destroy 0, Destroy 1]
      (Map.empty, \<lparr>os_fds = {0, 1, 2, 3}, os_maps = {}, os_bad = False\<rparr>) = Some (H, s)
    \<and> \<not> os_bad s \<and> os_maps s = {}"
proof -
  let ?cs = "[Construct 0, Create 0 4096 \<lparr>pa_fd = 7, pa_trunc = False, pa_addr = None\<rparr> \<lparr>pa_fd = 7, pa_trunc = True, pa_addr = Some 64\<rparr>,
      Construct 1, Attach 1 3 4096 (Some 128), Move_Assign 0 1, Destroy 0, Destroy 1]"
  let ?s0 = "\<lparr>os_fds = {0, 1, 2, 3}, os_maps = {}, os_bad = False\<rparr> :: os"
  obtain s where run: "seg_run ?cs (Map.empty, ?s0) = Some (Map.empty, s)"
    by (simp add: seg_new_def seg_create_def map_memfd_def do_memfd_def do_mmap_def os_close_def os_munmap_def
        seg_attach_def seg_assign_def seg_reset_def seg_move_def answers_ok_def owned_fds_def fun_upd_def cong: if_cong)
  from segments_own_exactly [OF run] show ?thesis using run by (auto simp: owned_maps_def)
qed

section \<open>Strategy modules\<close>

lemma load_strategy_None:
  assumes "\<And>img. le_image E = Some img \<Longrightarrow> length img < 2 ^ 63"
  shows "load_strategy A builtins E spec = None
    \<longleftrightarrow> is_module_path spec \<and> le_open E \<and> le_stat E \<and> (\<exists>img. le_image E = Some img \<and> elf_wraps img)"
proof (cases "is_module_path spec")
  case True
  have "load_file A E = None \<longleftrightarrow> le_open E \<and> le_stat E \<and> (\<exists>img. le_image E = Some img \<and> check_elf img = None)"
    by (auto simp: load_file_def Let_def split: option.splits sum.splits)
  then show ?thesis using True check_elf_exact(1) [OF assms] by (auto simp: load_strategy_def)
next
  case False
  then show ?thesis by (auto simp: load_strategy_def Let_def split: option.split sum.split)
qed

text \<open>
  C39.  Loading a strategy returns, but for one kind of file: an ELF header whose table of program
  headers ends beyond \<open>2 ^ 64\<close> and, computed modulo \<open>2 ^ 64\<close>, inside the file, on which the check reads
  outside the mapping; that is the fault of the code shown below.  What is accepted is a table with this
  binary's version and layout hash, no instruction set the processor lacks and all entry points; a builtin
  comes from the table of builtins and touches nothing; a file is a complete x86-64 shared object without
  thread-local storage, and exactly its memory copy and its handle stay open.  Whatever is rejected,
  everything that was opened is closed again.  Files are shorter than \<open>2 ^ 63\<close> bytes.
\<close>

theorem loads_only_safe_modules:
  assumes "\<And>img. le_image E = Some img \<Longrightarrow> length img < 2 ^ 63"
  shows "(load_strategy A builtins E spec = None
      \<longleftrightarrow> is_module_path spec \<and> le_open E \<and> le_stat E \<and> (\<exists>img. le_image E = Some img \<and> elf_wraps img))
    \<and> (case load_strategy A builtins E spec of
        None \<Rightarrow> True
      | Some (Inl e, acts) \<Rightarrow> replay {} acts = Some {}
      | Some (Inr lm, acts) \<Rightarrow> module_ok A (lm_module lm) \<and> (lm_handle lm \<longleftrightarrow> is_module_path spec)
          \<and> (if is_module_path spec then replay {} acts = Some {R_Memfd, R_Handle} \<and> (\<exists>img. le_image E = Some img \<and> elf_ok img)
             else acts = [] \<and> lm_module lm \<in> set builtins))"
proof (rule conjI [OF load_strategy_None [OF assms]], assumption)
  show "case load_strategy A builtins E spec of
        None \<Rightarrow> True
      | Some (Inl e, acts) \<Rightarrow> replay {} acts = Some {}
      | Some (Inr lm, acts) \<Rightarrow> module_ok A (lm_module lm) \<and> (lm_handle lm \<longleftrightarrow> is_module_path spec)
          \<and> (if is_module_path spec then replay {} acts = Some {R_Memfd, R_Handle} \<and> (\<exists>img. le_image E = Some img \<and> elf_ok img)
             else acts = [] \<and> lm_module lm \<in> set builtins)"
  proof (cases "is_module_path spec")
    case True
    then show ?thesis
      using load_file_sound [of E A, OF assms] by (auto simp: load_strategy_def split: option.splits sum.splits)
  next
    case False
    have found: "builtins_find name ms = Some m \<Longrightarrow> m \<in> set ms" for name ms m
      by (induction name ms rule: builtins_find.induct) (auto split: if_splits)
    let ?name = "if take 8 spec = ''builtin:'' then drop 8 spec else spec"
    show ?thesis
    proof (cases "builtins_find ?name builtins")
      case None
      then show ?thesis using False by (auto simp: load_strategy_def Let_def)
    next
      case (Some m)
      show ?thesis
        by (cases rule: check_module_cases [of A m])
          (use Some False found [OF Some] in \<open>auto simp: load_strategy_def Let_def\<close>)
    qed
  qed
qed

text \<open>A module built like the host.\<close>

definition sample_host_abi :: host_abi where
  "sample_host_abi = \<lparr>ha_layout_hash = 7, ha_parts = [8, 16], ha_cpu = (\<lambda>i. i \<noteq> AVX512F)\<rparr>"

definition sample_module :: strategy_module where
  "sample_module = module_table 7 [8, 16] (\<lambda>i. i = SSE42) ''dummy'' ''build''"

text \<open>A file: an ELF header without program headers.\<close>

definition sample_image :: "u8 list" where
  "sample_image = [0x7f, 0x45, 0x4c, 0x46, 2] @ replicate 11 0 @ [3, 0, 62, 0] @ replicate 44 0"

definition sample_loader :: loader_env where
  "sample_loader = \<lparr>le_open = True, le_stat = True, le_image = Some sample_image, le_memfd = 5,
     le_write = (\<lambda>_. 64), le_dlopen = True, le_entry = Some sample_module\<rparr>"

lemma sample_module_ok: "module_ok sample_host_abi sample_module"
proof -
  have "md_isa_mask sample_module AND NOT (cpu_isa_mask (ha_cpu sample_host_abi)) = 0"
    unfolding sample_module_def sample_host_abi_def module_table_def by (simp add: isa_subset)
  then show ?thesis by (simp add: module_ok_def) (simp add: sample_module_def sample_host_abi_def module_table_def)
qed

lemma sample_load:
  "load_strategy sample_host_abi [sample_module] E ''builtin:dummy'' = Some (Inr \<lparr>lm_module = sample_module, lm_handle = False, lm_memfd = - 1\<rparr>, [])"
  using sample_module_ok check_module_ok [of sample_host_abi sample_module]
  by (simp add: load_strategy_def is_module_path_def sample_module_def module_table_def)

lemma sample_check: "check_elf sample_image = Some (Inr ())" "length sample_image = 64" "phdrs_end sample_image = 0"
  by code_simp+

lemma sample_load_file:
  "\<exists>acts. load_strategy sample_host_abi builtins sample_loader ''./strategy_x.so''
    = Some (Inr \<lparr>lm_module = sample_module, lm_handle = True, lm_memfd = 5\<rparr>, acts)"
  using sample_module_ok check_module_ok [of sample_host_abi sample_module] sample_check
  by (simp add: load_strategy_def is_module_path_def load_file_def sample_loader_def copy_from.simps load_from_memfd_def)

lemma loads_only_safe_modules_witness:
  "\<exists>lm acts. load_strategy sample_host_abi [] sample_loader ''./strategy_x.so'' = Some (Inr lm, acts)
    \<and> module_ok sample_host_abi (lm_module lm) \<and> replay {} acts = Some {R_Memfd, R_Handle} \<and> elf_ok sample_image"
proof -
  have img: "length img < 2 ^ 63" if "le_image sample_loader = Some img" for img
    using that sample_check by (simp add: sample_loader_def)
  have p: "is_module_path ''./strategy_x.so''" "le_image sample_loader = Some sample_image"
    by (simp_all add: is_module_path_def sample_loader_def)
  from sample_load_file [of "[]"] obtain acts where
    load: "load_strategy sample_host_abi [] sample_loader ''./strategy_x.so''
      = Some (Inr \<lparr>lm_module = sample_module, lm_handle = True, lm_memfd = 5\<rparr>, acts)" by blast
  with loads_only_safe_modules [where E = sample_loader, OF img, of sample_host_abi "[]" "''./strategy_x.so''"] p
  show ?thesis by auto
qed

section \<open>A hole in the ELF check\<close>

definition wrapping_image :: "u8 list" where
  "wrapping_image = [0x7f, 0x45, 0x4c, 0x46, 2] @ replicate 11 0 @ [3, 0, 62, 0] @ replicate 12 0
     @ le_bytes 8 (- 56 :: u64) @ replicate 16 0 @ [1, 0] @ replicate 6 0"

lemma wrapping_fields:
  "length wrapping_image = 64" "take 4 wrapping_image = [0x7f, 0x45, 0x4c, 0x46]" "wrapping_image ! 4 = 2"
  "elf_machine wrapping_image = 62" "elf_type wrapping_image = 3" "elf_phoff wrapping_image = - 56" "elf_phnum wrapping_image = 1"
proof -
  have "le_word (le_bytes 8 (- 56 :: u64)) = (- 56 :: u64)" by (simp add: le_word_bytes)
  then show "elf_phoff wrapping_image = - 56" by (simp add: elf_phoff_def elf_field_def wrapping_image_def)
qed code_simp+

text \<open>
  The check of the program headers' bounds wraps around: with the table said to start 56 bytes before
  the end of the address space the sum is zero, the check passes, and the scan copies a header from
  outside the mapped file.
\<close>

theorem elf_offset_wraps: "length wrapping_image = 64 \<and> check_elf wrapping_image = None"
proof -
  have "(- 56 :: u64) = 18446744073709551560" by simp
  then have "unat (- 56 :: u64) = 18446744073709551560" by (simp only:) simp
  then have "elf_phdr_type wrapping_image (- 56) = None" by (simp add: elf_phdr_type_def SIZEOF_PHDR_def wrapping_fields)
  then show ?thesis by (simp add: check_elf_def wrapping_fields SIZEOF_EHDR_def SIZEOF_PHDR_def)
qed

section \<open>Start of exec\<close>

lemma launched:
  assumes "cfg_load (xe_file E cfg_path) [] = (True, cfg)"
    and "load_strategy (xe_host E) (xe_builtins E) (xe_loader E) spec = Some (Inr lm, acts)"
    and "xe_header E = (\<lambda>k. header_after hash (phase k))" and "mono phase" and "3 \<le> phase n"
    and "int fd \<le> INT_MAX" and "xe_map E = Some a" and "length spec \<le> 288" and "length cfg_path \<le> 290"
  shows "exec_process M E code (spawn_argv (make_exec spec ''null'' cfg_path w) fd)
    = (if hash = ha_layout_hash (xe_host E) then exec_run M E cfg (md_name (lm_module lm)) (code lm) else Some (exec_failed E 2))"
proof -
  from spawned_args [of "''null''" spec cfg_path w fd] assms(8,9) obtain path where
    argv: "spawn_argv (make_exec spec ''null'' cfg_path w) fd
      = path # show_nat fd # [''--mode='' @ ''null'', ''--strategy='' @ spec, ''--config='' @ cfg_path]"
    unfolding fit_fd [OF assms(6)] by auto
  show ?thesis
    unfolding argv exec_process_def list.case parse_args_manager
    using attach_published [OF assms(4-6), of "ha_layout_hash (xe_host E)" hash a "xe_os E"]
    by (simp add: assms(1-3,7))
qed

text \<open>
  The supervisor starts exec with the strategy and configuration it means to: the argument vector it
  builds is parsed back by exec's \<open>main\<close>, the descriptor it prints is the one exec maps, and exec waits
  until the whole header is published and goes on to run the module it loaded exactly when its own
  layout hash is the supervisor's; otherwise it exits with code 2 without having touched the pipeline.
\<close>

theorem supervisor_launches_exec:
  assumes "length spec \<le> 288" and "length cfg_path \<le> 290" and "me_exec_mode env = ''null''" and "me_cfg_path env = cfg_path"
    and "cfg_load (xe_file E cfg_path) [] = (True, cfg)"
    and "load_strategy (xe_host E) (xe_builtins E) (xe_loader E) spec = Some (Inr lm, acts)"
    and "xe_header E = (\<lambda>k. header_after hash (phase k))" and "mono phase" and "3 \<le> phase n"
    and "int fd \<le> INT_MAX" and "xe_map E = Some a"
  shows "exec_process M E code (spawn_argv (make_exec spec (me_exec_mode env) (me_cfg_path env) w) fd)
    = (if hash = ha_layout_hash (xe_host E) then exec_run M E cfg (md_name (lm_module lm)) (code lm) else Some (exec_failed E 2))"
  unfolding assms(3,4) by (rule launched [OF assms(5-11,1,2)])

text \<open>A configuration without entries, the builtin above; once with the same layout, once with another.\<close>

definition dummy_code :: "machine \<Rightarrow> dummy_quoter module_code" where
  "dummy_code M = \<lparr>mo_create = (\<lambda>_. Some dummy_new), mo_on_start = None, mo_hooks = dummy_hooks M, mo_on_stop = None\<rparr>"

definition imbalance_code :: "machine \<Rightarrow> imbalance_taker module_code" where
  "imbalance_code M = \<lparr>mo_create = (\<lambda>_. Some imbalance_new), mo_on_start = None, mo_hooks = imbalance_hooks M, mo_on_stop = None\<rparr>"

definition logging_code :: "logging_strategy module_code" where
  "logging_code = \<lparr>mo_create = (\<lambda>_. Some logging_new), mo_on_start = None, mo_hooks = logging_hooks, mo_on_stop = None\<rparr>"

text \<open>The three strategies of the repository keep the contract.\<close>

lemma shipped_code_ok: "code_ok 2 (dummy_code M)" "code_ok 1 (imbalance_code M)" "code_ok 0 logging_code"
  by (simp_all add: code_ok_def dummy_code_def imbalance_code_def logging_code_def
      dummy.strategy_axioms imbalance.strategy_axioms [simplified] logging.strategy_axioms)

definition sample_exec_env :: "u32 \<Rightarrow> exec_env" where
  "sample_exec_env hash = \<lparr>xe_default_strategy = None, xe_file = (\<lambda>_. Some []), xe_host = sample_host_abi,
     xe_builtins = [sample_module], xe_loader = sample_loader, xe_header = (\<lambda>k. header_after hash k), xe_map = Some 64,
     xe_os = \<lparr>os_fds = {0, 1, 2, 3}, os_maps = {}, os_bad = False\<rparr>, xe_tsc_per_ns = 3,
     xe_instruments = Some \<lparr>it_count = 1, it_rows = (\<lambda>_. itch_row TQQQ)\<rparr>, xe_prev_generation = 8,
     xe_slots = (\<lambda>_. sample_fill 0 0 0), xe_flags = SWAP, xe_log_opens = (\<lambda>_. True)\<rparr>"

definition sample_mg_env :: mg_env where
  "sample_mg_env = \<lparr>me_cfg = [], me_cfg_path = ''x.cfg'', me_exec_mode = ''null'', me_auto_restart = False\<rparr>"

definition sample_worker :: worker where "sample_worker = \<lparr>wk_pid = - 1, wk_path = [], wk_args = []\<rparr>"

definition sample_argv :: "string list" where
  "sample_argv = spawn_argv (make_exec ''builtin:dummy'' (me_exec_mode sample_mg_env) (me_cfg_path sample_mg_env) sample_worker) 3"

lemma sample_cfg: "cfg_load (Some []) [] = (True, [])"
  by (simp add: cfg_load_def load_from.simps fgets_def)

lemma supervisor_launches_exec_witness:
  "exec_process sample_machine (sample_exec_env 7) (\<lambda>_. dummy_code sample_machine) sample_argv
      = exec_run sample_machine (sample_exec_env 7) [] ''dummy'' (dummy_code sample_machine)
   \<and> exec_process sample_machine (sample_exec_env 9) (\<lambda>_. dummy_code sample_machine) sample_argv
      = Some (exec_failed (sample_exec_env 9) 2)"
proof -
  have p: "mono (\<lambda>k :: nat. k)" by (simp add: mono_def)
  have l: "exec_process sample_machine (sample_exec_env hash) (\<lambda>_. dummy_code sample_machine) sample_argv
      = (if hash = 7 then exec_run sample_machine (sample_exec_env hash) [] ''dummy'' (dummy_code sample_machine)
         else Some (exec_failed (sample_exec_env hash) 2))" for hash
    using supervisor_launches_exec [of "''builtin:dummy''" "''x.cfg''" sample_mg_env "sample_exec_env hash" "[]"
        "\<lparr>lm_module = sample_module, lm_handle = False, lm_memfd = - 1\<rparr>" "[]" hash "\<lambda>k. k" 3 3 64 sample_machine
        "\<lambda>_. dummy_code sample_machine" sample_worker] p sample_cfg sample_load
    by (simp add: sample_argv_def sample_exec_env_def sample_mg_env_def INT_MAX_def sample_host_abi_def sample_module_def module_table_def)
  show ?thesis using l [of 7] l [of 9] by simp
qed

text \<open>The configuration the arguments name.\<close>

definition argv_config :: "exec_env \<Rightarrow> string list \<Rightarrow> config" where
  "argv_config E argv = (case parse_args (drop 2 argv) (args_new (xe_default_strategy E)) of
     None \<Rightarrow> []
   | Some a \<Rightarrow> (case ea_config a of None \<Rightarrow> [] | Some f \<Rightarrow> snd (cfg_load (xe_file E f) [])))"

text \<open>
  C40.  The whole process, with any strategy that keeps the contract of its hooks, as the three of the
  repository do: whatever the command line, configuration, instrument table, time-stamp readings and
  frames, \<open>main\<close> exits with one of its three codes, as long as the supervisor publishes its header, exec is
  told to stop or to swap some time, the feed runs dry and the final deadline passes some time after, and
  the orders it could make do not exhaust the 40-bit ids.  The one exception is the module file of the
  property before, a wrapping ELF header.  Code 75, the request for a new exec, is given with the SWAP bit
  acknowledged; and on the \<open>NullRouter\<close> the run has traded nothing: every balance and position is what
  start-up made it from the configuration file the arguments name.
\<close>

theorem exec_process_exits:
  assumes "\<And>lm. code_ok k (code lm)" and "2 * k * d + k * m + 2 * k < 2 ^ 40"
    and "told_to_leave M (1 + d)" and "mc_pop M (d + m) = None" and "mc_late M j"
    and "sh_magic (xe_header E n) \<noteq> 0" and "\<And>img. le_image (xe_loader E) = Some img \<Longrightarrow> length img < 2 ^ 63"
  shows "case exec_process M E code argv of
      None \<Rightarrow> \<exists>img. le_image (xe_loader E) = Some img \<and> elf_wraps img
    | Some r \<Rightarrow> er_code r \<in> {0, 2, EXIT_SWAP} \<and> (er_code r = EXIT_SWAP \<longrightarrow> er_flags r AND SWAP = 0)
        \<and> (\<forall>h. er_host r = Some h \<longrightarrow> exec_inv (h_x h)
            \<and> calm (x_account (snd (exec_setup (mc_rnd M) (argv_config E argv) (xe_tsc_per_ns E) (xe_instruments E)
                (xe_prev_generation E) (exec_new no_instruments)))) (x_account (h_x h)))"
    (is "case _ of None \<Rightarrow> ?wraps | Some r \<Rightarrow> ?ok (argv_config E argv) r")
proof -
  have fail: "?ok cfg (exec_failed E c)" if "c \<in> {0, 2}" for c cfg using that by (auto simp: exec_failed_def EXIT_SWAP_def)
  have swapped: "(xe_flags E AND NOT SWAP) AND SWAP = 0" by (simp add: and.assoc)
  have run: "\<exists>r. exec_run M E cfg name (code lm) = Some r \<and> ?ok cfg r" for cfg name lm
  proof (cases rule: exec_run_returns [OF assms(1) [of lm] assms(2-5), where E = E and cfg = cfg and name = name])
    case (1 c)
    then show ?thesis using fail [of c cfg] by blast
  next
    case (2 swap h log)
    then show ?thesis using swapped by (auto simp: EXIT_SWAP_def)
  qed
  have attach: "attach_pipeline lh (xe_header E) (xe_map E) (Some fd) seg_new (xe_os E) \<noteq> None
      \<and> (\<forall>c g s. attach_pipeline lh (xe_header E) (xe_map E) (Some fd) seg_new (xe_os E) = Some (Some c, g, s) \<longrightarrow> c = 2)" for lh fd
    using wait_magic_returns [where hdr = "xe_header E", OF assms(6), of 0]
    by (auto simp: attach_pipeline_def split: option.split prod.split bool.split)
  show ?thesis
  proof (cases "\<exists>prog fd rest a spec. argv = prog # fd # rest \<and> parse_args rest (args_new (xe_default_strategy E)) = Some a
      \<and> ea_mode a = ''null'' \<and> ea_strategy a = Some spec")
    case False
    then have "exec_process M E code argv = Some (exec_failed E 2)"
      by (auto simp: exec_process_def split: list.split option.split)
    then show ?thesis using fail [of 2] by simp
  next
    case True
    then obtain prog fd rest a spec where t: "argv = prog # fd # rest" "parse_args rest (args_new (xe_default_strategy E)) = Some a"
      "ea_mode a = ''null''" "ea_strategy a = Some spec" by blast
    obtain ok cfg where c: "(case ea_config a of None \<Rightarrow> (True, []) | Some f \<Rightarrow> cfg_load (xe_file E f) []) = (ok, cfg)"
      by (cases "case ea_config a of None \<Rightarrow> (True, []) | Some f \<Rightarrow> cfg_load (xe_file E f) []")
    then have cfg: "argv_config E argv = cfg" using t by (auto simp: argv_config_def split: option.splits)
    show ?thesis
    proof (cases "load_strategy (xe_host E) (xe_builtins E) (xe_loader E) spec")
      case None
      then have ?wraps using load_strategy_None [OF assms(7)] by blast
      then show ?thesis using t c None fail [of 2] by (simp add: exec_process_def split: prod.split)
    next
      case (Some l)
      obtain w g s' where w: "attach_pipeline (ha_layout_hash (xe_host E)) (xe_header E) (xe_map E) (Some fd) seg_new (xe_os E)
        = Some (w, g, s')" using attach [of "ha_layout_hash (xe_host E)" fd] by (metis not_None_eq prod_cases3)
      have "exec_process M E code argv = Some (exec_failed E 2)
        \<or> (\<exists>lm. exec_process M E code argv = exec_run M E cfg (md_name (lm_module lm)) (code lm))"
      proof (cases "ok \<and> (\<exists>lm acts. l = (Inr lm, acts)) \<and> w = None")
        case True
        then show ?thesis using t c w Some by (auto simp: exec_process_def)
      next
        case False
        have "w \<noteq> None \<Longrightarrow> w = Some 2" using attach [of "ha_layout_hash (xe_host E)" fd] w by auto
        then have "exec_process M E code argv = Some (exec_failed E 2)"
          using False t c w Some by (cases "fst l"; cases l) (auto simp: exec_process_def)
        then show ?thesis ..
      qed
      then consider "exec_process M E code argv = Some (exec_failed E 2)"
        | lm where "exec_process M E code argv = exec_run M E cfg (md_name (lm_module lm)) (code lm)" by blast
      then show ?thesis
      proof cases
        case 1
        then show ?thesis using fail [of 2 cfg] unfolding cfg by simp
      next
        case (2 lm)
        from run [of cfg "md_name (lm_module lm)" lm] obtain r where
          r: "exec_run M E cfg (md_name (lm_module lm)) (code lm) = Some r" "?ok cfg r" by blast
        show ?thesis unfolding 2 r(1) option.case cfg by (rule r(2))
      qed
    qed
  qed
qed

lemma exec_process_exits_witness:
  "\<exists>r. exec_process sample_machine (sample_exec_env 7) (\<lambda>_. dummy_code sample_machine) sample_argv = Some r
    \<and> er_code r \<in> {0, 2, EXIT_SWAP}"
proof -
  have m: "told_to_leave sample_machine (1 + 1)" "mc_pop sample_machine (1 + 0) = None" "mc_late sample_machine 1"
    by (simp_all add: sample_machine_def told_to_leave_def)
  have h: "sh_magic (xe_header (sample_exec_env 7) 3) \<noteq> 0"
    using header_after_cases(2) [of 3 7] by (simp add: sample_exec_env_def MAGIC_def)
  have img: "length img < 2 ^ 63" if "le_image (xe_loader (sample_exec_env 7)) = Some img" for img
    using that sample_check by (simp add: sample_exec_env_def sample_loader_def)
  have "\<not> elf_wraps sample_image" by (simp add: elf_wraps_def sample_check)
  moreover have "le_image (xe_loader (sample_exec_env 7)) = Some sample_image" by (simp add: sample_exec_env_def sample_loader_def)
  moreover note exec_process_exits [where code = "\<lambda>_. dummy_code sample_machine", OF shipped_code_ok(1) _ m h img, of sample_argv]
  ultimately show ?thesis by (auto split: option.splits)
qed

end
