(* ===== verification/Panels_Facts.thy ===== *)
theory Panels_Facts
  imports Trading_Panels
begin

text \<open>
  What the panels plot: a series is the last 240 points pushed, a percentile is that of the samples
  recorded since the point before, and points are at least a quarter of a second apart.
\<close>

section \<open>A series\<close>

definition series_has :: "series \<Rightarrow> (real \<times> real option list) list \<Rightarrow> bool" where
  "series_has s xs \<longleftrightarrow> length (sr_v s) = 4 \<and> scroll_at SERIES_N (length xs) (sr_head s) (sr_size s)
     \<and> scroll_has SERIES_N (sr_t s) (map fst xs) \<and> (\<forall>k<4. scroll_has SERIES_N (sr_v s ! k) (map (\<lambda>x. snd x ! k) xs))"

lemma series_has_new: "series_has series_new []"
  by (simp add: series_has_def series_new_def scroll_at_def scroll_has_new SERIES_N_def)

lemma series_has_push:
  assumes "series_has s xs"
  shows "series_has (series_push tt a b c d s) (xs @ [(tt, [a, b, c, d])])"
proof -
  have s: "length (sr_v s) = 4" "scroll_at SERIES_N (length xs) (sr_head s) (sr_size s)"
    "scroll_has SERIES_N (sr_t s) (map fst xs)" "\<And>k. k < 4 \<Longrightarrow> scroll_has SERIES_N (sr_v s ! k) (map (\<lambda>x. snd x ! k) xs)"
    using assms by (simp_all add: series_has_def)
  have at: "scroll_at SERIES_N (length (map f xs)) (sr_head s) (sr_size s)" for f :: "_ \<Rightarrow> 'b" using s(2) by simp
  have "scroll_has SERIES_N ((sr_v s ! k)[sr_head s := [a, b, c, d] ! k]) (map (\<lambda>x. snd x ! k) xs @ [[a, b, c, d] ! k])"
    if "k < 4" for k using scroll_has_push [OF s(4) [OF that] at] .
  moreover have "sr_v (series_push tt a b c d s) ! k = (sr_v s ! k)[sr_head s := [a, b, c, d] ! k]" if "k < 4" for k
    using that s(1) by (simp add: series_push_def Let_def)
  ultimately show ?thesis
    using scroll_has_push [OF s(3) at, of tt] scroll_at_push [OF s(2)] s(1)
    by (simp add: series_has_def) (simp add: series_push_def Let_def)
qed

lemma last_n_map: "last_n n (map f xs) = map f (last_n n xs)"
  by (simp add: last_n_def drop_map)

lemma series_has_line:
  assumes "series_has s xs" "k < 4"
  shows "series_line s k = map (\<lambda>x. (fst x, snd x ! k)) (last_n SERIES_N xs)"
proof -
  have s: "scroll_at SERIES_N (length (map f xs)) (sr_head s) (sr_size s)" for f :: "_ \<Rightarrow> 'b"
    using assms(1) by (simp add: series_has_def)
  have t: "scroll_has SERIES_N (sr_t s) (map fst xs)" "scroll_has SERIES_N (sr_v s ! k) (map (\<lambda>x. snd x ! k) xs)"
    using assms by (simp_all add: series_has_def)
  show ?thesis
    unfolding series_line_def series_offset_def scroll_read_last [OF t(1) s] scroll_read_last [OF t(2) s] last_n_map
    by (simp add: zip_map_map flip: map_map) (simp add: zip_same_conv_map comp_def)
qed

lemma scroll_last_map:
  assumes "scroll_has n arr (map f xs)" "scroll_at n (length xs) h sz" "xs \<noteq> []"
  shows "arr ! ((h + n - 1) mod n) = f (last xs)"
  using scroll_last [OF assms(1), of h sz] assms(2,3) by (simp add: last_map)

lemma series_has_last:
  assumes "series_has s xs" "xs \<noteq> []"
  shows "sr_size s \<noteq> 0" and "k < 4 \<Longrightarrow> sr_v s ! k ! ((sr_head s + SERIES_N - 1) mod SERIES_N) = snd (last xs) ! k"
    and "sr_t s ! ((sr_head s + SERIES_N - 1) mod SERIES_N) = fst (last xs)"
proof -
  have s: "scroll_at SERIES_N (length xs) (sr_head s) (sr_size s)" "scroll_has SERIES_N (sr_t s) (map fst xs)"
    using assms(1) by (simp_all add: series_has_def)
  show "sr_size s \<noteq> 0" using s(1) assms(2) by (simp add: scroll_at_def SERIES_N_def)
  show "sr_v s ! k ! ((sr_head s + SERIES_N - 1) mod SERIES_N) = snd (last xs) ! k" if "k < 4"
  proof -
    have "scroll_has SERIES_N (sr_v s ! k) (map (\<lambda>x. snd x ! k) xs)" using assms(1) that by (simp add: series_has_def)
    then show ?thesis by (rule scroll_last_map [OF _ s(1) assms(2)])
  qed
  show "sr_t s ! ((sr_head s + SERIES_N - 1) mod SERIES_N) = fst (last xs)" by (rule scroll_last_map [OF s(2,1) assms(2)])
qed

section \<open>A percentile between two loads\<close>

lemma hist_delta_fields:
  assumes "length ys < 2 ^ 64"
  shows "hg_count (hist_delta (hist_of (xs @ ys)) (hist_of xs)) = hg_count (hist_of ys)"
    and "b < 64 \<Longrightarrow> hg_buckets (hist_delta (hist_of (xs @ ys)) (hist_of xs)) b = hg_buckets (hist_of ys) b"
  by (simp_all add: hist_delta_def hist_of_fields)

lemma percentile_from_cong:
  assumes "\<And>b. b < 64 \<Longrightarrow> hg_buckets h b = hg_buckets g b" "length xs < 2 ^ 64" "g = hist_of xs"
  shows "unat th < length xs \<Longrightarrow> b \<le> 64 \<Longrightarrow> samples_below b xs \<le> unat th \<Longrightarrow>
    percentile_from h th b (word_of_nat (samples_below b xs)) = percentile_from g th b (word_of_nat (samples_below b xs))"
proof (induction "64 - b" arbitrary: b)
  case 0
  then have "b = 64" by simp
  with 0 show ?case by (simp add: samples_below_64)
next
  case (Suc m)
  then have b: "b < 64" by simp
  have e: "hg_buckets h b = hg_buckets g b" using assms(1) b by simp
  have cum: "word_of_nat (samples_below b xs) + hg_buckets g b = (word_of_nat (samples_below (Suc b) xs) :: u64)"
    by (simp add: assms(3) hist_of_fields samples_below_Suc)
  have un: "unat (word_of_nat (samples_below (Suc b) xs) :: u64) = samples_below (Suc b) xs"
    using samples_below_le [of "Suc b" xs] assms(2) by (intro unat_of_nat_u64) simp
  show ?case
  proof (cases "word_of_nat (samples_below (Suc b) xs) > th")
    case True
    then show ?thesis using b e cum by (simp add: percentile_from.simps [of _ _ b])
  next
    case False
    then have "samples_below (Suc b) xs \<le> unat th" by (simp add: word_less_nat_alt un)
    then have "percentile_from h th (Suc b) (word_of_nat (samples_below (Suc b) xs))
        = percentile_from g th (Suc b) (word_of_nat (samples_below (Suc b) xs))"
      using Suc.hyps(2) Suc.prems b by (intro Suc.hyps(1)) simp_all
    then show ?thesis using b e cum False by (simp add: percentile_from.simps [of _ _ b])
  qed
qed

text \<open>\<open>p\<close> below one, and rounding keeps the product below the count.\<close>

definition below_one :: "(real \<Rightarrow> real) \<Rightarrow> real \<Rightarrow> bool" where
  "below_one rnd p \<longleftrightarrow> (\<forall>n. 0 < n \<longrightarrow> 0 \<le> rnd (p * dbl rnd n) \<and> rnd (p * dbl rnd n) < of_int n)"

definition interval_pct :: "(real \<Rightarrow> real) \<Rightarrow> u64 list \<Rightarrow> real \<Rightarrow> real \<Rightarrow> real option" where
  "interval_pct rnd ys p tsc_per_ns = (if ys = [] then None
     else Some (rnd (dbl rnd (uint (percentile_cycles rnd p (hist_of ys))) / tsc_per_ns)))"

lemma delta_pct_between:
  assumes len: "length ys < 2 ^ 64" and p: "below_one rnd p"
  shows "delta_pct rnd (hist_of (xs @ ys)) (hist_of xs) p k = interval_pct rnd ys p k"
proof (cases "ys = []")
  case False
  let ?d = "hist_delta (hist_of (xs @ ys)) (hist_of xs)" and ?g = "hist_of ys"
  have c: "hg_count ?g = word_of_nat (length ys)" by (simp add: hist_of_fields)
  have n: "uint (hg_count ?g) = int (length ys)" unfolding c using len by (simp add: uint_nat unat_of_nat_u64 of_nat_take_bit take_bit_nat_eq_self)
  let ?x = "rnd (p * dbl rnd (uint (hg_count ?g)))"
  have "0 < int (length ys)" using False by simp
  then have x: "0 \<le> ?x" "?x < of_int (int (length ys))" using p unfolding below_one_def n by blast+
  have t: "0 \<le> trunc ?x" "trunc ?x < int (length ys)" using x by (simp_all add: trunc_def floor_less_iff)
  then have th: "unat (word_of_int (trunc ?x) :: u64) < length ys"
    using len by (simp add: unat_eq_nat_uint take_bit_int_eq_self uint_word_of_int nat_less_iff)
  have nz: "hg_count ?g \<noteq> 0" using n False by auto
  have "percentile_from ?d (word_of_int (trunc ?x)) 0 0 = percentile_from ?g (word_of_int (trunc ?x)) 0 0"
    using percentile_from_cong [OF hist_delta_fields(2) [OF len, where xs = xs] len refl th, of 0]
    by (simp add: samples_below_def)
  then show ?thesis
    using False nz by (simp add: delta_pct_def interval_pct_def Let_def percentile_cycles_def hist_delta_fields(1) [OF len])
qed (simp add: delta_pct_def interval_pct_def Let_def hist_delta_def)

section \<open>Updates\<close>

definition due :: "(real \<Rightarrow> real) \<Rightarrow> real \<Rightarrow> panels \<Rightarrow> bool" where
  "due rnd t_now s \<longleftrightarrow> SAMPLE_S \<le> rnd (t_now - tp_last_sample s)"

lemma panels_load_kept [simp]:
  "tp_last_sample (panels_load L s) = tp_last_sample s" "tp_exec_prev (panels_load L s) = tp_exec_prev s"
  "tp_tsc_per_ns (panels_load L s) = tp_tsc_per_ns s" "tp_t2o (panels_load L s) = tp_t2o s"
  "tp_transit (panels_load L s) = tp_transit s" "tp_tick (panels_load L s) = tp_tick s"
  "tp_rings (panels_load L s) = tp_rings s" "tp_equity (panels_load L s) = tp_equity s"
  "tp_swap_buf (panels_load L s) = tp_swap_buf s"
  by (simp_all add: panels_load_def Let_def split: option.split)

lemma panels_load_new [simp]:
  "tp_exec (panels_load L s) = (case pl_exec L of None \<Rightarrow> tp_exec s | Some e \<Rightarrow> e)"
  "tp_pos (panels_load L s) = (case pl_pos L of None \<Rightarrow> tp_pos s | Some p \<Rightarrow> p)"
  by (simp_all add: panels_load_def Let_def split: option.split)

lemma panels_update_not_due: "\<not> due rnd t_now s \<Longrightarrow> panels_update rnd flt L t_now s = panels_load L s"
  by (simp add: panels_update_def due_def Let_def)

text \<open>The base of a sample's differences: the sample before, or the load itself after a restart of exec.\<close>

definition sample_base :: "panel_loads \<Rightarrow> panels \<Rightarrow> exec_view" where
  "sample_base L s = (let e = tp_exec (panels_load L s)
     in if es_exec_generation e \<noteq> es_exec_generation (tp_exec_prev s) then e else tp_exec_prev s)"

definition equity_now :: "panel_loads \<Rightarrow> panels \<Rightarrow> int" where
  "equity_now L s = (\<Sum>r\<leftarrow>tp_pos (panels_load L s). pr_realized_pnl r + pr_unrealized_pnl r - pr_fees r)"

lemma sum_rows_equity: "sum_rows pr_realized_pnl s + sum_rows pr_unrealized_pnl s - sum_rows pr_fees s
    = (\<Sum>r\<leftarrow>tp_pos s. pr_realized_pnl r + pr_unrealized_pnl r - pr_fees r)"
  unfolding sum_rows_def by (induction "tp_pos s") (simp_all add: sum_list_subtractf sum_list_addf)

lemma panels_update_due:
  fixes rnd flt :: "real \<Rightarrow> real" and L :: panel_loads
  assumes "due rnd t_now s"
  defines "s' \<equiv> panels_update rnd flt L t_now s" and "e \<equiv> tp_exec (panels_load L s)" and "p \<equiv> sample_base L s"
    and "k \<equiv> tp_tsc_per_ns s"
  shows "tp_t2o s' = push_percentiles rnd flt (flt t_now) k (es_tick_to_order e) (es_tick_to_order p) True (tp_t2o s)"
    and "tp_transit s' = push_percentiles rnd flt (flt t_now) k (es_feed_transit e) (es_feed_transit p) False (tp_transit s)"
    and "tp_tick s' = push_percentiles rnd flt (flt t_now) k (es_tick e) (es_tick p) False (tp_tick s)"
    and "tp_equity s' = series_push (flt t_now) (Some (flt (money rnd (equity_now L s))))
      (Some (flt (money rnd (sum_rows pr_realized_pnl (panels_load L s))))) None None (tp_equity s)"
    and "tp_exec_prev s' = e" and "tp_exec s' = e" and "tp_last_sample s' = t_now" and "tp_tsc_per_ns s' = k"
proof -
  have d: "\<not> rnd (t_now - tp_last_sample (panels_load L s)) < SAMPLE_S" using assms(1) by (simp add: due_def)
  note eqs = s'_def e_def p_def k_def panels_update_def sample_base_def panels_sample_def Let_def
  show "tp_t2o s' = push_percentiles rnd flt (flt t_now) k (es_tick_to_order e) (es_tick_to_order p) True (tp_t2o s)"
    using d unfolding eqs by simp
  show "tp_transit s' = push_percentiles rnd flt (flt t_now) k (es_feed_transit e) (es_feed_transit p) False (tp_transit s)"
    using d unfolding eqs by simp
  show "tp_tick s' = push_percentiles rnd flt (flt t_now) k (es_tick e) (es_tick p) False (tp_tick s)"
    using d unfolding eqs by simp
  show "tp_exec_prev s' = e" "tp_exec s' = e" "tp_last_sample s' = t_now" "tp_tsc_per_ns s' = k"
    using d unfolding eqs by simp_all
  have sr: "sum_rows f (s\<lparr>tp_pos := tp_pos s\<rparr>) = sum_rows f s" for f and s :: panels by simp
  show "tp_equity s' = series_push (flt t_now) (Some (flt (money rnd (equity_now L s))))
      (Some (flt (money rnd (sum_rows pr_realized_pnl (panels_load L s))))) None None (tp_equity s)"
    using d sum_rows_equity [of "panels_load L s"] unfolding eqs equity_now_def by (simp add: sum_rows_def)
qed

end
