(* ===== verification/Ui_Facts.thy ===== *)
theory Ui_Facts
  imports Dashboard_Ui Panels_Facts
begin

text \<open>
  The dashboard's loop: the plots show the last 5000 frames drawn, oldest first, each the newest frame
  that had arrived when it was drawn; the averaged imbalance is the recurrence over all of them; the
  book table is never half a second old.
\<close>

section \<open>The smoothed imbalance\<close>

primrec emas_from :: "(real \<Rightarrow> real) \<Rightarrow> real \<Rightarrow> real list \<Rightarrow> real list" where
  "emas_from flt e [] = []"
| "emas_from flt e (x # xs) = (let e' = next_ema flt e x in e' # emas_from flt e' xs)"

definition emas :: "(real \<Rightarrow> real) \<Rightarrow> real list \<Rightarrow> real list" where
  "emas flt xs = (case xs of [] \<Rightarrow> [] | x # xs \<Rightarrow> flt x # emas_from flt (flt x) xs)"

lemma emas_from_snoc: "emas_from flt e (xs @ [x]) = emas_from flt e xs @ [next_ema flt (last (e # emas_from flt e xs)) x]"
  by (induction xs arbitrary: e) (simp_all add: Let_def)

lemma emas_snoc: "emas flt (xs @ [x]) = emas flt xs @ [if xs = [] then flt x else next_ema flt (last (emas flt xs)) x]"
  by (cases xs) (simp_all add: emas_def emas_from_snoc)

lemma emas_length [simp]: "length (emas flt xs) = length xs"
proof -
  have "length (emas_from flt e ys) = length ys" for e ys by (induction ys arbitrary: e) (simp_all add: Let_def)
  then show ?thesis by (simp add: emas_def split: list.split)
qed

section \<open>The ring\<close>

definition plot_holds :: "(real \<Rightarrow> real) \<Rightarrow> (real \<Rightarrow> real) \<Rightarrow> plot_ring \<Rightarrow> (real \<times> dash_snapshot) list \<Rightarrow> bool" where
  "plot_holds rnd flt r xs \<longleftrightarrow>
     scroll_at PLOT_N (length xs) (pg_ins r) (pg_sz r) \<and> scroll_has PLOT_N (pg_t r) (map fst xs)
     \<and> scroll_has PLOT_N (pg_bid r) (map (\<lambda>(t, f). plot_price rnd flt (ds_best_bid f) f) xs)
     \<and> scroll_has PLOT_N (pg_ask r) (map (\<lambda>(t, f). plot_price rnd flt (ds_best_ask f) f) xs)
     \<and> scroll_has PLOT_N (pg_vwmid r) (map (\<lambda>(t, f). flt (ds_vwmid f)) xs)
     \<and> scroll_has PLOT_N (pg_micro_trend r) (map (\<lambda>(t, f). flt (rnd (ds_ema f - ds_vwmid f))) xs)
     \<and> scroll_has PLOT_N (pg_imbalance r) (map (\<lambda>(t, f). flt (ds_imbalance f)) xs)
     \<and> scroll_has PLOT_N (pg_tick_rate r) (map (\<lambda>(t, f). flt (ds_tick_rate f)) xs)
     \<and> scroll_has PLOT_N (pg_lat_p99 r) (map (\<lambda>(t, f). flt (ds_latency_p99_ns f)) xs)
     \<and> scroll_has PLOT_N (pg_lat_p999 r) (map (\<lambda>(t, f). flt (ds_latency_p999_ns f)) xs)
     \<and> scroll_has PLOT_N (pg_ring_occ r) (map (\<lambda>(t, f). flt (rnd (ds_ring_occupancy f * 100))) xs)
     \<and> scroll_has PLOT_N (pg_imbalance_ema r) (emas flt (map (\<lambda>(t, f). ds_imbalance f) xs))"

lemma plot_holds_new: "plot_holds rnd flt plot_ring_new []"
  by (simp add: plot_holds_def plot_ring_new_def Let_def scroll_at_def scroll_has_new PLOT_N_def emas_def)

lemma plot_holds_push:
  assumes "plot_holds rnd flt r xs"
  shows "plot_holds rnd flt (plot_push rnd flt t f r) (xs @ [(t, f)])"
proof -
  have at: "scroll_at PLOT_N (length xs) (pg_ins r) (pg_sz r)" using assms by (simp add: plot_holds_def)
  have push: "scroll_has PLOT_N arr ys \<Longrightarrow> length ys = length xs \<Longrightarrow> scroll_has PLOT_N (arr[pg_ins r := y]) (ys @ [y])"
    for arr :: "'c list" and ys y by (rule scroll_has_push [where sz = "pg_sz r"]) (simp_all add: at)
  let ?is = "map (\<lambda>(t, f). ds_imbalance f) xs"
  have ema: "scroll_has PLOT_N (pg_imbalance_ema r) (emas flt ?is)" using assms by (simp add: plot_holds_def)
  have sz: "pg_sz r > 0 \<longleftrightarrow> xs \<noteq> []" using at by (auto simp: scroll_at_def)
  have e: "pg_imbalance_ema (plot_push rnd flt t f r) = (pg_imbalance_ema r)[pg_ins r :=
      if ?is = [] then flt (ds_imbalance f) else next_ema flt (last (emas flt ?is)) (ds_imbalance f)]"
  proof (cases "xs = []")
    case False
    then have "emas flt ?is \<noteq> []" by (metis emas_length length_0_conv length_map)
    from scroll_last [OF ema _ this, of "pg_ins r" "pg_sz r"] show ?thesis
      using at sz False by (simp add: plot_push_def Let_def)
  qed (use sz in \<open>simp add: plot_push_def Let_def\<close>)
  have m: "scroll_has PLOT_N (arr[pg_ins r := g (t, f)]) (map g (xs @ [(t, f)]))"
    if "scroll_has PLOT_N arr (map g xs)" for arr :: "'c list" and g using push [OF that] by simp
  have old: "scroll_has PLOT_N (pg_t r) (map fst xs)"
     "scroll_has PLOT_N (pg_bid r) (map (\<lambda>(t, f). plot_price rnd flt (ds_best_bid f) f) xs)"
     "scroll_has PLOT_N (pg_ask r) (map (\<lambda>(t, f). plot_price rnd flt (ds_best_ask f) f) xs)"
     "scroll_has PLOT_N (pg_vwmid r) (map (\<lambda>(t, f). flt (ds_vwmid f)) xs)"
     "scroll_has PLOT_N (pg_micro_trend r) (map (\<lambda>(t, f). flt (rnd (ds_ema f - ds_vwmid f))) xs)"
     "scroll_has PLOT_N (pg_imbalance r) (map (\<lambda>(t, f). flt (ds_imbalance f)) xs)"
     "scroll_has PLOT_N (pg_tick_rate r) (map (\<lambda>(t, f). flt (ds_tick_rate f)) xs)"
     "scroll_has PLOT_N (pg_lat_p99 r) (map (\<lambda>(t, f). flt (ds_latency_p99_ns f)) xs)"
     "scroll_has PLOT_N (pg_lat_p999 r) (map (\<lambda>(t, f). flt (ds_latency_p999_ns f)) xs)"
     "scroll_has PLOT_N (pg_ring_occ r) (map (\<lambda>(t, f). flt (rnd (ds_ring_occupancy f * 100))) xs)"
    using assms by (simp_all add: plot_holds_def)
  have "scroll_has PLOT_N (pg_imbalance_ema (plot_push rnd flt t f r)) (emas flt (map (\<lambda>(t, f). ds_imbalance f) (xs @ [(t, f)])))"
    unfolding e by (simp add: emas_snoc push [OF ema])
  then show ?thesis
    using old [THEN m] scroll_at_push [OF at]
    unfolding plot_holds_def by (simp add: plot_push_def Let_def)
qed

lemma ring_line_last:
  assumes "plot_holds rnd flt r xs" "scroll_has PLOT_N ys zs" "length zs = length xs"
  shows "ring_line r ys = zip (last_n PLOT_N (map fst xs)) (last_n PLOT_N zs)" and "pg_sz r = min PLOT_N (length xs)"
proof -
  have at: "scroll_at PLOT_N (length xs) (pg_ins r) (pg_sz r)" and t: "scroll_has PLOT_N (pg_t r) (map fst xs)"
    using assms(1) by (simp_all add: plot_holds_def)
  have "scroll_read PLOT_N (plot_oldest r) (pg_sz r) (pg_t r) = last_n PLOT_N (map fst xs)"
    unfolding plot_oldest_def by (rule scroll_read_last [OF t]) (simp add: at)
  moreover have "scroll_read PLOT_N (plot_oldest r) (pg_sz r) ys = last_n PLOT_N zs"
    unfolding plot_oldest_def by (rule scroll_read_last [OF assms(2)]) (simp add: at assms(3))
  ultimately show "ring_line r ys = zip (last_n PLOT_N (map fst xs)) (last_n PLOT_N zs)" by (simp add: ring_line_def)
  show "pg_sz r = min PLOT_N (length xs)" using at by (simp add: scroll_at_def)
qed

section \<open>The loop\<close>

text \<open>What each turn draws: the time, and the newest frame that has arrived, if there is one.\<close>

fun drawn :: "(real \<Rightarrow> real) \<Rightarrow> dash_snapshot option \<Rightarrow> ui_in list \<Rightarrow> (real \<times> dash_snapshot) list" where
  "drawn flt newest [] = []"
| "drawn flt newest (i # is) =
     (let newest = (if in_frames i = [] then newest else Some (last (in_frames i)))
      in (case newest of None \<Rightarrow> [] | Some f \<Rightarrow> [(flt (in_t i), f)]) @ drawn flt newest is)"

definition ui_run :: "(real \<Rightarrow> real) \<Rightarrow> (real \<Rightarrow> real) \<Rightarrow> ui_in list \<Rightarrow> ui \<Rightarrow> ui" where
  "ui_run rnd flt is u = fold (ui_turn rnd flt) is u"

definition newest_frame :: "ui \<Rightarrow> dash_snapshot option" where
  "newest_frame u = (if ui_have_data u then Some (ui_latest u) else None)"

lemma ui_drain_newest:
  "newest_frame (ui_drain fs u) = (if fs = [] then newest_frame u else Some (last fs))"
  "ui_ring (ui_drain fs u) = ui_ring u" "ui_book (ui_drain fs u) = ui_book u"
  "ui_last_book_update (ui_drain fs u) = ui_last_book_update u" "ui_panels (ui_drain fs u) = ui_panels u"
proof -
  have "fs \<noteq> [] \<Longrightarrow> newest_frame (ui_drain fs u) = Some (last fs)" for fs
  proof (induction fs arbitrary: u)
    case (Cons f fs)
    then show ?case by (cases fs) (simp_all add: ui_drain_def newest_frame_def)
  qed simp
  then show "newest_frame (ui_drain fs u) = (if fs = [] then newest_frame u else Some (last fs))" by (simp add: ui_drain_def)
  show "ui_ring (ui_drain fs u) = ui_ring u" "ui_book (ui_drain fs u) = ui_book u"
    "ui_last_book_update (ui_drain fs u) = ui_last_book_update u" "ui_panels (ui_drain fs u) = ui_panels u"
    unfolding ui_drain_def by (induction fs arbitrary: u) simp_all
qed

lemma ui_turn_effect:
  fixes rnd flt :: "real \<Rightarrow> real"
  defines "u' i u \<equiv> ui_turn rnd flt i u"
  shows "newest_frame (u' i u) = (if in_frames i = [] then newest_frame u else Some (last (in_frames i)))"
    and "ui_ring (u' i u) = (case newest_frame (u' i u) of None \<Rightarrow> ui_ring u
      | Some f \<Rightarrow> plot_push rnd flt (flt (in_t i)) f (ui_ring u))"
    and "newest_frame (u' i u) \<noteq> None \<Longrightarrow> if rnd (in_t i - ui_last_book_update u) \<ge> BOOK_UPDATE_INTERVAL
      then newest_frame (u' i u) = Some (ui_book (u' i u)) \<and> ui_last_book_update (u' i u) = in_t i
      else ui_book (u' i u) = ui_book u \<and> ui_last_book_update (u' i u) = ui_last_book_update u"
    and "ui_panels (u' i u) = panels_update rnd flt (in_loads i) (in_t i) (ui_panels u)"
proof -
  define v where "v = ui_drain (in_frames i) (u\<lparr>ui_next_frame := ui_pace (ui_next_frame u) (in_woke i) (in_again i)\<rparr>)"
  have n: "newest_frame (w\<lparr>ui_next_frame := k\<rparr>) = newest_frame w" for w k by (simp add: newest_frame_def)
  have v: "newest_frame v = (if in_frames i = [] then newest_frame u else Some (last (in_frames i)))"
    "ui_ring v = ui_ring u" "ui_book v = ui_book u" "ui_last_book_update v = ui_last_book_update u" "ui_panels v = ui_panels u"
    by (simp_all add: v_def ui_drain_newest n)
  have u': "u' i u = (let w = v\<lparr>ui_panels := panels_update rnd flt (in_loads i) (in_t i) (ui_panels v)\<rparr>
    in if ui_have_data w then
         let w = w\<lparr>ui_ring := plot_push rnd flt (flt (in_t i)) (ui_latest w) (ui_ring w)\<rparr>
         in if rnd (in_t i - ui_last_book_update w) \<ge> BOOK_UPDATE_INTERVAL
            then w\<lparr>ui_book := ui_latest w, ui_last_book_update := in_t i\<rparr> else w
       else w)"
    by (simp only: u'_def ui_turn_def v_def Let_def)
  have nv: "newest_frame (u' i u) = newest_frame v" by (simp add: u' Let_def newest_frame_def)
  then show "newest_frame (u' i u) = (if in_frames i = [] then newest_frame u else Some (last (in_frames i)))" using v(1) by simp
  show "ui_ring (u' i u) = (case newest_frame (u' i u) of None \<Rightarrow> ui_ring u
      | Some f \<Rightarrow> plot_push rnd flt (flt (in_t i)) f (ui_ring u))"
    unfolding nv by (simp add: u' Let_def newest_frame_def v(2))
  show "ui_panels (u' i u) = panels_update rnd flt (in_loads i) (in_t i) (ui_panels u)" by (simp add: u' Let_def v(5))
  assume "newest_frame (u' i u) \<noteq> None"
  then have "ui_have_data v" unfolding nv by (simp add: newest_frame_def split: if_splits)
  then show "if rnd (in_t i - ui_last_book_update u) \<ge> BOOK_UPDATE_INTERVAL
      then newest_frame (u' i u) = Some (ui_book (u' i u)) \<and> ui_last_book_update (u' i u) = in_t i
      else ui_book (u' i u) = ui_book u \<and> ui_last_book_update (u' i u) = ui_last_book_update u"
    unfolding nv using v(3,4) by (simp add: u' Let_def newest_frame_def)
qed

lemma ui_run_ring:
  "plot_holds rnd flt (ui_ring u) xs \<Longrightarrow> plot_holds rnd flt (ui_ring (ui_run rnd flt is u)) (xs @ drawn flt (newest_frame u) is)"
proof (induction "is" arbitrary: u xs)
  case Nil then show ?case by (simp add: ui_run_def)
next
  case (Cons i "is")
  let ?u = "ui_turn rnd flt i u"
  note e = ui_turn_effect(1,2) [of rnd flt i u]
  define ys where "ys = (case newest_frame ?u of None \<Rightarrow> [] | Some f \<Rightarrow> [(flt (in_t i), f)])"
  have "plot_holds rnd flt (ui_ring ?u) (xs @ ys)"
    unfolding e(2) ys_def using Cons.prems plot_holds_push by (auto split: option.split)
  from Cons.IH [OF this] show ?case
    unfolding ys_def e(1) by (simp add: ui_run_def Let_def)
qed


lemma ui_run_newest:
  "newest_frame (ui_run rnd flt is u) = (if drawn flt (newest_frame u) is = [] then newest_frame u
     else Some (snd (last (drawn flt (newest_frame u) is))))"
proof (induction "is" arbitrary: u)
  case Nil then show ?case by (simp add: ui_run_def)
next
  case (Cons i "is")
  note e = ui_turn_effect(1) [of rnd flt i u, symmetric]
  have "newest_frame (ui_turn rnd flt i u) = None \<Longrightarrow> newest_frame u = None" by (simp add: e [symmetric] split: if_splits)
  then show ?case using Cons.IH [of "ui_turn rnd flt i u"] by (auto simp: ui_run_def Let_def e split: option.splits)
qed

section \<open>What the plots show\<close>

text \<open>
  The lines of the six plots at time \<open>t\<close>, as the frames \<open>xs\<close> drawn so far give them: the last 5000,
  oldest first, and nothing while there is at most one.
\<close>

definition frames_line :: "(dash_snapshot \<Rightarrow> real option) \<Rightarrow> (real \<times> dash_snapshot) list \<Rightarrow> (real \<times> real option) list" where
  "frames_line v xs = map (\<lambda>(t, f). (t, v f)) (last_n PLOT_N xs)"

definition ema_line :: "(real \<Rightarrow> real) \<Rightarrow> (real \<times> dash_snapshot) list \<Rightarrow> (real \<times> real option) list" where
  "ema_line flt xs = last_n PLOT_N (zip (map fst xs) (map Some (emas flt (map (\<lambda>(t, f). ds_imbalance f) xs))))"

definition frames_lines :: "(real \<Rightarrow> real) \<Rightarrow> (real \<Rightarrow> real) \<Rightarrow> real \<Rightarrow> (real \<times> dash_snapshot) list
    \<Rightarrow> (string \<times> (real \<times> real option) list) list list" where
  "frames_lines rnd flt t xs =
     (let lines = (\<lambda>ls. if length xs > 1 then ls else []);
          line = (\<lambda>v. frames_line (\<lambda>f. Some (v f)) xs);
          level = (\<lambda>y. [(flt (t - HIST_S), Some y), (t, Some y)]);
          trend = (\<lambda>f. flt (rnd (ds_ema f - ds_vwmid f)));
          fill = line (\<lambda>f. flt (rnd (ds_ring_occupancy f * 100)))
      in [lines [(''Bid'', frames_line (\<lambda>f. plot_price rnd flt (ds_best_bid f) f) xs),
                 (''Ask'', frames_line (\<lambda>f. plot_price rnd flt (ds_best_ask f) f) xs),
                 (''Mid'', line (\<lambda>f. flt (ds_vwmid f)))],
          (''##zero'', level 0) # lines [(''##pos'', line (\<lambda>f. max 0 (trend f))), (''##neg'', line (\<lambda>f. min 0 (trend f))),
                 (''##line'', line trend)],
          lines [(''Raw'', line (\<lambda>f. flt (ds_imbalance f))), (''EMA'', ema_line flt xs)],
          lines [(''##tr'', line (\<lambda>f. flt (ds_tick_rate f)))],
          (''Latency Target'', level SLA_TARGET_NS) # lines [(''P99'', line (\<lambda>f. flt (ds_latency_p99_ns f))),
                 (''P999'', line (\<lambda>f. flt (ds_latency_p999_ns f)))],
          lines [(''##fill'', fill), (''##line'', fill)]])"

lemma zip_last_n:
  assumes "length ys = length xs"
  shows "zip (last_n n xs) (last_n n ys) = last_n n (zip xs ys)"
  using assms by (simp add: last_n_def drop_zip)

lemma ring_line_frames:
  fixes v :: "dash_snapshot \<Rightarrow> real option"
  assumes "plot_holds rnd flt r xs" "scroll_has PLOT_N ys (map (\<lambda>(t, f). v f) xs)"
  shows "ring_line r ys = frames_line v xs"
proof -
  have "zip (map fst zs) (map (\<lambda>(t, f). v f) zs) = map (\<lambda>(t, f). (t, v f)) zs" for zs :: "(real \<times> dash_snapshot) list"
    by (induction zs) auto
  then show ?thesis
    using ring_line_last(1) [OF assms(1,2)] by (simp add: frames_line_def zip_last_n last_n_map)
qed

lemma ring_line_numbers:
  fixes v :: "dash_snapshot \<Rightarrow> real"
  assumes "plot_holds rnd flt r xs" "scroll_has PLOT_N ys (map (\<lambda>(t, f). v f) xs)"
  shows "ring_line r (numbers ys) = frames_line (\<lambda>f. Some (v f)) xs"
    and "ring_line r (numbers (map g ys)) = frames_line (\<lambda>f. Some (g (v f))) xs"
proof -
  have m: "g' \<circ> (\<lambda>(t :: real, f). v f) = (\<lambda>(t, f). g' (v f))" for g' :: "real \<Rightarrow> 'z" by auto
  show "ring_line r (numbers ys) = frames_line (\<lambda>f. Some (v f)) xs"
    unfolding numbers_def by (rule ring_line_frames [OF assms(1)]) (use scroll_has_map [OF assms(2), of Some] in \<open>simp add: m\<close>)
  show "ring_line r (numbers (map g ys)) = frames_line (\<lambda>f. Some (g (v f))) xs"
    unfolding numbers_def map_map by (rule ring_line_frames [OF assms(1)])
      (use scroll_has_map [OF assms(2), of "Some \<circ> g"] in \<open>simp add: m\<close>)
qed

lemma ring_line_ema:
  assumes "plot_holds rnd flt r xs"
  shows "ring_line r (numbers (pg_imbalance_ema r)) = ema_line flt xs"
proof -
  let ?e = "emas flt (map (\<lambda>(t, f). ds_imbalance f) xs)"
  have "scroll_has PLOT_N (pg_imbalance_ema r) ?e" using assms by (simp add: plot_holds_def)
  from ring_line_last(1) [OF assms scroll_has_map [OF this, of Some]] show ?thesis
    by (simp add: numbers_def ema_line_def zip_last_n)
qed

lemma render_plots_lines:
  assumes "plot_holds rnd flt r xs"
  shows "map pl_lines (fst (render_plots rnd flt f r t k)) = frames_lines rnd flt t xs"
proof -
  note h = assms [unfolded plot_holds_def]
  have f: "(\<lambda>v. if v > 0 then v else 0) = (\<lambda>v. max 0 (v :: real))" "(\<lambda>v. if v < 0 then v else 0) = (\<lambda>v. min 0 (v :: real))" by auto
  have "pg_sz r = min PLOT_N (length xs)" using h by (simp add: scroll_at_def)
  then have sz: "pg_sz r > 1 \<longleftrightarrow> length xs > 1" by (auto simp: PLOT_N_def)
  have l: "ring_line r (pg_bid r) = frames_line (\<lambda>f. plot_price rnd flt (ds_best_bid f) f) xs"
    "ring_line r (pg_ask r) = frames_line (\<lambda>f. plot_price rnd flt (ds_best_ask f) f) xs"
    by (rule ring_line_frames [OF assms], use h in blast)+
  note n = ring_line_numbers [OF assms]
  have m: "ring_line r (numbers (pg_vwmid r)) = frames_line (\<lambda>f. Some (flt (ds_vwmid f))) xs"
    "ring_line r (numbers (pg_imbalance r)) = frames_line (\<lambda>f. Some (flt (ds_imbalance f))) xs"
    "ring_line r (numbers (pg_tick_rate r)) = frames_line (\<lambda>f. Some (flt (ds_tick_rate f))) xs"
    "ring_line r (numbers (pg_lat_p99 r)) = frames_line (\<lambda>f. Some (flt (ds_latency_p99_ns f))) xs"
    "ring_line r (numbers (pg_lat_p999 r)) = frames_line (\<lambda>f. Some (flt (ds_latency_p999_ns f))) xs"
    "ring_line r (numbers (pg_ring_occ r)) = frames_line (\<lambda>f. Some (flt (rnd (ds_ring_occupancy f * 100)))) xs"
    "ring_line r (numbers (pg_micro_trend r)) = frames_line (\<lambda>f. Some (flt (rnd (ds_ema f - ds_vwmid f)))) xs"
    "ring_line r (numbers (map g (pg_micro_trend r))) = frames_line (\<lambda>f. Some (g (flt (rnd (ds_ema f - ds_vwmid f))))) xs" for g
    by (rule n, use h in blast)+
  show ?thesis
    unfolding frames_lines_def render_plots_def plot_price_trio_def plot_microtrend_def plot_imbalance_def
      plot_tickrate_def plot_latency_def plot_queue_depth_def lines_if_def f
    using sz by (simp add: Let_def l m ring_line_ema [OF assms] split: prod.split)
qed

end
