(* ===== verification/Pipeline_Properties.thy ===== *)
theory Pipeline_Properties
  imports Platform_Properties Ui_Facts Wire_To_Book Manager_Properties
begin

text \<open>
  Properties of the processes as wholes: the feed file to core's books, core's measurements, the log
  exec leaves behind, and what the dashboard shows.
\<close>

section \<open>From the file to core's books\<close>

text \<open>What the run of core does to its books does not depend on the consumer.\<close>

lemma core_process_feed:
  "core_process inst ev s = None \<longleftrightarrow> feed_apply ev no_trade (cs_feed s) = None"
  "core_process inst ev s = Some s' \<Longrightarrow> \<exists>l t. feed_apply ev no_trade (cs_feed s) = Some (l, t, cs_feed s')"
  by (auto simp: core_process_def Let_def split: option.splits)

lemma core_run_feed:
  "core_run inst cs s = None \<longleftrightarrow> feed_run (events_of cs) (cs_feed s) = None"
  "core_run inst cs s = Some (ins, outs, t) \<Longrightarrow> feed_run (events_of cs) (cs_feed s) = Some (cs_feed t)"
proof -
  have "(core_run inst cs s = None \<longleftrightarrow> feed_run (events_of cs) (cs_feed s) = None)
    \<and> (\<forall>ins outs t. core_run inst cs s = Some (ins, outs, t) \<longrightarrow> feed_run (events_of cs) (cs_feed s) = Some (cs_feed t))"
  proof (induction inst cs s rule: core_run.induct)
    case (2 inst ev cs s)
    show ?case
    proof (cases "core_process inst ev s")
      case None
      then show ?thesis using core_process_feed(1) [of inst ev s] by simp
    next
      case (Some s')
      then obtain l t where "feed_apply ev no_trade (cs_feed s) = Some (l, t, cs_feed s')" using core_process_feed(2) by blast
      then show ?thesis using "2.IH" [OF Some] Some by (auto simp: option.map_comp)
    qed
  next
    case (3 inst cs s)
    obtain x r where pop: "try_pop FEED_RING_CAPACITY (cs_ring s) = (x, r)" by (cases "try_pop FEED_RING_CAPACITY (cs_ring s)")
    then show ?case using "3.IH" [OF pop [symmetric]] by auto
  qed simp
  then show "core_run inst cs s = None \<longleftrightarrow> feed_run (events_of cs) (cs_feed s) = None"
    "core_run inst cs s = Some (ins, outs, t) \<Longrightarrow> feed_run (events_of cs) (cs_feed s) = Some (cs_feed t)" by blast+
qed

lemma legal_feed_take: "legal_feed symbol evs B \<Longrightarrow> legal_feed symbol (take n evs) B"
  by (induction evs arbitrary: n B) (simp_all add: take_Cons')

text \<open>A core that pops a prefix of events carrying a legal stream.\<close>

lemma carried_core_runs:
  assumes "list_all2 carries ms evs" "legal_feed symbol (map clean_event ms) Map.empty" "length evs < 2 ^ 64"
    and "\<And>p. \<exists>n. popped E p = take n evs"
  shows "core_runs E inst (core_new symbol scratch slots)"
    and "core_at inst (core_new symbol scratch slots) (take n evs) c \<Longrightarrow>
      feed_inv (cs_feed c) \<and> abs_books (cs_feed c) = fold (spec_feed symbol) (map clean_event (take n ms)) Map.empty"
proof -
  have f: "cs_feed (core_new symbol scratch slots) = feed_new symbol" by (simp add: core_new_def)
  have run: "\<exists>f'. feed_run (take n evs) (feed_new symbol) = Some f' \<and> feed_inv f'
      \<and> abs_books f' = fold (spec_feed symbol) (map clean_event (take n ms)) Map.empty" for n
  proof -
    have "list_all2 carries (take n ms) (take n evs)" using assms(1) by (rule list_all2_takeI)
    note e = feed_run_carries [OF this, of "feed_new symbol"]
    have "legal_feed symbol (map clean_event (take n ms)) Map.empty"
      using legal_feed_take [OF assms(2)] by (simp flip: take_map)
    then show ?thesis
      unfolding e using feed_run_sound [OF feed_new_inv(1), of symbol "map clean_event (take n ms)"] by (simp add: feed_new_inv)
  qed
  have "core_run inst cs (core_new symbol scratch slots) \<noteq> None" if "events_of cs = popped E p" for cs p
  proof -
    obtain n where "popped E p = take n evs" using assms(4) by blast
    then show ?thesis
      using run [of n] core_run_feed(1) [of inst cs "core_new symbol scratch slots"] unfolding f that by auto
  qed
  moreover have "length (popped E p) < 2 ^ 64" for p
  proof -
    obtain n where "popped E p = take n evs" using assms(4) by blast
    then have "length (popped E p) \<le> length evs" by simp
    then show ?thesis using assms(3) by (rule le_less_trans)
  qed
  ultimately show "core_runs E inst (core_new symbol scratch slots)" unfolding core_runs_def by blast
  assume "core_at inst (core_new symbol scratch slots) (take n evs) c"
  then obtain cs ins outs where "events_of cs = take n evs" "core_run inst cs (core_new symbol scratch slots) = Some (ins, outs, c)"
    by (auto simp: core_at_def)
  then show "feed_inv (cs_feed c) \<and> abs_books (cs_feed c) = fold (spec_feed symbol) (map clean_event (take n ms)) Map.empty"
    using core_run_feed(2) [of inst cs "core_new symbol scratch slots" ins outs c] run [of n] f by auto
qed

text \<open>Core attached and configured: what \<open>main\<close> does from there.\<close>

lemma core_main_started:
  assumes "load_from_args (cw_file W) (tl argv) [] = (True, cfg)" "2 \<le> length argv" "cw_log_opens W"
    and "attach_pipeline (cw_layout_hash W) (cw_header W) (cw_map W) (Some (argv ! 1)) seg_new (cw_os W) = Some (None, g, s)"
    and "core_main_run (cw_env W) (fst (it_add (cw_instruments W) (itch_row (set_primary (bytes_of (get_str cfg ''symbols'' ''TQQQ''))))))
      (max_events_of (get_i64 cfg ''max_events'' 0))
      (core_new (set_primary (bytes_of (get_str cfg ''symbols'' ''TQQQ''))) (cw_scratch W) (cw_slots W)) = Some l"
  shows "\<exists>r. core_main rnd W argv = Some r \<and> cr_code r = 0 \<and> cr_loop r = Some l"
  using assms by (auto simp: core_main_def Let_def split: prod.split)

definition sent_events :: "exchange_env \<Rightarrow> nat \<Rightarrow> itch_parser \<Rightarrow> event list" where
  "sent_events X n p = (case parser_run (map (\<lambda>j. (ee_obs X j, ee_tsc X j)) [0..<n]) p of Some (evs, _) \<Rightarrow> evs | None \<Rightarrow> [])"

text \<open>
  C31.  From the feed file to the books, across two processes.  On a file of well-formed messages the
  exchange process exits with code 0, having parsed all of it; and a core process that takes events off
  the ring between them, in the order they were published, exits with code 0 with exactly the abstract
  books of the messages whose events it has taken, and says how many these are.  The ring has room in
  time, the events are a legal stream, core is told to stop some time and its ring runs dry some time
  after; both processes are configured and attached.
\<close>

theorem file_to_books:
  fixes msgs ring W cfg X
  defines "p \<equiv> \<lparr>ip_data = concat (map encode_frame msgs), ip_cursor = 0, ip_ring = ring\<rparr>"
    and "symbol \<equiv> set_primary (bytes_of (get_str cfg ''symbols'' ''TQQQ''))"
  defines "evs \<equiv> sent_events X (length msgs) p"
  assumes msgs: "list_all msg_ok msgs" "length msgs < 2 ^ 64"
      "legal_feed symbol (map clean_event (filter is_event_msg msgs)) Map.empty"
    and room: "makes_room (map (\<lambda>j. (ee_obs X j, ee_tsc X j)) [0..<length msgs]) p" "\<And>j. j < length msgs \<Longrightarrow> \<not> ee_stop X j"
    and exchange: "load_from_args fs (tl xargv) [] = (True, xcfg)" "3 \<le> length xargv"
      "data (xargv ! 2) = Some (concat (map encode_frame msgs))"
      "attach_pipeline lh hdr a (Some (xargv ! 1)) seg_new os = Some (None, xg, xs)"
    and core: "load_from_args (cw_file W) (tl argv) [] = (True, cfg)" "2 \<le> length argv" "cw_log_opens W"
      "attach_pipeline (cw_layout_hash W) (cw_header W) (cw_map W) (Some (argv ! 1)) seg_new (cw_os W) = Some (None, g, s)"
    and taken: "\<And>k. \<exists>n. popped (cw_env W) k = take n evs" "ce_stop (cw_env W) K" "\<forall>k. \<exists>D\<ge>k. ce_pop (cw_env W) D = None"
  shows "(\<exists>q. exchange_main fs data lh hdr a os X ring xargv = Some (0, Some q) \<and> itch_done q)
    \<and> (\<exists>r l. core_main rnd W argv = Some r \<and> cr_code r = 0 \<and> cr_loop r = Some l
      \<and> (let n = length (popped (cw_env W) (cl_pops l)) in popped (cw_env W) (cl_pops l) = take n evs
         \<and> abs_books (cs_feed (cl_core l)) = fold (spec_feed symbol) (map clean_event (take n (filter is_event_msg msgs))) Map.empty
         \<and> map_option fs_events_in (cl_feed_stats l) = Some (word_of_nat n)))"
proof
  have d: "ip_data p = [] @ concat (map encode_frame msgs)" "ip_cursor p = length []" by (simp_all add: p_def)
  have "\<exists>evs q. exchange_loop X 0 p = Some q \<and> itch_done q
      \<and> parser_run (map (\<lambda>j. (ee_obs X j, ee_tsc X j)) [0..<0 + length msgs]) p = Some (evs, q)"
    by (rule exchange_loop_run [where pre = "[]"]) (use msgs(1) room d in simp_all)
  then obtain evs' q where q: "exchange_loop X 0 p = Some q" "itch_done q"
    "parser_run (map (\<lambda>j. (ee_obs X j, ee_tsc X j)) [0..<length msgs]) p = Some (evs', q)" by auto
  show "\<exists>q. exchange_main fs data lh hdr a os X ring xargv = Some (0, Some q) \<and> itch_done q"
    using q(1,2) exchange by (auto simp: exchange_main_def p_def)
  have "length (map (\<lambda>j. (ee_obs X j, ee_tsc X j)) [0..<length msgs]) = length msgs" by simp
  from parser_run_from [OF msgs(1) this room(1) d] q(3) have carried: "list_all2 carries (filter is_event_msg msgs) evs"
    by (auto simp: evs_def sent_events_def)
  have "length evs = length (filter is_event_msg msgs)" using list_all2_lengthD [OF carried] by simp
  also have "\<dots> \<le> length msgs" by (rule length_filter_le)
  also note msgs(2)
  finally have len: "length evs < 2 ^ 64" .
  let ?inst = "fst (it_add (cw_instruments W) (itch_row symbol))"
  let ?c = "core_new symbol (cw_scratch W) (cw_slots W)"
  note runs = carried_core_runs [where E = "cw_env W", OF carried msgs(3) len taken(1)]
  from core_main_sound [OF runs(1) [of ?inst "cw_scratch W" "cw_slots W"] taken(2,3), of "max_events_of (get_i64 cfg ''max_events'' 0)"]
  obtain l k where l: "core_main_run (cw_env W) ?inst (max_events_of (get_i64 cfg ''max_events'' 0)) ?c = Some l"
    "cl_pops l = Suc k" "core_at ?inst ?c (popped (cw_env W) (Suc k)) (cl_core l)"
    "map_option fs_events_in (cl_feed_stats l) = Some (word_of_nat (length (popped (cw_env W) (Suc k))))" by auto
  obtain n where "popped (cw_env W) (Suc k) = take n evs" using taken(1) by blast
  then obtain n where n: "popped (cw_env W) (Suc k) = take n evs" "n = length (popped (cw_env W) (Suc k))"
    by (metis length_take min.cobounded2 min_def take_all_iff)
  have "abs_books (cs_feed (cl_core l)) = fold (spec_feed symbol) (map clean_event (take n (filter is_event_msg msgs))) Map.empty"
    using runs(2) [of ?inst "cw_scratch W" "cw_slots W" n "cl_core l"] l(3) n(1) by simp
  then have "let n = length (popped (cw_env W) (cl_pops l)) in popped (cw_env W) (cl_pops l) = take n evs
      \<and> abs_books (cs_feed (cl_core l)) = fold (spec_feed symbol) (map clean_event (take n (filter is_event_msg msgs))) Map.empty
      \<and> map_option fs_events_in (cl_feed_stats l) = Some (word_of_nat n)"
    unfolding Let_def l(2) using l(4) n by (metis (no_types))
  moreover from core_main_started [OF core l(1) [unfolded symbol_def]] obtain r where
    "core_main rnd W argv = Some r" "cr_code r = 0" "cr_loop r = Some l" by blast
  ultimately show "\<exists>r l. core_main rnd W argv = Some r \<and> cr_code r = 0 \<and> cr_loop r = Some l
      \<and> (let n = length (popped (cw_env W) (cl_pops l)) in popped (cw_env W) (cl_pops l) = take n evs
         \<and> abs_books (cs_feed (cl_core l)) = fold (spec_feed symbol) (map clean_event (take n (filter is_event_msg msgs))) Map.empty
         \<and> map_option fs_events_in (cl_feed_stats l) = Some (word_of_nat n))"
    by blast
qed

text \<open>The three sample messages; core takes their events as they come and then is told to stop.\<close>

definition replay_env :: "event list \<Rightarrow> core_env" where
  "replay_env evs = \<lparr>ce_pop = (\<lambda>k. if k < length evs then Some (evs ! k) else None), ce_tsc = (\<lambda>k. word_of_nat (10 * k)),
     ce_stop = (\<lambda>k. 100 \<le> k), ce_taken = (\<lambda>_. 0)\<rparr>"

lemma replay_popped: "popped (replay_env evs) k = take k evs"
  by (induction k) (auto simp: replay_env_def take_Suc_conv_app_nth)

lemma replay_stops: "ce_stop (replay_env evs) 100" "\<forall>k. \<exists>D\<ge>k. ce_pop (replay_env evs) D = None"
proof -
  show "ce_stop (replay_env evs) 100" by (simp add: replay_env_def)
  have "ce_pop (replay_env evs) (k + length evs) = None" for k by (simp add: replay_env_def)
  then show "\<forall>k. \<exists>D\<ge>k. ce_pop (replay_env evs) D = None" by (metis le_add1)
qed

definition sample_exchange :: exchange_env where
  "sample_exchange = \<lparr>ee_obs = (\<lambda>_. [(0, False)]), ee_tsc = (\<lambda>_. 0), ee_stop = (\<lambda>_. False)\<rparr>"

definition sample_parser :: itch_parser where
  "sample_parser = \<lparr>ip_data = concat (map encode_frame sample_msgs), ip_cursor = 0, ip_ring = sample_ring\<rparr>"

definition sample_os :: os where "sample_os = \<lparr>os_fds = {3}, os_maps = {}, os_bad = False\<rparr>"

definition sample_core_world :: "book_snapshot \<Rightarrow> (u32 \<Rightarrow> market_update) \<Rightarrow> core_world" where
  "sample_core_world scratch slots = \<lparr>cw_file = (\<lambda>_. None), cw_layout_hash = 7, cw_header = (\<lambda>k. header_after 7 k), cw_map = Some 64,
     cw_os = sample_os, cw_instruments = no_instruments, cw_log_opens = True, cw_tsc_per_ns = 3, cw_scratch = scratch,
     cw_slots = slots, cw_env = replay_env (sent_events sample_exchange 3 sample_parser), cw_drops = 0\<rparr>"

lemma sample_attach: "\<exists>g s. attach_pipeline 7 (\<lambda>k. header_after 7 k) (Some 64) (Some ''3'') seg_new sample_os = Some (None, g, s)"
proof -
  have m: "mono (\<lambda>k :: nat. k)" by (simp add: mono_def)
  have "show_nat 3 = ''3''" by code_simp
  then show ?thesis using attach_published [OF m, of 3 3 7 7 64 sample_os] by (simp add: INT_MAX_def)
qed

lemma sample_symbol: "set_primary (bytes_of (get_str [] ''symbols'' ''TQQQ'')) = TQQQ"
  by code_simp

lemma sample_clean_legal: "legal_feed TQQQ (map clean_event (filter is_event_msg sample_msgs)) Map.empty"
  by (simp add: sample_msgs_def is_event_msg_def clean_event_def with_header_def blank_event_def legal_event_def legal_book_def
      spec_feed_def spec_book_def is_add_def in_window_def first_base_def spec_add_def spec_delete_def Let_def)

lemma file_to_books_witness:
  "\<forall>scratch slots. (\<exists>q. exchange_main (\<lambda>_. None) (\<lambda>_. Some (concat (map encode_frame sample_msgs))) 7 (\<lambda>k. header_after 7 k) (Some 64)
      sample_os sample_exchange sample_ring [''exchange_main'', ''3'', ''feed''] = Some (0, Some q))
    \<and> (\<exists>r. core_main (\<lambda>x. x) (sample_core_world scratch slots) [''core_main'', ''3''] = Some r \<and> cr_code r = 0)"
proof (intro allI)
  fix scratch slots
  let ?W = "sample_core_world scratch slots" and ?x = "[''exchange_main'', ''3'', ''feed'']" and ?c = "[''core_main'', ''3'']"
  obtain g s where at: "attach_pipeline 7 (\<lambda>k. header_after 7 k) (Some 64) (Some ''3'') seg_new sample_os = Some (None, g, s)"
    using sample_attach by blast
  have len: "length sample_msgs = 3" by (simp add: sample_msgs_def)
  have up: "map (\<lambda>j. (ee_obs sample_exchange j, ee_tsc sample_exchange j)) [0..<length sample_msgs] = replicate 3 ([(0, False)], 0)"
    by (simp add: len sample_exchange_def upt_rec numeral_3_eq_3)
  have w: "cw_file ?W = (\<lambda>_. None)" "cw_layout_hash ?W = 7" "cw_header ?W = (\<lambda>k. header_after 7 k)" "cw_map ?W = Some 64"
    "cw_os ?W = sample_os" "cw_log_opens ?W" "cw_env ?W = replay_env (sent_events sample_exchange 3 sample_parser)"
    by (simp_all add: sample_core_world_def)
  have conf: "load_from_args (\<lambda>_. None) (tl ?x) [] = (True, [])" "load_from_args (\<lambda>_. None) (tl ?c) [] = (True, [])" by simp_all
  have room: "makes_room (map (\<lambda>j. (ee_obs sample_exchange j, ee_tsc sample_exchange j)) [0..<length sample_msgs])
      \<lparr>ip_data = concat (map encode_frame sample_msgs), ip_cursor = 0, ip_ring = sample_ring\<rparr>"
    unfolding up by (rule sample_room)
  have t: "\<exists>n. popped (cw_env ?W) k = take n (sent_events sample_exchange (length sample_msgs)
      \<lparr>ip_data = concat (map encode_frame sample_msgs), ip_cursor = 0, ip_ring = sample_ring\<rparr>)" for k
    unfolding w(7) replay_popped len sample_parser_def by blast
  from file_to_books [where W = ?W and X = sample_exchange and msgs = sample_msgs and ring = sample_ring and cfg = "[]"
      and fs = "\<lambda>_. None" and xargv = ?x and argv = ?c and data = "\<lambda>_. Some (concat (map encode_frame sample_msgs))"
      and lh = 7 and hdr = "\<lambda>k. header_after 7 k" and a = "Some 64" and os = sample_os and K = 100 and rnd = "\<lambda>x. x",
      OF sample_msgs_ok _ _ room _ conf(1) _ refl _ _ _ w(6) _ t]
  show "(\<exists>q. exchange_main (\<lambda>_. None) (\<lambda>_. Some (concat (map encode_frame sample_msgs))) 7 (\<lambda>k. header_after 7 k) (Some 64)
      sample_os sample_exchange sample_ring ?x = Some (0, Some q))
    \<and> (\<exists>r. core_main (\<lambda>x. x) ?W ?c = Some r \<and> cr_code r = 0)"
    using at conf(2) sample_clean_legal replay_stops by (auto simp: w len sample_symbol sample_exchange_def)
qed

section \<open>Core's account of its run\<close>

text \<open>
  C32.  On a legal feed the event loop of core returns once it is told to stop and finds its ring empty.  It
  has then applied every popped event once and in order; the first \<open>n\<close> of them, at most
  \<open>max_events\<close>, are measured, each by the time stamps read just before and after it, and the
  histograms are exactly those of the measured times; what the dashboard was given are the histograms
  of all complete blocks of 65536 events; and the statistics it leaves count all events and account
  for every frame as pushed or dropped.
\<close>

theorem core_run_accounts:
  assumes "\<And>p. legal_feed symbol (popped E p) Map.empty" and "\<And>p. length (popped E p) < 2 ^ 64"
    and "ce_stop E K" and "\<forall>p. \<exists>D\<ge>p. ce_pop E D = None"
  shows "\<exists>l. core_main_run E inst max_events (core_new symbol scratch slots) = Some l
    \<and> (let evs = popped E (cl_pops l); n = unat (cl_n l) in
       ce_pop E (cl_pops l - 1) = None \<and> n \<le> length evs \<and> cl_n l \<le> max_events
       \<and> abs_books (cs_feed (cl_core l)) = fold (spec_feed symbol) evs Map.empty
       \<and> cl_hist l = lat_of E evs n \<and> cl_lat l = lat_published E evs n
       \<and> cl_feed_stats l = Some \<lparr>fs_frames_pushed = cs_pushed (cl_core l), fs_frames_dropped = cs_dropped (cl_core l),
           fs_events_in = word_of_nat (length evs), fs_book_resets = 0, fs_heartbeat_tsc = ce_tsc E (read_at n), fs_mode = FEED_ITCH\<rparr>
       \<and> cs_pushed (cl_core l) + cs_dropped (cl_core l) = fd_count (cs_feed (cl_core l)))"
proof -
  let ?c = "core_new symbol scratch slots"
  have runs: "core_runs E inst ?c" by (rule legal_core_runs) (use assms(1,2) in blast)+
  from core_main_sound [OF runs assms(3,4), of max_events] obtain l p n where
    l: "core_main_run E inst max_events ?c = Some l" "cl_pops l = Suc p" "ce_pop E p = None"
      "core_at inst ?c (popped E (Suc p)) (cl_core l)" "n \<le> length (popped E (Suc p))" "unat (cl_n l) = n" "cl_n l \<le> max_events"
      "cl_hist l = lat_of E (popped E (Suc p)) n" "cl_lat l = lat_published E (popped E (Suc p)) n"
      "cl_feed_stats l = Some \<lparr>fs_frames_pushed = cs_pushed (cl_core l), fs_frames_dropped = cs_dropped (cl_core l),
        fs_events_in = word_of_nat (length (popped E (Suc p))), fs_book_resets = 0,
        fs_heartbeat_tsc = ce_tsc E (read_at n), fs_mode = FEED_ITCH\<rparr>" by blast
  from l(4) obtain cs ins outs where cs: "events_of cs = popped E (Suc p)" "core_run inst cs ?c = Some (ins, outs, cl_core l)"
    by (auto simp: core_at_def)
  have legal: "legal_feed symbol (events_of cs) Map.empty" "length (events_of cs) < 2 ^ 64" unfolding cs(1) using assms(1,2) by blast+
  have frames: "cs_pushed (cl_core l) + cs_dropped (cl_core l) = fd_count (cs_feed (cl_core l))"
    by (rule core_frames [OF legal, of inst scratch slots]) (use cs(2) in simp)
  have "feed_run (popped E (Suc p)) (feed_new symbol) = Some (cs_feed (cl_core l))"
    using core_run_feed(2) [OF cs(2)] by (simp add: cs(1) core_new_def del: popped_simps)
  then have books: "abs_books (cs_feed (cl_core l)) = fold (spec_feed symbol) (popped E (Suc p)) Map.empty"
    using feed_run_sound [OF feed_new_inv(1), of symbol "popped E (Suc p)"] assms(1) [of "Suc p"]
    by (simp add: feed_new_inv del: popped_simps)
  show ?thesis
    by (rule exI [of _ l]) (use l books frames in \<open>simp add: Let_def del: popped_simps\<close>)
qed

lemma core_run_accounts_witness:
  "\<forall>scratch slots. \<exists>l. core_main_run (replay_env sample_feed) 0 (- 1) (core_new TQQQ scratch slots) = Some l
    \<and> cl_hist l = lat_of (replay_env sample_feed) (popped (replay_env sample_feed) (cl_pops l)) (unat (cl_n l))"
proof (intro allI)
  fix scratch slots
  have l: "legal_feed TQQQ (popped (replay_env sample_feed) p) Map.empty" for p
    unfolding replay_popped by (rule legal_feed_take [OF sample_legal])
  have n: "length (popped (replay_env sample_feed) p) < 2 ^ 64" for p
  proof -
    have "length (popped (replay_env sample_feed) p) \<le> length sample_feed" by (simp add: replay_popped)
    also have "\<dots> < 2 ^ 64" by (simp add: sample_feed_def)
    finally show ?thesis .
  qed
  from core_run_accounts [where E = "replay_env sample_feed", OF l n replay_stops, of 0 "- 1" scratch slots]
  show "\<exists>l. core_main_run (replay_env sample_feed) 0 (- 1) (core_new TQQQ scratch slots) = Some l
    \<and> cl_hist l = lat_of (replay_env sample_feed) (popped (replay_env sample_feed) (cl_pops l)) (unat (cl_n l))"
    by (auto simp: Let_def)
qed

section \<open>The statistics log\<close>

text \<open>
  C34.  A reader of \<open>key=value\<close> files finds in the log exec leaves the strategy's name and every counter of
  the run: what \<open>get_i64\<close> gives for its key is the counter, as long as that fits a signed integer.  The
  name is one a value can hold and the equity is below 1e20.
\<close>

theorem stats_log_read_back:
  assumes "entry_ok (''strategy'', name)" and "\<bar>log_equity rnd x\<bar> < 10 ^ 20"
  shows "\<exists>cfg. cfg_load (snd (write_stats_log rnd x True name)) [] = (True, cfg)
    \<and> get_str cfg ''strategy'' d = name
    \<and> (\<forall>(k, v) \<in> set (log_numbers x). uint v < 2 ^ 63 \<longrightarrow> get_i64 cfg k i = uint v)"
proof -
  obtain cfg where cfg: "cfg_load (snd (write_stats_log rnd x True name)) [] = (True, cfg)"
    "cfg_map cfg ''strategy'' = Some name" "\<And>k v. (k, v) \<in> set (log_numbers x) \<Longrightarrow> cfg_map cfg k = Some (show_u64 v)"
    using stats_log_lookup [OF assms] by blast
  have "get_str cfg ''strategy'' d = name" using cfg(2) by (auto simp: get_str_def cfg_map_def split: option.split)
  moreover have "get_i64 cfg k i = uint v" if "(k, v) \<in> set (log_numbers x)" "uint v < 2 ^ 63" for k v
  proof -
    have n: "int (unat v) = uint v" by (rule uint_nat [symmetric])
    have "\<not> is_digit (CHR ''_'')" by (simp add: is_digit_def)
    then have "\<forall>c\<in>set (show_u64 v). c \<noteq> CHR ''_''" by (metis show_nat_set show_u64_def)
    then have "filter (\<lambda>c. c \<noteq> CHR ''_'') (show_u64 v) = show_u64 v" by (rule filter_True)
    moreover have "strtoll (show_u64 v) = Some (uint v, [])"
      using strtoll_shown [of "unat v"] that(2) n by (simp add: show_u64_def)
    ultimately show ?thesis using cfg(3) [OF that(1)] by (auto simp: get_i64_def cfg_map_def split: option.splits)
  qed
  ultimately show ?thesis using cfg(1) by auto
qed

lemma stats_log_read_back_witness:
  "\<exists>cfg. cfg_load (snd (write_stats_log (\<lambda>x. x) (exec_new no_instruments) True ''dummy'')) [] = (True, cfg)
    \<and> get_str cfg ''strategy'' [] = ''dummy'' \<and> get_i64 cfg ''fills'' 7 = 0"
proof -
  have s: "entry_ok (''strategy'', ''dummy'')"
    by (simp add: entry_ok_def trimmed_def is_blank_def is_line_end_def KEY_LEN_def VAL_LEN_def)
  have e: "\<bar>log_equity (\<lambda>x. x) (exec_new no_instruments)\<bar> < 10 ^ 20"
    by (simp add: log_equity_def exec_new_def equity_def acct_new_def dbl_def)
  have "(''fills'', 0) \<in> set (log_numbers (exec_new no_instruments))"
    by (simp add: log_numbers_def log_counters_def exec_new_def stats_new_def)
  with stats_log_read_back [OF s e, of "[]" 7] show ?thesis by fastforce
qed

section \<open>What the dashboard shows\<close>

text \<open>
  C35.  A sample of the dashboard's latency panel is the percentile of exactly the times exec recorded since the
  sample before: with the histograms of \<open>xs\<close> in that sample and of \<open>xs @ ys\<close> now, the points plotted
  are the percentiles of \<open>ys\<close>, or gaps if there is none; after a restart of exec, whose counters begin
  anew, there is a gap as well.  The points that are plotted are the last 240.
\<close>

theorem panels_plot_intervals:
  fixes rnd flt :: "real \<Rightarrow> real" and L :: panel_loads and s :: panels and t_now :: real and xs ys :: "u64 list"
  defines "e \<equiv> tp_exec (panels_load L s)" and "s' \<equiv> panels_update rnd flt L t_now s"
  defines "pct p \<equiv> if es_exec_generation e = es_exec_generation (tp_exec_prev s)
    then map_option flt (interval_pct rnd ys (rnd p) (tp_tsc_per_ns s)) else None"
  assumes "due rnd t_now s" and "series_has (tp_t2o s) points"
    and "es_tick_to_order (tp_exec_prev s) = hist_of xs"
    and "es_exec_generation e = es_exec_generation (tp_exec_prev s) \<Longrightarrow> es_tick_to_order e = hist_of (xs @ ys)"
    and "length ys < 2 ^ 64" and "\<forall>p \<in> {1 / 2, 99 / 100, 999 / 1000}. below_one rnd (rnd p)"
  shows "series_has (tp_t2o s') (points @ [(flt t_now, [pct (1 / 2), pct (99 / 100), pct (999 / 1000), None])])
    \<and> (\<forall>k<3. series_line (tp_t2o s') k = last_n SERIES_N
        (map (\<lambda>x. (fst x, snd x ! k)) points @ [(flt t_now, [pct (1 / 2), pct (99 / 100), pct (999 / 1000)] ! k)]))
    \<and> es_tick_to_order (tp_exec_prev s') = es_tick_to_order e \<and> tp_last_sample s' = t_now"
proof -
  let ?new = "(flt t_now, [pct (1 / 2), pct (99 / 100), pct (999 / 1000), None])"
  note u = panels_update_due [OF assms(4), where L = L and flt = flt, folded e_def s'_def]
  have same: "map_option flt (delta_pct rnd (es_tick_to_order e) (es_tick_to_order (sample_base L s)) (rnd p) (tp_tsc_per_ns s)) = pct p"
    if "p \<in> {1 / 2, 99 / 100, 999 / 1000}" for p
  proof (cases "es_exec_generation e = es_exec_generation (tp_exec_prev s)")
    case True
    have "below_one rnd (rnd p)" using assms(9) that by blast
    note d = delta_pct_between [OF assms(8) this, of xs "tp_tsc_per_ns s"]
    have "sample_base L s = tp_exec_prev s" using True by (simp add: sample_base_def Let_def e_def)
    then show ?thesis unfolding assms(6) assms(7) [OF True] by (simp add: d pct_def True assms(6))
  next
    case False
    then have "sample_base L s = e" by (simp add: sample_base_def Let_def e_def)
    then show ?thesis using False by (simp add: pct_def delta_pct_def hist_delta_def Let_def)
  qed
  have "tp_t2o s' = series_push (flt t_now) (pct (1 / 2)) (pct (99 / 100)) (pct (999 / 1000)) None (tp_t2o s)"
    unfolding u(1) push_percentiles_def Let_def using same by simp
  then have has: "series_has (tp_t2o s') (points @ [?new])" using series_has_push [OF assms(5)] by simp
  have line: "series_line (tp_t2o s') k = last_n SERIES_N
      (map (\<lambda>x. (fst x, snd x ! k)) points @ [(flt t_now, [pct (1 / 2), pct (99 / 100), pct (999 / 1000)] ! k)])" if "k < 3" for k
  proof -
    have k: "k < 4" "snd ?new ! k = [pct (1 / 2), pct (99 / 100), pct (999 / 1000)] ! k"
      using that by (auto simp: less_Suc_eq numeral_eq_Suc)
    show ?thesis unfolding series_has_line [OF has k(1)] last_n_map [symmetric] using k(2) by simp
  qed
  then show ?thesis using has u(5,7) by simp
qed

lemma panels_plot_intervals_witness:
  "series_line (tp_t2o (panels_update (\<lambda>x. x) (\<lambda>x. x) \<lparr>pl_exec = Some (exec_view_new\<lparr>es_tick_to_order := hist_of [100, 3]\<rparr>), pl_feed = None,
      pl_pos = None, pl_bal = None, pl_oo = None, pl_exchange_to_core = 0, pl_feed_to_exec = 0, pl_exec_to_gateway = 0,
      pl_gateway_to_exec = 0\<rparr> 1 (panels_new 1))) 0 = [(1, interval_pct (\<lambda>x. x) [100, 3] (1 / 2) 1)]"
proof -
  let ?L = "\<lparr>pl_exec = Some (exec_view_new\<lparr>es_tick_to_order := hist_of [100, 3]\<rparr>), pl_feed = None,
      pl_pos = None, pl_bal = None, pl_oo = None, pl_exchange_to_core = 0, pl_feed_to_exec = 0, pl_exec_to_gateway = 0,
      pl_gateway_to_exec = 0\<rparr>"
  let ?s = "panels_new 1"
  have h0: "es_tick_to_order exec_view_new = hist_of []"
    by (simp add: exec_view_new_def exec_stats.defs stats_new_def hist_of_def)
  have s: "tp_exec_prev ?s = exec_view_new" "tp_tsc_per_ns ?s = 1" "tp_t2o ?s = series_new" "tp_last_sample ?s = 0" "tp_exec (panels_load ?L ?s) = exec_view_new\<lparr>es_tick_to_order := hist_of [100, 3]\<rparr>"
    by (simp_all add: panels_new_def)
  have d: "due (\<lambda>x. x) 1 ?s" by (simp add: due_def s SAMPLE_S_def)
  have b: "\<forall>p \<in> {1 / 2, 99 / 100, 999 / 1000}. below_one (\<lambda>x. x) p" by (simp add: below_one_def dbl_def)
  have id: "map_option (\<lambda>x. x) v = v" for v :: "real option" by (cases v) simp_all
  from panels_plot_intervals [where s = ?s and L = ?L and rnd = "\<lambda>x. x" and flt = "\<lambda>x. x" and t_now = 1 and xs = "[]" and ys = "[100, 3]",
      OF d, of "[]"]
  show ?thesis using series_has_new b h0 by (simp add: s id last_n_def SERIES_N_def)
qed

text \<open>
  C37.  After any run of the dashboard's loop the six plots of the market tab show exactly the last 5000 frames
  drawn, oldest first, each the newest that had arrived when it was drawn, converted as the plot's line
  says; the smoothed imbalance is the recurrence over all frames ever drawn.  Nothing is drawn before
  the first frame, and the tab's figures are those of the newest one.
\<close>

theorem plots_show_last_frames:
  fixes rnd flt :: "real \<Rightarrow> real"
  defines "u ins g now \<equiv> ui_run rnd flt ins (ui_new g now)" and "frames ins \<equiv> drawn flt None ins"
  shows "map pl_lines (fst (snd (market_tab rnd flt t (u ins g now)))) = frames_lines rnd flt (flt t) (frames ins)
    \<and> pg_sz (ui_ring (u ins g now)) = min 5000 (length (frames ins))
    \<and> newest_frame (u ins g now) = (if frames ins = [] then None else Some (snd (last (frames ins))))"
proof -
  let ?u = "u ins g now"
  have n: "newest_frame (ui_new g now) = None" "ui_ring (ui_new g now) = plot_ring_new"
    by (simp_all add: ui_new_def newest_frame_def)
  have h: "plot_holds rnd flt (ui_ring ?u) (frames ins)"
    using ui_run_ring [of rnd flt "ui_new g now" "[]" ins] plot_holds_new by (simp add: n u_def frames_def)
  have "pg_sz (ui_ring ?u) = min 5000 (length (frames ins))"
    using h by (simp add: plot_holds_def scroll_at_def PLOT_N_def)
  moreover have "map pl_lines (fst (snd (market_tab rnd flt t ?u))) = frames_lines rnd flt (flt t) (frames ins)"
    using render_plots_lines [OF h, of "ui_latest ?u" "flt t" "ui_sticky ?u"]
    by (simp add: market_tab_def case_prod_beta Let_def)
  moreover have "newest_frame ?u = (if frames ins = [] then None else Some (snd (last (frames ins))))"
    using ui_run_newest [of rnd flt ins "ui_new g now"] by (simp add: n u_def frames_def)
  ultimately show ?thesis by blast
qed

section \<open>The operator's swap\<close>

lemma respawned_argv:
  assumes "mg_swap_path mg = spec" "spec \<noteq> []" "length spec \<le> 247"
  shows "spawn_argv (mg_worker (respawn_exec env fl pid mg) EXEC) fd
    = spawn_argv (make_exec spec (me_exec_mode env) (me_cfg_path env) (mg_worker mg EXEC)) fd"
  using assms by (simp add: respawn_exec_def next_strategy_def mg_spawn_def spawn_argv_def fit_def Let_def)

text \<open>
  C33.  The whole way of a swap through three processes.  The operator types a strategy into the dashboard and
  presses the button, whatever other buttons are pressed with it: the control word has SWAP and the
  control block the strategy's name.  An exec running any strategy that keeps the contract of its hooks
  (\<open>code_ok\<close>, which the three strategies of the repository do), if it reads that word before it is told to
  stop, ends with code 75 and takes SWAP back out of the word; on the \<open>NullRouter\<close> it has traded
  nothing, every balance and position being what start-up made it.  The supervisor, reaping it,
  leaves the word alone, empties the name, and forks a process whose command line makes it run exactly the
  strategy the operator typed, once its loader accepts it.
\<close>

theorem operator_swaps_strategy:
  fixes ctl :: control and mg' :: "exec_result \<Rightarrow> manager" and kill_pressed pause_pressed :: bool and flags :: u32 and pan :: panels and c :: control
    and env :: mg_env and mg :: manager and fl :: "string option" and pid :: int
    and M M' :: machine and E E' :: exec_env and C :: "'t module_code" and code' :: "loaded_module \<Rightarrow> 's module_code" and cfg :: config
    and start :: exec_context
  defines "ctl \<equiv> strip_buttons kill_pressed pause_pressed True flags pan c"
    and "mg' \<equiv> \<lambda>r. on_exit env fl pid EXEC (Exited (er_code r)) (mg\<lparr>mg_flags := er_flags r, mg_swap_path := ct_swap_path ctl\<rparr>)"
  assumes "tp_swap_buf pan = spec" and "spec \<noteq> []" and "length spec \<le> 247"
    and "mc_flags M (1 + d) = ct_flags ctl" and "xe_flags E = ct_flags ctl" and "\<And>j. j \<le> d \<Longrightarrow> \<not> mc_shutdown M (1 + j)"
    and "mc_pop M (d + m) = None" and "mc_late M j" and "code_ok k C" and "2 * k * d + k * m + 2 * k < 2 ^ 40"
    and "exec_setup (mc_rnd M) cfg (xe_tsc_per_ns E) (xe_instruments E) (xe_prev_generation E) (exec_new no_instruments) = (True, start)"
    and "mo_create C (get_str cfg ''strategy.params'' '''') = Some obj"
    and "\<not> mg_restart_pending mg" and "me_exec_mode env = ''null''" and "length (me_cfg_path env) \<le> 290"
    and "cfg_load (xe_file E' (me_cfg_path env)) [] = (True, cfg')"
    and "load_strategy (xe_host E') (xe_builtins E') (xe_loader E') spec = Some (Inr lm, acts)"
    and "xe_header E' = (\<lambda>k. header_after (ha_layout_hash (xe_host E')) (phase k))" and "mono phase" and "3 \<le> phase n"
    and "int fd \<le> INT_MAX" and "xe_map E' = Some a"
  shows "ct_flags ctl AND SWAP \<noteq> 0 \<and> ct_swap_path ctl = spec
    \<and> (\<exists>r h. exec_run M E cfg name C = Some r \<and> er_code r = EXIT_SWAP \<and> er_flags r = ct_flags ctl AND NOT SWAP
        \<and> er_host r = Some h \<and> calm (x_account start) (x_account (h_x h))
        \<and> mg_flags (mg' r) = er_flags r \<and> mg_swap_path (mg' r) = [] \<and> wk_pid (mg_worker (mg' r) EXEC) = pid
        \<and> exec_process M' E' code' (spawn_argv (mg_worker (mg' r) EXEC) fd)
          = exec_run M' E' cfg' (md_name (lm_module lm)) (code' lm))"
proof -
  have swap: "SWAP \<noteq> 0" by (simp add: SWAP_def)
  have ctl: "ct_swap_path ctl = spec" "ct_flags ctl AND SWAP \<noteq> 0"
  proof -
    define b where "b = (let c = (if kill_pressed then press_toggle KILL flags c else c) in if pause_pressed then press_toggle PAUSE flags c else c)"
    have "ctl = press_swap pan b" by (simp add: ctl_def strip_buttons_def b_def Let_def)
    then have "ctl = b\<lparr>ct_swap_path := spec, ct_flags := ct_flags b OR SWAP\<rparr>" using assms(3,4) by (simp add: press_swap_def)
    moreover have "(ct_flags b OR SWAP) AND SWAP = SWAP" by (simp add: bit.conj_disj_distrib2)
    ultimately show "ct_swap_path ctl = spec" "ct_flags ctl AND SWAP \<noteq> 0" using swap by simp_all
  qed
  have flag: "mc_flags M (1 + d) AND SWAP \<noteq> 0" unfolding assms(6) by (rule ctl(2))
  then have told: "told_to_leave M (1 + d)" by (simp add: told_to_leave_def)
  obtain h log where
    h: "exec_run M E cfg name C = Some \<lparr>er_code = EXIT_SWAP, er_host = Some h, er_flags = xe_flags E AND NOT SWAP, er_log = log\<rparr>"
      "calm (x_account start) (x_account (h_x h))"
  proof (cases rule: exec_run_returns [OF assms(11,12) told assms(9,10), where E = E and cfg = cfg and name = name])
    case (1 c)
    then show ?thesis using assms(13,14) by simp
  next
    case (2 sw h log)
    then show ?thesis using that assms(8,13) flag by simp
  qed
  let ?r = "\<lparr>er_code = EXIT_SWAP, er_host = Some h, er_flags = xe_flags E AND NOT SWAP, er_log = log\<rparr>"
  let ?mg = "\<lambda>w. mg\<lparr>mg_flags := w, mg_swap_path := ct_swap_path ctl\<rparr>"
  have mg': "mg' ?r = respawn_exec env fl pid (?mg (er_flags ?r))"
    using assms(15) by (simp add: mg'_def on_exit_def EXIT_SWAP_def MG_EXIT_SWAP_def)
  have "exec_process M' E' code' (spawn_argv (mg_worker (respawn_exec env fl pid (?mg w)) EXEC) fd)
      = exec_run M' E' cfg' (md_name (lm_module lm)) (code' lm)" for w
  proof -
    have "spawn_argv (mg_worker (respawn_exec env fl pid (?mg w)) EXEC) fd
      = spawn_argv (make_exec spec ''null'' (me_cfg_path env) (mg_worker mg EXEC)) fd"
      using respawned_argv [of "?mg w" spec env fl pid fd] ctl(1) assms(4,5,16) by simp
    moreover have "length spec \<le> 288" using assms(5) by simp
    ultimately show ?thesis using launched [OF assms(18-24) _ assms(17)] by simp
  qed
  then show ?thesis
    using ctl h assms(7) mg' by (auto simp: respawn_exec_fields intro!: exI [of _ ?r])
qed

text \<open>
  A press of the button alone, on a control word that is clear, in front of the builtin of the earlier
  examples; the second exec finds it again.
\<close>

definition sample_swap_panels :: panels where
  "sample_swap_panels = (panels_new 1)\<lparr>tp_swap_buf := ''builtin:dummy''\<rparr>"

definition sample_swap_machine :: machine where
  "sample_swap_machine = sample_machine\<lparr>mc_flags := (\<lambda>_. SWAP), mc_shutdown := (\<lambda>_. False)\<rparr>"

definition sample_manager :: manager where "sample_manager = wd_mg (wd_start sample_mg_env sample_pids)"

lemma operator_swaps_strategy_witness:
  "\<exists>r. exec_run sample_swap_machine (sample_exec_env 7) [] ''dummy'' (dummy_code sample_swap_machine) = Some r
    \<and> er_code r = EXIT_SWAP
    \<and> exec_process sample_machine (sample_exec_env 7) (\<lambda>_. dummy_code sample_machine) (spawn_argv (mg_worker (on_exit sample_mg_env None 105 EXEC
        (Exited (er_code r)) (sample_manager\<lparr>mg_flags := er_flags r, mg_swap_path := ''builtin:dummy''\<rparr>)) EXEC) 3)
      = exec_run sample_machine (sample_exec_env 7) [] ''dummy'' (dummy_code sample_machine)"
proof -
  let ?c = "strip_buttons False False True 0 sample_swap_panels \<lparr>ct_flags = 0, ct_swap_path = []\<rparr>"
  have c: "?c = \<lparr>ct_flags = SWAP, ct_swap_path = ''builtin:dummy''\<rparr>"
    by (simp add: strip_buttons_def press_swap_def sample_swap_panels_def)
  have "fst (exec_setup (mc_rnd sample_swap_machine) [] (xe_tsc_per_ns (sample_exec_env 7)) (xe_instruments (sample_exec_env 7))
      (xe_prev_generation (sample_exec_env 7)) (exec_new no_instruments))"
    by (simp add: exec_setup_def sample_exec_env_def for_prefix_def Let_def split_beta)
  then obtain start where su: "exec_setup (mc_rnd sample_swap_machine) [] (xe_tsc_per_ns (sample_exec_env 7))
      (xe_instruments (sample_exec_env 7)) (xe_prev_generation (sample_exec_env 7)) (exec_new no_instruments) = (True, start)"
    by (metis fst_conv surj_pair)
  have mono: "mono (\<lambda>k :: nat. k)" by (simp add: mono_def)
  have m: "mc_flags sample_swap_machine i = SWAP" "\<not> mc_shutdown sample_swap_machine i" "mc_pop sample_swap_machine i = None"
    "mc_late sample_swap_machine 1" for i :: nat by (simp_all add: sample_swap_machine_def sample_machine_def)
  have mg: "\<not> mg_restart_pending sample_manager" by (simp add: sample_manager_def wd_start_def mg_start_def mg_spawn_def ROLES_def)
  note t = operator_swaps_strategy [where pan = sample_swap_panels and spec = "''builtin:dummy''" and M = sample_swap_machine and d = 0
      and kill_pressed = False and pause_pressed = False and flags = 0 and c = "\<lparr>ct_flags = 0, ct_swap_path = []\<rparr>"
      and E = "sample_exec_env 7" and m = 0 and j = 1 and cfg = "[]" and mg = sample_manager and env = sample_mg_env
      and E' = "sample_exec_env 7" and cfg' = "[]" and lm = "\<lparr>lm_module = sample_module, lm_handle = False, lm_memfd = - 1\<rparr>"
      and acts = "[]" and phase = "\<lambda>k. k" and n = 3 and fd = 3 and a = 64 and name = "''dummy''" and fl = None and pid = 105
      and code' = "\<lambda>_. dummy_code sample_machine" and M' = sample_machine and k = 2 and C = "dummy_code sample_swap_machine"
      and start = start and obj = dummy_new, unfolded c]
  have x: "tp_swap_buf sample_swap_panels = ''builtin:dummy''" "xe_flags (sample_exec_env 7) = SWAP" "xe_map (sample_exec_env 7) = Some 64"
    "xe_header (sample_exec_env 7) = (\<lambda>k. header_after (ha_layout_hash (xe_host (sample_exec_env 7))) k)"
    "cfg_load (xe_file (sample_exec_env 7) (me_cfg_path sample_mg_env)) [] = (True, [])"
    "load_strategy (xe_host (sample_exec_env 7)) (xe_builtins (sample_exec_env 7)) (xe_loader (sample_exec_env 7)) ''builtin:dummy''
      = Some (Inr \<lparr>lm_module = sample_module, lm_handle = False, lm_memfd = - 1\<rparr>, [])"
    "me_exec_mode sample_mg_env = ''null''" "length (me_cfg_path sample_mg_env) \<le> 290" "int 3 \<le> INT_MAX"
    using sample_load sample_cfg
    by (simp_all add: sample_swap_panels_def sample_exec_env_def sample_mg_env_def INT_MAX_def sample_host_abi_def)
  have n: "md_name sample_module = ''dummy''" by (simp add: sample_module_def module_table_def)
  have "\<exists>r. exec_run sample_swap_machine (sample_exec_env 7) [] ''dummy'' (dummy_code sample_swap_machine) = Some r
    \<and> er_code r = EXIT_SWAP \<and> exec_process sample_machine (sample_exec_env 7) (\<lambda>_. dummy_code sample_machine)
        (spawn_argv (mg_worker (on_exit sample_mg_env None 105 EXEC (Exited (er_code r))
          (sample_manager\<lparr>mg_flags := er_flags r, mg_swap_path := ''builtin:dummy''\<rparr>)) EXEC) 3)
      = exec_run sample_machine (sample_exec_env 7) [] ''dummy'' (dummy_code sample_machine)"
    using t [OF x(1) _ _ _ _ _ _ _ shipped_code_ok(1) _ su _ mg x(7,8,5,6,4) mono _ x(9,3)] m x(2) n
    by (fastforce simp: dummy_code_def)
  then show ?thesis .
qed

end
