(* ===== verification/Dashboard_Properties.thy ===== *)
theory Dashboard_Properties
  imports Pipeline_Properties
begin

text \<open>
  What core publishes for the dashboard: the frame of a book shows that book.
\<close>

definition dash_of :: "mu_level \<Rightarrow> dash_level" where
  "dash_of l = \<lparr>dl_price = ml_price l, dl_qty = ml_qty l, dl_order_count = ml_order_count l\<rparr>"

lemma dash_of_level: "dash_of (mu_level_of l) = dash_level_of l"
  by (simp add: dash_of_def mu_level_of_def dash_level_of_def)

text \<open>The best price of a side with a level is not the sentinel of an empty one.\<close>

lemma best_not_sentinel:
  assumes "book_inv b" "top_inv b" "0 < n"
  shows "depth_of Buy n b \<noteq> [] \<Longrightarrow> best_bid b \<noteq> 0" and "depth_of Sell n b \<noteq> [] \<Longrightarrow> best_ask b \<noteq> UINT32_MAX"
proof -
  have top: "is_top sd (side_prices sd (live_orders b)) (top_of sd b)" for sd using assms(2) by (simp add: top_inv_def)
  have fin: "finite (side_prices sd (live_orders b))" for sd using live_finite by (rule side_prices_finite)
  show "best_bid b \<noteq> 0" if "depth_of Buy n b \<noteq> []"
  proof -
    from that obtain p where p: "p \<in> side_prices Buy (live_orders b)" "p \<noteq> 0"
      using depth_of_empty [OF assms(1,3), of Buy] by (auto simp: no_top_def)
    then have "best_bid b = Max (side_prices Buy (live_orders b))"
      using is_top_Max [OF fin top [of Buy]] by (auto simp: top_of_def)
    moreover have "p \<le> Max (side_prices Buy (live_orders b))" using fin p(1) by (rule Max_ge)
    ultimately show ?thesis using p(2) by (metis word_gt_0 leD)
  qed
  show "best_ask b \<noteq> UINT32_MAX" if "depth_of Sell n b \<noteq> []"
  proof -
    from that obtain p where p: "p \<in> side_prices Sell (live_orders b)" "p \<noteq> UINT32_MAX"
      using depth_of_empty [OF assms(1,3), of Sell] by (auto simp: no_top_def)
    then have "best_ask b = Min (side_prices Sell (live_orders b))"
      using is_top_Min [OF fin top [of Sell]] by (auto simp: top_of_def)
    moreover have "Min (side_prices Sell (live_orders b)) \<le> p" using fin p(1) by (rule Min_le)
    ultimately show ?thesis using p(2) by (metis UINT32_MAX_def antisym word_order.extremum)
  qed
qed

lemma publisher_frame_fields:
  fixes rnd :: "real \<Rightarrow> real" and now :: int and in_size :: u32 and lat :: "latency_stats option"
    and s :: book_snapshot and pb :: publisher
  defines "f \<equiv> fst (publisher_frame rnd now in_size lat s pb)"
  shows "ds_event_seq f = sn_event_seq s" "ds_nb f = ds_nb (frame_book pb s)" "ds_na f = ds_na (frame_book pb s)"
    "ds_bids f = ds_bids (frame_book pb s)" "ds_asks f = ds_asks (frame_book pb s)" "ds_best_bid f = ds_best_bid (frame_book pb s)"
    "ds_best_ask f = ds_best_ask (frame_book pb s)" "ds_spread f = ds_spread (frame_book pb s)"
    "ds_total_bid_qty f = ds_total_bid_qty (frame_book pb s)" "ds_total_ask_qty f = ds_total_ask_qty (frame_book pb s)"
    "ds_imbalance f = depth_imbalance rnd (frame_book pb s)" "ds_vwmid f = vw_mid rnd s (frame_book pb s)"
  by (simp_all add: f_def publisher_frame_def frame_book_def vw_mid_def Let_def split: option.split)

text \<open>A captured book, as the publisher reads it.\<close>

lemma captured_sides:
  fixes b :: order_book and out :: book_snapshot and name :: "u8 list" and n :: u64
  assumes inv: "book_inv b" "top_inv b" "tick_ok (live_orders b)"
  defines "s \<equiv> capture DASH_DEPTH out b name n"
  shows "have_bid s \<longleftrightarrow> depth_of Buy DASH_DEPTH b \<noteq> []" and "have_ask s \<longleftrightarrow> depth_of Sell DASH_DEPTH b \<noteq> []"
    and "map dash_level_of (take (length (depth_of Buy DASH_DEPTH b)) (sn_bids s)) = map dash_of (depth_of Buy DASH_DEPTH b)"
    and "map dash_level_of (take (length (depth_of Sell DASH_DEPTH b)) (sn_asks s)) = map dash_of (depth_of Sell DASH_DEPTH b)"
    and "sn_nb s = length (depth_of Buy DASH_DEPTH b)" and "sn_na s = length (depth_of Sell DASH_DEPTH b)"
    and "sn_best_bid s = best_bid b" and "sn_best_ask s = best_ask b"
proof -
  note t = top_levels_ordered [OF inv, of DASH_DEPTH]
  have d: "map dash_level_of (top_bids b DASH_DEPTH) = map dash_of (depth_of Buy DASH_DEPTH b)"
    "map dash_level_of (top_asks b DASH_DEPTH) = map dash_of (depth_of Sell DASH_DEPTH b)"
    unfolding t [symmetric] by (simp_all add: dash_of_level o_def)
  have len: "length (top_bids b DASH_DEPTH) = length (depth_of Buy DASH_DEPTH b)"
    "length (top_asks b DASH_DEPTH) = length (depth_of Sell DASH_DEPTH b)"
    using t by (metis length_map)+
  have pos: "0 < DASH_DEPTH" by (simp add: DASH_DEPTH_def)
  show "have_bid s \<longleftrightarrow> depth_of Buy DASH_DEPTH b \<noteq> []"
    using best_not_sentinel(1) [OF inv(1,2) pos] by (auto simp: have_bid_def s_def capture_fields len)
  show "have_ask s \<longleftrightarrow> depth_of Sell DASH_DEPTH b \<noteq> []"
    using best_not_sentinel(2) [OF inv(1,2) pos] by (auto simp: have_ask_def s_def capture_fields len)
  show "map dash_level_of (take (length (depth_of Buy DASH_DEPTH b)) (sn_bids s)) = map dash_of (depth_of Buy DASH_DEPTH b)"
    "map dash_level_of (take (length (depth_of Sell DASH_DEPTH b)) (sn_asks s)) = map dash_of (depth_of Sell DASH_DEPTH b)"
    using d by (simp_all add: s_def capture_fields take_overlay flip: len)
qed (simp_all add: s_def capture_fields top_levels_ordered [OF inv, symmetric])

lemma total_of_levels: "(\<Sum>l\<leftarrow>map dash_of xs. dl_qty l) = (\<Sum>l\<leftarrow>xs. ml_qty l)"
  by (simp add: dash_of_def o_def)

lemma total_of_depth_nonneg: "0 \<le> (\<Sum>l\<leftarrow>depth_of sd n b. ml_qty l)"
  by (rule sum_list_nonneg) (auto simp: depth_of_def mu_level_of_def)

lemma depth_imbalance_bounded:
  assumes "nearest rnd" and "0 \<le> ds_total_bid_qty f" and "0 \<le> ds_total_ask_qty f"
  shows "\<bar>depth_imbalance rnd f\<bar> \<le> 1"
proof -
  have "rounding rnd" using assms(1) by (simp add: nearest_def)
  then have "0 \<le> dbl rnd (ds_total_bid_qty f)" "0 \<le> dbl rnd (ds_total_ask_qty f)"
    using assms(2,3) by (simp_all add: dbl_def roundingD(4))
  then show ?thesis using imbalance_bounds [OF assms(1)] by (simp add: depth_imbalance_def Let_def)
qed

text \<open>The frame of a side of the book: its prices and the total of its levels.\<close>

definition best_or_zero :: "side \<Rightarrow> order_book \<Rightarrow> int" where
  "best_or_zero sd b = (if depth_of sd DASH_DEPTH b = [] then 0 else uint (top_of sd b))"

text \<open>
  C36.  The frame the publisher builds from a captured book shows exactly the book: its levels
  are the best live prices of each side, at most \<open>DASH_DEPTH\<close>, which is 15, in order with their totals, the totals of the sides are the sums
  of these, the best prices are zero for an empty side, and the spread is their difference when
  both sides are there and not crossed.  The imbalance is between minus one and one, and on a book of one side the middle price
  is that side's best price.  Neither what the scratch snapshot held before nor the publisher's history shows in these.
\<close>

theorem dashboard_frame_shows_book:
  assumes "book_inv b" and "top_inv b" and "tick_ok (live_orders b)" and "nearest rnd"
    and "f = fst (publisher_frame rnd now in_size lat (capture DASH_DEPTH out b name n) pb)"
  shows "take (nat (ds_nb f)) (ds_bids f) = map dash_of (depth_of Buy DASH_DEPTH b)
    \<and> take (nat (ds_na f)) (ds_asks f) = map dash_of (depth_of Sell DASH_DEPTH b)
    \<and> ds_total_bid_qty f = (\<Sum>l\<leftarrow>depth_of Buy DASH_DEPTH b. ml_qty l)
    \<and> ds_total_ask_qty f = (\<Sum>l\<leftarrow>depth_of Sell DASH_DEPTH b. ml_qty l)
    \<and> ds_best_bid f = best_or_zero Buy b \<and> ds_best_ask f = best_or_zero Sell b
    \<and> ds_spread f = (if depth_of Buy DASH_DEPTH b \<noteq> [] \<and> depth_of Sell DASH_DEPTH b \<noteq> [] \<and> best_bid b \<le> best_ask b
        then ds_best_ask f - ds_best_bid f else 0)
    \<and> \<bar>ds_imbalance f\<bar> \<le> 1
    \<and> (depth_of Sell DASH_DEPTH b = [] \<longrightarrow> depth_of Buy DASH_DEPTH b \<noteq> []
        \<longrightarrow> ds_vwmid f = to_display rnd (uint (best_bid b)) (pb_price_exp pb))
    \<and> (depth_of Buy DASH_DEPTH b = [] \<longrightarrow> depth_of Sell DASH_DEPTH b \<noteq> []
        \<longrightarrow> ds_vwmid f = to_display rnd (uint (best_ask b)) (pb_price_exp pb))"
proof -
  note c = captured_sides [OF assms(1-3), where out = out and name = name and n = n]
  note q = publisher_frame_fields [where rnd = rnd and now = now and in_size = in_size and lat = lat and pb = pb
    and s = "capture DASH_DEPTH out b name n", folded assms(5)]
  note book = frame_book_def Let_def c total_of_levels
  have lv: "take (nat (ds_nb f)) (ds_bids f) = map dash_of (depth_of Buy DASH_DEPTH b)"
    "take (nat (ds_na f)) (ds_asks f) = map dash_of (depth_of Sell DASH_DEPTH b)"
    by (simp_all add: q book take_overlay)
  have tot: "ds_total_bid_qty f = (\<Sum>l\<leftarrow>depth_of Buy DASH_DEPTH b. ml_qty l)"
    "ds_total_ask_qty f = (\<Sum>l\<leftarrow>depth_of Sell DASH_DEPTH b. ml_qty l)"
    unfolding q by (simp_all add: book del: map_map)
  have best: "ds_best_bid f = best_or_zero Buy b" "ds_best_ask f = best_or_zero Sell b"
    by (simp_all add: q book best_or_zero_def top_of_def)
  have spread: "ds_spread f = (if depth_of Buy DASH_DEPTH b \<noteq> [] \<and> depth_of Sell DASH_DEPTH b \<noteq> [] \<and> best_bid b \<le> best_ask b
      then ds_best_ask f - ds_best_bid f else 0)"
    by (simp add: q book uint_minus_simple_alt)
  have imb: "\<bar>ds_imbalance f\<bar> \<le> 1"
    using depth_imbalance_bounded [OF assms(4), of f] tot total_of_depth_nonneg [of Buy DASH_DEPTH b] total_of_depth_nonneg [of Sell DASH_DEPTH b]
    by (simp add: q(11) depth_imbalance_def q(9,10) [symmetric])
  have mid: "depth_of Sell DASH_DEPTH b = [] \<Longrightarrow> depth_of Buy DASH_DEPTH b \<noteq> []
      \<Longrightarrow> ds_vwmid f = to_display rnd (uint (best_bid b)) (pb_price_exp pb)"
    "depth_of Buy DASH_DEPTH b = [] \<Longrightarrow> depth_of Sell DASH_DEPTH b \<noteq> []
      \<Longrightarrow> ds_vwmid f = to_display rnd (uint (best_ask b)) (pb_price_exp pb)"
    unfolding q(12) vw_mid_def Let_def by (simp_all add: book)
  show ?thesis using lv tot best spread imb mid by blast
qed

lemma dashboard_frame_shows_book_witness:
  "\<forall>out name n pb lat. \<exists>b f. live_orders b = [1 \<mapsto> \<lparr>oe_price = 500000, oe_shares = 100, oe_side = Buy\<rparr>]
    \<and> f = fst (publisher_frame (\<lambda>x. x) 0 0 lat (capture DASH_DEPTH out b name n) pb)
    \<and> map dl_price (take (nat (ds_nb f)) (ds_bids f)) = [500000] \<and> ds_best_ask f = 0 \<and> ds_spread f = 0
    \<and> ds_vwmid f = to_display (\<lambda>x. x) (uint (best_bid b)) (pb_price_exp pb)"
proof (intro allI)
  fix out :: book_snapshot and name :: "u8 list" and n :: u64 and pb :: publisher and lat :: "latency_stats option"
  obtain b where b: "book_inv b" "top_inv b" "tick_ok (live_orders b)"
    "live_orders b = [1 \<mapsto> \<lparr>oe_price = 500000, oe_shares = 100, oe_side = Buy\<rparr>]"
    by (rule one_order_book)
  have P: "side_prices Buy (live_orders b) = {500000}" "side_prices Sell (live_orders b) = {}"
    by (auto simp: b(4) side_prices_def)
  have D: "map dl_price (map dash_of (depth_of Buy DASH_DEPTH b)) = [500000]" "depth_of Sell DASH_DEPTH b = []"
    by (simp_all add: depth_of_def P ordered_def no_top_def DASH_DEPTH_def mu_level_of_def level_at_def dash_of_def)
  have r: "nearest (\<lambda>x. x)" by (simp add: nearest_def rounding_def mono_def)
  show "\<exists>b f. live_orders b = [1 \<mapsto> \<lparr>oe_price = 500000, oe_shares = 100, oe_side = Buy\<rparr>]
    \<and> f = fst (publisher_frame (\<lambda>x. x) 0 0 lat (capture DASH_DEPTH out b name n) pb)
    \<and> map dl_price (take (nat (ds_nb f)) (ds_bids f)) = [500000] \<and> ds_best_ask f = 0 \<and> ds_spread f = 0
    \<and> ds_vwmid f = to_display (\<lambda>x. x) (uint (best_bid b)) (pb_price_exp pb)"
    using dashboard_frame_shows_book [OF b(1-3) r refl, of 0 0 lat out name n pb] b(4) D
    by (intro exI [of _ b] exI conjI) (auto simp: best_or_zero_def)
qed

end
