(* ===== verification/Spec2Isabelle.thy ===== *)
theory Spec2Isabelle
  imports Core_Properties Wire_To_Book Exec_Properties Run_Properties Manager_Properties Pipeline_Properties
    Platform_Properties Dashboard_Properties
begin

text \<open>
  A verification development for the low-latency trading pipeline in \<open>src/\<close>.

  \<^bold>\<open>The program.\<close>  Processes connected by single-producer queues and seqlocks in shared memory.
  exchange parses ITCH messages into events; core keeps the order books of the events and publishes a
  frame per event of the subscribed symbol; exec runs a strategy on the frames behind a risk gate and
  an account, and sends its orders to a router, in ITCH mode the \<open>NullRouter\<close> that acknowledges and
  never fills; a manager supervises the processes and a dashboard shows what they publish.

  \<^bold>\<open>From wire to book\<close> (\<open>src/exchange/itch/\<close>, \<open>src/core/\<close>).
  \<open>Bytes\<close>, \<open>Itch_Types\<close>, \<open>Itch_Parser\<close>: big-endian fields, the message layouts and
  \<open>ITCHParser::parse\<close>.  \<open>Itch_Wire\<close> prints well-formed messages and proves that parsing inverts
  printing.  \<open>Events\<close> is \<open>event.hpp\<close>.  \<open>Bitmap\<close> is \<open>OccupancyBitmap\<close>; \<open>Linear_Probe\<close>, \<open>Store\<close> and
  \<open>Order_Map\<close> are \<open>OrderMap\<close> and what it implements; \<open>Price_Levels\<close> is \<open>PriceLevelArray\<close>;
  \<open>Order_Book\<close> is \<open>OrderBook\<close> with \<open>TopOfBook\<close>.  \<open>Book_Spec\<close> is the abstract book, a finite map
  from order references to orders; \<open>Book_Sides\<close>, \<open>Book_Correct\<close> and \<open>Book_Ticks\<close> prove that every
  handler implements its abstract counterpart, keeps counts and shares per level, and, for prices on
  whole cents, the best prices.  \<open>Primary_Feed\<close> is \<open>BookArray\<close> and \<open>PrimaryFeed\<close>,
  \<open>Market_Update\<close> the frame and its builder, \<open>Core_Main\<close> the event handler of core's loop with its
  drop accounting.  \<open>Wire_To_Book\<close> composes parser and books.  \<open>Core_Loop\<close> and \<open>Core_Loop_Facts\<close>:
  the loop of core's \<open>main\<close> around it, with its time stamps, histograms, statistics and final drain;
  \<open>Latency_Log\<close> the text it writes.  \<open>Worker_Mains\<close>: the \<open>main\<close> functions of exchange, core and
  dashboard.

  \<^bold>\<open>Between processes\<close> (\<open>src/common/\<close>).  \<open>Spsc\<close> and \<open>Spsc_Threads\<close>: \<open>SPSCRing\<close>, first whole
  operations at every value of the free-running counters, then a producer and a consumer access by
  access, as an inductive step relation.  \<open>Seqlock\<close>: a writer and a reader word by word.  Both
  interleavings are sequentially consistent; the memory orders of C++ are not modelled.
  \<open>Shm_Segment\<close>: \<open>ShmSegment\<close>, programs over its objects and who owns which descriptor and mapping.
  \<open>Layout_Hash\<close>: the FNV-1a hashes of the memory layout.  \<open>Pipeline_Attach\<close>: the header, its publication
  by the supervisor and \<open>attach_pipeline\<close>.  \<open>Platform\<close>: calibration of the time-stamp counter,
  pinning and the touching of pages.

  \<^bold>\<open>Exec\<close> (\<open>src/exec/\<close>).  \<open>Order_Msgs\<close>, \<open>Instrument\<close>: the messages and the reference data.
  \<open>Order_Table\<close> with \<open>Open_Orders\<close> (and \<open>Map_Sum\<close>, sums over finite maps): \<open>OrderTable\<close>, its dense
  rows, index, counts and open lots.  \<open>Account\<close>, \<open>Account_Facts\<close>, \<open>Account_Run\<close>,
  \<open>Account_Setup\<close>: \<open>Account\<close>, what each operation changes, runs of operations, registration.
  \<open>Doubles\<close>, \<open>Rate_Model\<close>, \<open>Histogram\<close>, \<open>Risk\<close>, \<open>Market_View\<close>: the classes of these names.
  \<open>Exec_Context\<close> and \<open>Exec_Reports\<close>: \<open>ExecContext\<close>, the invariant that ties table and account
  together, the life cycle of an order under the venue's reports, and what its fills lose of a reservation
  when notionals are truncated.  \<open>Null_Router\<close>: the contract of
  a router and the \<open>NullRouter\<close>.  \<open>Strategy_Context\<close> and \<open>Strategy_Facts\<close>: the calls a strategy may
  make and what they do for every router that keeps the contract; \<open>Null_Host\<close> the same on the
  \<open>NullRouter\<close>.  \<open>Runner\<close> and \<open>Runner_Facts\<close>: the hot loop, for every strategy that keeps its
  contract; \<open>Strategies\<close> the three strategies, which do.  \<open>Config_File\<close> is \<open>common::Config\<close>;
  \<open>Exec_Setup\<close> and \<open>Exec_Finish\<close> are start-up, the middle of \<open>main\<close> and the end of a run.
  \<open>Strategy_Modules\<close>: the table of a strategy module, the builtins and the export of a strategy's
  state (\<open>module_abi.hpp\<close>); \<open>Module_Loader\<close>: \<open>loader.cpp\<close>, with the check of the ELF image,
  exact but for headers that wrap around \<open>2 ^ 64\<close>, where the code reads outside the file.
  \<open>Exec_Snapshots\<close>: the blocks exec publishes.  \<open>Decimal\<close> and \<open>Stats_Log\<close>: numbers as \<open>printf\<close> prints
  them, and the log exec leaves behind.  \<open>Exec_Process\<close>: \<open>main\<close> from the command line to the exit code,
  for every module whose hooks keep their contract (\<open>code_ok\<close>).

  \<^bold>\<open>Dashboard\<close> (\<open>src/dashboard/\<close>, and the publisher in \<open>src/core/\<close>).  \<open>Dashboard_Frame\<close>: the frame core
  publishes, its publisher and the snapshotter's loop.  \<open>Scroll_Ring\<close>: arrays written round and
  round, and that reading one gives the last values written.  \<open>Trading_Panels\<close> and
  \<open>Panels_Facts\<close>: \<open>TradingPanels\<close>, its samples, the operator's buttons and every number shown;
  \<open>Dashboard_Ui\<close> and \<open>Ui_Facts\<close>: the ring of plotted frames, the contents of the six plots and of the
  book table, the state of the loop, and what it has plotted after any run.  A plot is its text, the
  limits of its axes and its lines; \<open>flt\<close> is the rounding to \<open>float\<close> and NaN is \<open>None\<close>.

  \<^bold>\<open>Manager\<close> (\<open>src/manager/manager.cpp\<close>).  \<open>Manager\<close>: the workers, their command lines and one iteration
  of the supervisor's loop as a function of what \<open>waitpid\<close> and \<open>fork\<close> return and of the configuration
  file; the world of children, signals and operator around it as an inductive relation.
  \<open>Manager_Facts\<close> proves its invariant by rule induction and counts the answers of \<open>waitpid\<close> left;
  \<open>Manager_Properties\<close> states the properties.

  \<^bold>\<open>Properties.\<close>  \<open>Core_Properties\<close>: books, frames, rings and seqlock.  \<open>Wire_To_Book\<close>: the parser.
  \<open>Exec_Properties\<close>: the parts of exec, and \<open>Run_Properties\<close>: its requests, its start and end.
  \<open>Manager_Properties\<close>: the supervisor.  \<open>Pipeline_Properties\<close>: processes as wholes and together, from the
  feed file to the books, a swap from the dashboard's button to the new exec, and what is logged and
  shown.  \<open>Dashboard_Properties\<close>: what core publishes of a book for the dashboard.
  \<open>Platform_Properties\<close>: shared memory, loading, start and exit of exec.  Each is followed by an instance
  at concrete values where it has a hypothesis.

  \<^bold>\<open>Interfaces.\<close>  \<open>level_index\<close> (the bitmap's neighbour queries), \<open>linear_probe\<close> (a probing table, for
  the order map and the order table's index), \<open>order_store\<close> (a finite map with a capacity, for both
  tables), \<open>bounded_fifo\<close> (the ring), \<open>order_router\<close> (a router), \<open>strategy\<close> (the hooks of a
  strategy) and \<open>trivially_copyable\<close> (a strategy whose state is its bytes) are locales, interpreted where the code that provides them is modelled.

  \<^bold>\<open>Modelling choices.\<close>  Unsigned integers are words of their width and wrap.  Signed 64-bit and
  128-bit quantities of exec are integers, their overflow being undefined behaviour; conversions that
  narrow are written out.  Arrays are functions of the index or lists.  Loops without a bound are
  \<open>partial_function (option)\<close>s: \<open>None\<close> is not returning, and that they return is proved.  A
  \<open>double\<close> is a real, and every operation is the real one followed by a rounding function, a
  parameter of the definitions; where a proof needs it, \<open>rounding\<close> asks that it is monotone,
  idempotent and exact at zero.  Infinities and NaN are left out.  What exec reads from outside (time
  stamps, frames, the control word, the shutdown flag and the final deadline) is the record
  \<open>machine\<close>, an arbitrary sequence for each; operations that may read the time stamp counter take a
  reading on every path.  Order ids carry 40 bits of a counter: the properties of runs assume fewer
  than \<open>2 ^ 40\<close> submissions.

  \<^bold>\<open>Bounds.\<close>  The loops of the worker processes are driven by arbitrary sequences of what they read, and
  that they end is proved from the read that ends them: the shutdown flag or the SWAP bit for exec, the
  flag and an empty ring for core, the end of the file for exchange.  Where a definition takes fuel or a
  bound it is the code's own: 64 attempts at a seqlock, 64 buckets, 240 and 5000 plotted points.
  \<open>mono phase\<close> says that the stores to the header become visible in their order.

  \<^bold>\<open>Not modelled.\<close>  Calls into libraries and the operating system are parameters with their documented
  results: the window system and the drawing library of the dashboard (window, drag bar, layout and line
  styles have no counterpart), \<open>dlopen\<close>, \<open>mmap\<close>, \<open>fork\<close>, clocks.  Signal handlers only set the flags that
  are read.  Messages on the error output are not values of the model.  Of \<open>stats.hpp\<close> the block of the
  gateway, which nothing in the repository writes, and of the ITCH messages the administrative ones,
  which nothing reads, are left out, as are unused private helpers and the tests.
\<close>

end
